(* ===== verification/Ten_Prelude.thy ===== *)
theory Ten_Prelude
  imports Main "HOL-Library.Word" "HOL-Library.Monad_Syntax"
begin

text \<open>
  Shared vocabulary of the development: the C types of the LP64 targets the library is built
  for, C strings as lists of bytes, heap blocks with their pointers, and the generic lemmas on
  words, lists and blocks that the component theories use.

  A computation that may run into undefined behaviour of C (an access outside a block, a read
  of an uninitialised cell, the use of a freed block) or that may not return is a value of an
  option type: \<open>None\<close> stands for such a run, \<open>Some\<close> for the result of a defined one.
\<close>

section \<open>C types\<close>

type_synonym byte = "8 word"
type_synonym size_t = "64 word"
type_synonym u16 = "16 word"
type_synonym u32 = "32 word"

text \<open>
  A C string argument is the list of the bytes before its terminating NUL. An optional value
  models a pointer argument that may be \<open>NULL\<close>.
\<close>

type_synonym cstring = "byte list"

definition ptrdiff_max :: size_t where
  "ptrdiff_max = 0x7FFFFFFFFFFFFFFF"

definition cstr_ok :: "cstring \<Rightarrow> bool" where
  "cstr_ok s \<longleftrightarrow> (0 \<notin> set s \<and> length s < 2 ^ 63 - 1)"

definition ascii :: "string \<Rightarrow> cstring" where
  "ascii s = map of_char s"

definition strlen :: "cstring \<Rightarrow> size_t" where
  "strlen s = of_nat (length s)"

named_theorems ten_defs \<open>definitions of the model that proofs unfold together\<close>
named_theorems ten_words \<open>readings of machine words as natural numbers\<close>

section \<open>Words\<close>

lemma unat_ptrdiff_max [ten_words]: "unat ptrdiff_max = 2 ^ 63 - 1"
  by (simp add: ptrdiff_max_def)

lemma unat_size_less: "unat (x :: size_t) < 2 ^ 64"
  using unsigned_less [of x] by simp

lemma unat_add_size:
  "unat (a :: size_t) + unat b < 2 ^ 64 \<Longrightarrow> unat (a + b) = unat a + unat b"
  by (simp add: unat_word_ariths)

lemma unat_mult_size:
  "unat (a :: size_t) * unat b < 2 ^ 64 \<Longrightarrow> unat (a * b) = unat a * unat b"
  by (simp add: unat_word_ariths)

lemma unat_diff_size:
  "b \<le> (a :: size_t) \<Longrightarrow> unat (a - b) = unat a - unat b"
  by (simp add: unat_sub)

lemma unat_of_nat_size: "n < 2 ^ 64 \<Longrightarrow> unat (of_nat n :: size_t) = n"
  by (simp add: unat_of_nat take_bit_nat_eq_self)

lemma unat_strlen: "length s < 2 ^ 63 \<Longrightarrow> unat (strlen s) = length s"
  unfolding strlen_def by (rule unat_of_nat_size) simp

lemma size_le_iff: "(a :: size_t) \<le> b \<longleftrightarrow> unat a \<le> unat b"
  by (rule word_le_nat_alt)

lemma size_less_iff: "(a :: size_t) < b \<longleftrightarrow> unat a < unat b"
  by (rule word_less_nat_alt)

lemma size_eq_iff: "(a :: size_t) = b \<longleftrightarrow> unat a = unat b"
  by (simp add: word_unat_eq_iff)

lemma unat_div_size: "unat ((a :: size_t) div b) = unat a div unat b"
  by (rule unat_div_distrib)

lemma sint_size:
  assumes "unat (x :: size_t) < 2 ^ 63"
  shows "sint x = int (unat x)"
proof -
  have "int (unat x) < int (2 ^ 63)" using assms by (simp only: of_nat_less_iff)
  moreover have "- (2 ^ 63) \<le> uint x" by (rule order_trans [of _ 0]) simp_all
  ultimately show ?thesis unfolding sint_uint by (subst signed_take_bit_int_eq_self) simp_all
qed

lemmas size_nat = size_le_iff size_less_iff

section \<open>Heap blocks and pointers\<close>

text \<open>
  A pointer into the heap, as its owner sees it: \<open>NULL\<close>, a block of cells (each initialised
  or not), or a block that has been given back. A cell is the unit the code moves as a whole:
  a byte, or an element of the size fixed at the creation of a container.
\<close>

datatype 'c ptr = is_Null: Null | is_Block: Block (cells: "'c option list") | is_Dangling: Dangling

primrec block_cells :: "'c ptr \<Rightarrow> 'c option list" where
  "block_cells Null = []"
| "block_cells (Block b) = b"
| "block_cells Dangling = []"

text \<open>The number of allocated blocks the owner of a pointer is accountable for.\<close>

primrec owned :: "'c ptr \<Rightarrow> int" where
  "owned Null = 0"
| "owned (Block b) = 1"
| "owned Dangling = 0"

text \<open>\<open>memcpy\<close> of the cells \<open>xs\<close> to offset \<open>i\<close>: defined inside a live block only.\<close>

primrec block_write :: "nat \<Rightarrow> 'c option list \<Rightarrow> 'c ptr \<Rightarrow> 'c ptr option" where
  "block_write i xs Null = None"
| "block_write i xs (Block b) =
     (if i + length xs \<le> length b
      then Some (Block (take i b @ xs @ drop (i + length xs) b)) else None)"
| "block_write i xs Dangling = None"

text \<open>The \<open>n\<close> cells from offset \<open>i\<close>, which must lie inside a live block.\<close>

primrec block_read :: "nat \<Rightarrow> nat \<Rightarrow> 'c ptr \<Rightarrow> 'c option list option" where
  "block_read i n Null = None"
| "block_read i n (Block b) =
     (if i + n \<le> length b then Some (take n (drop i b)) else None)"
| "block_read i n Dangling = None"

definition block_move :: "nat \<Rightarrow> nat \<Rightarrow> nat \<Rightarrow> 'c ptr \<Rightarrow> 'c ptr option" where
  "block_move dst src n p = do { xs \<leftarrow> block_read src n p; block_write dst xs p }"

text \<open>Reading cells as values: an uninitialised cell has no value.\<close>

primrec cell_values :: "'c option list \<Rightarrow> 'c list option" where
  "cell_values [] = Some []"
| "cell_values (c # cs) = do { x \<leftarrow> c; xs \<leftarrow> cell_values cs; Some (x # xs) }"

definition block_values :: "nat \<Rightarrow> nat \<Rightarrow> 'c ptr \<Rightarrow> 'c list option" where
  "block_values i n p = do { cs \<leftarrow> block_read i n p; cell_values cs }"

lemma cell_values_map_Some [simp]: "cell_values (map Some xs) = Some xs"
  by (induction xs) auto

lemma cell_values_eq_Some: "cell_values cs = Some xs \<longleftrightarrow> cs = map Some xs"
  by (induction cs arbitrary: xs) (auto simp: bind_eq_Some_conv)

lemma block_values_eq_Some:
  "block_values i n p = Some xs \<longleftrightarrow>
     (\<exists>b. p = Block b \<and> i + n \<le> length b \<and> take n (drop i b) = map Some xs)"
  by (cases p) (auto simp: block_values_def cell_values_eq_Some)

lemma block_values_whole:
  "map Some xs = take n b \<Longrightarrow> n \<le> length b \<Longrightarrow> i + k \<le> n \<Longrightarrow>
   block_values i k (Block b) = Some (take k (drop i xs))"
  unfolding block_values_eq_Some
  by (rule exI [of _ b])
    (simp add: take_map [symmetric] drop_map [symmetric], metis add.commute drop_take
      min.absorb1 nat_add_left_cancel_le ordered_cancel_comm_monoid_diff_class.add_diff_inverse
      add_leD1 le_diff_conv2 take_take)

lemma bind_Some_iff [simp]: "(do { x \<leftarrow> m; Some x }) = m"
  by (cases m) auto

section \<open>Lists\<close>

definition insert_at :: "nat \<Rightarrow> 'a \<Rightarrow> 'a list \<Rightarrow> 'a list" where
  "insert_at i x xs = take i xs @ x # drop i xs"

definition remove_at :: "nat \<Rightarrow> 'a list \<Rightarrow> 'a list" where
  "remove_at i xs = take i xs @ drop (Suc i) xs"

lemma length_insert_at [simp]: "i \<le> length xs \<Longrightarrow> length (insert_at i x xs) = Suc (length xs)"
  by (simp add: insert_at_def)

lemma length_remove_at [simp]: "i < length xs \<Longrightarrow> length (remove_at i xs) = length xs - 1"
  by (simp add: remove_at_def)

lemma insert_at_end [simp]: "insert_at (length xs) x xs = xs @ [x]"
  by (simp add: insert_at_def)

lemma remove_at_insert_at: "i \<le> length xs \<Longrightarrow> remove_at i (insert_at i x xs) = xs"
  by (simp add: insert_at_def remove_at_def)

lemma take_insert_at:
  assumes "i \<le> length xs" "length xs < length b" "take (length xs) b = map Some xs"
  shows "take (Suc (length xs)) (take i b @ Some v # take (length xs - i) (drop i b) @ zs) =
    map Some (insert_at i v xs)"
proof -
  have "take i b = map Some (take i xs)"
    using assms by (metis min.absorb1 take_map take_take)
  moreover have "take (length xs - i) (drop i b) = map Some (drop i xs)"
    using assms by (metis drop_map drop_take)
  ultimately show ?thesis
    using assms by (simp add: insert_at_def Suc_diff_le)
qed

lemma remove_at_map: "remove_at i (map f xs) = map f (remove_at i xs)"
  by (simp add: remove_at_def take_map drop_map)

lemma nth_insert_at:
  "i \<le> length xs \<Longrightarrow> j \<le> length xs \<Longrightarrow>
   insert_at i x xs ! j = (if j < i then xs ! j else if j = i then x else xs ! (j - 1))"
  by (auto simp: insert_at_def nth_append)

section \<open>Opening and closing gaps in a block\<close>

text \<open>The moves by one cell that insertion and removal make, in a block holding \<open>c\<close> cells.\<close>

lemma block_insert:
  assumes "i \<le> c" "c < length b"
  shows "\<exists>d. (if i < c then block_move (i + 1) i (c - i) (Block b) else Some (Block b)) = Some d \<and>
    block_write i [x] d = Some (Block (take i b @ x # take (c - i) (drop i b) @ drop (Suc c) b))"
proof (cases "i < c")
  case True
  with assms show ?thesis by (auto simp: block_move_def min_def)
next
  case False
  with assms show ?thesis by simp
qed

lemma block_remove:
  assumes "i < c" "c \<le> length b"
  shows "\<exists>b'. (if Suc i < c then block_move i (Suc i) (c - i - 1) (Block b) else Some (Block b)) =
      Some (Block b') \<and> length b' = length b \<and> take (c - 1) b' = remove_at i (take c b)"
proof (cases "Suc i < c")
  case True
  with assms show ?thesis by (auto simp: block_move_def remove_at_def min_def drop_take)
next
  case False
  with assms have "c = Suc i" by simp
  with assms show ?thesis by (simp add: remove_at_def min_def)
qed

section \<open>Filling a block from its start\<close>

text \<open>
  Output loops write at a position they advance (\<open>out[j++] = x\<close>). The state is the position and
  the block; \<open>filled n ys\<close> says that the block has \<open>n\<close> cells, of which \<open>ys\<close> are written.
\<close>

definition store :: "'c list \<Rightarrow> nat \<times> 'c ptr \<Rightarrow> (nat \<times> 'c ptr) option" where
  "store xs st = (case st of (pos, out) \<Rightarrow> do {
     out' \<leftarrow> block_write pos (map Some xs) out;
     Some (pos + length xs, out')
   })"

definition filled :: "nat \<Rightarrow> 'c list \<Rightarrow> nat \<times> 'c ptr \<Rightarrow> bool" where
  "filled n ys st \<longleftrightarrow> (\<exists>rest. st = (length ys, Block (map Some ys @ rest)) \<and> length ys + length rest = n)"

lemma store_filled:
  assumes "filled n ys st" "length ys + length xs \<le> n"
  shows "\<exists>st'. store xs st = Some st' \<and> filled n (ys @ xs) st'"
  using assms by (auto simp: filled_def store_def)

lemma filled_fresh: "filled n [] (0, Block (replicate n None))"
  by (simp add: filled_def)

lemma filled_pos: "filled n ys st \<Longrightarrow> fst st = length ys"
  by (auto simp: filled_def)

lemma filled_values:
  "filled n ys st \<Longrightarrow> \<exists>b. snd st = Block b \<and> length b = n \<and> take (length ys) b = map Some ys"
  by (auto simp: filled_def)

text \<open>The bytes of an argument \<open>data\<close> of which the callee reads the first \<open>sz\<close>.\<close>

definition c_object :: "'c list option \<Rightarrow> size_t \<Rightarrow> 'c list option" where
  "c_object data sz =
     (case data of
        None \<Rightarrow> if sz = 0 then Some [] else None
      | Some d \<Rightarrow> if unat sz \<le> length d then Some (take (unat sz) d) else None)"

lemma c_object_whole: "length d < 2 ^ 64 \<Longrightarrow> c_object (Some d) (of_nat (length d)) = Some d"
  by (simp add: c_object_def unat_of_nat_size)

text \<open>A statement about a byte can be checked on its 256 values.\<close>

lemma byte_all:
  assumes "list_all P (map of_nat [0..<256])"
  shows "P (c :: byte)"
proof -
  have "unat c < 256" using unsigned_less [of c] by simp
  then have "P (of_nat (unat c))"
    using assms unfolding list_all_iff by (metis atLeastLessThan_iff imageI le0 set_map set_upt)
  then show ?thesis by simp
qed

lemma byte_eqI:
  fixes x y :: byte
  assumes "\<And>n. n \<in> {0, 1, 2, 3, 4, 5, 6, 7} \<Longrightarrow> bit x n = bit y n"
  shows "x = y"
proof (rule bit_word_eqI)
  fix n
  assume "n < LENGTH(8)"
  then have "n \<in> {0, 1, 2, 3, 4, 5, 6, 7}" by auto
  then show "bit x n = bit y n" by (rule assms)
qed

lemma byte_high: "8 \<le> n \<Longrightarrow> bit (x :: byte) n = False"
  using bit_imp_le_length [of x n] by auto

section \<open>Counting loops\<close>

text \<open>The loop \<open>for (i = 0; i < count; i++)\<close> with \<open>k\<close> rounds left, and a loop over a list.\<close>

primrec for_range :: "nat \<Rightarrow> size_t \<Rightarrow> (size_t \<Rightarrow> 's \<Rightarrow> 's option) \<Rightarrow> 's \<Rightarrow> 's option" where
  "for_range 0 i body s = Some s"
| "for_range (Suc k) i body s = do { s1 \<leftarrow> body i s; for_range k (i + 1) body s1 }"

primrec each :: "('a \<Rightarrow> 's \<Rightarrow> 's option) \<Rightarrow> 'a list \<Rightarrow> 's \<Rightarrow> 's option" where
  "each f [] s = Some s"
| "each f (x # xs) s = do { s1 \<leftarrow> f x s; each f xs s1 }"

lemma for_range_each:
  "(\<And>j s. j < length xs \<Longrightarrow> body (of_nat (k + j)) s = f (xs ! j) s) \<Longrightarrow>
   for_range (length xs) (of_nat k) body s = each f xs s"
proof (induction xs arbitrary: k s)
  case (Cons x xs)
  have "body (of_nat k) s = f x s" for s using Cons.prems [of 0] by simp
  moreover have "for_range (length xs) (of_nat (Suc k)) body s1 = each f xs s1" for s1
    using Cons.prems [of "Suc _"] by (intro Cons.IH) force
  ultimately show ?case by (simp add: add.commute)
qed simp

lemma each_append: "each f (xs @ ys) s = do { s1 \<leftarrow> each f xs s; each f ys s1 }"
  by (induction xs arbitrary: s) (auto split: Option.bind_split)

end
