(* ===== verification/Ten_Error.thy ===== *)
theory Ten_Error
  imports Ten_Prelude
begin

text \<open>
  The error module (\<open>include/ten/error.h\<close>, \<open>src/error/error.c\<close>), the state every operation
  of the library threads, and the initialisation flag (\<open>src/core/init.c\<close>). The state of one
  thread consists of its last error code, the installed allocator, and three counters that
  make the behaviour of that allocator explicit: the number of requests made so far, how many
  of them were refused, and the number of blocks now allocated. The counters appear in no C
  program: they state which runs met a refusal, and who owns what.
\<close>

section \<open>Error codes\<close>

datatype ten_error_code =
    TEN_OK
  | TEN_ERROR_UNKNOWN
  | TEN_ERROR_INVALID_ARGUMENT
  | TEN_ERROR_NULL_ARGUMENT
  | TEN_ERROR_OUT_OF_MEMORY
  | TEN_ERROR_OUT_OF_RANGE
  | TEN_ERROR_NOT_FOUND
  | TEN_ERROR_ALREADY_EXISTS
  | TEN_ERROR_ACCESS_DENIED
  | TEN_ERROR_NOT_SUPPORTED
  | TEN_ERROR_INVALID_STATE
  | TEN_ERROR_TIMEOUT
  | TEN_ERROR_CANCELLED
  | TEN_ERROR_IO
  | TEN_ERROR_NETWORK
  | TEN_ERROR_PARSE
  | TEN_ERROR_ENCODING
  | TEN_ERROR_SYSTEM
  | TEN_ERROR_ALREADY_INITIALIZED
  | TEN_ERROR_NOT_INITIALIZED

text \<open>The integer value of an enumeration constant, as C numbers them.\<close>

primrec error_int :: "ten_error_code \<Rightarrow> int" where
  "error_int TEN_OK = 0"
| "error_int TEN_ERROR_UNKNOWN = 1"
| "error_int TEN_ERROR_INVALID_ARGUMENT = 2"
| "error_int TEN_ERROR_NULL_ARGUMENT = 3"
| "error_int TEN_ERROR_OUT_OF_MEMORY = 4"
| "error_int TEN_ERROR_OUT_OF_RANGE = 5"
| "error_int TEN_ERROR_NOT_FOUND = 6"
| "error_int TEN_ERROR_ALREADY_EXISTS = 7"
| "error_int TEN_ERROR_ACCESS_DENIED = 8"
| "error_int TEN_ERROR_NOT_SUPPORTED = 9"
| "error_int TEN_ERROR_INVALID_STATE = 10"
| "error_int TEN_ERROR_TIMEOUT = 11"
| "error_int TEN_ERROR_CANCELLED = 12"
| "error_int TEN_ERROR_IO = 13"
| "error_int TEN_ERROR_NETWORK = 14"
| "error_int TEN_ERROR_PARSE = 15"
| "error_int TEN_ERROR_ENCODING = 16"
| "error_int TEN_ERROR_SYSTEM = 17"
| "error_int TEN_ERROR_ALREADY_INITIALIZED = 18"
| "error_int TEN_ERROR_NOT_INITIALIZED = 19"

section \<open>The state of a thread\<close>

text \<open>
  The installed allocator. Each function decides, from the number of the request and the size
  asked for, whether the request is granted; this is all the library can observe of it.
\<close>

record installed_allocator =
  do_malloc :: "nat \<Rightarrow> size_t \<Rightarrow> bool"
  do_calloc :: "nat \<Rightarrow> size_t \<Rightarrow> size_t \<Rightarrow> bool"
  do_realloc :: "nat \<Rightarrow> size_t \<Rightarrow> bool"

record ten_world =
  g_ten_last_error :: ten_error_code
  g_ten_allocator :: installed_allocator
  requests :: nat
  refusals :: nat
  live :: int

definition ten__set_error :: "ten_error_code \<Rightarrow> ten_world \<Rightarrow> ten_world" where
  "ten__set_error code w = w\<lparr>g_ten_last_error := code\<rparr>"

definition ten_last_error :: "ten_world \<Rightarrow> ten_error_code" where
  "ten_last_error w = g_ten_last_error w"

definition ten_clear_error :: "ten_world \<Rightarrow> ten_world" where
  "ten_clear_error w = w\<lparr>g_ten_last_error := TEN_OK\<rparr>"

definition ten_error_message :: "int \<Rightarrow> string" where
  "ten_error_message code =
     (if code = error_int TEN_OK then ''No error''
      else if code = error_int TEN_ERROR_UNKNOWN then ''Unknown error''
      else if code = error_int TEN_ERROR_INVALID_ARGUMENT then ''Invalid argument''
      else if code = error_int TEN_ERROR_NULL_ARGUMENT then ''Null argument''
      else if code = error_int TEN_ERROR_OUT_OF_MEMORY then ''Out of memory''
      else if code = error_int TEN_ERROR_OUT_OF_RANGE then ''Out of range''
      else if code = error_int TEN_ERROR_NOT_FOUND then ''Not found''
      else if code = error_int TEN_ERROR_ALREADY_EXISTS then ''Already exists''
      else if code = error_int TEN_ERROR_ACCESS_DENIED then ''Access denied''
      else if code = error_int TEN_ERROR_NOT_SUPPORTED then ''Not supported''
      else if code = error_int TEN_ERROR_INVALID_STATE then ''Invalid state''
      else if code = error_int TEN_ERROR_TIMEOUT then ''Timeout''
      else if code = error_int TEN_ERROR_CANCELLED then ''Cancelled''
      else if code = error_int TEN_ERROR_IO then ''I/O error''
      else if code = error_int TEN_ERROR_NETWORK then ''Network error''
      else if code = error_int TEN_ERROR_PARSE then ''Parse error''
      else if code = error_int TEN_ERROR_ENCODING then ''Encoding error''
      else if code = error_int TEN_ERROR_SYSTEM then ''System error''
      else if code = error_int TEN_ERROR_ALREADY_INITIALIZED then ''Already initialized''
      else if code = error_int TEN_ERROR_NOT_INITIALIZED then ''Not initialized''
      else ''Unrecognized error code'')"

lemma set_error_sel [simp]:
  "g_ten_last_error (ten__set_error c w) = c"
  "g_ten_allocator (ten__set_error c w) = g_ten_allocator w"
  "requests (ten__set_error c w) = requests w"
  "refusals (ten__set_error c w) = refusals w"
  "live (ten__set_error c w) = live w"
  "ten__set_error c (ten__set_error d w) = ten__set_error c w"
  by (simp_all add: ten__set_error_def)

lemma last_error_set_error [simp]: "ten_last_error (ten__set_error c w) = c"
  by (simp add: ten_last_error_def)

lemma clear_error_eq: "ten_clear_error w = ten__set_error TEN_OK w"
  by (simp add: ten_clear_error_def ten__set_error_def)

lemma error_int_range: "0 \<le> error_int c" "error_int c \<le> 19"
  by (cases c; simp)+

lemma error_int_inj: "error_int c = error_int d \<longleftrightarrow> c = d"
  by (cases c; cases d; simp)

text \<open>Distinct codes have distinct messages, and none of them is the fallback text.\<close>

lemma error_message_inj:
  "ten_error_message (error_int c) = ten_error_message (error_int d) \<longleftrightarrow> c = d"
  by (cases c; cases d; simp add: ten_error_message_def)

lemma error_message_known:
  "ten_error_message (error_int c) \<noteq> ''Unrecognized error code''"
  by (cases c; simp add: ten_error_message_def)

lemma error_message_unknown:
  "code < 0 \<or> 19 < code \<Longrightarrow> ten_error_message code = ''Unrecognized error code''"
  by (auto simp: ten_error_message_def)

section \<open>Initialisation\<close>

text \<open>The flag \<open>g_ten_initialized\<close> is shared by the threads; here it is a state of its own.\<close>

definition ten_init :: "int \<Rightarrow> ten_world \<Rightarrow> ten_error_code \<times> int \<times> ten_world" where
  "ten_init g_ten_initialized w =
     (if g_ten_initialized \<noteq> 0
      then (TEN_ERROR_ALREADY_INITIALIZED, g_ten_initialized,
            ten__set_error TEN_ERROR_ALREADY_INITIALIZED w)
      else (TEN_OK, 1, ten__set_error TEN_OK w))"

definition ten_is_initialized :: "int \<Rightarrow> int" where
  "ten_is_initialized g_ten_initialized = g_ten_initialized"

definition ten_shutdown :: "int \<Rightarrow> int" where
  "ten_shutdown g_ten_initialized = 0"

lemma ten_init_twice:
  "ten_init g w = (rc, g', w') \<Longrightarrow>
   ten_init g' w' = (TEN_ERROR_ALREADY_INITIALIZED, g', ten__set_error TEN_ERROR_ALREADY_INITIALIZED w')"
  by (auto simp: ten_init_def split: if_splits)

lemma ten_init_after_shutdown:
  "ten_init (ten_shutdown g) w = (TEN_OK, 1, ten__set_error TEN_OK w)"
  by (simp add: ten_init_def ten_shutdown_def)

text \<open>
  The messages of the error codes tell them apart, and exactly the numbers that are no code
  have the fallback message.
\<close>

lemma error_messages:
  "inj (\<lambda>c. ten_error_message (error_int c)) \<and>
   (ten_error_message n = ''Unrecognized error code'') = (n \<notin> range error_int)"
proof -
  have "n \<in> range error_int" if "0 \<le> n" "n \<le> 19"
  proof -
    from that have "n \<in> {0..19}" by simp
    also have "{0..19 :: int} = set [0..19]" by simp
    also have "\<dots> \<subseteq> range error_int"
      by (simp add: upto_rec1) (intro conjI; rule range_eqI, rule error_int.simps [symmetric])
    finally show ?thesis .
  qed
  then have "n \<notin> range error_int \<longleftrightarrow> n < 0 \<or> 19 < n"
    using error_int_range by (auto simp: not_less) (metis not_le)+
  then show ?thesis
    using error_message_inj error_message_unknown error_message_known by (auto simp: inj_def)
qed

end
