(* ===== verification/Ten_Memory.thy ===== *)
theory Ten_Memory
  imports Ten_Error
begin

text \<open>
  The memory module (\<open>include/ten/memory.h\<close>, \<open>src/memory/memory.c\<close>). An allocator is a
  decision function; a granted request returns a block of uninitialised cells (zero cells for
  \<open>calloc\<close>). No request for more than \<open>PTRDIFF_MAX\<close> bytes is granted: an object of that size
  does not exist in C. The default allocator functions call the C library, whose decisions are
  the parameter of \<open>default_allocator\<close>.
\<close>

section \<open>Allocator registration\<close>

record ten_allocator_t =
  malloc_fn :: "(nat \<Rightarrow> size_t \<Rightarrow> bool) option"
  calloc_fn :: "(nat \<Rightarrow> size_t \<Rightarrow> size_t \<Rightarrow> bool) option"
  realloc_fn :: "(nat \<Rightarrow> size_t \<Rightarrow> bool) option"
  free_fn :: "unit option"

definition default_allocator ::
    "(nat \<Rightarrow> size_t \<Rightarrow> bool) \<Rightarrow> (nat \<Rightarrow> size_t \<Rightarrow> size_t \<Rightarrow> bool) \<Rightarrow>
     (nat \<Rightarrow> size_t \<Rightarrow> bool) \<Rightarrow> installed_allocator" where
  "default_allocator libc_malloc libc_calloc libc_realloc =
     \<lparr>do_malloc = libc_malloc, do_calloc = libc_calloc, do_realloc = libc_realloc\<rparr>"

text \<open>A thread before its first call: no error, no request made, the given allocator installed.\<close>

definition start_world :: "installed_allocator \<Rightarrow> ten_world" where
  "start_world a = \<lparr>g_ten_last_error = TEN_OK, g_ten_allocator = a, requests = 0, refusals = 0, live = 0\<rparr>"

text \<open>A C library that grants every request for an object that can exist.\<close>

definition ample :: installed_allocator where
  "ample = default_allocator (\<lambda>_ _. True) (\<lambda>_ _ _. True) (\<lambda>_ _. True)"

definition ten_set_allocator ::
    "ten_allocator_t option \<Rightarrow> ten_world \<Rightarrow> ten_error_code \<times> ten_world" where
  "ten_set_allocator allocator w =
     (case allocator of
        None \<Rightarrow> (TEN_ERROR_NULL_ARGUMENT, ten__set_error TEN_ERROR_NULL_ARGUMENT w)
      | Some a \<Rightarrow>
          (case (malloc_fn a, calloc_fn a, realloc_fn a, free_fn a) of
             (Some m, Some c, Some r, Some _) \<Rightarrow>
               (TEN_OK, ten__set_error TEN_OK
                  (w\<lparr>g_ten_allocator := \<lparr>do_malloc = m, do_calloc = c, do_realloc = r\<rparr>\<rparr>))
           | _ \<Rightarrow> (TEN_ERROR_NULL_ARGUMENT, ten__set_error TEN_ERROR_NULL_ARGUMENT w)))"

section \<open>Allocation\<close>

text \<open>One request to the allocator: it is counted, a granted one adds a live block, a refused one
  adds a refusal.\<close>

definition request :: "bool \<Rightarrow> ten_world \<Rightarrow> ten_world" where
  "request ok w = w\<lparr>requests := Suc (requests w),
     refusals := refusals w + (if ok then 0 else 1), live := live w + (if ok then 1 else 0)\<rparr>"

definition grants_malloc :: "size_t \<Rightarrow> ten_world \<Rightarrow> bool" where
  "grants_malloc sz w \<longleftrightarrow>
     sz \<le> ptrdiff_max \<and> do_malloc (g_ten_allocator w) (requests w) sz"

definition grants_calloc :: "size_t \<Rightarrow> size_t \<Rightarrow> ten_world \<Rightarrow> bool" where
  "grants_calloc count sz w \<longleftrightarrow>
     unat count * unat sz \<le> unat ptrdiff_max \<and>
     do_calloc (g_ten_allocator w) (requests w) count sz"

definition grants_realloc :: "size_t \<Rightarrow> ten_world \<Rightarrow> bool" where
  "grants_realloc sz w \<longleftrightarrow>
     sz \<le> ptrdiff_max \<and> do_realloc (g_ten_allocator w) (requests w) sz"

definition ten_malloc :: "size_t \<Rightarrow> ten_world \<Rightarrow> byte ptr \<times> ten_world" where
  "ten_malloc sz w =
     (let ok = grants_malloc sz w;
          p = (if ok then Block (replicate (unat sz) None) else Null)
      in (p, ten__set_error (if ok then TEN_OK else TEN_ERROR_OUT_OF_MEMORY) (request ok w)))"

definition ten_calloc :: "size_t \<Rightarrow> size_t \<Rightarrow> ten_world \<Rightarrow> byte ptr \<times> ten_world" where
  "ten_calloc count sz w =
     (let ok = grants_calloc count sz w;
          p = (if ok then Block (replicate (unat count * unat sz) (Some 0)) else Null)
      in (p, ten__set_error (if ok then TEN_OK else TEN_ERROR_OUT_OF_MEMORY) (request ok w)))"

text \<open>
  \<open>realloc\<close> keeps the cells of the old block up to the smaller size. The result is the new
  pointer and what has become of the old one: given back when the request is granted, and, as
  the C library does, also when the requested size is 0 and the result is \<open>NULL\<close>. The size is
  in bytes, \<open>cell\<close> is the size of a cell. Reallocating a block already given back is undefined.
\<close>

definition ten_realloc ::
    "size_t \<Rightarrow> 'c ptr \<Rightarrow> size_t \<Rightarrow> ten_world \<Rightarrow> ('c ptr \<times> 'c ptr \<times> ten_world) option" where
  "ten_realloc cell p sz w =
     (if is_Dangling p then None
      else
        let ok = grants_realloc sz w;
            old = block_cells p;
            n = unat sz div unat cell;
            freed = (is_Block p \<and> (ok \<or> sz = 0));
            result = (if ok then Block (take n old @ replicate (n - length old) None) else Null);
            w1 = request ok w;
            w2 = w1\<lparr>live := live w1 - (if freed then 1 else 0)\<rparr>
        in Some (result, (if freed then Dangling else p),
                 ten__set_error (if is_Null result \<and> sz \<noteq> 0 then TEN_ERROR_OUT_OF_MEMORY
                                 else TEN_OK) w2))"

definition ten_free :: "'c ptr \<Rightarrow> ten_world \<Rightarrow> ten_world option" where
  "ten_free p w =
     (case p of
        Null \<Rightarrow> Some w
      | Block _ \<Rightarrow> Some (w\<lparr>live := live w - 1\<rparr>)
      | Dangling \<Rightarrow> None)"

text \<open>A struct obtained from \<open>ten_malloc\<close> is one live block; giving it back is \<open>ten_free\<close> of it.\<close>

definition free_struct :: "ten_world \<Rightarrow> ten_world option" where
  "free_struct w = ten_free (Block [] :: byte ptr) w"

text \<open>
  \<open>ten_memdup\<close> reads \<open>sz\<close> bytes of \<open>data\<close>; reading past the end of \<open>data\<close> is undefined.
\<close>

definition ten_memdup ::
    "byte list option \<Rightarrow> size_t \<Rightarrow> ten_world \<Rightarrow> (byte ptr \<times> ten_world) option" where
  "ten_memdup data sz w =
     (case data of
        None \<Rightarrow> Some (Null, ten__set_error TEN_ERROR_NULL_ARGUMENT w)
      | Some d \<Rightarrow>
          let (copy, w1) = ten_malloc sz w
          in if is_Null copy then Some (Null, w1)
             else do {
               src \<leftarrow> block_read 0 (unat sz) (Block (map Some d));
               copy' \<leftarrow> block_write 0 src copy;
               Some (copy', ten__set_error TEN_OK w1)
             })"

section \<open>Facts\<close>

lemma request_sel [simp]:
  "g_ten_last_error (request ok w) = g_ten_last_error w"
  "g_ten_allocator (request ok w) = g_ten_allocator w"
  "requests (request ok w) = Suc (requests w)"
  "refusals (request ok w) = refusals w + (if ok then 0 else 1)"
  "live (request ok w) = live w + (if ok then 1 else 0)"
  by (simp_all add: request_def)

lemma ten_malloc_cases:
  obtains (granted) w' where "grants_malloc n w"
      "ten_malloc n w = (Block (replicate (unat n) None), w')"
      "unat n < 2 ^ 63" "g_ten_last_error w' = TEN_OK" "refusals w' = refusals w" "live w' = live w + 1"
      "requests w' = Suc (requests w)" "g_ten_allocator w' = g_ten_allocator w"
  | (refused) w' where "\<not> grants_malloc n w" "ten_malloc n w = (Null, w')"
      "g_ten_last_error w' = TEN_ERROR_OUT_OF_MEMORY" "refusals w' = Suc (refusals w)" "live w' = live w"
      "requests w' = Suc (requests w)" "g_ten_allocator w' = g_ten_allocator w"
proof (cases "grants_malloc n w")
  case True
  then have "unat n < 2 ^ 63"
    by (simp add: grants_malloc_def size_le_iff unat_ptrdiff_max)
  with True show ?thesis
    by (intro granted [of "snd (ten_malloc n w)"]) (auto simp: ten_malloc_def)
next
  case False
  then show ?thesis
    by (intro refused [of "snd (ten_malloc n w)"]) (auto simp: ten_malloc_def)
qed

lemma ten_calloc_cases:
  obtains (granted) w' where "grants_calloc n s w"
      "ten_calloc n s w = (Block (replicate (unat n * unat s) (Some 0)), w')"
      "unat n * unat s < 2 ^ 63" "g_ten_last_error w' = TEN_OK" "refusals w' = refusals w" "live w' = live w + 1"
      "requests w' = Suc (requests w)" "g_ten_allocator w' = g_ten_allocator w"
  | (refused) w' where "\<not> grants_calloc n s w" "ten_calloc n s w = (Null, w')"
      "g_ten_last_error w' = TEN_ERROR_OUT_OF_MEMORY" "refusals w' = Suc (refusals w)" "live w' = live w"
      "requests w' = Suc (requests w)" "g_ten_allocator w' = g_ten_allocator w"
proof (cases "grants_calloc n s w")
  case True
  then have "unat n * unat s < 2 ^ 63"
    by (simp add: grants_calloc_def unat_ptrdiff_max)
  with True show ?thesis
    by (intro granted [of "snd (ten_calloc n s w)"]) (auto simp: ten_calloc_def)
next
  case False
  then show ?thesis
    by (intro refused [of "snd (ten_calloc n s w)"]) (auto simp: ten_calloc_def)
qed

lemma ten_realloc_cases [consumes 1, case_names granted refused emptied]:
  assumes "\<not> is_Dangling p"
  obtains (granted) w' where "grants_realloc n w"
      "ten_realloc cs p n w =
         Some (Block (take (unat n div unat cs) (block_cells p) @
                 replicate (unat n div unat cs - length (block_cells p)) None),
               (if is_Block p then Dangling else p), w')"
      "unat n < 2 ^ 63" "g_ten_last_error w' = TEN_OK" "refusals w' = refusals w" "live w' = live w + 1 - owned p"
  | (refused) w' where "\<not> grants_realloc n w" "n \<noteq> 0"
      "ten_realloc cs p n w = Some (Null, p, w')"
      "g_ten_last_error w' = TEN_ERROR_OUT_OF_MEMORY" "refusals w' = Suc (refusals w)" "live w' = live w"
  | (emptied) w' where "\<not> grants_realloc n w" "n = 0"
      "ten_realloc cs p n w = Some (Null, (if is_Block p then Dangling else p), w')"
      "g_ten_last_error w' = TEN_OK" "refusals w' = Suc (refusals w)" "live w' = live w - owned p"
proof (cases "grants_realloc n w")
  case True
  then have "unat n < 2 ^ 63"
    by (simp add: grants_realloc_def size_le_iff unat_ptrdiff_max)
  with True assms show ?thesis
    by (intro granted [of "snd (snd (the (ten_realloc cs p n w)))"]; cases p) (auto simp: ten_realloc_def Let_def)
next
  case False
  show ?thesis
  proof (cases "n = 0")
    case True
    with False assms show ?thesis
      by (intro emptied [of "snd (snd (the (ten_realloc cs p n w)))"]; cases p) (auto simp: ten_realloc_def Let_def)
  next
    case nz: False
    with False assms show ?thesis
      by (intro refused [of "snd (snd (the (ten_realloc cs p n w)))"]; cases p) (auto simp: ten_realloc_def Let_def)
  qed
qed

lemma ten_free_live:
  "\<not> is_Dangling p \<Longrightarrow> \<exists>w'. ten_free p w = Some w' \<and> live w' = live w - owned p \<and>
     g_ten_last_error w' = g_ten_last_error w \<and> refusals w' = refusals w"
  by (cases p) (auto simp: ten_free_def)

lemma free_struct_eq [simp]: "free_struct w = Some (w\<lparr>live := live w - 1\<rparr>)"
  by (simp add: free_struct_def ten_free_def)

text \<open>A freed pointer cannot be freed again, whatever was in the block.\<close>

lemma ten_free_dangling [simp]: "ten_free Dangling w = None"
  by (simp add: ten_free_def)

text \<open>
  \<open>ten_memdup\<close> of exactly the bytes of its argument: a copy, or no memory; never undefined.
\<close>

lemma ten_memdup_whole:
  assumes "length d < 2 ^ 63"
  shows "ten_memdup (Some d) (of_nat (length d)) w =
    (if grants_malloc (of_nat (length d)) w
     then Some (Block (map Some d), ten__set_error TEN_OK (request True w))
     else Some (Null, ten__set_error TEN_ERROR_OUT_OF_MEMORY (request False w)))"
proof -
  have "unat (of_nat (length d) :: size_t) = length d"
    using assms by (intro unat_of_nat_size) simp
  then show ?thesis
    by (simp add: ten_memdup_def ten_malloc_def)
qed

lemma ten_memdup_cases [consumes 1, case_names copied refused]:
  assumes "length d < 2 ^ 63"
  obtains (copied) w' where
      "ten_memdup (Some d) (of_nat (length d)) w = Some (Block (map Some d), w')"
      "g_ten_last_error w' = TEN_OK" "refusals w' = refusals w" "live w' = live w + 1"
  | (refused) w' where
      "ten_memdup (Some d) (of_nat (length d)) w = Some (Null, w')"
      "g_ten_last_error w' = TEN_ERROR_OUT_OF_MEMORY" "refusals w' = Suc (refusals w)" "live w' = live w"
  using assms by (cases "grants_malloc (of_nat (length d)) w") (simp_all add: ten_memdup_whole)

end
