(* ===== verification/Ten_Contract.thy ===== *)
theory Ten_Contract
  imports Ten_Memory
begin

text \<open>
  What the containers of the library promise, stated once. A component is driven by commands;
  its contract gives, for every admissible command, the answer and the new abstract value a
  pure specification computes, unless an allocation was refused, and then the answer is the
  out-of-memory one and the abstract value is untouched. No block is lost either way. The locale
  derives from the contract of one command that of every sequence of commands.
\<close>

section \<open>Runs\<close>

type_synonym ('c, 's, 'r) component_step =
  "'c \<Rightarrow> 's \<Rightarrow> ten_world \<Rightarrow> ('r \<times> 's \<times> ten_world) option"

primrec run :: "('c, 's, 'r) component_step \<Rightarrow> 'c list \<Rightarrow> 's \<Rightarrow> ten_world \<Rightarrow>
    ('r list \<times> 's \<times> ten_world) option" where
  "run step [] s w = Some ([], s, w)"
| "run step (c # cs) s w = do {
     (r, s1, w1) \<leftarrow> step c s w;
     (rs, s2, w2) \<leftarrow> run step cs s1 w1;
     Some (r # rs, s2, w2)
   }"

text \<open>
  The specification of a run: the commands in order, where a command whose flag is set was
  refused memory, answers \<open>oom\<close> and changes nothing.
\<close>

fun run_spec :: "('c \<Rightarrow> 'm \<Rightarrow> 'r \<times> 'm) \<Rightarrow> ('c \<Rightarrow> 'r) \<Rightarrow> 'c list \<Rightarrow> bool list \<Rightarrow> 'm \<Rightarrow> 'r list \<times> 'm" where
  "run_spec spec oom (c # cs) (refused # fs) m =
     (let (r, m1) = (if refused then (oom c, m) else spec c m);
          (rs, m2) = run_spec spec oom cs fs m1
      in (r # rs, m2))"
| "run_spec spec oom cs fs m = ([], m)"

text \<open>The same with no refusal.\<close>

primrec run_all :: "('c \<Rightarrow> 'm \<Rightarrow> 'r \<times> 'm) \<Rightarrow> 'c list \<Rightarrow> 'm \<Rightarrow> 'r list \<times> 'm" where
  "run_all spec [] m = ([], m)"
| "run_all spec (c # cs) m =
     (let (r, m1) = spec c m; (rs, m2) = run_all spec cs m1 in (r # rs, m2))"

text \<open>Every command is allowed when its turn comes, whatever is refused before it.\<close>

primrec all_allowed :: "('c \<Rightarrow> 'm \<Rightarrow> bool) \<Rightarrow> ('c \<Rightarrow> 'm \<Rightarrow> 'r \<times> 'm) \<Rightarrow> 'c list \<Rightarrow> 'm \<Rightarrow> bool" where
  "all_allowed allowed spec [] m \<longleftrightarrow> True"
| "all_allowed allowed spec (c # cs) m \<longleftrightarrow>
     allowed c m \<and> all_allowed allowed spec cs m \<and> all_allowed allowed spec cs (snd (spec c m))"

lemma all_allowed_always:
  "(\<And>m. \<forall>c \<in> set cs. allowed c m) \<Longrightarrow> all_allowed allowed spec cs m"
  by (induction cs arbitrary: m) auto

lemma run_spec_none_refused:
  "run_spec spec oom cs (replicate (length cs) False) m = run_all spec cs m"
  by (induction cs arbitrary: m) (auto simp: Let_def split: prod.splits)

lemma run_append:
  "run step (cs @ ds) s w = do {
     (rs, s1, w1) \<leftarrow> run step cs s w;
     (qs, s2, w2) \<leftarrow> run step ds s1 w1;
     Some (rs @ qs, s2, w2)
   }"
  by (induction cs arbitrary: s w) (auto split: Option.bind_split)

section \<open>The contract\<close>

locale ten_component =
  fixes step :: "('c, 's, 'r) component_step"
    and spec :: "'c \<Rightarrow> 'm \<Rightarrow> 'r \<times> 'm"
    and oom :: "'c \<Rightarrow> 'r"
    and rep :: "'s \<Rightarrow> 'm \<Rightarrow> bool"
    and owns :: "'s \<Rightarrow> int"
    and allowed :: "'c \<Rightarrow> 'm \<Rightarrow> bool"
  assumes step_law: "rep s m \<Longrightarrow> allowed c m \<Longrightarrow>
    \<exists>r s' w'. step c s w = Some (r, s', w') \<and> live w' - owns s' = live w - owns s \<and>
      (refusals w' = refusals w \<and> r = fst (spec c m) \<and> rep s' (snd (spec c m)) \<or>
       refusals w < refusals w' \<and> r = oom c \<and> rep s' m)"
begin

lemma step_cases [consumes 2, case_names served refused]:
  assumes "rep s m" "allowed c m"
  obtains (served) s' w' where "step c s w = Some (fst (spec c m), s', w')" "rep s' (snd (spec c m))"
      "refusals w' = refusals w" "live w' - owns s' = live w - owns s"
  | (refused) s' w' where "step c s w = Some (oom c, s', w')" "rep s' m"
      "refusals w < refusals w'" "live w' - owns s' = live w - owns s"
  using step_law [OF assms, of w] by blast

lemma run_law:
  "rep s m \<Longrightarrow> all_allowed allowed spec cs m \<Longrightarrow>
   \<exists>fs s' w'. run step cs s w = Some (fst (run_spec spec oom cs fs m), s', w') \<and>
     rep s' (snd (run_spec spec oom cs fs m)) \<and> length fs = length cs \<and>
     refusals w \<le> refusals w' \<and> (refusals w' = refusals w \<longrightarrow> fs = replicate (length cs) False) \<and>
     live w' - owns s' = live w - owns s"
proof (induction cs arbitrary: s m w)
  case Nil
  then show ?case by (auto intro!: exI [of _ "[]"])
next
  case (Cons c cs)
  have "allowed c m" using Cons.prems by simp
  with Cons.prems(1) show ?case
  proof (cases rule: step_cases [where w = w])
    case (served s1 w1)
    then obtain fs s' w' where
        "run step cs s1 w1 = Some (fst (run_spec spec oom cs fs (snd (spec c m))), s', w')"
        "rep s' (snd (run_spec spec oom cs fs (snd (spec c m))))" "length fs = length cs"
        "refusals w1 \<le> refusals w'" "refusals w' = refusals w1 \<longrightarrow> fs = replicate (length cs) False"
        "live w' - owns s' = live w1 - owns s1"
      using Cons.IH [of s1 "snd (spec c m)" w1] Cons.prems(2) by auto
    with served show ?thesis
      by (intro exI [of _ "False # fs"]) (auto simp: split_beta)
  next
    case (refused s1 w1)
    then obtain fs s' w' where
        "run step cs s1 w1 = Some (fst (run_spec spec oom cs fs m), s', w')"
        "rep s' (snd (run_spec spec oom cs fs m))" "length fs = length cs"
        "refusals w1 \<le> refusals w'" "live w' - owns s' = live w1 - owns s1"
      using Cons.IH [of s1 m w1] Cons.prems(2) by auto
    with refused show ?thesis
      by (intro exI [of _ "True # fs"]) (auto simp: split_beta)
  qed
qed

text \<open>With no refusal the run is the specification's.\<close>

lemma run_undisturbed:
  assumes "rep s m" "all_allowed allowed spec cs m" "run step cs s w = Some (rs, s', w')" "refusals w' = refusals w"
  shows "rs = fst (run_all spec cs m)" "rep s' (snd (run_all spec cs m))"
  using run_law [OF assms(1,2), of w] assms(3,4) by (auto simp: run_spec_none_refused)

end

section \<open>The whole life of a component\<close>

locale ten_owned_component = ten_component +
  fixes release :: "'b \<Rightarrow> ten_world \<Rightarrow> ten_world option"
  assumes release_law: "rep s m \<Longrightarrow> \<exists>w'. release s w = Some w' \<and> live w' = live w - owns s"
begin

text \<open>
  A component that owns what was allocated for it, driven by allowed commands and released,
  has given back every block.
\<close>

lemma life_law:
  assumes "rep s m" "live w - owns s = n" "all_allowed allowed spec cs m"
  shows "\<exists>fs s' w' w''. run step cs s w = Some (fst (run_spec spec oom cs fs m), s', w') \<and>
    rep s' (snd (run_spec spec oom cs fs m)) \<and> length fs = length cs \<and>
    (refusals w' = refusals w \<longrightarrow> fs = replicate (length cs) False) \<and>
    release s' w' = Some w'' \<and> live w'' = n"
proof -
  from run_law [OF assms(1,3), of w] obtain fs s' w' where r:
    "run step cs s w = Some (fst (run_spec spec oom cs fs m), s', w')"
    "rep s' (snd (run_spec spec oom cs fs m))" "length fs = length cs"
    "refusals w' = refusals w \<longrightarrow> fs = replicate (length cs) False"
    "live w' - owns s' = live w - owns s"
    by auto
  moreover obtain w'' where "release s' w' = Some w''" "live w'' = live w' - owns s'"
    using release_law [OF r(2)] by blast
  ultimately show ?thesis using assms(2) by auto
qed

end

end
