(* ===== verification/Ten_Type.thy ===== *)
theory Ten_Type
  imports Ten_Prelude
begin

text \<open>
  The runtime type descriptors of the containers (\<open>include/ten/type.h\<close>) and the size of an
  element of each type on an LP64 target (\<open>src/internal/type_internal.h\<close>).
\<close>

datatype ten_type =
    TEN_TYPE_VOID
  | TEN_TYPE_BOOL
  | TEN_TYPE_I8
  | TEN_TYPE_I16
  | TEN_TYPE_I32
  | TEN_TYPE_I64
  | TEN_TYPE_U8
  | TEN_TYPE_U16
  | TEN_TYPE_U32
  | TEN_TYPE_U64
  | TEN_TYPE_F32
  | TEN_TYPE_F64
  | TEN_TYPE_STRING
  | TEN_TYPE_BUFFER
  | TEN_TYPE_POINTER

fun ten__type_size :: "ten_type \<Rightarrow> size_t" where
  "ten__type_size TEN_TYPE_BOOL = 1"
| "ten__type_size TEN_TYPE_I8 = 1"
| "ten__type_size TEN_TYPE_U8 = 1"
| "ten__type_size TEN_TYPE_I16 = 2"
| "ten__type_size TEN_TYPE_U16 = 2"
| "ten__type_size TEN_TYPE_I32 = 4"
| "ten__type_size TEN_TYPE_U32 = 4"
| "ten__type_size TEN_TYPE_F32 = 4"
| "ten__type_size TEN_TYPE_I64 = 8"
| "ten__type_size TEN_TYPE_U64 = 8"
| "ten__type_size TEN_TYPE_F64 = 8"
| "ten__type_size TEN_TYPE_STRING = 8"
| "ten__type_size TEN_TYPE_BUFFER = 8"
| "ten__type_size TEN_TYPE_POINTER = 8"
| "ten__type_size TEN_TYPE_VOID = 0"

lemma type_size_eq_0 [simp]: "ten__type_size t = 0 \<longleftrightarrow> t = TEN_TYPE_VOID"
  by (cases t) simp_all

lemma type_size_bounds:
  "t \<noteq> TEN_TYPE_VOID \<Longrightarrow> 1 \<le> unat (ten__type_size t) \<and> unat (ten__type_size t) \<le> 8"
  by (cases t) simp_all

end
