(* ===== verification/Ten_List.thy ===== *)
theory Ten_List
  imports Ten_Contract Ten_Type
begin

text \<open>
  The dynamic array \<open>ten_list\<close> (\<open>include/ten/list.h\<close>, \<open>src/list/list.c\<close>). The code moves
  elements as whole objects of \<open>element_size\<close> bytes, so a cell of the data block is an element;
  sizes passed to the allocator are in bytes and wrap like \<open>size_t\<close>. The record of the code is a
  datatype here because JSON values nest through lists.

  A list represents a sequence (\<open>list_rep\<close>); every operation is shown to be defined, to
  implement the operation on sequences or to report its error and change nothing, and to keep
  the account of the blocks the list owns. The commands of a list are interpreted as a
  \<open>ten_component\<close>: any sequence of them runs like its specification on sequences.
\<close>

section \<open>Data and operations\<close>

datatype 'a ten_list = Ten_List
  (l_type: ten_type) (l_element_size: size_t) (l_data: "'a ptr")
  (l_count: size_t) (l_capacity: size_t)

definition sizeof_ten_list :: size_t where
  "sizeof_ten_list = 40"

definition ten_list_create :: "ten_type \<Rightarrow> ten_world \<Rightarrow> 'a ten_list option \<times> ten_world" where
  "ten_list_create type w =
     (let element_size = ten__type_size type
      in if element_size = 0 then (None, ten__set_error TEN_ERROR_INVALID_ARGUMENT w)
         else let (list, w1) = ten_malloc sizeof_ten_list w
              in if is_Null list then (None, w1)
                 else (Some (Ten_List type element_size Null 0 0), ten__set_error TEN_OK w1))"

definition ten_list_destroy :: "'a ten_list option \<Rightarrow> ten_world \<Rightarrow> ten_world option" where
  "ten_list_destroy list w =
     (case list of
        None \<Rightarrow> Some w
      | Some l \<Rightarrow> do { w1 \<leftarrow> ten_free (l_data l) w; free_struct w1 })"

definition ten__list_grow ::
    "'a ten_list \<Rightarrow> size_t \<Rightarrow> ten_world \<Rightarrow> (ten_error_code \<times> 'a ten_list \<times> ten_world) option" where
  "ten__list_grow l min_capacity w =
     (if min_capacity \<le> l_capacity l then Some (TEN_OK, l, w)
      else
        let doubled = (if l_capacity l = 0 then 4 else l_capacity l * 2);
            new_capacity = (if doubled < min_capacity then min_capacity else doubled)
        in do {
          (new_data, old_data, w1) \<leftarrow>
            ten_realloc (l_element_size l) (l_data l) (new_capacity * l_element_size l) w;
          if is_Null new_data
          then Some (TEN_ERROR_OUT_OF_MEMORY,
                     Ten_List (l_type l) (l_element_size l) old_data (l_count l) (l_capacity l), w1)
          else Some (TEN_OK,
                     Ten_List (l_type l) (l_element_size l) new_data (l_count l) new_capacity, w1)
        })"

definition ten_list_insert ::
    "'a ten_list option \<Rightarrow> size_t \<Rightarrow> 'a option \<Rightarrow> ten_world \<Rightarrow>
     (ten_error_code \<times> 'a ten_list option \<times> ten_world) option" where
  "ten_list_insert list index value w =
     (case (list, value) of
        (Some l, Some v) \<Rightarrow>
          if index > l_count l
          then Some (TEN_ERROR_OUT_OF_RANGE, list, ten__set_error TEN_ERROR_OUT_OF_RANGE w)
          else do {
            (rc, l1, w1) \<leftarrow> ten__list_grow l (l_count l + 1) w;
            if rc \<noteq> TEN_OK then Some (rc, Some l1, ten__set_error rc w1)
            else do {
              d1 \<leftarrow> (if index < l_count l1
                    then block_move (unat index + 1) (unat index) (unat (l_count l1 - index)) (l_data l1)
                    else Some (l_data l1));
              d2 \<leftarrow> block_write (unat index) [Some v] d1;
              Some (TEN_OK,
                    Some (Ten_List (l_type l1) (l_element_size l1) d2 (l_count l1 + 1) (l_capacity l1)),
                    ten__set_error TEN_OK w1)
            }
          }
      | _ \<Rightarrow> Some (TEN_ERROR_NULL_ARGUMENT, list, ten__set_error TEN_ERROR_NULL_ARGUMENT w))"

definition ten_list_add ::
    "'a ten_list option \<Rightarrow> 'a option \<Rightarrow> ten_world \<Rightarrow>
     (ten_error_code \<times> 'a ten_list option \<times> ten_world) option" where
  "ten_list_add list value w =
     ten_list_insert list (case list of Some l \<Rightarrow> l_count l | None \<Rightarrow> 0) value w"

definition ten_list_remove_at ::
    "'a ten_list option \<Rightarrow> size_t \<Rightarrow> ten_world \<Rightarrow>
     (ten_error_code \<times> 'a ten_list option \<times> ten_world) option" where
  "ten_list_remove_at list index w =
     (case list of
        None \<Rightarrow> Some (TEN_ERROR_NULL_ARGUMENT, list, ten__set_error TEN_ERROR_NULL_ARGUMENT w)
      | Some l \<Rightarrow>
          if index \<ge> l_count l
          then Some (TEN_ERROR_OUT_OF_RANGE, list, ten__set_error TEN_ERROR_OUT_OF_RANGE w)
          else do {
            d1 \<leftarrow> (if index + 1 < l_count l
                  then block_move (unat index) (unat index + 1) (unat (l_count l - index - 1)) (l_data l)
                  else Some (l_data l));
            Some (TEN_OK,
                  Some (Ten_List (l_type l) (l_element_size l) d1 (l_count l - 1) (l_capacity l)),
                  ten__set_error TEN_OK w)
          })"

text \<open>The pointer returned by \<open>ten_list_get\<close> is read at once by every caller: the model returns
  the element it points to.\<close>

definition ten_list_get ::
    "'a ten_list option \<Rightarrow> size_t \<Rightarrow> ten_world \<Rightarrow> ('a option \<times> ten_world) option" where
  "ten_list_get list index w =
     (case list of
        None \<Rightarrow> Some (None, ten__set_error TEN_ERROR_NULL_ARGUMENT w)
      | Some l \<Rightarrow>
          if index \<ge> l_count l
          then Some (None, ten__set_error TEN_ERROR_OUT_OF_RANGE w)
          else do {
            vs \<leftarrow> block_values (unat index) 1 (l_data l);
            Some (Some (hd vs), ten__set_error TEN_OK w)
          })"

definition ten_list_count :: "'a ten_list option \<Rightarrow> ten_world \<Rightarrow> size_t \<times> ten_world" where
  "ten_list_count list w =
     (case list of
        None \<Rightarrow> (0, ten__set_error TEN_ERROR_NULL_ARGUMENT w)
      | Some l \<Rightarrow> (l_count l, ten__set_error TEN_OK w))"

definition ten_list_capacity :: "'a ten_list option \<Rightarrow> ten_world \<Rightarrow> size_t \<times> ten_world" where
  "ten_list_capacity list w =
     (case list of
        None \<Rightarrow> (0, ten__set_error TEN_ERROR_NULL_ARGUMENT w)
      | Some l \<Rightarrow> (l_capacity l, ten__set_error TEN_OK w))"

definition ten_list_reserve ::
    "'a ten_list option \<Rightarrow> size_t \<Rightarrow> ten_world \<Rightarrow>
     (ten_error_code \<times> 'a ten_list option \<times> ten_world) option" where
  "ten_list_reserve list capacity w =
     (case list of
        None \<Rightarrow> Some (TEN_ERROR_NULL_ARGUMENT, list, ten__set_error TEN_ERROR_NULL_ARGUMENT w)
      | Some l \<Rightarrow> do {
          (rc, l1, w1) \<leftarrow> ten__list_grow l capacity w;
          Some (rc, Some l1, ten__set_error rc w1)
        })"

section \<open>Representation\<close>

definition list_rep :: "'a ten_list \<Rightarrow> 'a list \<Rightarrow> bool" where
  "list_rep l xs \<longleftrightarrow>
     l_type l \<noteq> TEN_TYPE_VOID \<and> l_element_size l = ten__type_size (l_type l) \<and>
     \<not> is_Dangling (l_data l) \<and>
     length (block_cells (l_data l)) = unat (l_capacity l) \<and>
     unat (l_capacity l) * unat (l_element_size l) < 2 ^ 63 \<and>
     length xs = unat (l_count l) \<and> unat (l_count l) \<le> unat (l_capacity l) \<and>
     take (unat (l_count l)) (block_cells (l_data l)) = map Some xs"

definition list_abs :: "'a ten_list \<Rightarrow> 'a list" where
  "list_abs l = map the (take (unat (l_count l)) (block_cells (l_data l)))"

definition list_inv :: "'a ten_list \<Rightarrow> bool" where
  "list_inv l \<longleftrightarrow> list_rep l (list_abs l)"

definition list_owned :: "'a ten_list \<Rightarrow> int" where
  "list_owned l = 1 + owned (l_data l)"

lemma list_rep_abs: "list_rep l xs \<Longrightarrow> list_abs l = xs"
  by (simp add: list_rep_def list_abs_def o_def)

lemma list_rep_inv: "list_rep l xs \<longleftrightarrow> list_inv l \<and> list_abs l = xs"
  by (auto simp: list_inv_def dest: list_rep_abs)

lemma list_rep_small:
  assumes "list_rep l xs"
  shows "unat (l_capacity l) < 2 ^ 63" "unat (l_count l) < 2 ^ 63" "length xs < 2 ^ 63"
proof -
  have es: "1 \<le> unat (l_element_size l)"
    using assms type_size_bounds by (auto simp: list_rep_def)
  have "unat (l_capacity l) * 1 \<le> unat (l_capacity l) * unat (l_element_size l)"
    using es by (rule mult_le_mono2)
  moreover have "unat (l_capacity l) * unat (l_element_size l) < 2 ^ 63"
    using assms unfolding list_rep_def by blast
  ultimately show "unat (l_capacity l) < 2 ^ 63" by linarith
  then show "unat (l_count l) < 2 ^ 63" "length xs < 2 ^ 63"
    using assms by (simp_all add: list_rep_def)
qed

lemma list_rep_full_block:
  "list_rep l xs \<Longrightarrow> 0 < unat (l_capacity l) \<Longrightarrow>
   \<exists>b. l_data l = Block b \<and> length b = unat (l_capacity l)"
  by (cases "l_data l") (auto simp: list_rep_def)

section \<open>Growth\<close>

text \<open>
  The growth step under a representable byte size: the elements stay, and a refused request
  leaves the list as it was.
\<close>

text \<open>The capacity after growing: at least what was asked for, and its size in bytes does not wrap.\<close>

lemma grown_capacity:
  fixes m :: size_t
  defines "doubled l \<equiv> if l_capacity l = 0 then 4 else l_capacity l * 2"
  defines "grown l \<equiv> if doubled l < m then m else doubled l"
  assumes rep: "list_rep l xs" and fit: "unat m * unat (l_element_size l) < 2 ^ 64" and more: "l_capacity l < m"
  shows "m \<le> grown l" "l_capacity l \<le> grown l"
    and "unat (grown l * l_element_size l) = unat (grown l) * unat (l_element_size l)"
    and "0 < unat (grown l * l_element_size l)"
proof -
  have es: "1 \<le> unat (l_element_size l)" "unat (l_element_size l) \<le> 8"
    and cap: "unat (l_capacity l) * unat (l_element_size l) < 2 ^ 63"
    using rep type_size_bounds by (auto simp: list_rep_def)
  have "unat (l_capacity l * 2) = unat (l_capacity l) * 2"
    using list_rep_small(1) [OF rep] by (subst unat_mult_size) auto
  then have "unat (doubled l) * unat (l_element_size l) < 2 ^ 64"
    using cap es(2) by (auto simp: doubled_def)
  then have "unat (grown l) * unat (l_element_size l) < 2 ^ 64"
    using fit by (simp add: grown_def)
  then show bytes: "unat (grown l * l_element_size l) = unat (grown l) * unat (l_element_size l)"
    by (rule unat_mult_size)
  show "m \<le> grown l" "l_capacity l \<le> grown l" using more by (auto simp: grown_def size_nat)
  moreover have "0 < unat m" using more by (simp add: size_nat)
  ultimately show "0 < unat (grown l * l_element_size l)" using bytes es(1) by (simp add: size_nat)
qed

lemma list_grow_spec:
  assumes rep: "list_rep l xs" and fit: "unat m * unat (l_element_size l) < 2 ^ 64"
  shows "(\<exists>l' w'. ten__list_grow l m w = Some (TEN_OK, l', w') \<and> list_rep l' xs \<and>
            l_type l' = l_type l \<and> l_count l' = l_count l \<and> m \<le> l_capacity l' \<and> l_capacity l \<le> l_capacity l' \<and>
            refusals w' = refusals w \<and> live w' - list_owned l' = live w - list_owned l \<and>
            (m \<le> l_capacity l \<longrightarrow> l' = l \<and> w' = w)) \<or>
         (\<exists>w'. ten__list_grow l m w = Some (TEN_ERROR_OUT_OF_MEMORY, l, w') \<and>
            refusals w < refusals w' \<and> live w' = live w \<and> l_capacity l < m)"
proof (cases "m \<le> l_capacity l")
  case True
  with rep show ?thesis by (simp add: ten__list_grow_def)
next
  case False
  define nc where "nc = (if (if l_capacity l = 0 then 4 else l_capacity l * 2) < m then m
    else if l_capacity l = 0 then 4 else l_capacity l * 2)"
  have more: "l_capacity l < m" using False by simp
  note nc = grown_capacity [OF rep fit more, folded nc_def]
  have es: "1 \<le> unat (l_element_size l)" using rep type_size_bounds by (auto simp: list_rep_def)
  have nd: "\<not> is_Dangling (l_data l)" and len: "length (block_cells (l_data l)) = unat (l_capacity l)"
    using rep by (simp_all add: list_rep_def)
  have grow: "ten__list_grow l m w = do {
      (new_data, old_data, w1) \<leftarrow>
        ten_realloc (l_element_size l) (l_data l) (nc * l_element_size l) w;
      if is_Null new_data
      then Some (TEN_ERROR_OUT_OF_MEMORY,
             Ten_List (l_type l) (l_element_size l) old_data (l_count l) (l_capacity l), w1)
      else Some (TEN_OK,
             Ten_List (l_type l) (l_element_size l) new_data (l_count l) nc, w1) }"
    using False
    by (simp only: ten__list_grow_def Let_def if_False nc_def [symmetric])
  from nd show ?thesis
  proof (cases rule: ten_realloc_cases [where n = "nc * l_element_size l"
        and w = w and cs = "l_element_size l"])
    case (granted w')
    let ?b = "block_cells (l_data l) @ replicate (unat nc - unat (l_capacity l)) None"
    let ?l' = "Ten_List (l_type l) (l_element_size l) (Block ?b) (l_count l) nc"
    have "length (block_cells (l_data l)) \<le> unat nc"
      using nc(2) len by (simp add: size_nat)
    then have "ten__list_grow l m w = Some (TEN_OK, ?l', w')"
      using granted(2) len nc(3) es by (simp add: grow)
    moreover have "list_rep ?l' xs"
      using rep nc(2,3) granted(3) by (auto simp: list_rep_def size_nat)
    ultimately show ?thesis
      using nc False granted(5,6) by (auto simp: list_owned_def)
  next
    case (refused w')
    then have "ten__list_grow l m w = Some (TEN_ERROR_OUT_OF_MEMORY, l, w')"
      by (simp add: grow)
    then show ?thesis
      using refused False by auto
  qed (use nc(4) in simp)
qed

section \<open>The operations on represented sequences\<close>

lemma count_plus_one:
  assumes "list_rep l xs"
  shows "unat (l_count l + 1) = Suc (length xs)"
    "unat (l_count l + 1) * unat (l_element_size l) < 2 ^ 64"
proof -
  have c: "unat (l_count l) = length xs" "length xs \<le> unat (l_capacity l)"
    and cap: "unat (l_capacity l) * unat (l_element_size l) < 2 ^ 63"
    and es: "unat (l_element_size l) \<le> 8"
    using assms type_size_bounds by (auto simp: list_rep_def)
  show eq: "unat (l_count l + 1) = Suc (length xs)"
    using list_rep_small(2) [OF assms] c by (subst unat_add_size) auto
  have "length xs * unat (l_element_size l) \<le> unat (l_capacity l) * unat (l_element_size l)"
    using c(2) by (rule mult_le_mono1)
  then show "unat (l_count l + 1) * unat (l_element_size l) < 2 ^ 64"
  proof -
    assume "length xs * unat (l_element_size l) \<le> unat (l_capacity l) * unat (l_element_size l)"
    then have "unat (l_element_size l) + length xs * unat (l_element_size l) < 8 + 2 ^ 63 + 1"
      using cap es by linarith
    then show ?thesis unfolding eq mult_Suc by simp
  qed
qed

lemma list_create_spec:
  "type \<noteq> TEN_TYPE_VOID \<Longrightarrow>
     (\<exists>l w'. ten_list_create type w = (Some (l :: 'a ten_list), w') \<and> list_rep l [] \<and> l_type l = type \<and>
        g_ten_last_error w' = TEN_OK \<and> refusals w' = refusals w \<and> live w' - list_owned l = live w) \<or>
     (\<exists>w'. ten_list_create type w = (None :: 'a ten_list option, w') \<and>
        g_ten_last_error w' = TEN_ERROR_OUT_OF_MEMORY \<and> refusals w < refusals w' \<and> live w' = live w)"
  by (cases rule: ten_malloc_cases [where n = sizeof_ten_list and w = w])
    (auto simp: ten_list_create_def list_rep_def list_owned_def)

lemma list_create_void:
  "ten_list_create TEN_TYPE_VOID w = (None, ten__set_error TEN_ERROR_INVALID_ARGUMENT w)"
  by (simp add: ten_list_create_def)

lemma list_destroy_spec:
  "list_rep l xs \<Longrightarrow>
   \<exists>w'. ten_list_destroy (Some l) w = Some w' \<and> live w' = live w - list_owned l \<and>
     g_ten_last_error w' = g_ten_last_error w \<and> refusals w' = refusals w"
  using ten_free_live [of "l_data l" w]
  by (auto simp: ten_list_destroy_def list_rep_def list_owned_def)

lemma list_insert_spec:
  assumes rep: "list_rep l xs" and i: "unat i \<le> length xs"
  shows "(\<exists>l' w'. ten_list_insert (Some l) i (Some v) w = Some (TEN_OK, Some l', w') \<and>
            list_rep l' (insert_at (unat i) v xs) \<and> l_type l' = l_type l \<and>
            g_ten_last_error w' = TEN_OK \<and> refusals w' = refusals w \<and> live w' - list_owned l' = live w - list_owned l) \<or>
         (\<exists>w'. ten_list_insert (Some l) i (Some v) w = Some (TEN_ERROR_OUT_OF_MEMORY, Some l, w') \<and>
            g_ten_last_error w' = TEN_ERROR_OUT_OF_MEMORY \<and> refusals w < refusals w' \<and> live w' = live w \<and>
            l_capacity l = l_count l)"
proof -
  have c: "unat (l_count l) = length xs" and in_range: "\<not> l_count l < i"
    using rep i by (auto simp: list_rep_def size_nat)
  note fit = count_plus_one [OF rep]
  from list_grow_spec [OF rep fit(2), where w = w] show ?thesis
  proof (elim disjE exE conjE)
    fix l' w'
    assume grow: "ten__list_grow l (l_count l + 1) w = Some (TEN_OK, l', w')"
      and rep': "list_rep l' xs" and ty: "l_type l' = l_type l" and cnt: "l_count l' = l_count l"
      and room: "l_count l + 1 \<le> l_capacity l'"
      and acc: "refusals w' = refusals w" "live w' - list_owned l' = live w - list_owned l"
    have room': "length xs < unat (l_capacity l')"
      using room fit(1) by (simp add: size_nat)
    then obtain b where b: "l_data l' = Block b" "length b = unat (l_capacity l')"
      using list_rep_full_block [OF rep'] by auto
    have take_b: "take (length xs) b = map Some xs"
      using rep' b c cnt by (simp add: list_rep_def)
    let ?b = "take (unat i) b @ Some v # take (length xs - unat i) (drop (unat i) b) @
                drop (Suc (length xs)) b"
    let ?l = "Ten_List (l_type l') (l_element_size l') (Block ?b) (l_count l' + 1) (l_capacity l')"
    have diff: "unat (l_count l - i) = length xs - unat i"
      using in_range c by (simp add: unat_diff_size not_less)
    have lt: "i < l_count l \<longleftrightarrow> unat i < length xs"
      using c by (simp add: size_nat)
    obtain d where d: "(if unat i < length xs
          then block_move (unat i + 1) (unat i) (length xs - unat i) (Block b)
          else Some (Block b)) = Some d" "block_write (unat i) [Some v] d = Some (Block ?b)"
      using block_insert [OF i, of b "Some v"] room' b(2) by auto
    have "ten_list_insert (Some l) i (Some v) w = Some (TEN_OK, Some ?l, ten__set_error TEN_OK w')"
      using d in_range unfolding ten_list_insert_def
      by (simp add: grow cnt diff lt b(1) del: block_write.simps cong: if_cong)
    moreover have "list_rep ?l (insert_at (unat i) v xs)"
      using rep' room' b c cnt i fit(1) take_b
      by (auto simp: list_rep_def take_insert_at simp del: take_append)
    ultimately show ?thesis
      using acc ty b by (auto simp: list_owned_def)
  next
    fix w'
    assume "ten__list_grow l (l_count l + 1) w = Some (TEN_ERROR_OUT_OF_MEMORY, l, w')"
      and "refusals w < refusals w'" and "live w' = live w" and "l_capacity l < l_count l + 1"
    moreover have "l_capacity l = l_count l"
      using \<open>l_capacity l < l_count l + 1\<close> fit(1) rep c
      by (simp add: size_nat size_eq_iff list_rep_def)
    ultimately show ?thesis
      using in_range by (simp add: ten_list_insert_def)
  qed
qed

lemma list_insert_range:
  "list_rep l xs \<Longrightarrow> length xs < unat i \<Longrightarrow>
   ten_list_insert (Some l) i (Some v) w =
     Some (TEN_ERROR_OUT_OF_RANGE, Some l, ten__set_error TEN_ERROR_OUT_OF_RANGE w)"
  by (simp add: ten_list_insert_def list_rep_def size_nat)

lemma list_insert_null:
  "list = None \<or> value = None \<Longrightarrow>
   ten_list_insert list i value w =
     Some (TEN_ERROR_NULL_ARGUMENT, list, ten__set_error TEN_ERROR_NULL_ARGUMENT w)"
  by (auto simp: ten_list_insert_def split: option.splits)

lemma list_add_spec:
  assumes rep: "list_rep l xs"
  shows "(\<exists>l' w'. ten_list_add (Some l) (Some v) w = Some (TEN_OK, Some l', w') \<and>
            list_rep l' (xs @ [v]) \<and> l_type l' = l_type l \<and>
            g_ten_last_error w' = TEN_OK \<and> refusals w' = refusals w \<and> live w' - list_owned l' = live w - list_owned l) \<or>
         (\<exists>w'. ten_list_add (Some l) (Some v) w = Some (TEN_ERROR_OUT_OF_MEMORY, Some l, w') \<and>
            g_ten_last_error w' = TEN_ERROR_OUT_OF_MEMORY \<and> refusals w < refusals w' \<and> live w' = live w \<and>
            l_capacity l = l_count l)"
proof -
  have c: "unat (l_count l) = length xs" using rep by (simp add: list_rep_def)
  then show ?thesis
    using list_insert_spec [OF rep, of "l_count l" v w] by (simp add: ten_list_add_def)
qed

lemma list_remove_spec:
  assumes rep: "list_rep l xs" and i: "unat i < length xs"
  shows "\<exists>l'. ten_list_remove_at (Some l) i w = Some (TEN_OK, Some l', ten__set_error TEN_OK w) \<and>
            list_rep l' (remove_at (unat i) xs) \<and> l_type l' = l_type l \<and>
            l_capacity l' = l_capacity l \<and> list_owned l' = list_owned l"
proof -
  have c: "unat (l_count l) = length xs" and in_range: "i < l_count l" "\<not> l_count l \<le> i"
    using rep i by (auto simp: list_rep_def size_nat)
  have i1: "unat (i + 1) = Suc (unat i)"
    using i list_rep_small(3) [OF rep] by (subst unat_add_size) auto
  have last: "i + 1 < l_count l \<longleftrightarrow> Suc (unat i) < length xs"
    using c i1 by (simp add: size_nat)
  have "unat (l_count l - i) = length xs - unat i"
    using in_range c by (simp add: unat_diff_size)
  then have diff: "unat (l_count l - i - 1) = length xs - unat i - 1"
    using i by (subst unat_diff_size) (auto simp: size_nat)
  have c1: "unat (l_count l - 1) = length xs - 1"
    using i c by (subst unat_diff_size) (auto simp: size_nat)
  have cap: "length xs \<le> unat (l_capacity l)"
    using rep by (simp add: list_rep_def)
  then obtain b where b: "l_data l = Block b" "length b = unat (l_capacity l)"
    using list_rep_full_block [OF rep] i by auto
  have take_b: "take (length xs) b = map Some xs"
    using rep b c by (simp add: list_rep_def)
  obtain b' where b': "(if Suc (unat i) < length xs
        then block_move (unat i) (Suc (unat i)) (length xs - unat i - 1) (Block b)
        else Some (Block b)) = Some (Block b')"
      "length b' = length b" "take (length xs - 1) b' = remove_at (unat i) (take (length xs) b)"
    using block_remove [OF i, of b] cap b by auto
  let ?l = "Ten_List (l_type l) (l_element_size l) (Block b') (l_count l - 1) (l_capacity l)"
  have "ten_list_remove_at (Some l) i w = Some (TEN_OK, Some ?l, ten__set_error TEN_OK w)"
    using b' b in_range by (simp add: ten_list_remove_at_def last diff split: if_splits)
  moreover have "list_rep ?l (remove_at (unat i) xs)"
    using rep b b' take_b c1 i cap by (auto simp: list_rep_def remove_at_map)
  ultimately show ?thesis
    using b by (auto simp: list_owned_def)
qed

lemma list_remove_range:
  "list_rep l xs \<Longrightarrow> length xs \<le> unat i \<Longrightarrow>
   ten_list_remove_at (Some l) i w =
     Some (TEN_ERROR_OUT_OF_RANGE, Some l, ten__set_error TEN_ERROR_OUT_OF_RANGE w)"
  by (simp add: ten_list_remove_at_def list_rep_def size_nat)

lemma list_get_spec:
  assumes rep: "list_rep l xs"
  shows "ten_list_get (Some l) i w =
    (if unat i < length xs then Some (Some (xs ! unat i), ten__set_error TEN_OK w)
     else Some (None, ten__set_error TEN_ERROR_OUT_OF_RANGE w))"
proof (cases "unat i < length xs")
  case True
  obtain b where b: "l_data l = Block b" "length b = unat (l_capacity l)"
    using list_rep_full_block [OF rep] rep True by (auto simp: list_rep_def)
  have "block_values (unat i) 1 (Block b) = Some (take 1 (drop (unat i) xs))"
    using rep b True by (intro block_values_whole [where n = "length xs"]) (auto simp: list_rep_def)
  then show ?thesis
    using rep True b by (simp add: ten_list_get_def list_rep_def size_nat hd_drop_conv_nth take_Suc)
next
  case False
  then show ?thesis
    using rep by (simp add: ten_list_get_def list_rep_def size_nat)
qed

lemma list_count_spec:
  "list_rep l xs \<Longrightarrow> ten_list_count (Some l) w = (of_nat (length xs), ten__set_error TEN_OK w)"
  by (simp add: ten_list_count_def list_rep_def)

lemma list_reserve_spec:
  assumes "list_rep l xs" "unat n * unat (l_element_size l) < 2 ^ 64"
  shows "\<exists>rc l' w'. ten_list_reserve (Some l) n w = Some (rc, Some l', w') \<and>
     g_ten_last_error w' = rc \<and> list_rep l' xs \<and>
     live w' - list_owned l' = live w - list_owned l \<and>
     (rc = TEN_OK \<and> n \<le> l_capacity l' \<and> refusals w' = refusals w \<or>
      rc = TEN_ERROR_OUT_OF_MEMORY \<and> refusals w < refusals w' \<and> l' = l)"
  using list_grow_spec [OF assms, where w = w] assms(1)
  by (auto simp: ten_list_reserve_def)

section \<open>The contract\<close>

datatype 'a list_command =
    List_Add 'a
  | List_Insert size_t 'a
  | List_Remove_At size_t
  | List_Get size_t
  | List_Count
  | List_Reserve size_t

datatype 'a list_answer = Rc ten_error_code | Element "'a option" | Count size_t

definition coded :: "(ten_error_code \<times> 's option \<times> ten_world) option \<Rightarrow>
    (('a list_answer \<times> ten_error_code) \<times> 's \<times> ten_world) option" where
  "coded res = do { (rc, l, w) \<leftarrow> res; l1 \<leftarrow> l; Some ((Rc rc, ten_last_error w), l1, w) }"

text \<open>A command on a list: what the call returns, and the last error after it.\<close>

primrec list_step ::
    "'a list_command \<Rightarrow> 'a ten_list \<Rightarrow> ten_world \<Rightarrow>
     (('a list_answer \<times> ten_error_code) \<times> 'a ten_list \<times> ten_world) option" where
  "list_step (List_Add v) l w = coded (ten_list_add (Some l) (Some v) w)"
| "list_step (List_Insert i v) l w = coded (ten_list_insert (Some l) i (Some v) w)"
| "list_step (List_Remove_At i) l w = coded (ten_list_remove_at (Some l) i w)"
| "list_step (List_Get i) l w = do {
     (x, w1) \<leftarrow> ten_list_get (Some l) i w; Some ((Element x, ten_last_error w1), l, w1) }"
| "list_step List_Count l w =
     (let (n, w1) = ten_list_count (Some l) w in Some ((Count n, ten_last_error w1), l, w1))"
| "list_step (List_Reserve n) l w = coded (ten_list_reserve (Some l) n w)"

primrec list_spec :: "'a list_command \<Rightarrow> 'a list \<Rightarrow> ('a list_answer \<times> ten_error_code) \<times> 'a list" where
  "list_spec (List_Add v) xs = ((Rc TEN_OK, TEN_OK), xs @ [v])"
| "list_spec (List_Insert i v) xs =
     (if unat i \<le> length xs then ((Rc TEN_OK, TEN_OK), insert_at (unat i) v xs)
      else ((Rc TEN_ERROR_OUT_OF_RANGE, TEN_ERROR_OUT_OF_RANGE), xs))"
| "list_spec (List_Remove_At i) xs =
     (if unat i < length xs then ((Rc TEN_OK, TEN_OK), remove_at (unat i) xs)
      else ((Rc TEN_ERROR_OUT_OF_RANGE, TEN_ERROR_OUT_OF_RANGE), xs))"
| "list_spec (List_Get i) xs =
     (if unat i < length xs then ((Element (Some (xs ! unat i)), TEN_OK), xs)
      else ((Element None, TEN_ERROR_OUT_OF_RANGE), xs))"
| "list_spec List_Count xs = ((Count (of_nat (length xs)), TEN_OK), xs)"
| "list_spec (List_Reserve n) xs = ((Rc TEN_OK, TEN_OK), xs)"

definition list_oom :: "'a list_command \<Rightarrow> 'a list_answer \<times> ten_error_code" where
  "list_oom c = (Rc TEN_ERROR_OUT_OF_MEMORY, TEN_ERROR_OUT_OF_MEMORY)"

text \<open>A reservation is for a number of elements whose size in bytes is a \<open>size_t\<close>.\<close>

primrec list_allowed :: "'a list_command \<Rightarrow> 'a list \<Rightarrow> bool" where
  "list_allowed (List_Add v) xs \<longleftrightarrow> True"
| "list_allowed (List_Insert i v) xs \<longleftrightarrow> True"
| "list_allowed (List_Remove_At i) xs \<longleftrightarrow> True"
| "list_allowed (List_Get i) xs \<longleftrightarrow> True"
| "list_allowed List_Count xs \<longleftrightarrow> True"
| "list_allowed (List_Reserve n) xs \<longleftrightarrow> unat n < 2 ^ 61"

lemma list_allowed_any: "list_allowed c xs \<longleftrightarrow> list_allowed c []"
  by (cases c) simp_all

lemma list_step_law:
  assumes rep: "list_rep l xs" and ok: "list_allowed c xs"
  shows "\<exists>r l' w'. list_step c l w = Some (r, l', w') \<and> live w' - list_owned l' = live w - list_owned l \<and>
      (refusals w' = refusals w \<and> r = fst (list_spec c xs) \<and> list_rep l' (snd (list_spec c xs)) \<or>
       refusals w < refusals w' \<and> r = list_oom c \<and> list_rep l' xs)"
proof (cases c)
  case (List_Add v)
  then show ?thesis
    using list_add_spec [OF rep, of v w] rep by (auto simp: coded_def list_oom_def ten_last_error_def)
next
  case (List_Insert i v)
  then show ?thesis
    using list_insert_spec [OF rep, of i v w] list_insert_range [OF rep, of i v w] rep
    by (cases "unat i \<le> length xs") (auto simp: coded_def list_oom_def ten_last_error_def)
next
  case (List_Remove_At i)
  then show ?thesis
    using list_remove_spec [OF rep, of i w] list_remove_range [OF rep, of i w] rep
    by (cases "unat i < length xs") (auto simp: coded_def)
next
  case (List_Get i)
  then show ?thesis using list_get_spec [OF rep, of i w] rep by auto
next
  case List_Count
  then show ?thesis using list_count_spec [OF rep, of w] rep by simp
next
  case (List_Reserve n)
  have "unat (l_element_size l) \<le> 8"
    using rep type_size_bounds by (auto simp: list_rep_def)
  then have "unat n * unat (l_element_size l) \<le> unat n * 8" by (rule mult_le_mono2)
  also have "unat n * 8 < 2 ^ 64" using ok List_Reserve by simp
  finally have "unat n * unat (l_element_size l) < 2 ^ 64" .
  then show ?thesis
    using list_reserve_spec [OF rep, of n w] List_Reserve rep
    by (auto simp: coded_def list_oom_def ten_last_error_def)
qed

interpretation list_component:
  ten_owned_component list_step list_spec list_oom list_rep list_owned list_allowed
    "\<lambda>l. ten_list_destroy (Some l)"
  by unfold_locales (blast intro: list_step_law dest: list_destroy_spec)+

text \<open>
  The size of a list's block wraps: reserving \<open>2 ^ 61 + 1\<close> elements of 8 bytes for an empty
  list succeeds with a block of a single element, and the recorded capacity exceeds the block.
\<close>

lemma reserve_overflow:
  "let w = start_world ample; (l, w1) = ten_list_create TEN_TYPE_U64 w;
       r = ten_list_reserve (l :: nat ten_list option) (2 ^ 61 + 1) w1
   in \<exists>l' w2. r = Some (TEN_OK, Some l', w2) \<and> l_capacity l' = 2 ^ 61 + 1 \<and> length (block_cells (l_data l')) = 1"
  by (simp add: ten_list_create_def ten_malloc_def grants_malloc_def start_world_def ample_def
      default_allocator_def sizeof_ten_list_def ptrdiff_max_def ten_list_reserve_def ten__list_grow_def
      ten_realloc_def grants_realloc_def Let_def)

end
