(* ===== verification/Ten_Map.thy ===== *)
theory Ten_Map
  imports Ten_Contract Ten_Type
begin

text \<open>
  The chained hash table \<open>ten_map\<close> (\<open>include/ten/map.h\<close>, \<open>src/map/map.c\<close>), with the FNV-1a
  hash over \<open>unsigned long\<close> (64 bits on LP64). A bucket is the list of the entries of its
  chain, head first. A key object is given by its own bytes and, for a \<open>const char *\<close> object,
  by the C string it points to: which of the two the code hashes and compares depends on
  \<open>key_type\<close>. Values are moved as whole objects, so their type is a parameter.

  A map represents a partial function from what it compares (\<open>key_view\<close>) to values
  (\<open>map_abs\<close>). The invariant \<open>map_inv\<close> relates bucket positions, stored hashes and the
  count. The commands of a map are interpreted as a \<open>ten_component\<close>.
\<close>

section \<open>Data\<close>

record ten_key =
  obj_bytes :: "byte list"
  obj_cstr :: cstring

datatype 'v ten_map_entry = Entry (e_hash: size_t) (e_key: ten_key) (e_value: 'v)

datatype 'v ten_map = Ten_Map
  (key_type: ten_type) (value_type: ten_type) (key_size: size_t) (value_size: size_t)
  (buckets: "'v ten_map_entry list list") (bucket_count: size_t) (m_count: size_t)

definition sizeof_ten_map :: size_t where "sizeof_ten_map = 48"
definition sizeof_ten_map_entry :: size_t where "sizeof_ten_map_entry = 32"
definition sizeof_pointer :: size_t where "sizeof_pointer = 8"

text \<open>An array read at an index: outside the array it is undefined.\<close>

definition array_at :: "'a list \<Rightarrow> nat \<Rightarrow> 'a option" where
  "array_at xs i = (if i < length xs then Some (xs ! i) else None)"

section \<open>Hashing and searching\<close>

definition fnv1a_step :: "size_t \<Rightarrow> byte \<Rightarrow> size_t" where
  "fnv1a_step hash b = xor hash (ucast b) * 16777619"

definition ten__fnv1a :: "byte list \<Rightarrow> size_t" where
  "ten__fnv1a data = foldl fnv1a_step 2166136261 data"

definition ten__map_hash :: "'v ten_map \<Rightarrow> ten_key \<Rightarrow> size_t" where
  "ten__map_hash m key =
     (if key_type m = TEN_TYPE_STRING then ten__fnv1a (obj_cstr key)
      else ten__fnv1a (obj_bytes key))"

definition ten__map_key_equals :: "'v ten_map \<Rightarrow> ten_key \<Rightarrow> ten_key \<Rightarrow> bool" where
  "ten__map_key_equals m stored_key query_key =
     (if key_type m = TEN_TYPE_STRING then obj_cstr stored_key = obj_cstr query_key
      else obj_bytes stored_key = obj_bytes query_key)"

primrec chain_find :: "'v ten_map \<Rightarrow> size_t \<Rightarrow> ten_key \<Rightarrow> 'v ten_map_entry list \<Rightarrow> 'v ten_map_entry option" where
  "chain_find m hash key [] = None"
| "chain_find m hash key (e # es) =
     (if e_hash e = hash \<and> ten__map_key_equals m (e_key e) key then Some e
      else chain_find m hash key es)"

definition ten__map_find :: "'v ten_map \<Rightarrow> ten_key \<Rightarrow> 'v ten_map_entry option option" where
  "ten__map_find m key =
     (let hash = ten__map_hash m key
      in do {
        chain \<leftarrow> array_at (buckets m) (unat (hash mod bucket_count m));
        Some (chain_find m hash key chain)
      })"

section \<open>Rehashing\<close>

primrec rehash_chain ::
    "size_t \<Rightarrow> 'v ten_map_entry list \<Rightarrow> 'v ten_map_entry list list \<Rightarrow> 'v ten_map_entry list list option" where
  "rehash_chain new_bucket_count [] new_buckets = Some new_buckets"
| "rehash_chain new_bucket_count (e # es) new_buckets =
     (let new_bucket = unat (e_hash e mod new_bucket_count)
      in do {
        chain \<leftarrow> array_at new_buckets new_bucket;
        rehash_chain new_bucket_count es (new_buckets[new_bucket := e # chain])
      })"

primrec rehash_buckets ::
    "size_t \<Rightarrow> 'v ten_map_entry list list \<Rightarrow> 'v ten_map_entry list list \<Rightarrow> 'v ten_map_entry list list option" where
  "rehash_buckets new_bucket_count [] new_buckets = Some new_buckets"
| "rehash_buckets new_bucket_count (chain # rest) new_buckets = do {
     nb \<leftarrow> rehash_chain new_bucket_count chain new_buckets;
     rehash_buckets new_bucket_count rest nb
   }"

definition ten__map_rehash ::
    "'v ten_map \<Rightarrow> size_t \<Rightarrow> ten_world \<Rightarrow> (ten_error_code \<times> 'v ten_map \<times> ten_world) option" where
  "ten__map_rehash m new_bucket_count w =
     (let (new_buckets, w1) = ten_calloc new_bucket_count sizeof_pointer w
      in if is_Null new_buckets then Some (TEN_ERROR_OUT_OF_MEMORY, m, w1)
         else do {
           nb \<leftarrow> rehash_buckets new_bucket_count (buckets m) (replicate (unat new_bucket_count) []);
           w2 \<leftarrow> free_struct w1;
           Some (TEN_OK,
                 Ten_Map (key_type m) (value_type m) (key_size m) (value_size m)
                   nb new_bucket_count (m_count m), w2)
         })"

section \<open>Creation and destruction\<close>

definition ten_map_create ::
    "ten_type \<Rightarrow> ten_type \<Rightarrow> ten_world \<Rightarrow> ('v ten_map option \<times> ten_world) option" where
  "ten_map_create kt vt w =
     (let ks = ten__type_size kt; vs = ten__type_size vt
      in if ks = 0 \<or> vs = 0 then Some (None, ten__set_error TEN_ERROR_INVALID_ARGUMENT w)
         else
           let (mp, w1) = ten_malloc sizeof_ten_map w
           in if is_Null mp then Some (None, w1)
              else
                let (bs, w2) = ten_calloc 16 sizeof_pointer w1
                in if is_Null bs then do { w3 \<leftarrow> ten_free mp w2; Some (None, w3) }
                   else Some (Some (Ten_Map kt vt ks vs (replicate 16 []) 16 0),
                              ten__set_error TEN_OK w2))"

primrec destroy_chain :: "'v ten_map_entry list \<Rightarrow> ten_world \<Rightarrow> ten_world option" where
  "destroy_chain [] w = Some w"
| "destroy_chain (e # es) w = do {
     w1 \<leftarrow> free_struct w; w2 \<leftarrow> free_struct w1; w3 \<leftarrow> free_struct w2;
     destroy_chain es w3
   }"

primrec destroy_buckets :: "'v ten_map_entry list list \<Rightarrow> ten_world \<Rightarrow> ten_world option" where
  "destroy_buckets [] w = Some w"
| "destroy_buckets (c # cs) w = do { w1 \<leftarrow> destroy_chain c w; destroy_buckets cs w1 }"

definition ten_map_destroy :: "'v ten_map option \<Rightarrow> ten_world \<Rightarrow> ten_world option" where
  "ten_map_destroy mp w =
     (case mp of
        None \<Rightarrow> Some w
      | Some m \<Rightarrow> do {
          w1 \<leftarrow> destroy_buckets (buckets m) w;
          w2 \<leftarrow> free_struct w1;
          free_struct w2
        })"

section \<open>Update, lookup, removal\<close>

text \<open>\<open>memcpy\<close> into the value of the entry found: the first match of the chain.\<close>

primrec chain_store :: "'v ten_map \<Rightarrow> size_t \<Rightarrow> ten_key \<Rightarrow> 'v \<Rightarrow> 'v ten_map_entry list \<Rightarrow> 'v ten_map_entry list" where
  "chain_store m hash key v [] = []"
| "chain_store m hash key v (e # es) =
     (if e_hash e = hash \<and> ten__map_key_equals m (e_key e) key
      then Entry (e_hash e) (e_key e) v # es
      else e # chain_store m hash key v es)"

definition with_bucket :: "'v ten_map \<Rightarrow> nat \<Rightarrow> 'v ten_map_entry list \<Rightarrow> size_t \<Rightarrow> 'v ten_map" where
  "with_bucket m bucket chain count =
     Ten_Map (key_type m) (value_type m) (key_size m) (value_size m)
       ((buckets m)[bucket := chain]) (bucket_count m) count"

definition map_link ::
    "'v ten_map \<Rightarrow> ten_key \<Rightarrow> 'v \<Rightarrow> ten_world \<Rightarrow>
     (ten_error_code \<times> 'v ten_map option \<times> ten_world) option" where
  "map_link m key v w =
     (let (entry, w1) = ten_malloc sizeof_ten_map_entry w
      in if is_Null entry then Some (TEN_ERROR_OUT_OF_MEMORY, Some m, w1)
         else
           let (entry_key, w2) = ten_malloc (key_size m) w1
           in if is_Null entry_key
              then do { w3 \<leftarrow> ten_free entry w2; Some (TEN_ERROR_OUT_OF_MEMORY, Some m, w3) }
              else
                let (entry_value, w3) = ten_malloc (value_size m) w2
                in if is_Null entry_value
                   then do {
                     w4 \<leftarrow> ten_free entry_key w3; w5 \<leftarrow> ten_free entry w4;
                     Some (TEN_ERROR_OUT_OF_MEMORY, Some m, w5)
                   }
                   else
                     let hash = ten__map_hash m key; bucket = unat (hash mod bucket_count m)
                     in do {
                       chain \<leftarrow> array_at (buckets m) bucket;
                       Some (TEN_OK,
                             Some (with_bucket m bucket (Entry hash key v # chain) (m_count m + 1)),
                             ten__set_error TEN_OK w3)
                     })"

definition ten_map_set ::
    "'v ten_map option \<Rightarrow> ten_key option \<Rightarrow> 'v option \<Rightarrow> ten_world \<Rightarrow>
     (ten_error_code \<times> 'v ten_map option \<times> ten_world) option" where
  "ten_map_set mp key value w =
     (case (mp, key, value) of
        (Some m, Some k, Some v) \<Rightarrow> do {
          found \<leftarrow> ten__map_find m k;
          (case found of
             Some entry \<Rightarrow>
               let hash = ten__map_hash m k; bucket = unat (hash mod bucket_count m)
               in do {
                 chain \<leftarrow> array_at (buckets m) bucket;
                 Some (TEN_OK,
                       Some (with_bucket m bucket (chain_store m hash k v chain) (m_count m)),
                       ten__set_error TEN_OK w)
               }
           | None \<Rightarrow> do {
               (rc, m1, w1) \<leftarrow>
                 (if m_count m + 1 > (bucket_count m * 3) div 4
                  then ten__map_rehash m (bucket_count m * 2) w else Some (TEN_OK, m, w));
               if rc \<noteq> TEN_OK then Some (rc, Some m1, ten__set_error rc w1)
               else map_link m1 k v w1
             })
        }
      | _ \<Rightarrow> Some (TEN_ERROR_NULL_ARGUMENT, mp, ten__set_error TEN_ERROR_NULL_ARGUMENT w))"

definition ten_map_get ::
    "'v ten_map option \<Rightarrow> ten_key option \<Rightarrow> ten_world \<Rightarrow> ('v option \<times> ten_world) option" where
  "ten_map_get mp key w =
     (case (mp, key) of
        (Some m, Some k) \<Rightarrow> do {
          found \<leftarrow> ten__map_find m k;
          (case found of
             None \<Rightarrow> Some (None, ten__set_error TEN_ERROR_NOT_FOUND w)
           | Some entry \<Rightarrow> Some (Some (e_value entry), ten__set_error TEN_OK w))
        }
      | _ \<Rightarrow> Some (None, ten__set_error TEN_ERROR_NULL_ARGUMENT w))"

text \<open>Unlinking the first match: the result says whether there was one.\<close>

primrec chain_remove :: "'v ten_map \<Rightarrow> size_t \<Rightarrow> ten_key \<Rightarrow> 'v ten_map_entry list \<Rightarrow> 'v ten_map_entry list option" where
  "chain_remove m hash key [] = None"
| "chain_remove m hash key (e # es) =
     (if e_hash e = hash \<and> ten__map_key_equals m (e_key e) key then Some es
      else map_option ((#) e) (chain_remove m hash key es))"

definition ten_map_remove ::
    "'v ten_map option \<Rightarrow> ten_key option \<Rightarrow> ten_world \<Rightarrow>
     (ten_error_code \<times> 'v ten_map option \<times> ten_world) option" where
  "ten_map_remove mp key w =
     (case (mp, key) of
        (Some m, Some k) \<Rightarrow>
          let hash = ten__map_hash m k; bucket = unat (hash mod bucket_count m)
          in do {
            chain \<leftarrow> array_at (buckets m) bucket;
            (case chain_remove m hash k chain of
               None \<Rightarrow> Some (TEN_ERROR_NOT_FOUND, mp, ten__set_error TEN_ERROR_NOT_FOUND w)
             | Some rest \<Rightarrow> do {
                 w1 \<leftarrow> free_struct w; w2 \<leftarrow> free_struct w1; w3 \<leftarrow> free_struct w2;
                 Some (TEN_OK, Some (with_bucket m bucket rest (m_count m - 1)),
                       ten__set_error TEN_OK w3)
               })
          }
      | _ \<Rightarrow> Some (TEN_ERROR_NULL_ARGUMENT, mp, ten__set_error TEN_ERROR_NULL_ARGUMENT w))"

definition ten_map_contains ::
    "'v ten_map option \<Rightarrow> ten_key option \<Rightarrow> ten_world \<Rightarrow> (bool \<times> ten_world) option" where
  "ten_map_contains mp key w =
     (case (mp, key) of
        (Some m, Some k) \<Rightarrow> do {
          found \<leftarrow> ten__map_find m k;
          Some (found \<noteq> None, ten__set_error TEN_OK w)
        }
      | _ \<Rightarrow> Some (False, ten__set_error TEN_ERROR_NULL_ARGUMENT w))"

definition ten_map_count :: "'v ten_map option \<Rightarrow> ten_world \<Rightarrow> size_t \<times> ten_world" where
  "ten_map_count mp w =
     (case mp of
        None \<Rightarrow> (0, ten__set_error TEN_ERROR_NULL_ARGUMENT w)
      | Some m \<Rightarrow> (m_count m, ten__set_error TEN_OK w))"

section \<open>Invariant and abstraction\<close>

definition key_view :: "ten_type \<Rightarrow> ten_key \<Rightarrow> byte list" where
  "key_view kt k = (if kt = TEN_TYPE_STRING then obj_cstr k else obj_bytes k)"

definition entry_pair :: "ten_type \<Rightarrow> 'v ten_map_entry \<Rightarrow> byte list \<times> 'v" where
  "entry_pair kt e = (key_view kt (e_key e), e_value e)"

definition map_abs :: "'v ten_map \<Rightarrow> byte list \<rightharpoonup> 'v" where
  "map_abs m = map_of (map (entry_pair (key_type m)) (concat (buckets m)))"

definition home :: "size_t \<Rightarrow> byte list \<Rightarrow> nat" where
  "home n v = unat (ten__fnv1a v mod n)"

definition chain_ok :: "ten_type \<Rightarrow> size_t \<Rightarrow> nat \<Rightarrow> 'v ten_map_entry list \<Rightarrow> bool" where
  "chain_ok kt n i c \<longleftrightarrow>
     (\<forall>e \<in> set c. e_hash e = ten__fnv1a (key_view kt (e_key e)) \<and> home n (key_view kt (e_key e)) = i) \<and>
     distinct (map (\<lambda>e. key_view kt (e_key e)) c)"

definition buckets_ok :: "ten_type \<Rightarrow> size_t \<Rightarrow> 'v ten_map_entry list list \<Rightarrow> bool" where
  "buckets_ok kt n bs \<longleftrightarrow>
     0 < unat n \<and> length bs = unat n \<and> (\<forall>i < unat n. chain_ok kt n i (bs ! i))"

definition map_inv :: "'v ten_map \<Rightarrow> bool" where
  "map_inv m \<longleftrightarrow>
     key_type m \<noteq> TEN_TYPE_VOID \<and> value_type m \<noteq> TEN_TYPE_VOID \<and>
     key_size m = ten__type_size (key_type m) \<and> value_size m = ten__type_size (value_type m) \<and>
     buckets_ok (key_type m) (bucket_count m) (buckets m) \<and>
     unat (bucket_count m) * 8 < 2 ^ 63 \<and>
     unat (m_count m) = length (concat (buckets m)) \<and>
     unat (m_count m) \<le> unat (bucket_count m) * 3 div 4"

definition map_owned :: "'v ten_map \<Rightarrow> int" where
  "map_owned m = 2 + 3 * int (length (concat (buckets m)))"

lemma entry_pair_sel [simp]:
  "fst (entry_pair kt e) = key_view kt (e_key e)" "snd (entry_pair kt e) = e_value e"
  by (simp_all add: entry_pair_def)

lemma map_hash_view: "ten__map_hash m k = ten__fnv1a (key_view (key_type m) k)"
  by (simp add: ten__map_hash_def key_view_def)

lemma key_equals_view:
  "ten__map_key_equals m a b \<longleftrightarrow> key_view (key_type m) a = key_view (key_type m) b"
  by (simp add: ten__map_key_equals_def key_view_def)

lemma home_less: "0 < unat n \<Longrightarrow> home n v < unat n"
  by (simp add: home_def unat_mod_distrib)

lemma destroy_chain_eq [simp]:
  "destroy_chain c w = Some (w\<lparr>live := live w - 3 * int (length c)\<rparr>)"
  by (induction c arbitrary: w) auto

lemma destroy_buckets_eq [simp]:
  "destroy_buckets bs w = Some (w\<lparr>live := live w - 3 * int (length (concat bs))\<rparr>)"
  by (induction bs arbitrary: w) (auto simp: algebra_simps)

lemma map_destroy_spec:
  "ten_map_destroy (Some m) w = Some (w\<lparr>live := live w - map_owned m\<rparr>)"
  by (simp add: ten_map_destroy_def map_owned_def algebra_simps)

section \<open>Chains\<close>

lemma chain_ok_Cons:
  "chain_ok kt n i (e # c) \<longleftrightarrow>
     e_hash e = ten__fnv1a (key_view kt (e_key e)) \<and> home n (key_view kt (e_key e)) = i \<and>
     key_view kt (e_key e) \<notin> (\<lambda>e. key_view kt (e_key e)) ` set c \<and> chain_ok kt n i c"
  by (auto simp: chain_ok_def)

lemma chain_find_eq:
  "chain_ok (key_type m) n i c \<Longrightarrow>
   chain_find m (ten__map_hash m key) key c =
     find (\<lambda>e. key_view (key_type m) (e_key e) = key_view (key_type m) key) c"
  by (induction c) (auto simp: chain_ok_Cons map_hash_view key_equals_view)

lemma chain_store_eq:
  "chain_ok (key_type m) n i c \<Longrightarrow>
   chain_store m (ten__map_hash m key) key v c =
     map (\<lambda>e. if key_view (key_type m) (e_key e) = key_view (key_type m) key
              then Entry (e_hash e) (e_key e) v else e) c"
proof (induction c)
  case (Cons e c)
  have "map (\<lambda>e. if key_view (key_type m) (e_key e) = key_view (key_type m) key
              then Entry (e_hash e) (e_key e) v else e) c = c"
    if "key_view (key_type m) (e_key e) = key_view (key_type m) key"
    using Cons.prems that by (intro map_idI) (force simp: chain_ok_Cons)
  with Cons show ?case
    by (auto simp: chain_ok_Cons map_hash_view key_equals_view)
qed simp

lemma chain_remove_eq:
  "chain_ok (key_type m) n i c \<Longrightarrow>
   chain_remove m (ten__map_hash m key) key c =
     (if key_view (key_type m) key \<in> (\<lambda>e. key_view (key_type m) (e_key e)) ` set c
      then Some (filter (\<lambda>e. key_view (key_type m) (e_key e) \<noteq> key_view (key_type m) key) c)
      else None)"
proof (induction c)
  case (Cons e c)
  have "filter (\<lambda>e. key_view (key_type m) (e_key e) \<noteq> key_view (key_type m) key) c = c"
    if "key_view (key_type m) (e_key e) = key_view (key_type m) key"
    using Cons.prems that by (intro filter_True) (force simp: chain_ok_Cons)
  with Cons show ?case
    by (auto simp: chain_ok_Cons map_hash_view key_equals_view)
qed simp

lemma chain_pairs_distinct:
  "chain_ok kt n i c \<Longrightarrow> distinct (map fst (map (entry_pair kt) c))"
  by (simp add: chain_ok_def entry_pair_def o_def)

lemma map_of_map_SomeD:
  assumes "map_of (map f xs) k = Some v"
  shows "\<exists>e \<in> set xs. f e = (k, v)"
proof -
  have "(k, v) \<in> set (map f xs)"
    using assms by (rule map_of_SomeD)
  then show ?thesis by (auto simp: image_iff)
qed

lemma chain_lookup_iff:
  "chain_ok kt n i c \<Longrightarrow>
   map_of (map (entry_pair kt) c) k = Some v \<longleftrightarrow> (\<exists>e \<in> set c. entry_pair kt e = (k, v))"
  by (subst map_of_eq_Some_iff [OF chain_pairs_distinct]) (auto simp: image_iff eq_commute)

section \<open>From chains to the whole table\<close>

lemma bucket_of_entry:
  assumes "buckets_ok kt n bs" "e \<in> set (concat bs)"
  shows "e \<in> set (bs ! home n (key_view kt (e_key e)))"
  using assms by (fastforce simp: buckets_ok_def chain_ok_def in_set_conv_nth [of _ bs])

lemma home_chain_ok:
  "buckets_ok kt n bs \<Longrightarrow> chain_ok kt n (home n k) (bs ! home n k)"
  by (simp add: buckets_ok_def home_less)

lemma home_in_set: "buckets_ok kt n bs \<Longrightarrow> bs ! home n k \<in> set bs"
  by (simp add: buckets_ok_def home_less)

lemma table_lookup_home:
  assumes ok: "buckets_ok kt n bs"
  shows "map_of (map (entry_pair kt) (concat bs)) k = map_of (map (entry_pair kt) (bs ! home n k)) k"
proof -
  have chain: "map_of (map (entry_pair kt) (bs ! home n k)) k = Some v \<longleftrightarrow>
      (\<exists>e \<in> set (bs ! home n k). entry_pair kt e = (k, v))" for v
    using home_chain_ok [OF ok] by (rule chain_lookup_iff)
  show ?thesis
  proof (cases "map_of (map (entry_pair kt) (concat bs)) k")
    case None
    then have "k \<notin> fst ` entry_pair kt ` set (concat bs)"
      by (simp add: map_of_eq_None_iff)
    then have "k \<notin> fst ` entry_pair kt ` set (bs ! home n k)"
      using home_in_set [OF ok, of k] by auto
    then have "map_of (map (entry_pair kt) (bs ! home n k)) k = None"
      by (simp add: map_of_eq_None_iff)
    with None show ?thesis by simp
  next
    case (Some v)
    then obtain e where e: "e \<in> set (concat bs)" "entry_pair kt e = (k, v)"
      using map_of_map_SomeD by metis
    then have "e \<in> set (bs ! home n k)"
      using bucket_of_entry [OF ok e(1)] by (simp add: entry_pair_def)
    then have "map_of (map (entry_pair kt) (bs ! home n k)) k = Some v"
      using e chain by blast
    with Some show ?thesis by simp
  qed
qed

lemma table_lookup_iff:
  assumes ok: "buckets_ok kt n bs"
  shows "map_of (map (entry_pair kt) (concat bs)) k = Some v \<longleftrightarrow>
    (\<exists>e \<in> set (concat bs). entry_pair kt e = (k, v))"
proof
  assume "map_of (map (entry_pair kt) (concat bs)) k = Some v"
  then show "\<exists>e \<in> set (concat bs). entry_pair kt e = (k, v)"
    by (rule map_of_map_SomeD)
next
  assume "\<exists>e \<in> set (concat bs). entry_pair kt e = (k, v)"
  then obtain e where e: "e \<in> set (concat bs)" "entry_pair kt e = (k, v)" by blast
  then have "e \<in> set (bs ! home n k)"
    using bucket_of_entry [OF ok e(1)] by (simp add: entry_pair_def)
  with e(2) show "map_of (map (entry_pair kt) (concat bs)) k = Some v"
    unfolding table_lookup_home [OF ok] using chain_lookup_iff [OF home_chain_ok [OF ok]] by blast
qed

lemma buckets_ok_update:
  "buckets_ok kt n bs \<Longrightarrow> chain_ok kt n i c \<Longrightarrow> buckets_ok kt n (bs[i := c])"
  unfolding buckets_ok_def by (metis length_list_update nth_list_update_eq nth_list_update_neq)

lemma length_concat_update:
  "i < length bs \<Longrightarrow>
   length (concat (bs[i := c])) + length (bs ! i) = length (concat bs) + length c"
proof (induction bs arbitrary: i)
  case (Cons b bs)
  then show ?case by (cases i) auto
qed simp

lemma table_update_lookup:
  assumes ok: "buckets_ok kt n bs" and c: "chain_ok kt n i c"
  shows "map_of (map (entry_pair kt) (concat (bs[i := c]))) k =
    (if home n k = i then map_of (map (entry_pair kt) c) k
     else map_of (map (entry_pair kt) (concat bs)) k)"
proof -
  have "home n k < length bs"
    using ok by (simp add: buckets_ok_def home_less)
  then show ?thesis
    unfolding table_lookup_home [OF ok] table_lookup_home [OF buckets_ok_update [OF ok c]]
    by (simp add: nth_list_update)
qed

lemma table_views_distinct:
  assumes ok: "buckets_ok kt n bs"
  shows "distinct (map (\<lambda>e. key_view kt (e_key e)) (concat bs))"
proof -
  let ?v = "\<lambda>e. key_view kt (e_key e)"
  have "j \<le> unat n \<Longrightarrow> distinct (map ?v (concat (take j bs))) \<and>
      (\<forall>e \<in> set (concat (take j bs)). home n (?v e) < j)" for j
  proof (induction j)
    case (Suc j)
    then have j: "j < length bs" "chain_ok kt n j (bs ! j)"
      using ok by (auto simp: buckets_ok_def)
    have disj: "?v ` set (bs ! j) \<inter> ?v ` set (concat (take j bs)) = {}"
      using Suc j(2) by (force simp: chain_ok_def)
    show ?case
      using Suc j disj by (auto simp: take_Suc_conv_app_nth chain_ok_def less_SucI)
  qed simp
  from this [of "unat n"] show ?thesis
    using ok by (simp add: buckets_ok_def)
qed

section \<open>Rehashing\<close>

lemma rehash_chain_append:
  "rehash_chain n (xs @ ys) nb = do { nb1 \<leftarrow> rehash_chain n xs nb; rehash_chain n ys nb1 }"
  by (induction xs arbitrary: nb) (auto simp: Let_def)

lemma rehash_buckets_chain: "rehash_buckets n bs nb = rehash_chain n (concat bs) nb"
  by (induction bs arbitrary: nb) (auto simp: rehash_chain_append)

lemma rehash_chain_spec:
  assumes "buckets_ok kt n nb"
    and "\<forall>e \<in> set es. e_hash e = ten__fnv1a (key_view kt (e_key e))"
    and "distinct (map (\<lambda>e. key_view kt (e_key e)) es)"
    and "(\<lambda>e. key_view kt (e_key e)) ` set es \<inter> (\<lambda>e. key_view kt (e_key e)) ` set (concat nb) = {}"
  shows "\<exists>nb'. rehash_chain n es nb = Some nb' \<and> buckets_ok kt n nb' \<and>
    set (concat nb') = set es \<union> set (concat nb) \<and>
    length (concat nb') = length es + length (concat nb)"
  using assms
proof (induction es arbitrary: nb)
  case (Cons e es)
  let ?v = "\<lambda>e. key_view kt (e_key e)"
  let ?i = "home n (?v e)"
  let ?nb = "nb[?i := e # nb ! ?i]"
  have i: "?i < length nb"
    using Cons.prems(1) by (simp add: buckets_ok_def home_less)
  have slot: "unat (e_hash e mod n) = ?i"
    using Cons.prems(2) by (simp add: home_def)
  have fresh: "?v e \<notin> ?v ` set (nb ! ?i)"
    using Cons.prems(4) i by fastforce
  then have ok: "buckets_ok kt n ?nb"
    using Cons.prems home_chain_ok [OF Cons.prems(1), of "?v e"]
    by (intro buckets_ok_update) (simp_all add: chain_ok_Cons)
  have set_nb: "set (concat ?nb) = insert e (set (concat nb))"
    using i by (auto simp: set_conv_nth [of "nb[_ := _]"] set_conv_nth [of nb] nth_list_update
        split: if_splits) (metis nth_list_update_eq nth_list_update_neq list.set_intros)+
  have len: "length (concat ?nb) = Suc (length (concat nb))"
    using length_concat_update [OF i, of "e # nb ! ?i"] by simp
  have disj: "?v ` set es \<inter> ?v ` set (concat ?nb) = {}"
    unfolding set_nb using Cons.prems(3,4) by auto
  from Cons.IH [OF ok _ _ disj] Cons.prems obtain nb' where
    "rehash_chain n es ?nb = Some nb'" "buckets_ok kt n nb'"
    "set (concat nb') = set es \<union> set (concat ?nb)"
    "length (concat nb') = length es + length (concat ?nb)"
    by auto
  then show ?case
    using i unfolding set_nb len by (auto simp: slot array_at_def)
qed auto

section \<open>The operations on represented maps\<close>

lemma map_inv_table: "map_inv m \<Longrightarrow> buckets_ok (key_type m) (bucket_count m) (buckets m)"
  by (simp add: map_inv_def)

lemma map_abs_home:
  "map_inv m \<Longrightarrow> map_abs m k =
     map_of (map (entry_pair (key_type m)) (buckets m ! home (bucket_count m) k)) k"
  unfolding map_abs_def by (rule table_lookup_home) (rule map_inv_table)

lemma home_bucket:
  assumes "map_inv m"
  shows "array_at (buckets m) (unat (ten__map_hash m k mod bucket_count m)) =
      Some (buckets m ! home (bucket_count m) (key_view (key_type m) k))"
    "unat (ten__map_hash m k mod bucket_count m) = home (bucket_count m) (key_view (key_type m) k)"
proof -
  have "home (bucket_count m) (key_view (key_type m) k) < length (buckets m)"
    using map_inv_table [OF assms] by (simp add: buckets_ok_def home_less)
  then show "array_at (buckets m) (unat (ten__map_hash m k mod bucket_count m)) =
      Some (buckets m ! home (bucket_count m) (key_view (key_type m) k))"
    by (simp add: array_at_def map_hash_view home_def)
  show "unat (ten__map_hash m k mod bucket_count m) = home (bucket_count m) (key_view (key_type m) k)"
    by (simp add: map_hash_view home_def)
qed

lemma find_value:
  "map_option e_value (find (\<lambda>e. key_view kt (e_key e) = k) c) = map_of (map (entry_pair kt) c) k"
  by (induction c) (auto simp: entry_pair_def)

lemma map_find_spec:
  assumes "map_inv m"
  shows "\<exists>r. ten__map_find m k = Some r \<and>
    map_abs m (key_view (key_type m) k) = map_option e_value r"
  using chain_find_eq [OF home_chain_ok [OF map_inv_table [OF assms]]]
  by (simp add: ten__map_find_def home_bucket(1) [OF assms] map_abs_home [OF assms] find_value)

lemma map_get_spec:
  assumes "map_inv m"
  shows "ten_map_get (Some m) (Some k) w =
    (case map_abs m (key_view (key_type m) k) of
       None \<Rightarrow> Some (None, ten__set_error TEN_ERROR_NOT_FOUND w)
     | Some v \<Rightarrow> Some (Some v, ten__set_error TEN_OK w))"
proof -
  obtain r where "ten__map_find m k = Some r"
    "map_abs m (key_view (key_type m) k) = map_option e_value r"
    using map_find_spec [OF assms] by blast
  then show ?thesis by (cases r) (auto simp: ten_map_get_def)
qed

lemma map_contains_spec:
  assumes "map_inv m"
  shows "ten_map_contains (Some m) (Some k) w =
    Some (key_view (key_type m) k \<in> dom (map_abs m), ten__set_error TEN_OK w)"
proof -
  obtain r where "ten__map_find m k = Some r"
    "map_abs m (key_view (key_type m) k) = map_option e_value r"
    using map_find_spec [OF assms] by blast
  then show ?thesis by (cases r) (auto simp: ten_map_contains_def)
qed

lemma map_create_spec:
  assumes "kt \<noteq> TEN_TYPE_VOID" "vt \<noteq> TEN_TYPE_VOID"
  shows "(\<exists>m w'. ten_map_create kt vt w = Some (Some (m :: 'v ten_map), w') \<and> map_inv m \<and> map_abs m = Map.empty \<and>
            key_type m = kt \<and> g_ten_last_error w' = TEN_OK \<and> refusals w' = refusals w \<and> live w' - map_owned m = live w) \<or>
         (\<exists>w'. ten_map_create kt vt w = Some (None :: 'v ten_map option, w') \<and>
            g_ten_last_error w' = TEN_ERROR_OUT_OF_MEMORY \<and> refusals w < refusals w' \<and> live w' = live w)"
proof (cases rule: ten_malloc_cases [where n = sizeof_ten_map and w = w])
  case (granted w1)
  have inv: "map_inv (Ten_Map kt vt (ten__type_size kt) (ten__type_size vt) (replicate 16 []) 16 0)"
    using assms by (simp add: map_inv_def buckets_ok_def chain_ok_def)
  show ?thesis
  proof (cases rule: ten_calloc_cases [where n = 16 and s = sizeof_pointer and w = w1])
    case (granted w2)
    with \<open>ten_malloc sizeof_ten_map w = _\<close> \<open>live w1 = _\<close> \<open>refusals w1 = _\<close> inv show ?thesis
      using assms by (auto simp: ten_map_create_def map_abs_def map_owned_def)
  next
    case (refused w2)
    with \<open>ten_malloc sizeof_ten_map w = _\<close> \<open>live w1 = _\<close> \<open>refusals w1 = _\<close> show ?thesis
      using assms by (auto simp: ten_map_create_def ten_free_def)
  qed
next
  case (refused w1)
  then show ?thesis using assms by (simp add: ten_map_create_def)
qed

lemma map_rehash_spec:
  assumes inv: "map_inv m"
  shows "(\<exists>m' w'. ten__map_rehash m (bucket_count m * 2) w = Some (TEN_OK, m', w') \<and> map_inv m' \<and>
            map_abs m' = map_abs m \<and> key_type m' = key_type m \<and> m_count m' = m_count m \<and>
            unat (bucket_count m') = 2 * unat (bucket_count m) \<and> refusals w' = refusals w \<and>
            live w' - map_owned m' = live w - map_owned m) \<or>
         (\<exists>w'. ten__map_rehash m (bucket_count m * 2) w = Some (TEN_ERROR_OUT_OF_MEMORY, m, w') \<and>
            refusals w < refusals w' \<and> live w' = live w)"
proof -
  let ?n = "bucket_count m * 2" and ?kt = "key_type m"
  have n: "unat ?n = 2 * unat (bucket_count m)"
    using inv by (subst unat_mult_size) (auto simp: map_inv_def)
  show ?thesis
  proof (cases rule: ten_calloc_cases [where n = ?n and s = sizeof_pointer and w = w])
    case (granted w1)
    let ?nb = "replicate (unat ?n) [] :: 'a ten_map_entry list list"
    note ok = map_inv_table [OF inv]
    have empty: "buckets_ok ?kt ?n ?nb"
      using ok n by (simp add: buckets_ok_def chain_ok_def)
    have hashes: "\<forall>e \<in> set (concat (buckets m)). e_hash e = ten__fnv1a (key_view ?kt (e_key e))"
      using bucket_of_entry [OF ok] home_chain_ok [OF ok] unfolding chain_ok_def by blast
    obtain nb' where nb': "rehash_buckets ?n (buckets m) ?nb = Some nb'"
      "buckets_ok ?kt ?n nb'" "set (concat nb') = set (concat (buckets m))"
      "length (concat nb') = length (concat (buckets m))"
      using rehash_chain_spec [OF empty hashes table_views_distinct [OF ok]]
      by (auto simp: rehash_buckets_chain)
    let ?m = "Ten_Map ?kt (value_type m) (key_size m) (value_size m) nb' ?n (m_count m)"
    have "ten__map_rehash m ?n w = Some (TEN_OK, ?m, w1\<lparr>live := live w1 - 1\<rparr>)"
      using granted nb' by (simp add: ten__map_rehash_def)
    moreover have "map_inv ?m"
      using inv nb' granted(3) n by (auto simp: map_inv_def sizeof_pointer_def)
    moreover have "map_abs ?m = map_abs m"
    proof
      fix k
      show "map_abs ?m k = map_abs m k"
        using table_lookup_iff [OF ok, of k] table_lookup_iff [OF nb'(2), of k] nb'(3)
        unfolding map_abs_def by (metis ten_map.sel(1) ten_map.sel(5) not_None_eq)
    qed
    ultimately show ?thesis
      using granted(5,6) nb'(4) n by (auto simp: map_owned_def)
  next
    case (refused w1)
    then show ?thesis by (simp add: ten__map_rehash_def)
  qed
qed

lemma with_bucket_inv:
  assumes inv: "map_inv m" and chain: "chain_ok (key_type m) (bucket_count m) i c"
    and i: "i < unat (bucket_count m)"
    and count: "unat n + length (buckets m ! i) = unat (m_count m) + length c"
    and load: "unat n \<le> unat (bucket_count m) * 3 div 4"
  shows "map_inv (with_bucket m i c n)"
    "map_abs (with_bucket m i c n) k =
       (if home (bucket_count m) k = i then map_of (map (entry_pair (key_type m)) c) k else map_abs m k)"
    "map_owned (with_bucket m i c n) = map_owned m + 3 * (int (length c) - int (length (buckets m ! i)))"
proof -
  note ok = map_inv_table [OF inv]
  have "length (concat ((buckets m)[i := c])) + length (buckets m ! i) =
      length (concat (buckets m)) + length c"
    using i ok by (intro length_concat_update) (simp add: buckets_ok_def)
  then show "map_inv (with_bucket m i c n)"
    "map_owned (with_bucket m i c n) = map_owned m + 3 * (int (length c) - int (length (buckets m ! i)))"
    using inv buckets_ok_update [OF ok chain] count load
    by (auto simp: map_inv_def with_bucket_def map_owned_def)
  show "map_abs (with_bucket m i c n) k =
       (if home (bucket_count m) k = i then map_of (map (entry_pair (key_type m)) c) k else map_abs m k)"
    using table_update_lookup [OF ok chain] by (simp add: map_abs_def with_bucket_def)
qed


lemma map_link_spec:
  assumes inv: "map_inv m" and new: "map_abs m (key_view (key_type m) k) = None"
    and room: "unat (m_count m) + 1 \<le> unat (bucket_count m) * 3 div 4"
  shows "(\<exists>m' w'. map_link m k v w = Some (TEN_OK, Some m', w') \<and> map_inv m' \<and>
            map_abs m' = (map_abs m)(key_view (key_type m) k \<mapsto> v) \<and> key_type m' = key_type m \<and>
            g_ten_last_error w' = TEN_OK \<and> refusals w' = refusals w \<and> live w' - map_owned m' = live w - map_owned m) \<or>
         (\<exists>w'. map_link m k v w = Some (TEN_ERROR_OUT_OF_MEMORY, Some m, w') \<and>
            g_ten_last_error w' = TEN_ERROR_OUT_OF_MEMORY \<and> refusals w < refusals w' \<and> live w' = live w)"
proof (cases rule: ten_malloc_cases [where n = sizeof_ten_map_entry and w = w])
  case (granted w1)
  note m1 = granted
  let ?k = "key_view (key_type m) k"
  let ?i = "home (bucket_count m) ?k"
  let ?c = "Entry (ten__map_hash m k) k v # buckets m ! ?i"
  let ?m = "with_bucket m ?i ?c (m_count m + 1)"
  note ok = map_inv_table [OF inv]
  have fresh: "?k \<notin> (\<lambda>e. key_view (key_type m) (e_key e)) ` set (buckets m ! ?i)"
    using new by (force simp: map_abs_home [OF inv] map_of_eq_None_iff entry_pair_def)
  have chain: "chain_ok (key_type m) (bucket_count m) ?i ?c"
    using fresh home_chain_ok [OF ok, of ?k] by (simp add: chain_ok_Cons map_hash_view)
  have i: "?i < unat (bucket_count m)"
    using ok by (simp add: buckets_ok_def home_less)
  have "unat (bucket_count m) * 8 < 2 ^ 63"
    using inv by (simp add: map_inv_def)
  with room have cnt: "unat (m_count m + 1) = unat (m_count m) + 1"
    by (subst unat_add_size) auto
  have upd: "map_inv ?m" "map_owned ?m = map_owned m + 3"
      "map_abs ?m k' = (if home (bucket_count m) k' = ?i
         then map_of (map (entry_pair (key_type m)) ?c) k' else map_abs m k')" for k'
    using with_bucket_inv [OF inv chain i] cnt room by simp_all
  have abs: "map_abs ?m = (map_abs m)(?k \<mapsto> v)"
    by (rule ext) (auto simp: upd(3) map_abs_home [OF inv] entry_pair_def)
  show ?thesis
  proof (cases rule: ten_malloc_cases [where n = "key_size m" and w = w1])
    case (granted w2)
    note m2 = granted
    show ?thesis
    proof (cases rule: ten_malloc_cases [where n = "value_size m" and w = w2])
      case (granted w3)
      then have "map_link m k v w = Some (TEN_OK, Some ?m, ten__set_error TEN_OK w3)"
        using m1(2) m2(2) home_bucket [OF inv, of k] by (simp add: map_link_def Let_def)
      then show ?thesis
        using upd(1,2) abs granted(5,6) m1(5,6) m2(5,6) by (auto simp: with_bucket_def)
    next
      case (refused w3)
      then show ?thesis
        using m1 m2 by (auto simp: map_link_def ten_free_def)
    qed
  next
    case (refused w2)
    then show ?thesis using m1 by (auto simp: map_link_def ten_free_def)
  qed
next
  case (refused w1)
  then show ?thesis by (auto simp: map_link_def)
qed

lemma map_store_spec:
  assumes inv: "map_inv m" and old: "map_abs m (key_view (key_type m) k) = Some u"
  shows "\<exists>m'. ten_map_set (Some m) (Some k) (Some v) w = Some (TEN_OK, Some m', ten__set_error TEN_OK w) \<and>
    map_inv m' \<and> map_abs m' = (map_abs m)(key_view (key_type m) k \<mapsto> v) \<and>
    key_type m' = key_type m \<and> map_owned m' = map_owned m"
proof -
  let ?k = "key_view (key_type m) k"
  let ?i = "home (bucket_count m) ?k"
  let ?b = "buckets m ! ?i"
  let ?c = "chain_store m (ten__map_hash m k) k v ?b"
  let ?m = "with_bucket m ?i ?c (m_count m)"
  note ok = map_inv_table [OF inv]
  note chain = home_chain_ok [OF ok, of ?k]
  have eq: "?c = map (\<lambda>e. if key_view (key_type m) (e_key e) = ?k
              then Entry (e_hash e) (e_key e) v else e) ?b"
    using chain by (rule chain_store_eq)
  have views: "map (\<lambda>e. key_view (key_type m) (e_key e)) ?c = map (\<lambda>e. key_view (key_type m) (e_key e)) ?b"
    by (simp add: eq o_def if_distrib cong: if_cong)
  have c: "chain_ok (key_type m) (bucket_count m) ?i ?c"
    using chain unfolding chain_ok_def views by (auto simp: eq)
  have i: "?i < unat (bucket_count m)"
    using ok by (simp add: buckets_ok_def home_less)
  have upd: "map_inv ?m" "map_owned ?m = map_owned m"
      "map_abs ?m k' = (if home (bucket_count m) k' = ?i
         then map_of (map (entry_pair (key_type m)) ?c) k' else map_abs m k')" for k'
    using with_bucket_inv [OF inv c i, of "m_count m"] inv by (simp_all add: eq map_inv_def)
  have lookup: "map_of (map (entry_pair kt) (map (\<lambda>e. if key_view kt (e_key e) = x
        then Entry (e_hash e) (e_key e) v else e) es)) y =
      (if y = x \<and> map_of (map (entry_pair kt) es) x \<noteq> None then Some v
       else map_of (map (entry_pair kt) es) y)" for kt x y and es :: "'a ten_map_entry list"
    by (induction es) (auto simp del: map_map)
  have abs: "map_abs ?m = (map_abs m)(?k \<mapsto> v)"
    using old by (intro ext, unfold upd(3)) (auto simp: eq lookup map_abs_home [OF inv] simp del: map_map)
  obtain e where "ten__map_find m k = Some (Some e)"
    using map_find_spec [OF inv, of k] old by (metis map_option_eq_Some)
  then have "ten_map_set (Some m) (Some k) (Some v) w = Some (TEN_OK, Some ?m, ten__set_error TEN_OK w)"
    using home_bucket [OF inv, of k] by (simp add: ten_map_set_def Let_def)
  with upd(1,2) abs show ?thesis by (auto simp: with_bucket_def)
qed

lemma map_set_spec:
  assumes inv: "map_inv m"
  shows "(\<exists>m' w'. ten_map_set (Some m) (Some k) (Some v) w = Some (TEN_OK, Some m', w') \<and> map_inv m' \<and>
            map_abs m' = (map_abs m)(key_view (key_type m) k \<mapsto> v) \<and> key_type m' = key_type m \<and>
            g_ten_last_error w' = TEN_OK \<and> refusals w' = refusals w \<and> live w' - map_owned m' = live w - map_owned m) \<or>
         (\<exists>m' w'. ten_map_set (Some m) (Some k) (Some v) w = Some (TEN_ERROR_OUT_OF_MEMORY, Some m', w') \<and>
            map_inv m' \<and> map_abs m' = map_abs m \<and> key_type m' = key_type m \<and>
            map_abs m (key_view (key_type m) k) = None \<and>
            g_ten_last_error w' = TEN_ERROR_OUT_OF_MEMORY \<and>
            refusals w < refusals w' \<and> live w' - map_owned m' = live w - map_owned m)"
proof (cases "map_abs m (key_view (key_type m) k)")
  case (Some u)
  then show ?thesis using map_store_spec [OF inv Some, of v w] by fastforce
next
  case None
  obtain r where r: "ten__map_find m k = Some r" "map_abs m (key_view (key_type m) k) = map_option e_value r"
    using map_find_spec [OF inv] by blast
  then have found: "ten__map_find m k = Some None" using None by simp
  have bc: "unat (bucket_count m) * 8 < 2 ^ 63" "unat (m_count m) \<le> unat (bucket_count m) * 3 div 4"
    "0 < unat (bucket_count m)"
    using inv by (auto simp: map_inv_def buckets_ok_def)
  have b3: "unat (bucket_count m * 3) = unat (bucket_count m) * 3"
    using bc(1) by (subst unat_mult_size) auto
  have c1: "unat (m_count m + 1) = unat (m_count m) + 1"
    using bc(1,2) by (subst unat_add_size) auto
  have full: "m_count m + 1 > (bucket_count m * 3) div 4 \<longleftrightarrow>
      unat (bucket_count m) * 3 div 4 < unat (m_count m) + 1"
    by (simp add: size_nat unat_div_size b3 c1)
  show ?thesis
  proof (cases "m_count m + 1 > (bucket_count m * 3) div 4")
    case False
    then have "unat (m_count m) + 1 \<le> unat (bucket_count m) * 3 div 4"
      using full by simp
    from map_link_spec [OF inv None this, of v w] False found inv None show ?thesis
      by (fastforce simp: ten_map_set_def)
  next
    case True
    from map_rehash_spec [OF inv, of w] show ?thesis
    proof (elim disjE exE conjE)
      fix m1 w1
      assume re: "ten__map_rehash m (bucket_count m * 2) w = Some (TEN_OK, m1, w1)"
        and m1: "map_inv m1" "map_abs m1 = map_abs m" "key_type m1 = key_type m"
          "m_count m1 = m_count m" "unat (bucket_count m1) = 2 * unat (bucket_count m)"
          "refusals w1 = refusals w"
          "live w1 - map_owned m1 = live w - map_owned m"
      have room: "unat (m_count m1) + 1 \<le> unat (bucket_count m1) * 3 div 4"
        using m1 bc by simp
      have new: "map_abs m1 (key_view (key_type m1) k) = None"
        using None m1 by simp
      from map_link_spec [OF m1(1) new room, of v w1] True found re m1 None show ?thesis
        by (fastforce simp: ten_map_set_def)
    next
      fix w1
      assume "ten__map_rehash m (bucket_count m * 2) w = Some (TEN_ERROR_OUT_OF_MEMORY, m, w1)"
        and "refusals w < refusals w1" "live w1 = live w"
      with True found inv None show ?thesis by (simp add: ten_map_set_def)
    qed
  qed
qed

lemma length_filter_distinct:
  "distinct (map f xs) \<Longrightarrow> x \<in> set xs \<Longrightarrow> f x = k \<Longrightarrow>
   length xs = Suc (length (filter (\<lambda>y. f y \<noteq> k) xs))"
proof (induction xs)
  case (Cons y ys)
  show ?case
  proof (cases "f y = k")
    case True
    then have "filter (\<lambda>y. f y \<noteq> k) ys = ys"
      using Cons.prems(1) by (intro filter_True) (auto simp: image_iff)
    with True show ?thesis by simp
  next
    case False
    with Cons show ?thesis by auto
  qed
qed simp

lemma map_remove_spec:
  assumes inv: "map_inv m"
  shows "(case map_abs m (key_view (key_type m) k) of
      None \<Rightarrow> ten_map_remove (Some m) (Some k) w =
        Some (TEN_ERROR_NOT_FOUND, Some m, ten__set_error TEN_ERROR_NOT_FOUND w)
    | Some u \<Rightarrow> (\<exists>m' w'. ten_map_remove (Some m) (Some k) w = Some (TEN_OK, Some m', w') \<and>
        map_inv m' \<and> map_abs m' = (map_abs m)(key_view (key_type m) k := None) \<and>
        key_type m' = key_type m \<and> g_ten_last_error w' = TEN_OK \<and>
        refusals w' = refusals w \<and> live w' - map_owned m' = live w - map_owned m))"
proof -
  let ?k = "key_view (key_type m) k"
  let ?i = "home (bucket_count m) ?k"
  let ?b = "buckets m ! ?i"
  let ?c = "filter (\<lambda>e. key_view (key_type m) (e_key e) \<noteq> ?k) ?b"
  note ok = map_inv_table [OF inv]
  note chain = home_chain_ok [OF ok, of ?k]
  have present: "?k \<in> (\<lambda>e. key_view (key_type m) (e_key e)) ` set ?b \<longleftrightarrow> map_abs m ?k \<noteq> None"
    by (force simp: map_abs_home [OF inv] map_of_eq_None_iff entry_pair_def)
  show ?thesis
  proof (cases "map_abs m ?k")
    case None
    then show ?thesis
      using present home_bucket [OF inv, of k] chain_remove_eq [OF chain, of k]
      by (simp add: ten_map_remove_def)
  next
    case (Some u)
    let ?m = "with_bucket m ?i ?c (m_count m - 1)"
    have c: "chain_ok (key_type m) (bucket_count m) ?i ?c"
      using chain by (auto simp: chain_ok_def distinct_map_filter)
    obtain e where e: "e \<in> set ?b" "key_view (key_type m) (e_key e) = ?k"
      using Some present by force
    have one: "length ?b = Suc (length ?c)"
      using chain e by (intro length_filter_distinct) (simp add: chain_ok_def)
    have i: "?i < unat (bucket_count m)"
      using ok by (simp add: buckets_ok_def home_less)
    have "?b \<in> set (buckets m)"
      using ok by (rule home_in_set)
    then have "length ?b \<le> length (concat (buckets m))"
      using member_le_sum_list [of "length ?b" "map length (buckets m)"] by (simp add: length_concat)
    then have "length ?b \<le> unat (m_count m)"
      using inv by (simp only: map_inv_def)
    with one have pos: "0 < unat (m_count m)" "length ?b \<le> unat (m_count m)"
      by linarith+
    have cnt: "unat (m_count m - 1) = unat (m_count m) - 1"
      using pos by (subst unat_diff_size) (auto simp: size_nat)
    have load: "unat (m_count m) \<le> unat (bucket_count m) * 3 div 4"
      using inv by (simp add: map_inv_def)
    have upd: "map_inv ?m" "map_owned ?m = map_owned m - 3"
        "map_abs ?m k' = (if home (bucket_count m) k' = ?i
           then map_of (map (entry_pair (key_type m)) ?c) k' else map_abs m k')" for k'
      using with_bucket_inv [OF inv c i, of "m_count m - 1"] cnt load pos one by simp_all
    have lookup: "map_of (map (entry_pair kt) (filter (\<lambda>e. key_view kt (e_key e) \<noteq> x) es)) y =
        (if y = x then None else map_of (map (entry_pair kt) es) y)"
      for kt x y and es :: "'a ten_map_entry list"
      by (induction es) auto
    have abs: "map_abs ?m = (map_abs m)(?k := None)"
      by (intro ext) (auto simp: upd(3) lookup map_abs_home [OF inv])
    have "ten_map_remove (Some m) (Some k) w =
        Some (TEN_OK, Some ?m, ten__set_error TEN_OK (w\<lparr>live := live w - 3\<rparr>))"
      using present Some home_bucket [OF inv, of k] chain_remove_eq [OF chain, of k]
      by (simp add: ten_map_remove_def Let_def)
    with upd(1,2) abs Some show ?thesis by (auto simp: with_bucket_def)
  qed
qed

lemma map_count_spec:
  assumes inv: "map_inv m"
  shows "ten_map_count (Some m) w = (of_nat (card (dom (map_abs m))), ten__set_error TEN_OK w)"
proof -
  let ?v = "\<lambda>e. key_view (key_type m) (e_key e)"
  have "dom (map_abs m) = ?v ` set (concat (buckets m))"
    by (simp add: map_abs_def dom_map_of_conv_image_fst image_image entry_pair_def)
  then have "card (dom (map_abs m)) = length (concat (buckets m))"
    using distinct_card [OF table_views_distinct [OF map_inv_table [OF inv]]] by simp
  then have "card (dom (map_abs m)) = unat (m_count m)"
    using inv by (simp add: map_inv_def)
  then show ?thesis by (simp add: ten_map_count_def)
qed

section \<open>The contract\<close>

datatype 'v map_command =
    Map_Set ten_key 'v
  | Map_Get ten_key
  | Map_Remove ten_key
  | Map_Contains ten_key
  | Map_Count

datatype 'v map_answer = Map_Rc ten_error_code | Found "'v option" | Present bool | Size size_t

definition map_coded :: "(ten_error_code \<times> 's option \<times> ten_world) option \<Rightarrow>
    (('v map_answer \<times> ten_error_code) \<times> 's \<times> ten_world) option" where
  "map_coded res = do { (rc, m, w) \<leftarrow> res; m1 \<leftarrow> m; Some ((Map_Rc rc, ten_last_error w), m1, w) }"

text \<open>A command on a map: what the call returns, and the last error after it.\<close>

primrec map_step ::
    "'v map_command \<Rightarrow> 'v ten_map \<Rightarrow> ten_world \<Rightarrow>
     (('v map_answer \<times> ten_error_code) \<times> 'v ten_map \<times> ten_world) option" where
  "map_step (Map_Set k v) m w = map_coded (ten_map_set (Some m) (Some k) (Some v) w)"
| "map_step (Map_Get k) m w = do {
     (x, w1) \<leftarrow> ten_map_get (Some m) (Some k) w; Some ((Found x, ten_last_error w1), m, w1) }"
| "map_step (Map_Remove k) m w = map_coded (ten_map_remove (Some m) (Some k) w)"
| "map_step (Map_Contains k) m w = do {
     (x, w1) \<leftarrow> ten_map_contains (Some m) (Some k) w; Some ((Present x, ten_last_error w1), m, w1) }"
| "map_step Map_Count m w =
     (let (n, w1) = ten_map_count (Some m) w in Some ((Size n, ten_last_error w1), m, w1))"

primrec map_spec ::
    "ten_type \<Rightarrow> 'v map_command \<Rightarrow> (byte list \<rightharpoonup> 'v) \<Rightarrow>
     ('v map_answer \<times> ten_error_code) \<times> (byte list \<rightharpoonup> 'v)" where
  "map_spec kt (Map_Set k v) f = ((Map_Rc TEN_OK, TEN_OK), f(key_view kt k \<mapsto> v))"
| "map_spec kt (Map_Get k) f =
     ((Found (f (key_view kt k)), if f (key_view kt k) = None then TEN_ERROR_NOT_FOUND else TEN_OK), f)"
| "map_spec kt (Map_Remove k) f =
     (if f (key_view kt k) = None then ((Map_Rc TEN_ERROR_NOT_FOUND, TEN_ERROR_NOT_FOUND), f)
      else ((Map_Rc TEN_OK, TEN_OK), f(key_view kt k := None)))"
| "map_spec kt (Map_Contains k) f = ((Present (f (key_view kt k) \<noteq> None), TEN_OK), f)"
| "map_spec kt Map_Count f = ((Size (of_nat (card (dom f))), TEN_OK), f)"

definition map_oom :: "'v map_command \<Rightarrow> 'v map_answer \<times> ten_error_code" where
  "map_oom c = (Map_Rc TEN_ERROR_OUT_OF_MEMORY, TEN_ERROR_OUT_OF_MEMORY)"

definition map_rep :: "ten_type \<Rightarrow> 'v ten_map \<Rightarrow> (byte list \<rightharpoonup> 'v) \<Rightarrow> bool" where
  "map_rep kt m f \<longleftrightarrow> map_inv m \<and> key_type m = kt \<and> map_abs m = f"

lemma map_step_law:
  assumes rep: "map_rep kt m f"
  shows "\<exists>r m' w'. map_step c m w = Some (r, m', w') \<and> live w' - map_owned m' = live w - map_owned m \<and>
      (refusals w' = refusals w \<and> r = fst (map_spec kt c f) \<and> map_rep kt m' (snd (map_spec kt c f)) \<or>
       refusals w < refusals w' \<and> r = map_oom c \<and> map_rep kt m' f)"
proof -
  have inv: "map_inv m" "key_type m = kt" "map_abs m = f" using rep by (auto simp: map_rep_def)
  show ?thesis
  proof (cases c)
    case (Map_Set k v)
    then show ?thesis
      using map_set_spec [OF inv(1), of k v w] inv
      by (auto simp: map_coded_def map_rep_def map_oom_def ten_last_error_def)
  next
    case (Map_Get k)
    then show ?thesis using map_get_spec [OF inv(1), of k w] inv rep by (auto split: option.splits)
  next
    case (Map_Remove k)
    then show ?thesis
      using map_remove_spec [OF inv(1), of k w] inv
      by (auto simp: map_coded_def map_rep_def ten_last_error_def split: option.splits)
  next
    case (Map_Contains k)
    then show ?thesis using map_contains_spec [OF inv(1), of k w] inv rep by (auto simp: domIff)
  next
    case Map_Count
    then show ?thesis using map_count_spec [OF inv(1), of w] inv rep by simp
  qed
qed

interpretation map_component:
  ten_owned_component map_step "map_spec kt" map_oom "map_rep kt" map_owned "\<lambda>_ _. True"
    "\<lambda>m. ten_map_destroy (Some m)" for kt
  by unfold_locales (erule map_step_law, simp add: map_destroy_spec)

end
