(* ===== verification/Ten_Growth.thy ===== *)
theory Ten_Growth
  imports Ten_Memory
begin

text \<open>
  What the byte buffer and the string share: the loop that doubles a capacity until it is
  large enough (\<open>src/buffer/buffer.c\<close>, \<open>src/string/string.c\<close>), and the contract of a sink that
  bytes are appended to. The loop ends for every need up to \<open>2 ^ 63\<close> bytes; beyond that the
  capacity wraps to 0 and the loop never ends.

  The locale \<open>append_sink\<close> states the contract once. Its client lemmas are about a run of
  appends whose return codes are ignored, which is how the JSON printer and the HTTP message
  writers use strings and buffers: such a run is complete exactly when nothing was refused.
\<close>

section \<open>The doubling loop\<close>

partial_function (option) double_until :: "size_t \<Rightarrow> size_t \<Rightarrow> size_t option" where
  "double_until new_capacity need =
     (if new_capacity < need then double_until (new_capacity * 2) need else Some new_capacity)"

lemma unat_double: "unat (c :: size_t) < 2 ^ 63 \<Longrightarrow> unat (c * 2) = unat c * 2"
  by (subst unat_mult_size) simp_all

lemma double_until_total:
  "0 < unat cap \<Longrightarrow> unat need \<le> 2 ^ 63 \<Longrightarrow>
   \<exists>c. double_until cap need = Some c \<and> need \<le> c \<and> cap \<le> c \<and> (c = cap \<or> unat c < 2 * unat need)"
proof (induction "unat need - unat cap" arbitrary: cap rule: less_induct)
  case less
  show ?case
  proof (cases "cap < need")
    case True
    then have lt: "unat cap < unat need" by (simp add: size_nat)
    then have dbl: "unat (cap * 2) = unat cap * 2"
      using less.prems(2) by (intro unat_double) simp
    have "unat need - unat (cap * 2) < unat need - unat cap" "0 < unat (cap * 2)"
      using lt dbl less.prems(1) by simp_all
    from less.hyps [OF this less.prems(2)] obtain c where
      c: "double_until (cap * 2) need = Some c" "need \<le> c" "cap * 2 \<le> c"
        "c = cap * 2 \<or> unat c < 2 * unat need"
      by blast
    then have "double_until cap need = Some c"
      using True by (subst double_until.simps) simp
    moreover have "cap \<le> c" using c(3) dbl by (simp add: size_nat)
    moreover have "unat c < 2 * unat need" using c(4) dbl lt by auto
    ultimately show ?thesis using c(2) by blast
  next
    case False
    then show ?thesis by (subst double_until.simps) (auto simp: not_less)
  qed
qed

lemma double_until_zero: "0 < need \<Longrightarrow> double_until 0 need = None"
proof -
  have "cap = 0 \<longrightarrow> need = 0" if "double_until cap need = Some c" for cap need c
    using _ that
    by (rule double_until.raw_induct [of "\<lambda>cap need c. cap = 0 \<longrightarrow> need = 0"])
      (auto simp: word_gt_0 split: if_splits)
  then show "0 < need \<Longrightarrow> double_until 0 need = None"
    by (metis not_Some_eq word_gt_0)
qed

lemma double_until_wraps:
  "unat cap = 2 ^ k \<Longrightarrow> k \<le> 63 \<Longrightarrow> 2 ^ 63 < unat need \<Longrightarrow> double_until cap need = None"
proof (induction "63 - k" arbitrary: cap k)
  case 0
  then have cap: "cap = 2 ^ 63" by (simp add: size_eq_iff)
  then have "cap < need" "cap * 2 = 0" using 0 by (simp_all add: size_nat)
  moreover have "0 < need" using 0 by (simp add: size_nat)
  ultimately show ?case by (subst double_until.simps) (simp add: double_until_zero)
next
  case (Suc n)
  then have k: "k < 63" by simp
  then have "(2 :: nat) ^ k < 2 ^ 63" by (intro power_strict_increasing) simp_all
  with Suc.prems have "cap < need" "unat (cap * 2) = 2 ^ Suc k"
    by (simp_all add: size_nat unat_double)
  with Suc.hyps(1) [of "Suc k" "cap * 2"] Suc k show ?case
    by (subst double_until.simps) simp
qed

section \<open>Sinks\<close>

text \<open>A run of appends whose return codes are ignored.\<close>

primrec put_all ::
    "('s \<Rightarrow> byte list \<Rightarrow> ten_world \<Rightarrow> (ten_error_code \<times> 's \<times> ten_world) option) \<Rightarrow>
     byte list list \<Rightarrow> 's \<Rightarrow> ten_world \<Rightarrow> ('s \<times> ten_world) option" where
  "put_all put [] s w = Some (s, w)"
| "put_all put (d # ds) s w = do { (rc, s1, w1) \<leftarrow> put s d w; put_all put ds s1 w1 }"

lemma put_all_append:
  "put_all put (ds @ es) s w = do { (s1, w1) \<leftarrow> put_all put ds s w; put_all put es s1 w1 }"
  by (induction ds arbitrary: s w) (auto split: Option.bind_split)

locale append_sink =
  fixes rep :: "'s \<Rightarrow> byte list \<Rightarrow> bool"
    and owns :: "'s \<Rightarrow> int"
    and ok :: "byte list \<Rightarrow> bool"
    and put :: "'s \<Rightarrow> byte list \<Rightarrow> ten_world \<Rightarrow> (ten_error_code \<times> 's \<times> ten_world) option"
  assumes put_law: "rep s xs \<Longrightarrow> ok d \<Longrightarrow> length xs + length d < 2 ^ 63 \<Longrightarrow>
      (\<exists>s' w'. put s d w = Some (TEN_OK, s', w') \<and> rep s' (xs @ d) \<and> g_ten_last_error w' = TEN_OK \<and>
         refusals w' = refusals w \<and> live w' - owns s' = live w - owns s) \<or>
      (\<exists>w'. put s d w = Some (TEN_ERROR_OUT_OF_MEMORY, s, w') \<and>
         g_ten_last_error w' = TEN_ERROR_OUT_OF_MEMORY \<and>
         refusals w < refusals w' \<and> live w' = live w)"
begin

lemma put_cases [consumes 3, case_names stored refused]:
  assumes "rep s xs" "ok d" "length xs + length d < 2 ^ 63"
  obtains (stored) s' w' where "put s d w = Some (TEN_OK, s', w')" "rep s' (xs @ d)"
      "g_ten_last_error w' = TEN_OK" "refusals w' = refusals w" "live w' - owns s' = live w - owns s"
  | (refused) w' where "put s d w = Some (TEN_ERROR_OUT_OF_MEMORY, s, w')"
      "g_ten_last_error w' = TEN_ERROR_OUT_OF_MEMORY" "refusals w < refusals w'" "live w' = live w"
  using put_law [OF assms, of w] by blast

text \<open>
  A run is always defined and never leaks; what is in the sink afterwards is the old content
  and the pieces that were stored, and with no refusal these are all of them.
\<close>

lemma put_all_law:
  assumes "rep s xs" "\<forall>d \<in> set ds. ok d" "length xs + length (concat ds) < 2 ^ 63"
  shows "\<exists>s' w' es. put_all put ds s w = Some (s', w') \<and> rep s' (xs @ concat es) \<and>
    set es \<subseteq> set ds \<and> length (concat es) \<le> length (concat ds) \<and>
    refusals w \<le> refusals w' \<and> (refusals w' = refusals w \<longrightarrow> es = ds) \<and>
    live w' - owns s' = live w - owns s"
  using assms
proof (induction ds arbitrary: s xs w)
  case Nil
  then show ?case by (auto intro!: exI [of _ "[]"])
next
  case (Cons d ds)
  then have pre: "rep s xs" "ok d" "length xs + length d < 2 ^ 63" by auto
  then show ?case
  proof (cases rule: put_cases [where w = w])
    case (stored s1 w1)
    then have "length (xs @ d) + length (concat ds) < 2 ^ 63" using Cons.prems by simp
    with Cons.IH [OF stored(2), of w1] Cons.prems(2) obtain s' w' es where
      es: "put_all put ds s1 w1 = Some (s', w')" "rep s' ((xs @ d) @ concat es)" "set es \<subseteq> set ds"
        "length (concat es) \<le> length (concat ds)" "refusals w1 \<le> refusals w'"
        "refusals w' = refusals w1 \<longrightarrow> es = ds" "live w' - owns s' = live w1 - owns s1"
      by auto
    then show ?thesis
      using stored by (intro exI [of _ s'] exI [of _ w'] exI [of _ "d # es"]) auto
  next
    case (refused w1)
    have "length xs + length (concat ds) < 2 ^ 63" using Cons.prems by simp
    with Cons.IH [OF pre(1), of w1] Cons.prems(2) obtain s' w' es where
      es: "put_all put ds s w1 = Some (s', w')" "rep s' (xs @ concat es)" "set es \<subseteq> set ds"
        "length (concat es) \<le> length (concat ds)" "refusals w1 \<le> refusals w'"
        "live w' - owns s' = live w1 - owns s"
      by auto
    then show ?thesis
      using refused by (intro exI [of _ s'] exI [of _ w'] exI [of _ es]) auto
  qed
qed

end

end
