(* ===== verification/Ten_Buffer.thy ===== *)
theory Ten_Buffer
  imports Ten_Growth Ten_Contract
begin

text \<open>
  The byte buffer \<open>ten_buffer\<close> (\<open>include/ten/buffer.h\<close>, \<open>src/buffer/buffer.c\<close>). A buffer
  represents the sequence of the bytes written since its creation or its last clearing
  (\<open>buffer_rep\<close>); a write appends to it or, when memory is refused, changes nothing.
\<close>

section \<open>Data and operations\<close>

record ten_buffer =
  b_data :: "byte ptr"
  b_size :: size_t
  b_capacity :: size_t

definition sizeof_ten_buffer :: size_t where
  "sizeof_ten_buffer = 24"

definition ten_buffer_create :: "ten_world \<Rightarrow> ten_buffer option \<times> ten_world" where
  "ten_buffer_create w =
     (let (buffer, w1) = ten_malloc sizeof_ten_buffer w
      in if is_Null buffer then (None, w1)
         else (Some \<lparr>b_data = Null, b_size = 0, b_capacity = 0\<rparr>, ten__set_error TEN_OK w1))"

definition ten_buffer_destroy :: "ten_buffer option \<Rightarrow> ten_world \<Rightarrow> ten_world option" where
  "ten_buffer_destroy buffer w =
     (case buffer of
        None \<Rightarrow> Some w
      | Some b \<Rightarrow> do { w1 \<leftarrow> ten_free (b_data b) w; free_struct w1 })"

text \<open>The growth inside \<open>ten_buffer_write\<close>: no error is recorded beyond what \<open>ten_realloc\<close> sets.\<close>

definition buffer_reserve ::
    "ten_buffer \<Rightarrow> size_t \<Rightarrow> ten_world \<Rightarrow> (ten_error_code \<times> ten_buffer \<times> ten_world) option" where
  "buffer_reserve b new_size w =
     (if new_size > b_capacity b
      then do {
        new_capacity \<leftarrow> double_until (if b_capacity b = 0 then 16 else b_capacity b * 2) new_size;
        (new_data, old_data, w1) \<leftarrow> ten_realloc 1 (b_data b) new_capacity w;
        if is_Null new_data then Some (TEN_ERROR_OUT_OF_MEMORY, b\<lparr>b_data := old_data\<rparr>, w1)
        else Some (TEN_OK, b\<lparr>b_data := new_data, b_capacity := new_capacity\<rparr>, w1)
      }
      else Some (TEN_OK, b, w))"

definition ten_buffer_write ::
    "ten_buffer option \<Rightarrow> byte list option \<Rightarrow> size_t \<Rightarrow> ten_world \<Rightarrow>
     (ten_error_code \<times> ten_buffer option \<times> ten_world) option" where
  "ten_buffer_write buffer data sz w =
     (case buffer of
        None \<Rightarrow> Some (TEN_ERROR_NULL_ARGUMENT, buffer, ten__set_error TEN_ERROR_NULL_ARGUMENT w)
      | Some b \<Rightarrow>
          if data = None \<and> sz > 0
          then Some (TEN_ERROR_NULL_ARGUMENT, buffer, ten__set_error TEN_ERROR_NULL_ARGUMENT w)
          else if sz = 0 then Some (TEN_OK, buffer, ten__set_error TEN_OK w)
          else do {
            let new_size = b_size b + sz;
            (rc, b1, w1) \<leftarrow> buffer_reserve b new_size w;
            if rc \<noteq> TEN_OK then Some (rc, Some b1, w1)
            else do {
              src \<leftarrow> block_read 0 (unat sz) (Block (map Some (the data)));
              d \<leftarrow> block_write (unat (b_size b1)) src (b_data b1);
              Some (TEN_OK, Some (b1\<lparr>b_data := d, b_size := new_size\<rparr>), ten__set_error TEN_OK w1)
            }
          })"

definition ten_buffer_data :: "ten_buffer option \<Rightarrow> ten_world \<Rightarrow> byte ptr \<times> ten_world" where
  "ten_buffer_data buffer w =
     (case buffer of
        None \<Rightarrow> (Null, ten__set_error TEN_ERROR_NULL_ARGUMENT w)
      | Some b \<Rightarrow> (b_data b, ten__set_error TEN_OK w))"

definition ten_buffer_size :: "ten_buffer option \<Rightarrow> ten_world \<Rightarrow> size_t \<times> ten_world" where
  "ten_buffer_size buffer w =
     (case buffer of
        None \<Rightarrow> (0, ten__set_error TEN_ERROR_NULL_ARGUMENT w)
      | Some b \<Rightarrow> (b_size b, ten__set_error TEN_OK w))"

definition ten_buffer_clear :: "ten_buffer option \<Rightarrow> ten_buffer option" where
  "ten_buffer_clear buffer = map_option (\<lambda>b. b\<lparr>b_size := 0\<rparr>) buffer"

section \<open>Representation\<close>

definition buffer_rep :: "ten_buffer \<Rightarrow> byte list \<Rightarrow> bool" where
  "buffer_rep b xs \<longleftrightarrow>
     \<not> is_Dangling (b_data b) \<and>
     length (block_cells (b_data b)) = unat (b_capacity b) \<and> unat (b_capacity b) < 2 ^ 63 \<and>
     length xs = unat (b_size b) \<and> unat (b_size b) \<le> unat (b_capacity b) \<and>
     take (unat (b_size b)) (block_cells (b_data b)) = map Some xs"

definition buffer_owned :: "ten_buffer \<Rightarrow> int" where
  "buffer_owned b = 1 + owned (b_data b)"

lemma buffer_rep_unique: "buffer_rep b xs \<Longrightarrow> buffer_rep b ys \<Longrightarrow> xs = ys"
  by (auto simp: buffer_rep_def dest: map_injective)

lemma buffer_create_spec:
  "(\<exists>b w'. ten_buffer_create w = (Some b, w') \<and> buffer_rep b [] \<and> g_ten_last_error w' = TEN_OK \<and>
      refusals w' = refusals w \<and> live w' - buffer_owned b = live w) \<or>
   (\<exists>w'. ten_buffer_create w = (None, w') \<and> g_ten_last_error w' = TEN_ERROR_OUT_OF_MEMORY \<and>
      refusals w < refusals w' \<and> live w' = live w)"
  by (cases rule: ten_malloc_cases [where n = sizeof_ten_buffer and w = w])
    (auto simp: ten_buffer_create_def buffer_rep_def buffer_owned_def)

lemma buffer_destroy_spec:
  "buffer_rep b xs \<Longrightarrow>
   \<exists>w'. ten_buffer_destroy (Some b) w = Some w' \<and> live w' = live w - buffer_owned b \<and>
     g_ten_last_error w' = g_ten_last_error w \<and> refusals w' = refusals w"
  using ten_free_live [of "b_data b" w]
  by (auto simp: ten_buffer_destroy_def buffer_rep_def buffer_owned_def)

lemma buffer_clear_spec:
  "buffer_rep b xs \<Longrightarrow> \<exists>b'. ten_buffer_clear (Some b) = Some b' \<and> buffer_rep b' [] \<and>
     buffer_owned b' = buffer_owned b"
  by (auto simp: ten_buffer_clear_def buffer_rep_def buffer_owned_def)

section \<open>Growth and writing\<close>

lemma buffer_reserve_spec:
  assumes rep: "buffer_rep b xs" and n: "unat n \<le> 2 ^ 63"
  shows "(\<exists>b' w'. buffer_reserve b n w = Some (TEN_OK, b', w') \<and> buffer_rep b' xs \<and>
            b_size b' = b_size b \<and> unat n \<le> unat (b_capacity b') \<and> refusals w' = refusals w \<and>
            live w' - buffer_owned b' = live w - buffer_owned b) \<or>
         (\<exists>w'. buffer_reserve b n w = Some (TEN_ERROR_OUT_OF_MEMORY, b, w') \<and>
            g_ten_last_error w' = TEN_ERROR_OUT_OF_MEMORY \<and>
            refusals w < refusals w' \<and> live w' = live w)"
proof (cases "b_capacity b < n")
  case False
  with rep show ?thesis by (simp add: buffer_reserve_def size_nat)
next
  case True
  let ?start = "if b_capacity b = 0 then 16 else b_capacity b * 2"
  have cap: "unat (b_capacity b) < 2 ^ 63" using rep by (simp add: buffer_rep_def)
  have start: "0 < unat ?start" "unat (b_capacity b) \<le> unat ?start"
    using cap by (auto simp: unat_double size_eq_iff)
  obtain c where c: "double_until ?start n = Some c" "n \<le> c" "?start \<le> c"
    using double_until_total [OF start(1) n] by blast
  have nd: "\<not> is_Dangling (b_data b)" using rep by (simp add: buffer_rep_def)
  have bound: "unat (b_capacity b) \<le> unat c" "unat n \<le> unat c" "c \<noteq> 0"
    using c start True by (auto simp: size_nat)
  from nd show ?thesis
  proof (cases rule: ten_realloc_cases [where n = c and w = w and cs = 1])
    case (granted w')
    let ?b = "b\<lparr>b_data := Block (block_cells (b_data b) @ replicate (unat c - unat (b_capacity b)) None),
                b_capacity := c\<rparr>"
    have "buffer_reserve b n w = Some (TEN_OK, ?b, w')"
      using True c(1) granted(2) bound(1) rep by (simp add: buffer_reserve_def buffer_rep_def)
    moreover have "buffer_rep ?b xs"
      using rep bound(1) granted(3) by (auto simp: buffer_rep_def)
    ultimately show ?thesis
      using granted bound by (auto simp: buffer_owned_def)
  next
    case (refused w')
    then have "buffer_reserve b n w = Some (TEN_ERROR_OUT_OF_MEMORY, b, w')"
      using True c(1) by (simp add: buffer_reserve_def)
    with refused show ?thesis by auto
  next
    case (emptied w')
    with bound(3) show ?thesis by simp
  qed
qed

lemma buffer_write_spec:
  assumes rep: "buffer_rep b xs" and fit: "length xs + length d < 2 ^ 63"
  shows "(\<exists>b' w'. ten_buffer_write (Some b) (Some d) (of_nat (length d)) w = Some (TEN_OK, Some b', w') \<and>
            buffer_rep b' (xs @ d) \<and> g_ten_last_error w' = TEN_OK \<and> refusals w' = refusals w \<and>
            live w' - buffer_owned b' = live w - buffer_owned b) \<or>
         (\<exists>w'. ten_buffer_write (Some b) (Some d) (of_nat (length d)) w =
              Some (TEN_ERROR_OUT_OF_MEMORY, Some b, w') \<and>
            g_ten_last_error w' = TEN_ERROR_OUT_OF_MEMORY \<and> refusals w < refusals w' \<and> live w' = live w)"
proof (cases "d = []")
  case True
  with rep show ?thesis by (auto simp: ten_buffer_write_def)
next
  case False
  let ?n = "of_nat (length d) :: size_t"
  have n: "unat ?n = length d" using fit by (intro unat_of_nat_size) simp
  have nz: "?n \<noteq> 0" using False n by (metis length_0_conv unat_0)
  have s: "unat (b_size b) = length xs" using rep by (simp add: buffer_rep_def)
  have sum: "unat (b_size b + ?n) = length xs + length d"
    using n s fit by (subst unat_add_size) auto
  have le: "unat (b_size b + ?n) \<le> 2 ^ 63" using sum fit by simp
  from buffer_reserve_spec [OF rep le, of w] show ?thesis
  proof (elim disjE exE conjE)
    fix b' w'
    assume r: "buffer_reserve b (b_size b + ?n) w = Some (TEN_OK, b', w')" "buffer_rep b' xs"
      "b_size b' = b_size b" "unat (b_size b + ?n) \<le> unat (b_capacity b')" "refusals w' = refusals w"
      "live w' - buffer_owned b' = live w - buffer_owned b"
    have "length (block_cells (b_data b')) = unat (b_capacity b')"
      using r(2) by (simp add: buffer_rep_def)
    with r(4) sum False obtain c where c: "b_data b' = Block c" "length c = unat (b_capacity b')"
      by (cases "b_data b'") auto
    let ?c = "take (length xs) c @ map Some d @ drop (length xs + length d) c"
    let ?b = "b'\<lparr>b_data := Block ?c, b_size := b_size b + ?n\<rparr>"
    have "ten_buffer_write (Some b) (Some d) ?n w = Some (TEN_OK, Some ?b, ten__set_error TEN_OK w')"
      using nz r c n s sum by (simp add: ten_buffer_write_def)
    moreover have "buffer_rep ?b (xs @ d)"
      using r(2-4) c s sum by (auto simp: buffer_rep_def)
    moreover have "buffer_owned ?b = buffer_owned b'"
      using c by (simp add: buffer_owned_def)
    ultimately show ?thesis using r by (auto intro!: exI [of _ ?b])
  next
    fix w'
    assume "buffer_reserve b (b_size b + ?n) w = Some (TEN_ERROR_OUT_OF_MEMORY, b, w')"
      "g_ten_last_error w' = TEN_ERROR_OUT_OF_MEMORY" "refusals w < refusals w'" "live w' = live w"
    with nz show ?thesis by (auto simp: ten_buffer_write_def)
  qed
qed

text \<open>A buffer is a sink for writes of whole byte lists.\<close>

definition buffer_put ::
    "ten_buffer \<Rightarrow> byte list \<Rightarrow> ten_world \<Rightarrow> (ten_error_code \<times> ten_buffer \<times> ten_world) option" where
  "buffer_put b d w = do {
     (rc, b1, w1) \<leftarrow> ten_buffer_write (Some b) (Some d) (of_nat (length d)) w;
     b2 \<leftarrow> b1;
     Some (rc, b2, w1)
   }"

interpretation buffer_sink: append_sink buffer_rep buffer_owned "\<lambda>_. True" buffer_put
proof unfold_locales
  fix b xs w and d :: "byte list"
  assume "buffer_rep b xs" "length xs + length d < 2 ^ 63"
  then show "(\<exists>b' w'. buffer_put b d w = Some (TEN_OK, b', w') \<and> buffer_rep b' (xs @ d) \<and>
        g_ten_last_error w' = TEN_OK \<and> refusals w' = refusals w \<and>
        live w' - buffer_owned b' = live w - buffer_owned b) \<or>
      (\<exists>w'. buffer_put b d w = Some (TEN_ERROR_OUT_OF_MEMORY, b, w') \<and>
        g_ten_last_error w' = TEN_ERROR_OUT_OF_MEMORY \<and>
        refusals w < refusals w' \<and> live w' = live w)"
    using buffer_write_spec [of b xs d w] by (auto simp: buffer_put_def)
qed

section \<open>The contract\<close>

datatype buffer_command = Buffer_Write "byte list" | Buffer_Size | Buffer_Data | Buffer_Clear

datatype buffer_answer = Buffer_Rc ten_error_code | Bytes "byte list" | Buffer_Length size_t | Cleared

text \<open>
  A command on a buffer. \<open>Buffer_Data\<close> reads the bytes in use through the pointer that
  \<open>ten_buffer_data\<close> returns. \<open>ten_buffer_clear\<close> leaves the last error alone, so the answers do
  not hold it.
\<close>

primrec buffer_step ::
    "buffer_command \<Rightarrow> ten_buffer \<Rightarrow> ten_world \<Rightarrow> (buffer_answer \<times> ten_buffer \<times> ten_world) option" where
  "buffer_step (Buffer_Write d) b w = do {
     (rc, b1, w1) \<leftarrow> buffer_put b d w; Some (Buffer_Rc rc, b1, w1) }"
| "buffer_step Buffer_Size b w =
     (let (n, w1) = ten_buffer_size (Some b) w in Some (Buffer_Length n, b, w1))"
| "buffer_step Buffer_Data b w =
     (let (p, w1) = ten_buffer_data (Some b) w
      in do {
        xs \<leftarrow> (if b_size b = 0 then Some [] else block_values 0 (unat (b_size b)) p);
        Some (Bytes xs, b, w1)
      })"
| "buffer_step Buffer_Clear b w = do { b1 \<leftarrow> ten_buffer_clear (Some b); Some (Cleared, b1, w) }"

primrec buffer_spec :: "buffer_command \<Rightarrow> byte list \<Rightarrow> buffer_answer \<times> byte list" where
  "buffer_spec (Buffer_Write d) xs = (Buffer_Rc TEN_OK, xs @ d)"
| "buffer_spec Buffer_Size xs = (Buffer_Length (of_nat (length xs)), xs)"
| "buffer_spec Buffer_Data xs = (Bytes xs, xs)"
| "buffer_spec Buffer_Clear xs = (Cleared, [])"

definition buffer_oom :: "buffer_command \<Rightarrow> buffer_answer" where
  "buffer_oom c = Buffer_Rc TEN_ERROR_OUT_OF_MEMORY"

text \<open>Beyond \<open>2 ^ 63\<close> bytes the doubling of the capacity would not end.\<close>

primrec buffer_allowed :: "buffer_command \<Rightarrow> byte list \<Rightarrow> bool" where
  "buffer_allowed (Buffer_Write d) xs \<longleftrightarrow> length xs + length d < 2 ^ 63"
| "buffer_allowed Buffer_Size xs \<longleftrightarrow> True"
| "buffer_allowed Buffer_Data xs \<longleftrightarrow> True"
| "buffer_allowed Buffer_Clear xs \<longleftrightarrow> True"

lemma buffer_step_law:
  assumes rep: "buffer_rep b xs" and ok: "buffer_allowed c xs"
  shows "\<exists>r b' w'. buffer_step c b w = Some (r, b', w') \<and> live w' - buffer_owned b' = live w - buffer_owned b \<and>
      (refusals w' = refusals w \<and> r = fst (buffer_spec c xs) \<and> buffer_rep b' (snd (buffer_spec c xs)) \<or>
       refusals w < refusals w' \<and> r = buffer_oom c \<and> buffer_rep b' xs)"
proof (cases c)
  case (Buffer_Write d)
  then have "length xs + length d < 2 ^ 63" using ok by simp
  then show ?thesis
    using buffer_sink.put_law [OF rep TrueI, of d w] Buffer_Write rep
    by (auto simp: buffer_oom_def)
next
  case Buffer_Size
  then show ?thesis using rep by (auto simp: ten_buffer_size_def buffer_rep_def)
next
  case Buffer_Data
  have "(if b_size b = 0 then Some [] else block_values 0 (unat (b_size b)) (b_data b)) = Some xs"
  proof (cases "b_size b = 0")
    case False
    then obtain c where "b_data b = Block c"
      using rep by (cases "b_data b") (auto simp: buffer_rep_def size_eq_iff)
    then show ?thesis
      using rep False by (auto simp: buffer_rep_def block_values_eq_Some)
  qed (use rep in \<open>simp add: buffer_rep_def\<close>)
  then show ?thesis using Buffer_Data rep by (simp add: ten_buffer_data_def)
next
  case Buffer_Clear
  then show ?thesis using buffer_clear_spec [OF rep] by auto
qed

interpretation buffer_component:
  ten_owned_component buffer_step buffer_spec buffer_oom buffer_rep buffer_owned buffer_allowed
    "\<lambda>b. ten_buffer_destroy (Some b)"
  by unfold_locales (blast intro: buffer_step_law dest: buffer_destroy_spec)+

end
