(* ===== verification/Ten_String.thy ===== *)
theory Ten_String
  imports Ten_Growth Ten_Contract "HOL-Library.Sublist"
begin

text \<open>
  The string \<open>ten_string\<close> (\<open>include/ten/string.h\<close>, \<open>src/string/string.c\<close>): a block that holds
  the bytes of the text and a terminating NUL. A string represents the text (\<open>string_rep\<close>);
  text arguments are C strings that do not lie inside the string's own block.
\<close>

section \<open>Data and operations\<close>

record ten_string =
  s_data :: "byte ptr"
  s_length :: size_t
  s_capacity :: size_t

definition sizeof_ten_string :: size_t where
  "sizeof_ten_string = 24"

text \<open>The C string that starts at a pointer: the bytes before the first NUL.\<close>

primrec c_string :: "byte option list \<Rightarrow> cstring option" where
  "c_string [] = None"
| "c_string (c # cs) = do { b \<leftarrow> c; if b = 0 then Some [] else map_option ((#) b) (c_string cs) }"

definition c_bytes :: "cstring \<Rightarrow> byte option list" where
  "c_bytes text = map Some (text @ [0])"

text \<open>
  The outcome of an operation that returns a fresh C string: the text with its NUL in a block of
  exactly that size, or a null pointer after a refused request and an error code.
\<close>

definition fresh_text :: "cstring \<Rightarrow> ten_world \<Rightarrow> (byte ptr \<times> ten_world) option \<Rightarrow> bool" where
  "fresh_text t w r \<longleftrightarrow>
     (\<exists>w'. r = Some (Block (c_bytes t), w') \<and> g_ten_last_error w' = TEN_OK \<and>
        refusals w' = refusals w \<and> live w' = live w + 1) \<or>
     (\<exists>w'. r = Some (Null, w') \<and> g_ten_last_error w' = TEN_ERROR_OUT_OF_MEMORY \<and>
        refusals w < refusals w' \<and> live w' = live w)"

definition ten__string_alloc :: "size_t \<Rightarrow> ten_world \<Rightarrow> (ten_string option \<times> ten_world) option" where
  "ten__string_alloc min_capacity w =
     (let (string, w1) = ten_malloc sizeof_ten_string w
      in if is_Null string then Some (None, w1)
         else
           let capacity = (if 16 < min_capacity then min_capacity else 16);
               (data, w2) = ten_malloc capacity w1
           in if is_Null data then do { w3 \<leftarrow> free_struct w2; Some (None, w3) }
              else do {
                d \<leftarrow> block_write 0 [Some 0] data;
                Some (Some \<lparr>s_data = d, s_length = 0, s_capacity = capacity\<rparr>, w2)
              })"

definition ten_string_create ::
    "cstring option \<Rightarrow> ten_world \<Rightarrow> (ten_string option \<times> ten_world) option" where
  "ten_string_create text w =
     (case text of
        None \<Rightarrow> Some (None, ten__set_error TEN_ERROR_NULL_ARGUMENT w)
      | Some t \<Rightarrow> do {
          let len = strlen t;
          (string, w1) \<leftarrow> ten__string_alloc (len + 1) w;
          (case string of
             None \<Rightarrow> Some (None, w1)
           | Some s \<Rightarrow> do {
               src \<leftarrow> block_read 0 (unat (len + 1)) (Block (map Some (t @ [0])));
               d \<leftarrow> block_write 0 src (s_data s);
               Some (Some (s\<lparr>s_data := d, s_length := len\<rparr>), ten__set_error TEN_OK w1)
             })
        })"

definition ten_string_empty :: "ten_world \<Rightarrow> (ten_string option \<times> ten_world) option" where
  "ten_string_empty w = do {
     (string, w1) \<leftarrow> ten__string_alloc 1 w;
     (case string of
        None \<Rightarrow> Some (None, w1)
      | Some s \<Rightarrow> Some (Some s, ten__set_error TEN_OK w1))
   }"

definition ten_string_destroy :: "ten_string option \<Rightarrow> ten_world \<Rightarrow> ten_world option" where
  "ten_string_destroy string w =
     (case string of
        None \<Rightarrow> Some w
      | Some s \<Rightarrow> do { w1 \<leftarrow> ten_free (s_data s) w; free_struct w1 })"

text \<open>The pointer \<open>ten_string_cstr\<close> returns is read as a C string by every caller: the model
  returns that string.\<close>

definition ten_string_cstr ::
    "ten_string option \<Rightarrow> ten_world \<Rightarrow> (cstring option \<times> ten_world) option" where
  "ten_string_cstr string w =
     (case string of
        None \<Rightarrow> Some (None, ten__set_error TEN_ERROR_NULL_ARGUMENT w)
      | Some s \<Rightarrow> do {
          t \<leftarrow> c_string (block_cells (s_data s));
          Some (Some t, ten__set_error TEN_OK w)
        })"

definition ten_string_length :: "ten_string option \<Rightarrow> ten_world \<Rightarrow> size_t \<times> ten_world" where
  "ten_string_length string w =
     (case string of
        None \<Rightarrow> (0, ten__set_error TEN_ERROR_NULL_ARGUMENT w)
      | Some s \<Rightarrow> (s_length s, ten__set_error TEN_OK w))"

definition string_reserve ::
    "ten_string \<Rightarrow> size_t \<Rightarrow> ten_world \<Rightarrow> (ten_error_code \<times> ten_string \<times> ten_world) option" where
  "string_reserve s need w =
     (if need > s_capacity s
      then do {
        new_capacity \<leftarrow> double_until (if s_capacity s = 0 then 16 else s_capacity s * 2) need;
        (new_data, old_data, w1) \<leftarrow> ten_realloc 1 (s_data s) new_capacity w;
        if is_Null new_data then Some (TEN_ERROR_OUT_OF_MEMORY, s\<lparr>s_data := old_data\<rparr>, w1)
        else Some (TEN_OK, s\<lparr>s_data := new_data, s_capacity := new_capacity\<rparr>, w1)
      }
      else Some (TEN_OK, s, w))"

definition ten_string_append ::
    "ten_string option \<Rightarrow> cstring option \<Rightarrow> ten_world \<Rightarrow>
     (ten_error_code \<times> ten_string option \<times> ten_world) option" where
  "ten_string_append string text w =
     (case (string, text) of
        (Some s, Some t) \<Rightarrow> do {
          let text_len = strlen t;
          let new_len = s_length s + text_len;
          (rc, s1, w1) \<leftarrow> string_reserve s (new_len + 1) w;
          if rc \<noteq> TEN_OK then Some (rc, Some s1, w1)
          else do {
            src \<leftarrow> block_read 0 (unat (text_len + 1)) (Block (map Some (t @ [0])));
            d \<leftarrow> block_write (unat (s_length s1)) src (s_data s1);
            Some (TEN_OK, Some (s1\<lparr>s_data := d, s_length := new_len\<rparr>), ten__set_error TEN_OK w1)
          }
        }
      | _ \<Rightarrow> Some (TEN_ERROR_NULL_ARGUMENT, string, ten__set_error TEN_ERROR_NULL_ARGUMENT w))"

definition ten_string_equals ::
    "ten_string option \<Rightarrow> ten_string option \<Rightarrow> ten_world \<Rightarrow> (bool \<times> ten_world) option" where
  "ten_string_equals a b w =
     (case (a, b) of
        (Some s, Some t) \<Rightarrow>
          if s_length s \<noteq> s_length t then Some (False, ten__set_error TEN_OK w)
          else do {
            x \<leftarrow> block_values 0 (unat (s_length s)) (s_data s);
            y \<leftarrow> block_values 0 (unat (s_length s)) (s_data t);
            Some (x = y, ten__set_error TEN_OK w)
          }
      | _ \<Rightarrow> Some (False, ten__set_error TEN_ERROR_NULL_ARGUMENT w))"

text \<open>\<open>strstr\<close>: whether the needle occurs in the haystack, tried at each position.\<close>

fun strstr :: "cstring \<Rightarrow> cstring \<Rightarrow> bool" where
  "strstr [] needle = (needle = [])"
| "strstr (b # bs) needle = (take (length needle) (b # bs) = needle \<or> strstr bs needle)"

definition ten_string_contains ::
    "ten_string option \<Rightarrow> cstring option \<Rightarrow> ten_world \<Rightarrow> (bool \<times> ten_world) option" where
  "ten_string_contains string text w =
     (case (string, text) of
        (Some s, Some t) \<Rightarrow> do {
          h \<leftarrow> c_string (block_cells (s_data s));
          Some (strstr h t, ten__set_error TEN_OK w)
        }
      | _ \<Rightarrow> Some (False, ten__set_error TEN_ERROR_NULL_ARGUMENT w))"

definition ten_string_substring ::
    "ten_string option \<Rightarrow> size_t \<Rightarrow> size_t \<Rightarrow> ten_world \<Rightarrow> (ten_string option \<times> ten_world) option" where
  "ten_string_substring string start len w =
     (case string of
        None \<Rightarrow> Some (None, ten__set_error TEN_ERROR_NULL_ARGUMENT w)
      | Some s \<Rightarrow>
          if start > s_length s \<or> len > s_length s - start
          then Some (None, ten__set_error TEN_ERROR_OUT_OF_RANGE w)
          else do {
            (r, w1) \<leftarrow> ten__string_alloc (len + 1) w;
            (case r of
               None \<Rightarrow> Some (None, w1)
             | Some res \<Rightarrow> do {
                 src \<leftarrow> block_read (unat start) (unat len) (s_data s);
                 d1 \<leftarrow> block_write 0 src (s_data res);
                 d2 \<leftarrow> block_write (unat len) [Some 0] d1;
                 Some (Some (res\<lparr>s_data := d2, s_length := len\<rparr>), ten__set_error TEN_OK w1)
               })
          })"

section \<open>Representation\<close>

definition string_rep :: "ten_string \<Rightarrow> cstring \<Rightarrow> bool" where
  "string_rep s t \<longleftrightarrow>
     is_Block (s_data s) \<and> 0 \<notin> set t \<and>
     length (block_cells (s_data s)) = unat (s_capacity s) \<and> unat (s_capacity s) < 2 ^ 63 \<and>
     length t = unat (s_length s) \<and> length t < unat (s_capacity s) \<and>
     take (Suc (length t)) (block_cells (s_data s)) = map Some (t @ [0])"

definition string_owned :: "ten_string \<Rightarrow> int" where
  "string_owned s = 1 + owned (s_data s)"

lemma string_rep_small: "string_rep s t \<Longrightarrow> length t < 2 ^ 63 - 1"
  by (simp add: string_rep_def)

lemma string_rep_owned: "string_rep s t \<Longrightarrow> string_owned s = 2"
  by (cases "s_data s") (auto simp: string_rep_def string_owned_def)

lemma c_string_of_text: "0 \<notin> set t \<Longrightarrow> c_string (map Some t @ Some 0 # cs) = Some t"
  by (induction t) auto

lemma c_string_bytes: "0 \<notin> set t \<Longrightarrow> c_string (c_bytes t) = Some t"
  using c_string_of_text [of t "[]"] by (simp add: c_bytes_def)

lemma string_rep_block:
  assumes "string_rep s t"
  obtains rest where "s_data s = Block (map Some t @ Some 0 # rest)"
    "Suc (length t + length rest) = unat (s_capacity s)"
proof -
  obtain b where b: "s_data s = Block b" "length b = unat (s_capacity s)"
      "take (Suc (length t)) b = map Some (t @ [0])" "length t < length b"
    using assms by (cases "s_data s") (auto simp: string_rep_def)
  have "b = map Some (t @ [0]) @ drop (Suc (length t)) b"
    by (metis append_take_drop_id b(3))
  then have "s_data s = Block (map Some t @ Some 0 # drop (Suc (length t)) b)"
    using b(1) by simp
  then show thesis using b(2,4) by (intro that) auto
qed

lemma string_rep_c_string:
  assumes "string_rep s t"
  shows "c_string (block_cells (s_data s)) = Some t"
  using assms c_string_of_text
  by (metis block_cells.simps(2) string_rep_block string_rep_def)

lemma string_rep_unique: "string_rep s t \<Longrightarrow> string_rep s u \<Longrightarrow> t = u"
  by (metis string_rep_c_string option.inject)

text \<open>A block that starts with the text and its NUL makes a string.\<close>

lemma string_repI:
  assumes "0 \<notin> set t" "length b < 2 ^ 63" "length t < length b"
    "take (Suc (length t)) b = map Some (t @ [0])" "unat n = length t" "unat c = length b"
  shows "string_rep \<lparr>s_data = Block b, s_length = n, s_capacity = c\<rparr> t"
  using assms by (simp add: string_rep_def)

section \<open>The operations on represented texts\<close>

lemma string_alloc_spec:
  assumes "0 < unat n"
  shows "(\<exists>b c w'. ten__string_alloc n w = Some (Some \<lparr>s_data = Block b, s_length = 0, s_capacity = c\<rparr>, w') \<and>
            length b = unat c \<and> unat n \<le> unat c \<and> unat c < 2 ^ 63 \<and> b ! 0 = Some 0 \<and>
            g_ten_last_error w' = TEN_OK \<and> refusals w' = refusals w \<and> live w' = live w + 2) \<or>
         (\<exists>w'. ten__string_alloc n w = Some (None, w') \<and> g_ten_last_error w' = TEN_ERROR_OUT_OF_MEMORY \<and>
            refusals w < refusals w' \<and> live w' = live w)"
proof (cases rule: ten_malloc_cases [where n = sizeof_ten_string and w = w])
  case (granted w1)
  note m1 = granted
  define c where "c = (if 16 < n then n else 16)"
  have c: "unat n \<le> unat c" "0 < unat c"
    using assms by (auto simp: c_def size_nat)
  have unfold: "ten__string_alloc n w =
      (let (data, w2) = ten_malloc c w1
       in if is_Null data then do { w3 \<leftarrow> free_struct w2; Some (None, w3) }
          else do {
            d \<leftarrow> block_write 0 [Some 0] data;
            Some (Some \<lparr>s_data = d, s_length = 0, s_capacity = c\<rparr>, w2) })"
    using m1(2) by (simp add: ten__string_alloc_def c_def [symmetric] del: free_struct_eq)
  show ?thesis
  proof (cases rule: ten_malloc_cases [where n = c and w = w1])
    case (granted w2)
    with m1 c show ?thesis
      by (auto simp: unfold Suc_le_eq)
  next
    case (refused w2)
    with m1 show ?thesis by (auto simp: unfold)
  qed
next
  case (refused w1)
  then show ?thesis by (auto simp: ten__string_alloc_def)
qed

lemma unat_strlen_Suc:
  "length t < 2 ^ 63 \<Longrightarrow> unat (strlen t + 1) = Suc (length t)"
  by (subst unat_add_size) (auto simp: unat_strlen)

lemma string_create_spec:
  assumes t: "cstr_ok t"
  shows "(\<exists>s w'. ten_string_create (Some t) w = Some (Some s, w') \<and> string_rep s t \<and>
            g_ten_last_error w' = TEN_OK \<and> refusals w' = refusals w \<and> live w' = live w + 2) \<or>
         (\<exists>w'. ten_string_create (Some t) w = Some (None, w') \<and>
            g_ten_last_error w' = TEN_ERROR_OUT_OF_MEMORY \<and> refusals w < refusals w' \<and> live w' = live w)"
proof -
  have len: "unat (strlen t + 1) = Suc (length t)" "0 < unat (strlen t + 1)"
    using t by (simp_all add: unat_strlen_Suc cstr_ok_def)
  from string_alloc_spec [OF len(2), of w] show ?thesis
  proof (elim disjE exE conjE)
    fix b c w'
    assume a: "ten__string_alloc (strlen t + 1) w =
        Some (Some \<lparr>s_data = Block b, s_length = 0, s_capacity = c\<rparr>, w')"
      and b: "length b = unat c" "unat (strlen t + 1) \<le> unat c" "unat c < 2 ^ 63"
      and acc: "refusals w' = refusals w" "live w' = live w + 2"
    let ?s = "\<lparr>s_data = Block (map Some (t @ [0]) @ drop (Suc (length t)) b),
               s_length = strlen t, s_capacity = c\<rparr>"
    have "ten_string_create (Some t) w = Some (Some ?s, ten__set_error TEN_OK w')"
      using a b len(1) by (simp add: ten_string_create_def)
    moreover have "string_rep ?s t"
      using t b len(1) by (intro string_repI) (auto simp: cstr_ok_def unat_strlen)
    ultimately show ?thesis using acc by auto
  next
    fix w'
    assume "ten__string_alloc (strlen t + 1) w = Some (None, w')"
      "g_ten_last_error w' = TEN_ERROR_OUT_OF_MEMORY" "refusals w < refusals w'" "live w' = live w"
    then show ?thesis by (simp add: ten_string_create_def)
  qed
qed

lemma string_empty_spec:
  "(\<exists>s w'. ten_string_empty w = Some (Some s, w') \<and> string_rep s [] \<and>
      g_ten_last_error w' = TEN_OK \<and> refusals w' = refusals w \<and> live w' = live w + 2) \<or>
   (\<exists>w'. ten_string_empty w = Some (None, w') \<and>
      g_ten_last_error w' = TEN_ERROR_OUT_OF_MEMORY \<and> refusals w < refusals w' \<and> live w' = live w)"
proof -
  have "0 < unat (1 :: size_t)" by simp
  from string_alloc_spec [OF this, of w] show ?thesis
  proof (elim disjE exE conjE)
    fix b c w'
    assume "ten__string_alloc 1 w = Some (Some \<lparr>s_data = Block b, s_length = 0, s_capacity = c\<rparr>, w')"
      and b: "length b = unat c" "unat (1 :: size_t) \<le> unat c" "unat c < 2 ^ 63" "b ! 0 = Some 0"
      and "refusals w' = refusals w" "live w' = live w + 2"
    moreover have "string_rep \<lparr>s_data = Block b, s_length = 0, s_capacity = c\<rparr> []"
      using b by (intro string_repI) (cases b; simp)+
    ultimately show ?thesis by (simp add: ten_string_empty_def)
  qed (auto simp: ten_string_empty_def)
qed

lemma string_destroy_spec:
  "string_rep s t \<Longrightarrow>
   \<exists>w'. ten_string_destroy (Some s) w = Some w' \<and> live w' = live w - 2 \<and>
     g_ten_last_error w' = g_ten_last_error w \<and> refusals w' = refusals w"
  by (cases "s_data s") (auto simp: ten_string_destroy_def string_rep_def ten_free_def)

lemma string_cstr_spec:
  "string_rep s t \<Longrightarrow> ten_string_cstr (Some s) w = Some (Some t, ten__set_error TEN_OK w)"
  by (simp add: ten_string_cstr_def string_rep_c_string)

lemma string_length_spec:
  "string_rep s t \<Longrightarrow> ten_string_length (Some s) w = (strlen t, ten__set_error TEN_OK w)"
  by (simp add: ten_string_length_def string_rep_def strlen_def)

lemma string_reserve_spec:
  assumes rep: "string_rep s t" and n: "unat n \<le> 2 ^ 63"
  shows "(\<exists>s' w'. string_reserve s n w = Some (TEN_OK, s', w') \<and> string_rep s' t \<and>
            s_length s' = s_length s \<and> unat n \<le> unat (s_capacity s') \<and>
            refusals w' = refusals w \<and> live w' = live w) \<or>
         (\<exists>w'. string_reserve s n w = Some (TEN_ERROR_OUT_OF_MEMORY, s, w') \<and>
            g_ten_last_error w' = TEN_ERROR_OUT_OF_MEMORY \<and>
            refusals w < refusals w' \<and> live w' = live w)"
proof (cases "s_capacity s < n")
  case False
  with rep show ?thesis by (simp add: string_reserve_def size_nat)
next
  case True
  let ?start = "if s_capacity s = 0 then 16 else s_capacity s * 2"
  have cap: "unat (s_capacity s) < 2 ^ 63" using rep by (simp add: string_rep_def)
  have start: "0 < unat ?start" "unat (s_capacity s) \<le> unat ?start"
    using cap by (auto simp: unat_double size_eq_iff)
  obtain c where c: "double_until ?start n = Some c" "n \<le> c" "?start \<le> c"
    using double_until_total [OF start(1) n] by blast
  have nd: "\<not> is_Dangling (s_data s)" using rep by (cases "s_data s") (auto simp: string_rep_def)
  have bound: "unat (s_capacity s) \<le> unat c" "unat n \<le> unat c" "c \<noteq> 0"
    using c start True by (auto simp: size_nat)
  from nd show ?thesis
  proof (cases rule: ten_realloc_cases [where n = c and w = w and cs = 1])
    case (granted w')
    let ?s = "s\<lparr>s_data := Block (block_cells (s_data s) @ replicate (unat c - unat (s_capacity s)) None),
                s_capacity := c\<rparr>"
    have "string_reserve s n w = Some (TEN_OK, ?s, w')"
      using True c(1) granted(2) bound(1) rep by (simp add: string_reserve_def string_rep_def)
    moreover have "string_rep ?s t"
      using rep bound(1) granted(3) by (auto simp: string_rep_def)
    moreover have "owned (s_data s) = 1"
      using rep by (cases "s_data s") (auto simp: string_rep_def)
    ultimately show ?thesis
      using granted bound by auto
  next
    case (refused w')
    then have "string_reserve s n w = Some (TEN_ERROR_OUT_OF_MEMORY, s, w')"
      using True c(1) by (simp add: string_reserve_def)
    with refused show ?thesis by auto
  next
    case (emptied w')
    with bound(3) show ?thesis by simp
  qed
qed

lemma string_append_spec:
  assumes rep: "string_rep s t" and u: "0 \<notin> set u" and fit: "length t + length u < 2 ^ 63"
  shows "(\<exists>s' w'. ten_string_append (Some s) (Some u) w = Some (TEN_OK, Some s', w') \<and>
            string_rep s' (t @ u) \<and> g_ten_last_error w' = TEN_OK \<and>
            refusals w' = refusals w \<and> live w' = live w) \<or>
         (\<exists>w'. ten_string_append (Some s) (Some u) w = Some (TEN_ERROR_OUT_OF_MEMORY, Some s, w') \<and>
            g_ten_last_error w' = TEN_ERROR_OUT_OF_MEMORY \<and> refusals w < refusals w' \<and> live w' = live w)"
proof -
  have n: "unat (strlen u) = length u" "unat (strlen u + 1) = Suc (length u)"
    using fit by (simp_all add: unat_strlen unat_strlen_Suc)
  have l: "unat (s_length s) = length t" using rep by (simp add: string_rep_def)
  have sum: "unat (s_length s + strlen u) = length t + length u"
    using n l fit by (subst unat_add_size) auto
  then have need: "unat (s_length s + strlen u + 1) = Suc (length t + length u)"
    using fit by (subst unat_add_size) auto
  have le: "unat (s_length s + strlen u + 1) \<le> 2 ^ 63" using need fit by simp
  from string_reserve_spec [OF rep le, of w] show ?thesis
  proof (elim disjE exE conjE)
    fix s' w'
    assume r: "string_reserve s (s_length s + strlen u + 1) w = Some (TEN_OK, s', w')" "string_rep s' t"
      "s_length s' = s_length s" "unat (s_length s + strlen u + 1) \<le> unat (s_capacity s')"
      "refusals w' = refusals w" "live w' = live w"
    obtain rest where rest: "s_data s' = Block (map Some t @ Some 0 # rest)"
        "Suc (length t + length rest) = unat (s_capacity s')"
      using r(2) by (rule string_rep_block)
    let ?c = "map Some t @ map Some (u @ [0]) @ drop (length u) rest"
    let ?s = "s'\<lparr>s_data := Block ?c, s_length := s_length s + strlen u\<rparr>"
    have "ten_string_append (Some s) (Some u) w = Some (TEN_OK, Some ?s, ten__set_error TEN_OK w')"
      using r rest n l need by (simp add: ten_string_append_def)
    moreover have "string_rep ?s (t @ u)"
      using rest r(2,4) u sum need by (auto simp: string_rep_def)
    ultimately show ?thesis using r by auto
  next
    fix w'
    assume "string_reserve s (s_length s + strlen u + 1) w = Some (TEN_ERROR_OUT_OF_MEMORY, s, w')"
      "g_ten_last_error w' = TEN_ERROR_OUT_OF_MEMORY" "refusals w < refusals w'" "live w' = live w"
    then show ?thesis by (auto simp: ten_string_append_def)
  qed
qed

text \<open>A string is a sink for texts without NUL.\<close>

definition string_put ::
    "ten_string \<Rightarrow> cstring \<Rightarrow> ten_world \<Rightarrow> (ten_error_code \<times> ten_string \<times> ten_world) option" where
  "string_put s t w = do {
     (rc, s1, w1) \<leftarrow> ten_string_append (Some s) (Some t) w;
     s2 \<leftarrow> s1;
     Some (rc, s2, w1)
   }"

interpretation string_sink: append_sink string_rep string_owned "\<lambda>t. 0 \<notin> set t" string_put
proof unfold_locales
  fix s t w and u :: "byte list"
  assume "string_rep s t" "0 \<notin> set u" "length t + length u < 2 ^ 63"
  then show "(\<exists>s' w'. string_put s u w = Some (TEN_OK, s', w') \<and> string_rep s' (t @ u) \<and>
        g_ten_last_error w' = TEN_OK \<and> refusals w' = refusals w \<and>
        live w' - string_owned s' = live w - string_owned s) \<or>
      (\<exists>w'. string_put s u w = Some (TEN_ERROR_OUT_OF_MEMORY, s, w') \<and>
        g_ten_last_error w' = TEN_ERROR_OUT_OF_MEMORY \<and>
        refusals w < refusals w' \<and> live w' = live w)"
    using string_append_spec [of s t u w] by (auto simp: string_put_def string_rep_owned)
qed

lemma string_prefix_values:
  assumes "string_rep s t" "i + n \<le> length t"
  shows "block_values i n (s_data s) = Some (take n (drop i t))"
    "block_read i n (s_data s) = Some (map Some (take n (drop i t)))"
proof -
  obtain rest where rest: "s_data s = Block (map Some t @ Some 0 # rest)"
    using assms(1) by (rule string_rep_block)
  have "map Some t = take (length t) (map Some t @ Some 0 # rest)" by simp
  then show vals: "block_values i n (s_data s) = Some (take n (drop i t))"
    unfolding rest by (rule block_values_whole) (use assms(2) in simp_all)
  then show "block_read i n (s_data s) = Some (map Some (take n (drop i t)))"
    by (auto simp: block_values_eq_Some)
qed

lemma string_equals_spec:
  assumes s: "string_rep s t" and s': "string_rep s' u"
  shows "ten_string_equals (Some s) (Some s') w = Some (t = u, ten__set_error TEN_OK w)"
proof -
  have l: "unat (s_length s) = length t" "unat (s_length s') = length u"
    using s s' by (simp_all add: string_rep_def)
  show ?thesis
  proof (cases "length t = length u")
    case True
    then show ?thesis
      using l string_prefix_values(1) [OF s, of 0 "length t"] string_prefix_values(1) [OF s', of 0 "length t"]
      by (simp add: ten_string_equals_def size_eq_iff)
  next
    case False
    then show ?thesis using l by (auto simp: ten_string_equals_def size_eq_iff)
  qed
qed

lemma strstr_sublist: "strstr h n \<longleftrightarrow> sublist n h"
proof (induction h)
  case (Cons b h)
  have "take (length n) (b # h) = n \<longleftrightarrow> prefix n (b # h)"
    by (metis append_eq_conv_conj prefix_def take_is_prefix)
  with Cons show ?case by (simp add: sublist_Cons_right)
qed auto

lemma string_contains_spec:
  "string_rep s t \<Longrightarrow>
   ten_string_contains (Some s) (Some n) w = Some (sublist n t, ten__set_error TEN_OK w)"
  by (simp add: ten_string_contains_def string_rep_c_string strstr_sublist)

lemma string_substring_range:
  "string_rep s t \<Longrightarrow> length t < unat i + unat n \<Longrightarrow>
   ten_string_substring (Some s) i n w = Some (None, ten__set_error TEN_ERROR_OUT_OF_RANGE w)"
  by (auto simp: ten_string_substring_def string_rep_def size_nat unat_diff_size)

lemma string_substring_spec:
  assumes rep: "string_rep s t" and inside: "unat i + unat n \<le> length t"
  shows "(\<exists>s' w'. ten_string_substring (Some s) i n w = Some (Some s', w') \<and>
            string_rep s' (take (unat n) (drop (unat i) t)) \<and> g_ten_last_error w' = TEN_OK \<and>
            refusals w' = refusals w \<and> live w' = live w + 2) \<or>
         (\<exists>w'. ten_string_substring (Some s) i n w = Some (None, w') \<and>
            g_ten_last_error w' = TEN_ERROR_OUT_OF_MEMORY \<and> refusals w < refusals w' \<and> live w' = live w)"
proof -
  let ?t = "take (unat n) (drop (unat i) t)"
  have l: "unat (s_length s) = length t" "length t < 2 ^ 63" "0 \<notin> set t"
    using rep string_rep_small [OF rep] by (simp_all add: string_rep_def)
  have guard: "\<not> (i > s_length s \<or> n > s_length s - i)"
    using inside l(1) by (auto simp: size_nat unat_diff_size)
  have n1: "unat (n + 1) = Suc (unat n)" "0 < unat (n + 1)"
    using inside l(2) by (simp_all add: unat_add_size)
  have len: "length ?t = unat n" using inside by simp
  have nul: "0 \<notin> set ?t" using l(3) by (meson in_set_dropD in_set_takeD)
  from string_alloc_spec [OF n1(2), of w] show ?thesis
  proof (elim disjE exE conjE)
    fix b c w'
    assume a: "ten__string_alloc (n + 1) w =
        Some (Some \<lparr>s_data = Block b, s_length = 0, s_capacity = c\<rparr>, w')"
      and b: "length b = unat c" "unat (n + 1) \<le> unat c" "unat c < 2 ^ 63"
      and acc: "refusals w' = refusals w" "live w' = live w + 2"
    let ?b = "map Some ?t @ Some 0 # drop (Suc (unat n)) b"
    have "ten_string_substring (Some s) i n w =
        Some (Some \<lparr>s_data = Block ?b, s_length = n, s_capacity = c\<rparr>, ten__set_error TEN_OK w')"
      using a b guard n1(1) len string_prefix_values(2) [OF rep inside] inside
      by (simp add: ten_string_substring_def)
    moreover have "string_rep \<lparr>s_data = Block ?b, s_length = n, s_capacity = c\<rparr> ?t"
      using b n1(1) len nul inside by (intro string_repI) auto
    ultimately show ?thesis using acc by auto
  next
    fix w'
    assume "ten__string_alloc (n + 1) w = Some (None, w')"
      "g_ten_last_error w' = TEN_ERROR_OUT_OF_MEMORY" "refusals w < refusals w'" "live w' = live w"
    with guard show ?thesis by (simp add: ten_string_substring_def)
  qed
qed

section \<open>The contract\<close>

datatype string_command =
    String_Append cstring
  | String_Cstr
  | String_Length
  | String_Contains cstring
  | String_Slice size_t size_t

datatype string_answer =
    String_Rc ten_error_code | Text "cstring option" | String_Size size_t | Holds bool

text \<open>
  A command on a string: what the call returns, and the last error after it. \<open>String_Slice\<close>
  takes the substring, reads it and destroys it.
\<close>

primrec string_step ::
    "string_command \<Rightarrow> ten_string \<Rightarrow> ten_world \<Rightarrow>
     ((string_answer \<times> ten_error_code) \<times> ten_string \<times> ten_world) option" where
  "string_step (String_Append t) s w = do {
     (rc, s1, w1) \<leftarrow> string_put s t w; Some ((String_Rc rc, ten_last_error w1), s1, w1) }"
| "string_step String_Cstr s w = do {
     (t, w1) \<leftarrow> ten_string_cstr (Some s) w; Some ((Text t, ten_last_error w1), s, w1) }"
| "string_step String_Length s w =
     (let (n, w1) = ten_string_length (Some s) w in Some ((String_Size n, ten_last_error w1), s, w1))"
| "string_step (String_Contains t) s w = do {
     (b, w1) \<leftarrow> ten_string_contains (Some s) (Some t) w; Some ((Holds b, ten_last_error w1), s, w1) }"
| "string_step (String_Slice i n) s w = do {
     (r, w1) \<leftarrow> ten_string_substring (Some s) i n w;
     (case r of
        None \<Rightarrow> Some ((Text None, ten_last_error w1), s, w1)
      | Some sub \<Rightarrow> do {
          (t, w2) \<leftarrow> ten_string_cstr (Some sub) w1;
          w3 \<leftarrow> ten_string_destroy (Some sub) w2;
          Some ((Text t, ten_last_error w3), s, w3)
        })
   }"

primrec string_spec :: "string_command \<Rightarrow> cstring \<Rightarrow> (string_answer \<times> ten_error_code) \<times> cstring" where
  "string_spec (String_Append u) t = ((String_Rc TEN_OK, TEN_OK), t @ u)"
| "string_spec String_Cstr t = ((Text (Some t), TEN_OK), t)"
| "string_spec String_Length t = ((String_Size (strlen t), TEN_OK), t)"
| "string_spec (String_Contains u) t = ((Holds (sublist u t), TEN_OK), t)"
| "string_spec (String_Slice i n) t =
     (if unat i + unat n \<le> length t then ((Text (Some (take (unat n) (drop (unat i) t))), TEN_OK), t)
      else ((Text None, TEN_ERROR_OUT_OF_RANGE), t))"

primrec string_oom :: "string_command \<Rightarrow> string_answer \<times> ten_error_code" where
  "string_oom (String_Append u) = (String_Rc TEN_ERROR_OUT_OF_MEMORY, TEN_ERROR_OUT_OF_MEMORY)"
| "string_oom String_Cstr = (Text None, TEN_ERROR_OUT_OF_MEMORY)"
| "string_oom String_Length = (Text None, TEN_ERROR_OUT_OF_MEMORY)"
| "string_oom (String_Contains u) = (Text None, TEN_ERROR_OUT_OF_MEMORY)"
| "string_oom (String_Slice i n) = (Text None, TEN_ERROR_OUT_OF_MEMORY)"

primrec string_allowed :: "string_command \<Rightarrow> cstring \<Rightarrow> bool" where
  "string_allowed (String_Append u) t \<longleftrightarrow> 0 \<notin> set u \<and> length t + length u < 2 ^ 63"
| "string_allowed String_Cstr t \<longleftrightarrow> True"
| "string_allowed String_Length t \<longleftrightarrow> True"
| "string_allowed (String_Contains u) t \<longleftrightarrow> True"
| "string_allowed (String_Slice i n) t \<longleftrightarrow> True"

lemma string_slice_law:
  assumes rep: "string_rep s t"
  shows "\<exists>r w'. string_step (String_Slice i n) s w = Some (r, s, w') \<and> live w' = live w \<and>
    (refusals w' = refusals w \<and> r = fst (string_spec (String_Slice i n) t) \<or>
     refusals w < refusals w' \<and> r = string_oom (String_Slice i n))"
proof (cases "unat i + unat n \<le> length t")
  case True
  from string_substring_spec [OF rep True, of w] show ?thesis
  proof (elim disjE exE conjE)
    fix s' w'
    assume sub: "ten_string_substring (Some s) i n w = Some (Some s', w')"
      "string_rep s' (take (unat n) (drop (unat i) t))" "g_ten_last_error w' = TEN_OK"
      "refusals w' = refusals w" "live w' = live w + 2"
    obtain w3 where "ten_string_destroy (Some s') (ten__set_error TEN_OK w') = Some w3"
      "live w3 = live w" "g_ten_last_error w3 = TEN_OK" "refusals w3 = refusals w"
      using string_destroy_spec [OF sub(2), of "ten__set_error TEN_OK w'"] sub(4,5) by auto
    then show ?thesis
      using sub True by (simp add: string_cstr_spec [OF sub(2)] ten_last_error_def)
  qed (simp add: ten_last_error_def)
qed (simp add: string_substring_range [OF rep])

lemma string_step_law:
  assumes rep: "string_rep s t" and ok: "string_allowed c t"
  shows "\<exists>r s' w'. string_step c s w = Some (r, s', w') \<and> live w' - string_owned s' = live w - string_owned s \<and>
      (refusals w' = refusals w \<and> r = fst (string_spec c t) \<and> string_rep s' (snd (string_spec c t)) \<or>
       refusals w < refusals w' \<and> r = string_oom c \<and> string_rep s' t)"
proof (cases c)
  case (String_Append u)
  then show ?thesis
    using string_sink.put_law [OF rep, of u w] ok rep by (auto simp: ten_last_error_def)
next
  case String_Cstr
  then show ?thesis using rep by (simp add: string_cstr_spec [OF rep])
next
  case String_Length
  then show ?thesis using rep by (simp add: string_length_spec [OF rep])
next
  case (String_Contains u)
  then show ?thesis using rep by (simp add: string_contains_spec [OF rep])
next
  case (String_Slice i n)
  have "snd (string_spec (String_Slice i n) t) = t" by simp
  then show ?thesis
    using string_slice_law [OF rep, of i n w] rep unfolding String_Slice by fastforce
qed

interpretation string_component:
  ten_owned_component string_step string_spec string_oom string_rep string_owned string_allowed
    "\<lambda>s. ten_string_destroy (Some s)"
proof unfold_locales
  fix s t w
  assume "string_rep s t"
  then show "\<exists>w'. ten_string_destroy (Some s) w = Some w' \<and> live w' = live w - string_owned s"
    using string_destroy_spec [of s t w] string_rep_owned [of s t] by auto
qed (rule string_step_law)

end
