(* ===== verification/Ten_Encoding.thy ===== *)
theory Ten_Encoding
  imports Ten_Memory Ten_String
begin

text \<open>
  The encoding module (\<open>include/ten/encoding.h\<close>, \<open>src/encoding/encoding.c\<close>): Base64,
  hexadecimal, UTF-8 and UTF-16. Loops over an input take the input from the current position
  on as a list; loops that fill a block write through \<open>store\<close>, which is undefined outside the
  block. The results of the loops are related to the pure functions \<open>base64_text\<close>,
  \<open>base64_data\<close>, \<open>hex_text\<close>, \<open>hex_data\<close>, \<open>utf8_text\<close> and \<open>utf16_text\<close>.
\<close>

unbundle bit_operations_syntax

abbreviation chr :: "char \<Rightarrow> byte" where
  "chr c \<equiv> of_char c"

section \<open>Base64\<close>

definition TEN_BASE64_ALPHABET :: "cstring" where
  "TEN_BASE64_ALPHABET = ascii ''ABCDEFGHIJKLMNOPQRSTUVWXYZabcdefghijklmnopqrstuvwxyz0123456789+/''"

definition ten__base64_value :: "byte \<Rightarrow> int" where
  "ten__base64_value c =
     (if c \<ge> chr CHR ''A'' \<and> c \<le> chr CHR ''Z'' then uint c - uint (chr CHR ''A'')
      else if c \<ge> chr CHR ''a'' \<and> c \<le> chr CHR ''z'' then uint c - uint (chr CHR ''a'') + 26
      else if c \<ge> chr CHR ''0'' \<and> c \<le> chr CHR ''9'' then uint c - uint (chr CHR ''0'') + 52
      else if c = chr CHR ''+'' then 62
      else if c = chr CHR ''/'' then 63
      else -1)"

definition base64_char :: "u32 \<Rightarrow> byte" where
  "base64_char x = TEN_BASE64_ALPHABET ! unat (x AND 0x3F)"

text \<open>The four stores of one round, for the bytes \<open>x # xs\<close> from position \<open>i\<close> on.\<close>

definition base64_group :: "byte \<Rightarrow> byte list \<Rightarrow> byte list" where
  "base64_group x xs =
     (let a = ucast x :: u32;
          b = (if 1 \<le> length xs then ucast (xs ! 0) else 0);
          c = (if 2 \<le> length xs then ucast (xs ! 1) else 0);
          triple = push_bit 16 a OR push_bit 8 b OR c
      in [base64_char (drop_bit 18 triple),
          base64_char (drop_bit 12 triple),
          (if 1 \<le> length xs then base64_char (drop_bit 6 triple) else chr CHR ''=''),
          (if 2 \<le> length xs then base64_char triple else chr CHR ''='')])"

fun base64_encode_loop :: "byte list \<Rightarrow> nat \<times> byte ptr \<Rightarrow> (nat \<times> byte ptr) option" where
  "base64_encode_loop [] st = Some st"
| "base64_encode_loop (x # xs) st = do {
     st1 \<leftarrow> store (base64_group x xs) st;
     base64_encode_loop (drop 2 xs) st1
   }"

definition ten_base64_encode ::
    "byte list option \<Rightarrow> size_t \<Rightarrow> ten_world \<Rightarrow> (byte ptr \<times> ten_world) option" where
  "ten_base64_encode data sz w =
     (if data = None \<and> sz > 0 then Some (Null, ten__set_error TEN_ERROR_NULL_ARGUMENT w)
      else
        let out_len = ((sz + 2) div 3) * 4;
            (out, w1) = ten_malloc (out_len + 1) w
        in if is_Null out then Some (Null, w1)
           else do {
             bytes \<leftarrow> c_object data sz;
             st \<leftarrow> base64_encode_loop bytes (0, out);
             (j, out') \<leftarrow> store [0] st;
             Some (out', ten__set_error TEN_OK w1)
           })"

text \<open>One round of decoding: the bytes stored, or \<open>None\<close> for an invalid group.\<close>

definition base64_ungroup :: "byte \<Rightarrow> byte \<Rightarrow> byte \<Rightarrow> byte \<Rightarrow> byte list option" where
  "base64_ungroup t0 t1 t2 t3 =
     (let a = ten__base64_value t0;
          b = ten__base64_value t1;
          pad2 = (t2 = chr CHR ''='');
          pad3 = (t3 = chr CHR ''='');
          c = (if pad2 then 0 else ten__base64_value t2);
          d = (if pad3 then 0 else ten__base64_value t3)
      in if a < 0 \<or> b < 0 \<or> \<not> pad2 \<and> c < 0 \<or> \<not> pad3 \<and> d < 0 \<or> pad2 \<and> \<not> pad3 then None
         else Some ([word_of_int (push_bit 2 a OR drop_bit 4 b)] @
                    (if \<not> pad2 then [word_of_int (push_bit 4 (b AND 0xF) OR drop_bit 2 c)] else []) @
                    (if \<not> pad3 then [word_of_int (push_bit 6 (c AND 0x3) OR d)] else [])))"

fun base64_decode_loop :: "cstring \<Rightarrow> nat \<times> byte ptr \<Rightarrow> (bool \<times> nat \<times> byte ptr) option" where
  "base64_decode_loop [] st = Some (True, st)"
| "base64_decode_loop (t0 # t1 # t2 # t3 # rest) st =
     (case base64_ungroup t0 t1 t2 t3 of
        None \<Rightarrow> Some (False, st)
      | Some bytes \<Rightarrow> do { st1 \<leftarrow> store bytes st; base64_decode_loop rest st1 })"
| "base64_decode_loop _ st = None"

text \<open>\<open>sz\<close> is the object \<open>size\<close> points to, \<open>None\<close> for a null pointer.\<close>

definition ten_base64_decode ::
    "cstring option \<Rightarrow> size_t option \<Rightarrow> ten_world \<Rightarrow> (byte ptr \<times> size_t option \<times> ten_world) option" where
  "ten_base64_decode text sz w =
     (case (text, sz) of
        (Some t, Some _) \<Rightarrow>
          let len = strlen t
          in if len mod 4 \<noteq> 0 then Some (Null, sz, ten__set_error TEN_ERROR_ENCODING w)
             else
               let out_len = (len div 4) * 3;
                   (out, w1) = ten_malloc (if out_len > 0 then out_len else 1) w
               in if is_Null out then Some (Null, sz, w1)
                  else do {
                    (valid, out_pos, out') \<leftarrow> base64_decode_loop t (0, out);
                    if valid then Some (out', Some (of_nat out_pos), ten__set_error TEN_OK w1)
                    else do {
                      w2 \<leftarrow> ten_free out' w1;
                      Some (Null, sz, ten__set_error TEN_ERROR_ENCODING w2)
                    }
                  }
      | _ \<Rightarrow> Some (Null, sz, ten__set_error TEN_ERROR_NULL_ARGUMENT w))"

section \<open>Base64: the text and the data\<close>

fun base64_text :: "byte list \<Rightarrow> cstring" where
  "base64_text [] = []"
| "base64_text (x # xs) = base64_group x xs @ base64_text (drop 2 xs)"

fun base64_data :: "cstring \<Rightarrow> byte list option" where
  "base64_data [] = Some []"
| "base64_data (t0 # t1 # t2 # t3 # rest) = do {
     bs \<leftarrow> base64_ungroup t0 t1 t2 t3;
     cs \<leftarrow> base64_data rest;
     Some (bs @ cs)
   }"
| "base64_data _ = None"

lemma length_base64_group [simp]: "length (base64_group x xs) = 4"
  by (simp add: base64_group_def Let_def)

lemma length_base64_text: "length (base64_text bs) = (length bs + 2) div 3 * 4"
proof (induction bs rule: base64_text.induct)
  case (2 x xs)
  show ?case
  proof (cases "length xs < 2")
    case True
    then have "drop 2 xs = []" by simp
    with True show ?thesis by auto
  next
    case False
    then obtain k where "length xs = k + 2" by (metis add.commute le_Suc_ex not_less)
    moreover have "(k + 5) div 3 = (k + 2) div 3 + 1" by simp
    ultimately show ?thesis using 2 by (simp add: add.commute)
  qed
qed simp

lemma base64_encode_loop_text:
  "filled n ys st \<Longrightarrow> length ys + length (base64_text bs) \<le> n \<Longrightarrow>
   \<exists>st'. base64_encode_loop bs st = Some st' \<and> filled n (ys @ base64_text bs) st'"
proof (induction bs st arbitrary: ys rule: base64_encode_loop.induct)
  case (2 x xs st)
  obtain st1 where st1: "store (base64_group x xs) st = Some st1" "filled n (ys @ base64_group x xs) st1"
    using store_filled [OF 2(2), of "base64_group x xs"] 2(3) by auto
  show ?case using 2(1) [OF st1(1,2)] 2(3) st1(1) by auto
qed simp

lemma base64_values: "map ten__base64_value TEN_BASE64_ALPHABET = map int [0..<64]"
  by code_simp

lemma base64_value_char: "ten__base64_value (base64_char x) = uint (x AND 0x3F)"
proof -
  have "unat (x AND 0x3F) < 64"
    using word_and_le1 [of x "0x3F"] by (simp add: word_le_nat_alt)
  moreover have "length TEN_BASE64_ALPHABET = 64" by code_simp
  ultimately show ?thesis
    using arg_cong [OF base64_values, of "\<lambda>l. l ! unat (x AND 0x3F)"]
    by (simp add: base64_char_def)
qed

lemma base64_value_pad: "ten__base64_value (chr CHR ''='') = -1"
  by code_simp

lemma base64_char_not_pad: "base64_char x \<noteq> 0x3D" "base64_char x \<noteq> 0"
proof -
  have "0 \<le> ten__base64_value (base64_char x)" by (simp add: base64_value_char)
  moreover have "ten__base64_value 0 = -1" by code_simp
  ultimately show "base64_char x \<noteq> 0x3D" "base64_char x \<noteq> 0"
    using base64_value_pad by force+
qed

text \<open>The three bytes of a triple, put together again from its six-bit digits.\<close>

lemma masks:
  "(x :: u32) AND 0x3F = take_bit 6 x" "(i :: int) AND 0xF = take_bit 4 i" "i AND 0x3 = take_bit 2 i"
  by (simp_all add: take_bit_eq_mask mask_eq_exp_minus_1)

lemma base64_digits:
  fixes a b c :: byte
  defines "T \<equiv> push_bit 16 (ucast a) OR push_bit 8 (ucast b) OR (ucast c :: u32)"
  shows "word_of_int (push_bit 2 (uint (take_bit 6 (drop_bit 18 T))) OR
            drop_bit 4 (uint (take_bit 6 (drop_bit 12 T)))) = a"
    "word_of_int (push_bit 4 (take_bit 4 (uint (take_bit 6 (drop_bit 12 T)))) OR
       drop_bit 2 (uint (take_bit 6 (drop_bit 6 T)))) = b"
    "word_of_int (push_bit 6 (take_bit 2 (uint (take_bit 6 (drop_bit 6 T)))) OR
       uint (take_bit 6 T)) = c"
  unfolding T_def
  by (rule byte_eqI; elim insertE emptyE; simp add: bit_simps byte_high)+

lemma base64_ungroup_group:
  "base64_group x xs = [t0, t1, t2, t3] \<Longrightarrow> base64_ungroup t0 t1 t2 t3 = Some (x # take 2 xs)"
proof -
  assume g: "base64_group x xs = [t0, t1, t2, t3]"
  consider "xs = []" | y where "xs = [y]" | y z zs where "xs = y # z # zs"
    by (metis list.exhaust)
  then show ?thesis
  proof cases
    case 1
    with g base64_digits(1) [of x 0 0] show ?thesis
      by (auto simp: base64_group_def base64_ungroup_def base64_value_char base64_char_not_pad masks Let_def)
  next
    case 2
    with g base64_digits(1,2) [of x y 0] show ?thesis
      by (auto simp: base64_group_def base64_ungroup_def base64_value_char base64_char_not_pad masks Let_def)
  next
    case 3
    with g base64_digits [of x y z] show ?thesis
      by (auto simp: base64_group_def base64_ungroup_def base64_value_char base64_char_not_pad masks Let_def)
  qed
qed

lemma base64_data_text: "base64_data (base64_text bs) = Some bs"
proof (induction bs rule: base64_text.induct)
  case (2 x xs)
  obtain t0 t1 t2 t3 where g: "base64_group x xs = [t0, t1, t2, t3]"
    by (simp add: base64_group_def Let_def)
  then show ?case using 2 base64_ungroup_group [OF g] by simp
qed simp

lemma base64_text_no_nul: "0 \<notin> set (base64_text bs)"
proof (induction bs rule: base64_text.induct)
  case (2 x xs)
  have "chr CHR ''='' \<noteq> 0" by simp
  with 2 base64_char_not_pad(2) show ?case
    by (auto simp: base64_group_def Let_def dest: sym)
qed simp

lemma base64_ungroup_length: "base64_ungroup t0 t1 t2 t3 = Some bs \<Longrightarrow> length bs \<le> 3"
  by (auto simp: base64_ungroup_def Let_def split: if_splits)

lemma base64_decode_loop_data:
  "filled n ys st \<Longrightarrow> length t mod 4 = 0 \<Longrightarrow> length ys + length t div 4 * 3 \<le> n \<Longrightarrow>
   \<exists>st' zs. base64_decode_loop t st = Some (base64_data t \<noteq> None, st') \<and> filled n zs st' \<and>
     (\<forall>bs. base64_data t = Some bs \<longrightarrow> zs = ys @ bs)"
proof (induction t st arbitrary: ys rule: base64_decode_loop.induct)
  case (2 t0 t1 t2 t3 rest st)
  show ?case
  proof (cases "base64_ungroup t0 t1 t2 t3")
    case None
    with 2(2) show ?thesis by auto
  next
    case (Some bs)
    have len: "length rest mod 4 = 0" "length (t0 # t1 # t2 # t3 # rest) div 4 = Suc (length rest div 4)"
      using 2(3) by simp_all
    have bs: "length bs \<le> 3" using base64_ungroup_length [OF Some] .
    with 2(4) len(2) obtain st1 where st1: "store bs st = Some st1" "filled n (ys @ bs) st1"
      using store_filled [OF 2(2), of bs] by auto
    have "length (ys @ bs) + length rest div 4 * 3 \<le> n" using 2(4) len(2) bs by simp
    from 2(1) [OF Some st1 len(1) this] obtain st' zs where
      "base64_decode_loop rest st1 = Some (base64_data rest \<noteq> None, st')" "filled n zs st'"
      "\<forall>cs. base64_data rest = Some cs \<longrightarrow> zs = (ys @ bs) @ cs"
      by blast
    with Some st1(1) show ?thesis
      by (intro exI [of _ st'] exI [of _ zs]) (auto simp: bind_eq_Some_conv)
  qed
qed auto

text \<open>Encoding is total: the text with its NUL in a block of exactly the size needed.\<close>

lemma base64_encode_spec:
  assumes n: "length bs < 2 ^ 63"
  shows "fresh_text (base64_text bs) w (ten_base64_encode (Some bs) (of_nat (length bs)) w)"
proof -
  let ?n = "of_nat (length bs) :: size_t"
  let ?m = "((?n + 2) div 3) * 4 + 1"
  have "unat ?n = length bs" using n by (intro unat_of_nat_size) simp
  then have "unat (?n + 2) = length bs + 2"
    using n by (subst unat_add_size) simp_all
  then have d: "unat ((?n + 2) div 3) = (length bs + 2) div 3"
    by (simp add: unat_div_size)
  then have "unat ((?n + 2) div 3 * 4) = (length bs + 2) div 3 * 4"
    using n by (subst unat_mult_size) simp_all
  then have m: "unat ?m = Suc (length (base64_text bs))"
    using n by (subst unat_add_size) (simp_all add: length_base64_text)
  show ?thesis
  proof (cases rule: ten_malloc_cases [where n = ?m and w = w])
    case (granted w1)
    have fresh: "filled (Suc (length (base64_text bs))) [] (0, Block (replicate (unat ?m) None))"
      unfolding m by (rule filled_fresh)
    obtain st where st: "base64_encode_loop bs (0, Block (replicate (unat ?m) None)) = Some st"
        "filled (Suc (length (base64_text bs))) (base64_text bs) st"
      using base64_encode_loop_text [OF fresh, of bs] by (auto simp del: split_paired_Ex)
    obtain st' where "store [0] st = Some st'"
        "filled (Suc (length (base64_text bs))) (base64_text bs @ [0]) st'"
      using store_filled [OF st(2), of "[0]"] by auto
    moreover from this(2) obtain j where "st' = (j, Block (c_bytes (base64_text bs)))"
      by (auto simp: filled_def c_bytes_def)
    ultimately show ?thesis
      using granted st(1) n by (simp add: fresh_text_def ten_base64_encode_def c_object_whole del: replicate.simps)
  next
    case (refused w1)
    then show ?thesis by (simp add: fresh_text_def ten_base64_encode_def)
  qed
qed

text \<open>Decoding is defined on every text, and its result is that of \<open>base64_data\<close>.\<close>

lemma base64_data_length: "base64_data t = Some bs \<Longrightarrow> length t mod 4 = 0 \<and> length bs \<le> length t div 4 * 3"
proof (induction t arbitrary: bs rule: base64_data.induct)
  case (2 t0 t1 t2 t3 rest)
  then obtain b c where bc: "base64_ungroup t0 t1 t2 t3 = Some b" "base64_data rest = Some c" "bs = b @ c"
    by (auto simp: bind_eq_Some_conv)
  have "length (t0 # t1 # t2 # t3 # rest) div 4 = Suc (length rest div 4)" by simp
  with 2(1) [OF bc(1,2)] base64_ungroup_length [OF bc(1)] bc(3) show ?case by simp
qed auto

text \<open>
  What a decoder gives for a text that stands for \<open>value\<close>: a block that begins with the bytes, or
  none, with the error of a malformed text or after a refusal. Both decoders fill a block of a size
  found beforehand and give it back when the text turns out to be malformed.
\<close>

definition decodes :: "byte list option \<Rightarrow> size_t \<Rightarrow> ten_world \<Rightarrow> (byte ptr \<times> size_t option \<times> ten_world) option \<Rightarrow> bool" where
  "decodes value n w res \<longleftrightarrow>
     (\<exists>bs b w'. value = Some bs \<and> res = Some (Block b, Some (of_nat (length bs)), w') \<and>
        take (length bs) b = map Some bs \<and> length bs \<le> length b \<and> length bs < 2 ^ 63 \<and>
        g_ten_last_error w' = TEN_OK \<and> refusals w' = refusals w \<and> live w' = live w + 1) \<or>
     (\<exists>w'. value = None \<and> res = Some (Null, Some n, w') \<and> g_ten_last_error w' = TEN_ERROR_ENCODING \<and>
        refusals w' = refusals w \<and> live w' = live w) \<or>
     (\<exists>w'. res = Some (Null, Some n, w') \<and> g_ten_last_error w' = TEN_ERROR_OUT_OF_MEMORY \<and>
        refusals w < refusals w' \<and> live w' = live w)"

lemma decodes_cases [consumes 1, case_names decoded invalid refused]:
  assumes "decodes value n w res"
  obtains (decoded) bs b w' where "value = Some bs" "res = Some (Block b, Some (of_nat (length bs)), w')"
      "take (length bs) b = map Some bs" "length bs \<le> length b" "length bs < 2 ^ 63"
      "g_ten_last_error w' = TEN_OK" "refusals w' = refusals w" "live w' = live w + 1"
  | (invalid) w' where "value = None" "res = Some (Null, Some n, w')"
      "g_ten_last_error w' = TEN_ERROR_ENCODING" "refusals w' = refusals w" "live w' = live w"
  | (refused) w' where "res = Some (Null, Some n, w')"
      "g_ten_last_error w' = TEN_ERROR_OUT_OF_MEMORY" "refusals w < refusals w'" "live w' = live w"
  using assms unfolding decodes_def
  by (elim disjE exE conjE) (rule decoded invalid refused; assumption)+

lemma decodes_block:
  assumes fill: "\<exists>st zs. loop (0, Block (replicate (unat m) None)) = Some (value \<noteq> None, st) \<and> filled (unat m) zs st \<and>
      (\<forall>bs. value = Some bs \<longrightarrow> zs = bs)"
    and size: "\<And>bs. value = Some bs \<Longrightarrow> length bs < 2 ^ 63 \<and> size_of (length bs) = of_nat (length bs)"
    and run: "\<And>p w1. ten_malloc m w = (p, w1) \<Longrightarrow> res =
      (if is_Null p then Some (Null, Some n, w1)
       else do {
         (ok, pos, out) \<leftarrow> loop (0, p);
         if ok then Some (out, Some (size_of pos), ten__set_error TEN_OK w1)
         else do { w2 \<leftarrow> ten_free out w1; Some (Null, Some n, ten__set_error TEN_ERROR_ENCODING w2) }
       })"
  shows "decodes value n w res"
proof (cases rule: ten_malloc_cases [where n = m and w = w])
  case (granted w1)
  obtain st zs where st: "loop (0, Block (replicate (unat m) None)) = Some (value \<noteq> None, st)" "filled (unat m) zs st"
      "\<forall>bs. value = Some bs \<longrightarrow> zs = bs"
    using fill by blast
  obtain b where b: "st = (length zs, Block b)" "length zs \<le> length b" "take (length zs) b = map Some zs"
    using st(2) by (auto simp: filled_def)
  show ?thesis
    using run [OF granted(2)] st(1,3) b granted size
    by (cases "value") (auto simp: decodes_def ten_free_def)
next
  case (refused w1)
  then show ?thesis using run [OF refused(2)] by (simp add: decodes_def)
qed

lemma base64_decode_spec:
  assumes t: "cstr_ok t"
  shows "decodes (base64_data t) n w (ten_base64_decode (Some t) (Some n) w)"
proof -
  have len: "unat (strlen t) = length t" "length t < 2 ^ 63"
    using t by (simp_all add: cstr_ok_def unat_strlen)
  have mod4: "strlen t mod 4 = 0 \<longleftrightarrow> length t mod 4 = 0"
    using len by (simp add: size_eq_iff unat_mod_distrib)
  show ?thesis
  proof (cases "length t mod 4 = 0")
    case False
    then have "base64_data t = None" using base64_data_length [of t] by (cases "base64_data t") auto
    with False mod4 show ?thesis by (simp add: ten_base64_decode_def decodes_def)
  next
    case True
    let ?o = "(strlen t div 4) * 3"
    let ?m = "if ?o > 0 then ?o else 1"
    have "unat (strlen t div 4) = length t div 4" using len by (simp add: unat_div_size)
    then have "unat ?o = length t div 4 * 3"
      using len(2) by (subst unat_mult_size) simp_all
    then have m: "length t div 4 * 3 \<le> unat ?m" by (auto simp: word_gt_0)
    show ?thesis
    proof (rule decodes_block [where loop = "base64_decode_loop t" and m = ?m and size_of = of_nat])
      show "\<exists>st zs. base64_decode_loop t (0, Block (replicate (unat ?m) None)) = Some (base64_data t \<noteq> None, st) \<and>
          filled (unat ?m) zs st \<and> (\<forall>bs. base64_data t = Some bs \<longrightarrow> zs = bs)"
        using base64_decode_loop_data [OF filled_fresh True] m by auto
      have "length t div 4 * 3 \<le> length t" by presburger
      then show "length bs < 2 ^ 63 \<and> of_nat (length bs) = (of_nat (length bs) :: size_t)"
        if "base64_data t = Some bs" for bs
        using base64_data_length [OF that] len(2) by simp
    qed (use True mod4 in \<open>simp add: ten_base64_decode_def Let_def\<close>)
  qed
qed

lemmas base64_decode_cases = decodes_cases [OF base64_decode_spec, consumes 1, case_names decoded invalid refused]

section \<open>Hexadecimal\<close>

definition TEN_HEX_DIGITS :: "cstring" where
  "TEN_HEX_DIGITS = ascii ''0123456789abcdef''"

definition ten__hex_value :: "byte \<Rightarrow> int" where
  "ten__hex_value c =
     (if c \<ge> chr CHR ''0'' \<and> c \<le> chr CHR ''9'' then uint c - uint (chr CHR ''0'')
      else if c \<ge> chr CHR ''a'' \<and> c \<le> chr CHR ''f'' then uint c - uint (chr CHR ''a'') + 10
      else if c \<ge> chr CHR ''A'' \<and> c \<le> chr CHR ''F'' then uint c - uint (chr CHR ''A'') + 10
      else -1)"

definition hex_pair :: "byte \<Rightarrow> byte list" where
  "hex_pair x = [TEN_HEX_DIGITS ! unat (drop_bit 4 x), TEN_HEX_DIGITS ! unat (x AND 0xF)]"

primrec hex_encode_loop :: "byte list \<Rightarrow> nat \<times> byte ptr \<Rightarrow> (nat \<times> byte ptr) option" where
  "hex_encode_loop [] st = Some st"
| "hex_encode_loop (x # xs) st = do { st1 \<leftarrow> store (hex_pair x) st; hex_encode_loop xs st1 }"

definition ten_hex_encode ::
    "byte list option \<Rightarrow> size_t \<Rightarrow> ten_world \<Rightarrow> (byte ptr \<times> ten_world) option" where
  "ten_hex_encode data sz w =
     (if data = None \<and> sz > 0 then Some (Null, ten__set_error TEN_ERROR_NULL_ARGUMENT w)
      else
        let (out, w1) = ten_malloc (sz * 2 + 1) w
        in if is_Null out then Some (Null, w1)
           else do {
             bytes \<leftarrow> c_object data sz;
             st \<leftarrow> hex_encode_loop bytes (0, out);
             (j, out') \<leftarrow> store [0] st;
             Some (out', ten__set_error TEN_OK w1)
           })"

definition hex_unpair :: "byte \<Rightarrow> byte \<Rightarrow> byte option" where
  "hex_unpair t0 t1 =
     (let hi = ten__hex_value t0; lo = ten__hex_value t1
      in if hi < 0 \<or> lo < 0 then None else Some (word_of_int (push_bit 4 hi OR lo)))"

fun hex_decode_loop :: "cstring \<Rightarrow> nat \<times> byte ptr \<Rightarrow> (bool \<times> nat \<times> byte ptr) option" where
  "hex_decode_loop [] st = Some (True, st)"
| "hex_decode_loop (t0 # t1 # rest) st =
     (case hex_unpair t0 t1 of
        None \<Rightarrow> Some (False, st)
      | Some b \<Rightarrow> do { st1 \<leftarrow> store [b] st; hex_decode_loop rest st1 })"
| "hex_decode_loop _ st = None"

definition ten_hex_decode ::
    "cstring option \<Rightarrow> size_t option \<Rightarrow> ten_world \<Rightarrow> (byte ptr \<times> size_t option \<times> ten_world) option" where
  "ten_hex_decode text sz w =
     (case (text, sz) of
        (Some t, Some _) \<Rightarrow>
          let len = strlen t
          in if len mod 2 \<noteq> 0 then Some (Null, sz, ten__set_error TEN_ERROR_ENCODING w)
             else
               let (out, w1) = ten_malloc (if len div 2 > 0 then len div 2 else 1) w
               in if is_Null out then Some (Null, sz, w1)
                  else do {
                    (valid, _, out') \<leftarrow> hex_decode_loop t (0, out);
                    if valid then Some (out', Some (len div 2), ten__set_error TEN_OK w1)
                    else do {
                      w2 \<leftarrow> ten_free out' w1;
                      Some (Null, sz, ten__set_error TEN_ERROR_ENCODING w2)
                    }
                  }
      | _ \<Rightarrow> Some (Null, sz, ten__set_error TEN_ERROR_NULL_ARGUMENT w))"

definition hex_text :: "byte list \<Rightarrow> cstring" where
  "hex_text bs = concat (map hex_pair bs)"

fun hex_data :: "cstring \<Rightarrow> byte list option" where
  "hex_data [] = Some []"
| "hex_data (t0 # t1 # rest) = do { b \<leftarrow> hex_unpair t0 t1; bs \<leftarrow> hex_data rest; Some (b # bs) }"
| "hex_data _ = None"

text \<open>The lower-case form of a hexadecimal text.\<close>

definition hex_lower :: "byte \<Rightarrow> byte" where
  "hex_lower c = (if c \<ge> chr CHR ''A'' \<and> c \<le> chr CHR ''F'' then c + 32 else c)"

lemma length_hex_text: "length (hex_text bs) = 2 * length bs"
  by (induction bs) (simp_all add: hex_text_def hex_pair_def)

lemma hex_digits:
  "TEN_HEX_DIGITS = [0x30, 0x31, 0x32, 0x33, 0x34, 0x35, 0x36, 0x37, 0x38, 0x39,
     0x61, 0x62, 0x63, 0x64, 0x65, 0x66]"
  by code_simp

lemma hex_value_num:
  "ten__hex_value c =
     (if 0x30 \<le> c \<and> c \<le> 0x39 then uint c - 0x30
      else if 0x61 \<le> c \<and> c \<le> 0x66 then uint c - 0x61 + 10
      else if 0x41 \<le> c \<and> c \<le> 0x46 then uint c - 0x41 + 10 else -1)"
  by (simp add: ten__hex_value_def)

lemma hex_values: "map ten__hex_value TEN_HEX_DIGITS = map int [0..<16]"
  by (simp add: hex_digits hex_value_num upt_rec)

lemma hex_lower_num: "hex_lower c = (if 0x41 \<le> c \<and> c \<le> 0x46 then c + 32 else c)"
  by (simp add: hex_lower_def)

lemma hex_nibbles: "word_of_int (push_bit 4 (uint (drop_bit 4 x)) OR uint (x AND 0xF)) = (x :: byte)"
  by (rule byte_all [where c = x]) code_simp

lemma hex_nibbles_less: "unat (drop_bit 4 (x :: byte)) < 16 \<and> unat (x AND 0xF) < 16"
  by (rule byte_all [where c = x]) code_simp

lemma hex_pair_facts: "hex_unpair (hex_pair x ! 0) (hex_pair x ! 1) = Some x \<and> 0 \<notin> set (hex_pair x)"
proof -
  have len: "length TEN_HEX_DIGITS = 16" by (simp add: hex_digits)
  have v: "ten__hex_value (TEN_HEX_DIGITS ! i) = int i" if "i < 16" for i
    using arg_cong [OF hex_values, of "\<lambda>l. l ! i"] that len by simp
  have "TEN_HEX_DIGITS ! i \<noteq> 0" if "i < 16" for i
    using nth_mem [of i TEN_HEX_DIGITS] that len by (force simp: hex_digits)
  then show ?thesis
    using hex_nibbles_less [of x] hex_nibbles [of x] v
    by (auto simp: hex_pair_def hex_unpair_def Let_def)
qed

lemma hex_value_facts:
  "ten__hex_value c \<in> {-1..15} \<and>
   (0 \<le> ten__hex_value c \<longrightarrow> TEN_HEX_DIGITS ! nat (ten__hex_value c) = hex_lower c)"
  unfolding hex_value_num hex_digits hex_lower_num
  by (rule byte_all [where c = c]) code_simp

lemma hex_text_Cons [simp]: "hex_text (x # xs) = hex_pair x @ hex_text xs" "hex_text [] = []"
  by (simp_all add: hex_text_def)

lemma hex_data_text: "hex_data (hex_text bs) = Some bs"
proof (induction bs)
  case (Cons x xs)
  with hex_pair_facts [of x] show ?case by (simp add: hex_pair_def)
qed simp

lemma hex_text_no_nul: "0 \<notin> set (hex_text bs)"
  by (induction bs) (simp_all add: hex_pair_facts)

lemma hex_pair_unpair:
  assumes "hex_unpair t0 t1 = Some b"
  shows "hex_pair b = [hex_lower t0, hex_lower t1]"
proof -
  define hi lo where "hi = nat (ten__hex_value t0)" and "lo = nat (ten__hex_value t1)"
  have v: "ten__hex_value t0 = int hi" "ten__hex_value t1 = int lo" "hi < 16" "lo < 16"
      "TEN_HEX_DIGITS ! hi = hex_lower t0" "TEN_HEX_DIGITS ! lo = hex_lower t1"
    using assms hex_value_facts [of t0] hex_value_facts [of t1]
    by (auto simp: hex_unpair_def Let_def hi_def lo_def split: if_splits)
  have b: "b = word_of_int (push_bit 4 (int hi) OR int lo)"
    using assms v by (simp add: hex_unpair_def)
  have "\<forall>i \<in> set [0..<16]. \<forall>j \<in> set [0..<16].
      unat (drop_bit 4 (word_of_int (push_bit 4 (int i) OR int j) :: byte)) = i \<and>
      unat ((word_of_int (push_bit 4 (int i) OR int j) :: byte) AND 0xF) = j"
    by code_simp
  then have "unat (drop_bit 4 b) = hi \<and> unat (b AND 0xF) = lo"
    unfolding b using v(3,4) by (metis atLeastLessThan_iff le0 set_upt)
  with v show ?thesis by (simp add: hex_pair_def)
qed

lemma hex_text_data: "hex_data t = Some bs \<Longrightarrow> hex_text bs = map hex_lower t"
  by (induction t arbitrary: bs rule: hex_data.induct) (auto simp: bind_eq_Some_conv hex_pair_unpair)

lemma hex_data_length: "hex_data t = Some bs \<Longrightarrow> length t = 2 * length bs"
  by (induction t arbitrary: bs rule: hex_data.induct) (auto simp: bind_eq_Some_conv)

lemma hex_encode_loop_text:
  "filled n ys st \<Longrightarrow> length ys + length (hex_text bs) \<le> n \<Longrightarrow>
   \<exists>st'. hex_encode_loop bs st = Some st' \<and> filled n (ys @ hex_text bs) st'"
proof (induction bs arbitrary: ys st)
  case (Cons x xs)
  obtain st1 where st1: "store (hex_pair x) st = Some st1" "filled n (ys @ hex_pair x) st1"
    using store_filled [OF Cons(2), of "hex_pair x"] Cons(3) by auto
  show ?case using Cons(1) [OF st1(2)] Cons(3) st1(1) by auto
qed simp

lemma hex_decode_loop_data:
  "filled n ys st \<Longrightarrow> length t mod 2 = 0 \<Longrightarrow> length ys + length t div 2 \<le> n \<Longrightarrow>
   \<exists>st' zs. hex_decode_loop t st = Some (hex_data t \<noteq> None, st') \<and> filled n zs st' \<and>
     (\<forall>bs. hex_data t = Some bs \<longrightarrow> zs = ys @ bs)"
proof (induction t st arbitrary: ys rule: hex_decode_loop.induct)
  case (2 t0 t1 rest st)
  show ?case
  proof (cases "hex_unpair t0 t1")
    case None
    with 2(2) show ?thesis by auto
  next
    case (Some b)
    have len: "length rest mod 2 = 0" using 2(3) by simp
    obtain st1 where st1: "store [b] st = Some st1" "filled n (ys @ [b]) st1"
      using store_filled [OF 2(2), of "[b]"] 2(4) by auto
    have "length (ys @ [b]) + length rest div 2 \<le> n" using 2(4) by simp
    from 2(1) [OF Some st1 len this] obtain st' zs where
      "hex_decode_loop rest st1 = Some (hex_data rest \<noteq> None, st')" "filled n zs st'"
      "\<forall>cs. hex_data rest = Some cs \<longrightarrow> zs = (ys @ [b]) @ cs"
      by blast
    with Some st1(1) show ?thesis
      by (intro exI [of _ st'] exI [of _ zs]) (auto simp: bind_eq_Some_conv)
  qed
qed auto

lemma hex_encode_spec:
  assumes n: "length bs < 2 ^ 63"
  shows "fresh_text (hex_text bs) w (ten_hex_encode (Some bs) (of_nat (length bs)) w)"
proof -
  let ?n = "of_nat (length bs) :: size_t"
  have "unat ?n = length bs" using n by (intro unat_of_nat_size) simp
  then have "unat (?n * 2) = length bs * 2" using n by (subst unat_mult_size) simp_all
  then have m: "unat (?n * 2 + 1) = Suc (length (hex_text bs))"
    using n by (subst unat_add_size) (simp_all add: length_hex_text)
  show ?thesis
  proof (cases rule: ten_malloc_cases [where n = "?n * 2 + 1" and w = w])
    case (granted w1)
    have fresh: "filled (Suc (length (hex_text bs))) [] (0, Block (replicate (unat (?n * 2 + 1)) None))"
      unfolding m by (rule filled_fresh)
    obtain st where st: "hex_encode_loop bs (0, Block (replicate (unat (?n * 2 + 1)) None)) = Some st"
        "filled (Suc (length (hex_text bs))) (hex_text bs) st"
      using hex_encode_loop_text [OF fresh, of bs] by (auto simp del: split_paired_Ex)
    obtain st' where "store [0] st = Some st'"
        "filled (Suc (length (hex_text bs))) (hex_text bs @ [0]) st'"
      using store_filled [OF st(2), of "[0]"] by auto
    moreover from this(2) obtain j where "st' = (j, Block (c_bytes (hex_text bs)))"
      by (auto simp: filled_def c_bytes_def)
    ultimately show ?thesis
      using granted st(1) n by (simp add: fresh_text_def ten_hex_encode_def c_object_whole del: replicate.simps)
  next
    case (refused w1)
    then show ?thesis by (simp add: fresh_text_def ten_hex_encode_def)
  qed
qed

lemma hex_decode_spec:
  assumes t: "cstr_ok t"
  shows "decodes (hex_data t) n w (ten_hex_decode (Some t) (Some n) w)"
proof -
  have len: "unat (strlen t) = length t" "length t < 2 ^ 63"
    using t by (simp_all add: cstr_ok_def unat_strlen)
  have mod2: "strlen t mod 2 = 0 \<longleftrightarrow> length t mod 2 = 0"
    using len by (simp add: size_eq_iff unat_mod_distrib)
  show ?thesis
  proof (cases "length t mod 2 = 0")
    case False
    then have "hex_data t = None" using hex_data_length [of t] by (cases "hex_data t") auto
    with False mod2 show ?thesis by (simp add: ten_hex_decode_def decodes_def)
  next
    case True
    let ?m = "if strlen t div 2 > 0 then strlen t div 2 else 1"
    have half: "unat (strlen t div 2) = length t div 2" using len by (simp add: unat_div_size)
    then have m: "length t div 2 \<le> unat ?m" by (auto simp: word_gt_0)
    show ?thesis
    proof (rule decodes_block [where loop = "hex_decode_loop t" and m = ?m and size_of = "\<lambda>_. strlen t div 2"])
      show "\<exists>st zs. hex_decode_loop t (0, Block (replicate (unat ?m) None)) = Some (hex_data t \<noteq> None, st) \<and>
          filled (unat ?m) zs st \<and> (\<forall>bs. hex_data t = Some bs \<longrightarrow> zs = bs)"
        using hex_decode_loop_data [OF filled_fresh True] m by auto
      show "length bs < 2 ^ 63 \<and> strlen t div 2 = (of_nat (length bs) :: size_t)" if "hex_data t = Some bs" for bs
        using half hex_data_length [OF that] len(2) by (simp add: size_eq_iff unat_of_nat_size)
    qed (use True mod2 in \<open>simp add: ten_hex_decode_def Let_def\<close>)
  qed
qed

lemmas hex_decode_cases = decodes_cases [OF hex_decode_spec, consumes 1, case_names decoded invalid refused]

end
