(* ===== verification/Ten_Unicode.thy ===== *)
theory Ten_Unicode
  imports Ten_String
begin

text \<open>
  The Unicode half of the encoding module (\<open>src/encoding/encoding.c\<close>): decoding one UTF-8
  sequence, UTF-8 to UTF-16 and back, validation. The decoder and the byte writer of the code
  are inverse to each other on the code points below \<open>0x110000\<close>, surrogates included: this is
  the range the decoder accepts.
\<close>

unbundle bit_operations_syntax

section \<open>One UTF-8 sequence\<close>

text \<open>The bytes from \<open>s\<close> on; the result is what \<open>*out_cp\<close> and \<open>*out_len\<close> hold when the function
  returns 1. Every caller passes at least one byte.\<close>

definition ten__utf8_decode_one :: "byte list \<Rightarrow> (u32 \<times> nat) option" where
  "ten__utf8_decode_one s =
     (case s of
        [] \<Rightarrow> None
      | c # _ \<Rightarrow>
          let remaining = length s
          in if c < 0x80 then Some (ucast c, 1)
             else if c AND 0xE0 = 0xC0 \<and> remaining \<ge> 2 \<and> s ! 1 AND 0xC0 = 0x80
             then let cp = push_bit 6 (ucast (c AND 0x1F)) OR ucast (s ! 1 AND 0x3F)
                  in if cp \<ge> 0x80 then Some (cp, 2) else None
             else if c AND 0xF0 = 0xE0 \<and> remaining \<ge> 3 \<and> s ! 1 AND 0xC0 = 0x80 \<and> s ! 2 AND 0xC0 = 0x80
             then let cp = push_bit 12 (ucast (c AND 0x0F)) OR push_bit 6 (ucast (s ! 1 AND 0x3F)) OR
                           ucast (s ! 2 AND 0x3F)
                  in if cp \<ge> 0x800 then Some (cp, 3) else None
             else if c AND 0xF8 = 0xF0 \<and> remaining \<ge> 4 \<and>
                     s ! 1 AND 0xC0 = 0x80 \<and> s ! 2 AND 0xC0 = 0x80 \<and> s ! 3 AND 0xC0 = 0x80
             then let cp = push_bit 18 (ucast (c AND 0x07)) OR push_bit 12 (ucast (s ! 1 AND 0x3F)) OR
                           push_bit 6 (ucast (s ! 2 AND 0x3F)) OR ucast (s ! 3 AND 0x3F)
                  in if cp \<ge> 0x10000 \<and> cp \<le> 0x10FFFF then Some (cp, 4) else None
             else None)"

text \<open>The stores of one code point in \<open>ten_utf16_to_utf8\<close>.\<close>

definition utf8_bytes :: "u32 \<Rightarrow> byte list" where
  "utf8_bytes cp =
     (if cp < 0x80 then [ucast cp]
      else if cp < 0x800
      then [ucast (0xC0 OR drop_bit 6 cp), ucast (0x80 OR cp AND 0x3F)]
      else if cp < 0x10000
      then [ucast (0xE0 OR drop_bit 12 cp), ucast (0x80 OR drop_bit 6 cp AND 0x3F),
            ucast (0x80 OR cp AND 0x3F)]
      else [ucast (0xF0 OR drop_bit 18 cp), ucast (0x80 OR drop_bit 12 cp AND 0x3F),
            ucast (0x80 OR drop_bit 6 cp AND 0x3F), ucast (0x80 OR cp AND 0x3F)])"

section \<open>Bit fields as arithmetic\<close>

lemma byte_less: "unat (b :: byte) < 256"
  using unsigned_less [of b] by simp

lemma u32_less: "unat (x :: u32) < 4294967296"
  using unsigned_less [of x] by simp

lemma nat_and_mask: "(n :: nat) AND mask k = n mod 2 ^ k"
  by (simp add: take_bit_eq_mask [symmetric] take_bit_eq_mod)

lemma low_masks:
  "unat ((c :: byte) AND 0x1F) = unat c mod 32"
  "unat (c AND 0x0F) = unat c mod 16"
  "unat (c AND 0x07) = unat c mod 8"
  "unat (c AND 0x3F) = unat c mod 64"
  "unat ((x :: u32) AND 0x3F) = unat x mod 64"
  using nat_and_mask [of _ 5] nat_and_mask [of _ 4] nat_and_mask [of _ 3] nat_and_mask [of _ 6]
  by (simp_all add: unsigned_and_eq mask_eq_exp_minus_1)

lemma unat_high_bits: "unat (push_bit k (drop_bit k (c :: byte))) = unat c div 2 ^ k * 2 ^ k"
proof -
  have "unat c div 2 ^ k * 2 ^ k < 256"
    using div_times_less_eq_dividend byte_less by (rule le_less_trans)
  moreover have "unat (drop_bit k c) = unat c div 2 ^ k"
    unfolding unsigned_drop_bit_eq using byte_less [of c] by (simp add: drop_bit_eq_div take_bit_nat_eq_self)
  ultimately show ?thesis
    unfolding unsigned_push_bit_eq by (simp add: push_bit_eq_mult take_bit_nat_eq_self)
qed

lemma lead_masks:
  "(c :: byte) AND 0xE0 = 0xC0 \<longleftrightarrow> unat c div 32 = 6"
  "c AND 0xF0 = 0xE0 \<longleftrightarrow> unat c div 16 = 14"
  "c AND 0xF8 = 0xF0 \<longleftrightarrow> unat c div 8 = 30"
  "c AND 0xC0 = 0x80 \<longleftrightarrow> unat c div 64 = 2"
proof -
  have "c AND 0xE0 = push_bit 5 (drop_bit 5 c)" "c AND 0xF0 = push_bit 4 (drop_bit 4 c)"
    "c AND 0xF8 = push_bit 3 (drop_bit 3 c)" "c AND 0xC0 = push_bit 6 (drop_bit 6 c)"
    by (rule byte_eqI; elim insertE emptyE; simp add: bit_simps)+
  then show "c AND 0xE0 = 0xC0 \<longleftrightarrow> unat c div 32 = 6" "c AND 0xF0 = 0xE0 \<longleftrightarrow> unat c div 16 = 14"
    "c AND 0xF8 = 0xF0 \<longleftrightarrow> unat c div 8 = 30" "c AND 0xC0 = 0x80 \<longleftrightarrow> unat c div 64 = 2"
    using unat_high_bits [of 5 c] unat_high_bits [of 4 c] unat_high_bits [of 3 c] unat_high_bits [of 6 c]
    by (simp_all only: word_unat_eq_iff) simp_all
qed

lemma unat_or_disjoint:
  assumes "unat (y :: u32) < 2 ^ k" "2 ^ k dvd unat x"
  shows "unat (x OR y) = unat x + unat y"
proof -
  have "\<not> bit (unat x) n \<or> \<not> bit (unat y) n" for n
  proof (cases "n < k")
    case True
    obtain q where "unat x = push_bit k q" using assms(2) by (auto simp: push_bit_eq_mult mult.commute)
    with True show ?thesis by (simp add: bit_push_bit_iff)
  next
    case False
    have "take_bit k (unat y) = unat y" using assms(1) by (simp add: take_bit_nat_eq_self)
    with False show ?thesis by (metis bit_take_bit_iff)
  qed
  then have "unat x + unat y = unat x OR unat y" by (intro disjunctive_add) auto
  then show ?thesis by (simp add: unsigned_or_eq)
qed

lemma unat_push_bit_u32: "unat (x :: u32) * 2 ^ k < 2 ^ 32 \<Longrightarrow> unat (push_bit k x) = unat x * 2 ^ k"
  unfolding unsigned_push_bit_eq by (simp add: push_bit_eq_mult take_bit_nat_eq_self)

lemma unat_ucast_byte: "unat (ucast (b :: byte) :: u32) = unat b"
proof -
  have "unat b < 2 ^ 32" using byte_less [of b] by simp
  then show ?thesis by (simp add: unsigned_ucast_eq take_bit_nat_eq_self)
qed

lemma unat_ucast_low: "unat (ucast (x :: u32) :: byte) = unat x mod 256"
  by (simp add: unsigned_ucast_eq take_bit_eq_mod)

lemma unat_drop_bit_u32: "unat (drop_bit k (x :: u32)) = unat x div 2 ^ k"
  unfolding unsigned_drop_bit_eq
  using u32_less [of x] by (simp add: drop_bit_eq_div take_bit_nat_eq_self)

text \<open>The values of the sequences of two, three and four bytes, and the bytes of a code point.\<close>

lemma sequence_values:
  fixes c s1 s2 s3 :: byte
  shows "unat (push_bit 6 (ucast (c AND 0x1F)) OR ucast (s1 AND 0x3F) :: u32) =
      unat c mod 32 * 64 + unat s1 mod 64"
    "unat (push_bit 12 (ucast (c AND 0x0F)) OR push_bit 6 (ucast (s1 AND 0x3F)) OR ucast (s2 AND 0x3F) :: u32) =
      unat c mod 16 * 4096 + unat s1 mod 64 * 64 + unat s2 mod 64"
    "unat (push_bit 18 (ucast (c AND 0x07)) OR push_bit 12 (ucast (s1 AND 0x3F)) OR
        push_bit 6 (ucast (s2 AND 0x3F)) OR ucast (s3 AND 0x3F) :: u32) =
      unat c mod 8 * 262144 + unat s1 mod 64 * 4096 + unat s2 mod 64 * 64 + unat s3 mod 64"
proof -
  have u: "unat (ucast (c AND 0x1F) :: u32) = unat c mod 32" "unat (ucast (c AND 0x0F) :: u32) = unat c mod 16"
      "unat (ucast (c AND 0x07) :: u32) = unat c mod 8"
      "unat (ucast (b AND 0x3F) :: u32) = unat b mod 64" for b :: byte
    by (simp_all add: unat_ucast_byte low_masks)
  have p: "unat (push_bit 6 (ucast (c AND 0x1F)) :: u32) = unat c mod 32 * 64"
      "unat (push_bit 12 (ucast (c AND 0x0F)) :: u32) = unat c mod 16 * 4096"
      "unat (push_bit 18 (ucast (c AND 0x07)) :: u32) = unat c mod 8 * 262144"
      "unat (push_bit 6 (ucast (b AND 0x3F)) :: u32) = unat b mod 64 * 64"
      "unat (push_bit 12 (ucast (b AND 0x3F)) :: u32) = unat b mod 64 * 4096" for b :: byte
    by (subst unat_push_bit_u32; simp only: u; simp; linarith?)+
  have two: "unat (push_bit 6 x OR ucast (b AND 0x3F) :: u32) = unat (push_bit 6 x) + unat b mod 64"
    if "64 dvd unat (push_bit 6 x)" for x and b :: byte
    using that by (subst unat_or_disjoint [where k = 6]) (simp_all add: u)
  have low2: "unat (push_bit 6 (ucast (b AND 0x3F)) OR ucast (b' AND 0x3F) :: u32) =
      unat b mod 64 * 64 + unat b' mod 64" for b b' :: byte
    by (simp only: two p dvd_triv_right)
  have small2: "unat b mod 64 * 64 + unat b' mod 64 < 2 ^ 12" for b b' :: byte
    using mod_less_divisor [of 64 "unat b"] mod_less_divisor [of 64 "unat b'"] by simp
  have three: "unat (push_bit 12 x OR push_bit 6 (ucast (b AND 0x3F)) OR ucast (b' AND 0x3F) :: u32) =
      unat (push_bit 12 x) + (unat b mod 64 * 64 + unat b' mod 64)"
    if "4096 dvd unat (push_bit 12 x)" for x and b b' :: byte
    using that small2 by (subst unat_or_disjoint [where k = 12]) (simp_all add: low2)
  have small3: "unat b'' mod 64 * 4096 + (unat b mod 64 * 64 + unat b' mod 64) < 2 ^ 18" for b b' b'' :: byte
    using mod_less_divisor [of 64 "unat b"] mod_less_divisor [of 64 "unat b'"]
      mod_less_divisor [of 64 "unat b''"] by simp
  show "unat (push_bit 6 (ucast (c AND 0x1F)) OR ucast (s1 AND 0x3F) :: u32) =
      unat c mod 32 * 64 + unat s1 mod 64"
    by (simp only: two p dvd_triv_right)
  show "unat (push_bit 12 (ucast (c AND 0x0F)) OR push_bit 6 (ucast (s1 AND 0x3F)) OR ucast (s2 AND 0x3F) :: u32) =
      unat c mod 16 * 4096 + unat s1 mod 64 * 64 + unat s2 mod 64"
    by (simp only: three p dvd_triv_right add.assoc)
  have mid: "unat (push_bit 12 (ucast (s1 AND 0x3F)) OR push_bit 6 (ucast (s2 AND 0x3F)) OR
        ucast (s3 AND 0x3F) :: u32) = unat s1 mod 64 * 4096 + (unat s2 mod 64 * 64 + unat s3 mod 64)"
    by (simp only: three p dvd_triv_right)
  have big: "2 ^ 18 dvd unat (push_bit 18 (ucast (c AND 0x07)) :: u32)"
    by (simp only: p) (rule dvd_mult, simp)
  show "unat (push_bit 18 (ucast (c AND 0x07)) OR push_bit 12 (ucast (s1 AND 0x3F)) OR
        push_bit 6 (ucast (s2 AND 0x3F)) OR ucast (s3 AND 0x3F) :: u32) =
      unat c mod 8 * 262144 + unat s1 mod 64 * 4096 + unat s2 mod 64 * 64 + unat s3 mod 64"
    using small3 by (subst unat_or_disjoint [OF _ big]) (simp_all only: mid p add.assoc)
qed

lemma continuation_value: "unat (ucast (0x80 OR x AND 0x3F :: u32) :: byte) = 128 + unat x mod 64"
  by (subst unat_ucast_low, subst unat_or_disjoint [where k = 6]) (simp_all add: low_masks)

lemma lead_values:
  "unat (x :: u32) < 32 \<Longrightarrow> unat (ucast (0xC0 OR x) :: byte) = 192 + unat x"
  "unat x < 16 \<Longrightarrow> unat (ucast (0xE0 OR x) :: byte) = 224 + unat x"
  "unat x < 8 \<Longrightarrow> unat (ucast (0xF0 OR x) :: byte) = 240 + unat x"
  by (subst unat_ucast_low, subst unat_or_disjoint [where k = 5], simp_all)
    (subst unat_ucast_low, subst unat_or_disjoint [where k = 4], simp_all,
     subst unat_ucast_low, subst unat_or_disjoint [where k = 3], simp_all)

lemma utf8_bytes_values:
  fixes cp :: u32
  defines "n \<equiv> unat cp"
  assumes "n < 0x110000"
  shows "map unat (utf8_bytes cp) =
     (if n < 0x80 then [n]
      else if n < 0x800 then [192 + n div 64, 128 + n mod 64]
      else if n < 0x10000 then [224 + n div 4096, 128 + n div 64 mod 64, 128 + n mod 64]
      else [240 + n div 262144, 128 + n div 4096 mod 64, 128 + n div 64 mod 64, 128 + n mod 64])"
proof -
  have "unat (ucast cp :: byte) = unat cp" if "unat cp < 128"
    using that by (simp add: unat_ucast_low)
  then show ?thesis
    using assms unfolding n_def utf8_bytes_def word_less_nat_alt
    by (simp add: continuation_value unat_drop_bit_u32 lead_values less_mult_imp_div_less)
qed

text \<open>The decoder, case by case.\<close>

lemma decode_one_1: "unat c < 128 \<Longrightarrow> ten__utf8_decode_one (c # r) = Some (ucast c, 1)"
  by (simp add: ten__utf8_decode_one_def word_less_nat_alt)

lemma decode_one_2:
  "unat c div 32 = 6 \<Longrightarrow> unat s1 div 64 = 2 \<Longrightarrow> n = unat c mod 32 * 64 + unat s1 mod 64 \<Longrightarrow>
   ten__utf8_decode_one (c # s1 # r) = (if 0x80 \<le> n then Some (of_nat n, 2) else None)"
proof -
  assume a: "unat c div 32 = 6" "unat s1 div 64 = 2" "n = unat c mod 32 * 64 + unat s1 mod 64"
  then have "\<not> unat c < 128" by auto
  with a sequence_values(1) [of c s1, symmetric] show ?thesis
    by (simp add: ten__utf8_decode_one_def Let_def lead_masks word_less_nat_alt word_le_nat_alt)
qed

lemma decode_one_3:
  "unat c div 16 = 14 \<Longrightarrow> unat s1 div 64 = 2 \<Longrightarrow> unat s2 div 64 = 2 \<Longrightarrow>
   n = unat c mod 16 * 4096 + unat s1 mod 64 * 64 + unat s2 mod 64 \<Longrightarrow>
   ten__utf8_decode_one (c # s1 # s2 # r) = (if 0x800 \<le> n then Some (of_nat n, 3) else None)"
proof -
  assume a: "unat c div 16 = 14" "unat s1 div 64 = 2" "unat s2 div 64 = 2"
    "n = unat c mod 16 * 4096 + unat s1 mod 64 * 64 + unat s2 mod 64"
  then have "\<not> unat c < 128" "unat c div 32 \<noteq> 6" by auto
  with a sequence_values(2) [of c s1 s2, symmetric] show ?thesis
    by (simp add: ten__utf8_decode_one_def Let_def lead_masks word_less_nat_alt word_le_nat_alt)
qed

lemma decode_one_4:
  "unat c div 8 = 30 \<Longrightarrow> unat s1 div 64 = 2 \<Longrightarrow> unat s2 div 64 = 2 \<Longrightarrow> unat s3 div 64 = 2 \<Longrightarrow>
   n = unat c mod 8 * 262144 + unat s1 mod 64 * 4096 + unat s2 mod 64 * 64 + unat s3 mod 64 \<Longrightarrow>
   ten__utf8_decode_one (c # s1 # s2 # s3 # r) =
     (if 0x10000 \<le> n \<and> n \<le> 0x10FFFF then Some (of_nat n, 4) else None)"
proof -
  assume a: "unat c div 8 = 30" "unat s1 div 64 = 2" "unat s2 div 64 = 2" "unat s3 div 64 = 2"
    "n = unat c mod 8 * 262144 + unat s1 mod 64 * 4096 + unat s2 mod 64 * 64 + unat s3 mod 64"
  then have "\<not> unat c < 128" "unat c div 32 \<noteq> 6" "unat c div 16 \<noteq> 14" by auto
  with a sequence_values(3) [of c s1 s2 s3, symmetric] show ?thesis
    by (simp add: ten__utf8_decode_one_def Let_def lead_masks word_less_nat_alt word_le_nat_alt)
qed

text \<open>Only these four shapes are accepted.\<close>

lemma decode_one_shapes:
  assumes "ten__utf8_decode_one s = Some r"
  obtains c t where "s = c # t" "unat c < 128"
  | c s1 t where "s = c # s1 # t" "unat c div 32 = 6" "unat s1 div 64 = 2"
  | c s1 s2 t where "s = c # s1 # s2 # t" "unat c div 16 = 14" "unat s1 div 64 = 2" "unat s2 div 64 = 2"
  | c s1 s2 s3 t where "s = c # s1 # s2 # s3 # t" "unat c div 8 = 30"
      "unat s1 div 64 = 2" "unat s2 div 64 = 2" "unat s3 div 64 = 2"
proof -
  obtain c t where s: "s = c # t"
    using assms by (cases s) (simp_all add: ten__utf8_decode_one_def)
  consider "unat c < 128"
    | "unat c div 32 = 6" "2 \<le> length s" "unat (s ! 1) div 64 = 2"
    | "unat c div 16 = 14" "3 \<le> length s" "unat (s ! 1) div 64 = 2" "unat (s ! 2) div 64 = 2"
    | "unat c div 8 = 30" "4 \<le> length s" "unat (s ! 1) div 64 = 2" "unat (s ! 2) div 64 = 2"
        "unat (s ! 3) div 64 = 2"
    using assms unfolding s ten__utf8_decode_one_def Let_def lead_masks word_less_nat_alt list.case
    by (auto split: if_splits)
  then show thesis
  proof cases
    case 1
    with s that(1) show thesis by simp
  next
    case 2
    then obtain s1 u where "t = s1 # u" using s by (cases t) auto
    with 2 s that(2) show thesis by simp
  next
    case 3
    then obtain s1 u where 1: "t = s1 # u" "2 \<le> length t" using s by (cases t) auto
    then obtain s2 v where "u = s2 # v" by (cases u) auto
    with 1 3 s that(3) show thesis by (simp add: numeral_2_eq_2)
  next
    case 4
    then obtain s1 u where 1: "t = s1 # u" "3 \<le> length t" using s by (cases t) auto
    then obtain s2 v where 2: "u = s2 # v" "2 \<le> length u" by (cases u) auto
    then obtain s3 x where "v = s3 # x" by (cases v) auto
    with 1 2 4 s that(4) show thesis by (simp add: numeral_2_eq_2 numeral_3_eq_3)
  qed
qed

lemma add_field: "a mod m = 0 \<Longrightarrow> x < m \<Longrightarrow> (a + x) mod m = (x :: nat)"
  by (metis add_0 mod_add_left_eq mod_less)

lemma cont_field: "(128 + x mod 64) div 64 = (2 :: nat)"
  by presburger

lemma split_64:
  "(n :: nat) = n div 64 * 64 + n mod 64"
  "n = n div 4096 * 4096 + n div 64 mod 64 * 64 + n mod 64"
  "n = n div 262144 * 262144 + n div 4096 mod 64 * 4096 + n div 64 mod 64 * 64 + n mod 64"
proof -
  have d: "n div 4096 = n div 64 div 64" "n div 262144 = n div 64 div 64 div 64"
    by (simp_all add: div_mult2_eq [symmetric])
  show "n = n div 64 * 64 + n mod 64" by simp
  show "n = n div 4096 * 4096 + n div 64 mod 64 * 64 + n mod 64"
    "n = n div 262144 * 262144 + n div 4096 mod 64 * 4096 + n div 64 mod 64 * 64 + n mod 64"
    unfolding d using div_mult_mod_eq [of n 64] div_mult_mod_eq [of "n div 64" 64]
      div_mult_mod_eq [of "n div 64 div 64" 64] by linarith+
qed

lemma decode_one_encoded:
  assumes "unat cp < 0x110000"
  shows "ten__utf8_decode_one (utf8_bytes cp @ r) = Some (cp, length (utf8_bytes cp))"
proof -
  let ?n = "unat cp"
  note v = utf8_bytes_values [OF assms]
  consider "?n < 0x80" | "0x80 \<le> ?n" "?n < 0x800" | "0x800 \<le> ?n" "?n < 0x10000" | "0x10000 \<le> ?n"
    by linarith
  then show ?thesis
  proof cases
    case 1
    with v obtain c where c: "utf8_bytes cp = [c]" "unat c = ?n" by auto
    moreover have "ucast c = cp" using c(2) by (simp add: word_unat_eq_iff unat_ucast_byte)
    ultimately show ?thesis using 1 decode_one_1 [of c r] by simp
  next
    case 2
    with v obtain c s1 where b: "utf8_bytes cp = [c, s1]" "unat c = 192 + ?n div 64" "unat s1 = 128 + ?n mod 64"
      by auto
    have "?n div 64 < 32" using 2 by (simp add: less_mult_imp_div_less)
    then have "?n = unat c mod 32 * 64 + unat s1 mod 64" "unat c div 32 = 6" "unat s1 div 64 = 2"
      unfolding b using split_64(1) [of ?n] by (simp_all add: add_field cont_field)
    from decode_one_2 [OF this(2,3,1)] b(1) 2 show ?thesis by simp
  next
    case 3
    with v obtain c s1 s2 where b: "utf8_bytes cp = [c, s1, s2]" "unat c = 224 + ?n div 4096"
        "unat s1 = 128 + ?n div 64 mod 64" "unat s2 = 128 + ?n mod 64"
      by auto
    have "?n div 4096 < 16" using 3 by (simp add: less_mult_imp_div_less)
    then have "?n = unat c mod 16 * 4096 + unat s1 mod 64 * 64 + unat s2 mod 64"
        "unat c div 16 = 14" "unat s1 div 64 = 2" "unat s2 div 64 = 2"
      unfolding b using split_64(2) [of ?n] by (simp_all add: add_field cont_field)
    from decode_one_3 [OF this(2-4,1)] b(1) 3 show ?thesis by simp
  next
    case 4
    with v obtain c s1 s2 s3 where b: "utf8_bytes cp = [c, s1, s2, s3]" "unat c = 240 + ?n div 262144"
        "unat s1 = 128 + ?n div 4096 mod 64" "unat s2 = 128 + ?n div 64 mod 64" "unat s3 = 128 + ?n mod 64"
      by auto
    have "?n div 262144 < 8" using assms by (simp add: less_mult_imp_div_less)
    then have "?n = unat c mod 8 * 262144 + unat s1 mod 64 * 4096 + unat s2 mod 64 * 64 + unat s3 mod 64"
        "unat c div 8 = 30" "unat s1 div 64 = 2" "unat s2 div 64 = 2" "unat s3 div 64 = 2"
      unfolding b using split_64(3) [of ?n] by (simp_all add: add_field cont_field)
    from decode_one_4 [OF this(2-5,1)] b(1) 4 assms show ?thesis by simp
  qed
qed

lemma join_64:
  fixes a b c d :: nat
  assumes "b < 64" "c < 64" "d < 64"
  shows "(a * 64 + b) div 64 = a" "(a * 64 + b) mod 64 = b"
    "(a * 4096 + b * 64 + c) div 4096 = a" "(a * 4096 + b * 64 + c) div 64 mod 64 = b"
    "(a * 4096 + b * 64 + c) mod 64 = c"
    "(a * 262144 + b * 4096 + c * 64 + d) div 262144 = a"
    "(a * 262144 + b * 4096 + c * 64 + d) div 4096 mod 64 = b"
    "(a * 262144 + b * 4096 + c * 64 + d) div 64 mod 64 = c"
    "(a * 262144 + b * 4096 + c * 64 + d) mod 64 = d"
proof -
  have m: "(x * 64 + y) div 64 = x" "(x * 64 + y) mod 64 = y" if "y < 64" for x y :: nat
    using that by simp_all
  show "(a * 64 + b) div 64 = a" "(a * 64 + b) mod 64 = b"
    using m assms by blast+
  have e3: "a * 4096 + b * 64 + c = (a * 64 + b) * 64 + c"
    and e4: "a * 262144 + b * 4096 + c * 64 + d = ((a * 64 + b) * 64 + c) * 64 + d" by simp_all
  have d2: "x div 4096 = x div 64 div 64" "x div 262144 = x div 64 div 64 div 64" for x :: nat
    by (simp_all add: div_mult2_eq [symmetric])
  show "(a * 4096 + b * 64 + c) div 4096 = a" "(a * 4096 + b * 64 + c) div 64 mod 64 = b"
    "(a * 4096 + b * 64 + c) mod 64 = c"
    "(a * 262144 + b * 4096 + c * 64 + d) div 262144 = a"
    "(a * 262144 + b * 4096 + c * 64 + d) div 4096 mod 64 = b"
    "(a * 262144 + b * 4096 + c * 64 + d) div 64 mod 64 = c"
    "(a * 262144 + b * 4096 + c * 64 + d) mod 64 = d"
    unfolding e3 e4 d2 m [OF assms(1)] m [OF assms(2)] m [OF assms(3)] by (rule refl)+
qed

lemma lead_split: "(n :: nat) div m = q \<Longrightarrow> n = q * m + n mod m"
  using div_mult_mod_eq [of n m] by simp

lemma mod_64_less: "(n :: nat) mod 64 < 64"
  by simp

lemma unat_of_nat_u32: "n < 4294967296 \<Longrightarrow> unat (of_nat n :: u32) = n"
  by (simp add: unat_of_nat take_bit_nat_eq_self)

lemma map_unat_inj: "map unat xs = map unat ys \<Longrightarrow> xs = (ys :: byte list)"
  by (metis inj_onI inj_map_eq_map word_unat_eq_iff)

lemma decode_one_sound:
  assumes d: "ten__utf8_decode_one s = Some (cp, l)"
  shows "unat cp < 0x110000 \<and> s = utf8_bytes cp @ drop l s \<and> l = length (utf8_bytes cp)"
  using d
proof (cases rule: decode_one_shapes)
  case (1 c t)
  then have "cp = ucast c" "l = 1" using d decode_one_1 by auto
  then have "unat cp = unat c" by (simp add: unat_ucast_byte)
  moreover have "utf8_bytes cp = [c]"
    using utf8_bytes_values [of cp] 1 \<open>unat cp = unat c\<close> by (intro map_unat_inj) simp
  ultimately show ?thesis using 1 \<open>l = 1\<close> by simp
next
  case (2 c s1 t)
  let ?n = "unat c mod 32 * 64 + unat s1 mod 64"
  have d2: "cp = of_nat ?n" "l = 2" "0x80 \<le> ?n"
    using d decode_one_2 [OF 2(2,3) refl, of t] 2(1) by (auto split: if_splits)
  have n: "?n < 0x800" by simp
  have cp: "unat cp = ?n"
    unfolding d2(1) by (rule unat_of_nat_u32) (use n in linarith)
  have "map unat (utf8_bytes cp) = map unat [c, s1]"
    using utf8_bytes_values [of cp] d2(3) n lead_split [OF 2(2)] lead_split [OF 2(3)]
    unfolding cp join_64(1,2) [OF mod_64_less mod_64_less mod_64_less] by simp
  then have "utf8_bytes cp = [c, s1]" by (rule map_unat_inj)
  with 2(1) d2(2) n cp show ?thesis by simp
next
  case (3 c s1 s2 t)
  let ?n = "unat c mod 16 * 4096 + unat s1 mod 64 * 64 + unat s2 mod 64"
  have d3: "cp = of_nat ?n" "l = 3" "0x800 \<le> ?n"
    using d decode_one_3 [OF 3(2-4) refl, of t] 3(1) by (auto split: if_splits)
  have n: "?n < 0x10000" by simp
  have cp: "unat cp = ?n"
    unfolding d3(1) by (rule unat_of_nat_u32) (use n in linarith)
  have "map unat (utf8_bytes cp) = map unat [c, s1, s2]"
    using utf8_bytes_values [of cp] d3(3) n lead_split [OF 3(2)] lead_split [OF 3(3)] lead_split [OF 3(4)]
    unfolding cp join_64(3-5) [OF mod_64_less mod_64_less mod_64_less] by simp
  then have "utf8_bytes cp = [c, s1, s2]" by (rule map_unat_inj)
  with 3(1) d3(2) n cp show ?thesis by simp
next
  case (4 c s1 s2 s3 t)
  let ?n = "unat c mod 8 * 262144 + unat s1 mod 64 * 4096 + unat s2 mod 64 * 64 + unat s3 mod 64"
  have d4: "cp = of_nat ?n" "l = 4" "0x10000 \<le> ?n" "?n < 0x110000"
    using d decode_one_4 [OF 4(2-5) refl, of t] 4(1) by (auto split: if_splits)
  have cp: "unat cp = ?n"
    unfolding d4(1) by (rule unat_of_nat_u32) (use d4(4) in linarith)
  have "map unat (utf8_bytes cp) = map unat [c, s1, s2, s3]"
    using utf8_bytes_values [of cp] d4(3,4) lead_split [OF 4(2)] lead_split [OF 4(3)]
      lead_split [OF 4(4)] lead_split [OF 4(5)]
    unfolding cp join_64(6-9) [OF mod_64_less mod_64_less mod_64_less] by simp
  then have "utf8_bytes cp = [c, s1, s2, s3]" by (rule map_unat_inj)
  with 4(1) d4(2) d4(4) cp show ?thesis by simp
qed

section \<open>UTF-8 to UTF-16\<close>

lemma decode_one_length: "ten__utf8_decode_one s = Some (cp, l) \<Longrightarrow> 0 < l \<and> l \<le> length s"
  by (auto simp: ten__utf8_decode_one_def Let_def split: list.splits if_splits)

text \<open>The first loop: the number of code units, or \<open>None\<close> at an invalid sequence.\<close>

function utf8_units :: "cstring \<Rightarrow> size_t option" where
  "utf8_units s =
     (if s = [] then Some 0
      else case ten__utf8_decode_one s of
             None \<Rightarrow> None
           | Some (cp, clen) \<Rightarrow>
               map_option (\<lambda>units. (if cp > 0xFFFF then 2 else 1) + units) (utf8_units (drop clen s)))"
  by pat_completeness auto
termination
  by (relation "measure length") (use decode_one_length in fastforce)+

declare utf8_units.simps [simp del]

definition utf16_units :: "u32 \<Rightarrow> u16 list" where
  "utf16_units cp =
     (if cp > 0xFFFF
      then let v = cp - 0x10000
           in [ucast (0xD800 + drop_bit 10 v), ucast (0xDC00 + (v AND 0x3FF))]
      else [ucast cp])"

text \<open>The second loop; the result of the decoder is not tested again.\<close>

function utf8_to_utf16_loop :: "cstring \<Rightarrow> nat \<times> u16 ptr \<Rightarrow> (nat \<times> u16 ptr) option" where
  "utf8_to_utf16_loop s st =
     (if s = [] then Some st
      else case ten__utf8_decode_one s of
             None \<Rightarrow> None
           | Some (cp, clen) \<Rightarrow> do {
               st1 \<leftarrow> store (utf16_units cp) st;
               utf8_to_utf16_loop (drop clen s) st1
             })"
  by pat_completeness auto
termination
  by (relation "measure (length \<circ> fst)") (use decode_one_length in fastforce)+

declare utf8_to_utf16_loop.simps [simp del]

text \<open>A fresh block seen as an array of cells of \<open>k\<close> bytes.\<close>

definition as_array :: "nat \<Rightarrow> byte ptr \<Rightarrow> 'c ptr" where
  "as_array k p =
     (case p of Null \<Rightarrow> Null | Block b \<Rightarrow> Block (replicate (length b div k) None) | Dangling \<Rightarrow> Dangling)"

definition ten_utf8_to_utf16 ::
    "cstring option \<Rightarrow> size_t option \<Rightarrow> ten_world \<Rightarrow> (u16 ptr \<times> size_t option \<times> ten_world) option" where
  "ten_utf8_to_utf16 utf8 out_length w =
     (case (utf8, out_length) of
        (Some s, Some _) \<Rightarrow>
          (case utf8_units s of
             None \<Rightarrow> Some (Null, out_length, ten__set_error TEN_ERROR_ENCODING w)
           | Some units \<Rightarrow>
               let (out, w1) = ten_malloc ((units + 1) * 2) w
               in if is_Null out then Some (Null, out_length, w1)
                  else do {
                    st \<leftarrow> utf8_to_utf16_loop s (0, as_array 2 out);
                    (pos, out') \<leftarrow> store [0] st;
                    Some (out', Some units, ten__set_error TEN_OK w1)
                  })
      | _ \<Rightarrow> Some (Null, out_length, ten__set_error TEN_ERROR_NULL_ARGUMENT w))"

section \<open>UTF-16 to UTF-8\<close>

definition surrogate_pair :: "u16 \<Rightarrow> u16 \<Rightarrow> u32" where
  "surrogate_pair u v = 0x10000 + push_bit 10 (ucast u - 0xD800) + (ucast v - 0xDC00)"

fun utf16_bytes :: "u16 list \<Rightarrow> size_t option" where
  "utf16_bytes [] = Some 0"
| "utf16_bytes (u # us) =
     (let count = (\<lambda>cp :: u32. if cp < 0x80 then 1 else if cp < 0x800 then 2
                                else if cp < 0x10000 then 3 else 4)
      in if u \<ge> 0xD800 \<and> u \<le> 0xDBFF
         then case us of
                [] \<Rightarrow> None
              | v # vs \<Rightarrow>
                  if v < 0xDC00 \<or> v > 0xDFFF then None
                  else map_option (\<lambda>n. count (surrogate_pair u v) + n) (utf16_bytes vs)
         else if u \<ge> 0xDC00 \<and> u \<le> 0xDFFF then None
         else map_option (\<lambda>n. count (ucast u) + n) (utf16_bytes us))"

fun utf16_to_utf8_loop :: "u16 list \<Rightarrow> nat \<times> byte ptr \<Rightarrow> (nat \<times> byte ptr) option" where
  "utf16_to_utf8_loop [] st = Some st"
| "utf16_to_utf8_loop (u # us) st =
     (if u \<ge> 0xD800 \<and> u \<le> 0xDBFF
      then case us of
             [] \<Rightarrow> None
           | v # vs \<Rightarrow> do {
               st1 \<leftarrow> store (utf8_bytes (surrogate_pair u v)) st;
               utf16_to_utf8_loop vs st1
             }
      else do { st1 \<leftarrow> store (utf8_bytes (ucast u)) st; utf16_to_utf8_loop us st1 })"

definition ten_utf16_to_utf8 ::
    "u16 list option \<Rightarrow> size_t \<Rightarrow> ten_world \<Rightarrow> (byte ptr \<times> ten_world) option" where
  "ten_utf16_to_utf8 utf16 len w =
     (if utf16 = None \<and> len > 0 then Some (Null, ten__set_error TEN_ERROR_NULL_ARGUMENT w)
      else do {
        us \<leftarrow> c_object utf16 len;
        (case utf16_bytes us of
           None \<Rightarrow> Some (Null, ten__set_error TEN_ERROR_ENCODING w)
         | Some bytes \<Rightarrow>
             let (out, w1) = ten_malloc (bytes + 1) w
             in if is_Null out then Some (Null, w1)
                else do {
                  st \<leftarrow> utf16_to_utf8_loop us (0, out);
                  (pos, out') \<leftarrow> store [0] st;
                  Some (out', ten__set_error TEN_OK w1)
                })
      })"

section \<open>Validation\<close>

definition ten_ascii_validate :: "byte list option \<Rightarrow> size_t \<Rightarrow> ten_world \<Rightarrow> (bool \<times> ten_world) option" where
  "ten_ascii_validate text sz w =
     (if text = None \<and> sz > 0 then Some (False, ten__set_error TEN_ERROR_NULL_ARGUMENT w)
      else do {
        t \<leftarrow> c_object text sz;
        Some (list_all (\<lambda>c. \<not> c > 0x7F) t, ten__set_error TEN_OK w)
      })"

function utf8_valid_loop :: "byte list \<Rightarrow> bool" where
  "utf8_valid_loop s =
     (if s = [] then True
      else case ten__utf8_decode_one s of
             None \<Rightarrow> False
           | Some (cp, clen) \<Rightarrow> utf8_valid_loop (drop clen s))"
  by pat_completeness auto
termination
  by (relation "measure length") (use decode_one_length in fastforce)+

declare utf8_valid_loop.simps [simp del]

definition ten_utf8_validate :: "byte list option \<Rightarrow> size_t \<Rightarrow> ten_world \<Rightarrow> (bool \<times> ten_world) option" where
  "ten_utf8_validate text sz w =
     (if text = None \<and> sz > 0 then Some (False, ten__set_error TEN_ERROR_NULL_ARGUMENT w)
      else do {
        t \<leftarrow> c_object text sz;
        Some (utf8_valid_loop t, ten__set_error TEN_OK w)
      })"

section \<open>Texts and code points\<close>

definition utf8_text :: "u32 list \<Rightarrow> cstring" where
  "utf8_text cps = concat (map utf8_bytes cps)"

definition utf16_text :: "u32 list \<Rightarrow> u16 list" where
  "utf16_text cps = concat (map utf16_units cps)"

text \<open>What the UTF-8 decoder accepts, and the Unicode scalar values among it.\<close>

definition code_point :: "u32 \<Rightarrow> bool" where
  "code_point cp \<longleftrightarrow> unat cp < 0x110000"

definition scalar_value :: "u32 \<Rightarrow> bool" where
  "scalar_value cp \<longleftrightarrow> unat cp < 0x110000 \<and> \<not> (0xD800 \<le> unat cp \<and> unat cp \<le> 0xDFFF)"

lemma utf8_text_Cons [simp]: "utf8_text [] = []" "utf8_text (c # cs) = utf8_bytes c @ utf8_text cs"
  by (simp_all add: utf8_text_def)

lemma utf16_text_Cons [simp]: "utf16_text [] = []" "utf16_text (c # cs) = utf16_units c @ utf16_text cs"
  by (simp_all add: utf16_text_def)

lemma utf8_bytes_nonempty [simp]: "utf8_bytes cp \<noteq> []"
  by (simp add: utf8_bytes_def)

lemma decode_one_code_point [simp]:
  "code_point cp \<Longrightarrow> ten__utf8_decode_one (utf8_bytes cp @ r) = Some (cp, length (utf8_bytes cp))"
  unfolding code_point_def by (rule decode_one_encoded)

lemma loops_Nil [simp]:
  "utf8_valid_loop []" "utf8_units [] = Some 0" "utf8_to_utf16_loop [] st = Some st"
  by (simp_all add: utf8_valid_loop.simps utf8_units.simps utf8_to_utf16_loop.simps)

lemma loops_Cons [simp]:
  assumes "code_point cp"
  shows "utf8_valid_loop (utf8_bytes cp @ s) = utf8_valid_loop s"
    "utf8_units (utf8_bytes cp @ s) =
       map_option (\<lambda>units. (if cp > 0xFFFF then 2 else 1) + units) (utf8_units s)"
    "utf8_to_utf16_loop (utf8_bytes cp @ s) st =
       do { st1 \<leftarrow> store (utf16_units cp) st; utf8_to_utf16_loop s st1 }"
  using assms
  by (subst utf8_valid_loop.simps utf8_units.simps utf8_to_utf16_loop.simps, simp)+

text \<open>A byte sequence is accepted exactly if it is the text of code points.\<close>

lemma utf8_valid_text: "\<forall>cp \<in> set cps. code_point cp \<Longrightarrow> utf8_valid_loop (utf8_text cps)"
  by (induction cps) simp_all

lemma utf8_units_valid: "utf8_units s \<noteq> None \<longleftrightarrow> utf8_valid_loop s"
proof (induction s rule: utf8_valid_loop.induct)
  case (1 s)
  then show ?case
    by (subst utf8_units.simps, subst utf8_valid_loop.simps) (auto split: option.splits)
qed

lemma utf8_valid_obtains:
  assumes "utf8_valid_loop s"
  obtains cps where "s = utf8_text cps" "\<forall>cp \<in> set cps. code_point cp"
proof -
  have "\<exists>cps. s = utf8_text cps \<and> (\<forall>cp \<in> set cps. code_point cp)"
    using assms
  proof (induction s rule: utf8_valid_loop.induct)
    case (1 s)
    show ?case
    proof (cases "s = []")
      case True
      then show ?thesis by (intro exI [of _ "[]"]) simp
    next
      case False
      with 1(2) obtain cp l where d: "ten__utf8_decode_one s = Some (cp, l)" "utf8_valid_loop (drop l s)"
        by (subst (asm) utf8_valid_loop.simps) (auto split: option.splits)
      from 1(1) [OF False d(1) refl d(2)] obtain cps where
        "drop l s = utf8_text cps" "\<forall>cp \<in> set cps. code_point cp" by blast
      with decode_one_sound [OF d(1)] show ?thesis
        by (intro exI [of _ "cp # cps"]) (auto simp: code_point_def)
    qed
  qed
  with that show thesis by blast
qed

lemma utf8_valid_iff:
  "utf8_valid_loop s \<longleftrightarrow> (\<exists>cps. s = utf8_text cps \<and> (\<forall>cp \<in> set cps. code_point cp))"
  using utf8_valid_text by (blast elim: utf8_valid_obtains)

section \<open>The conversions on texts\<close>

lemma length_utf16_units: "length (utf16_units cp) = (if cp > 0xFFFF then 2 else 1)"
  by (simp add: utf16_units_def Let_def)

lemma utf8_units_text:
  "\<forall>cp \<in> set cps. code_point cp \<Longrightarrow> utf8_units (utf8_text cps) = Some (of_nat (length (utf16_text cps)))"
  by (induction cps) (simp_all add: length_utf16_units)

lemma utf8_to_utf16_loop_text:
  "\<forall>cp \<in> set cps. code_point cp \<Longrightarrow> filled n ys st \<Longrightarrow> length ys + length (utf16_text cps) \<le> n \<Longrightarrow>
   \<exists>st'. utf8_to_utf16_loop (utf8_text cps) st = Some st' \<and> filled n (ys @ utf16_text cps) st'"
proof (induction cps arbitrary: ys st)
  case Nil
  then show ?case by simp
next
  case (Cons cp cps)
  obtain st1 where st1: "store (utf16_units cp) st = Some st1" "filled n (ys @ utf16_units cp) st1"
    using store_filled [OF Cons(3), of "utf16_units cp"] Cons(4) by auto
  show ?case
    using Cons(1) [OF _ st1(2)] Cons(2,4) st1(1) by simp
qed

lemma length_utf16_text: "length (utf16_text cps) \<le> length (utf8_text cps)"
proof (induction cps)
  case (Cons cp cps)
  have "length (utf16_units cp) \<le> length (utf8_bytes cp)"
    by (auto simp: utf16_units_def utf8_bytes_def Let_def word_less_nat_alt word_le_nat_alt)
  with Cons show ?case by simp
qed simp

lemma filled_as_array:
  assumes "unat m = 2 * k"
  shows "filled k [] (0, as_array 2 (Block (replicate (unat m) None)))"
  using assms by (simp add: as_array_def filled_def)

lemma utf8_to_utf16_spec:
  assumes s: "cstr_ok (utf8_text cps)" and cps: "\<forall>cp \<in> set cps. code_point cp"
  shows "(\<exists>w'. ten_utf8_to_utf16 (Some (utf8_text cps)) (Some n) w =
            Some (Block (map Some (utf16_text cps @ [0])), Some (of_nat (length (utf16_text cps))), w') \<and>
            g_ten_last_error w' = TEN_OK \<and> refusals w' = refusals w \<and> live w' = live w + 1) \<or>
         (\<exists>w'. ten_utf8_to_utf16 (Some (utf8_text cps)) (Some n) w = Some (Null, Some n, w') \<and>
            g_ten_last_error w' = TEN_ERROR_OUT_OF_MEMORY \<and> refusals w < refusals w' \<and> live w' = live w)"
proof -
  let ?l = "length (utf16_text cps)"
  let ?m = "(of_nat ?l + 1) * 2 :: size_t"
  have l: "Suc ?l < 2 ^ 63" using s length_utf16_text [of cps] by (simp add: cstr_ok_def)
  then have "unat (of_nat ?l + 1 :: size_t) = Suc ?l"
    by (subst unat_add_size) (simp_all add: unat_of_nat_size)
  with l have m: "unat ?m = 2 * Suc ?l"
    by (subst unat_mult_size) simp_all
  note units = utf8_units_text [OF cps]
  show ?thesis
  proof (cases rule: ten_malloc_cases [where n = ?m and w = w])
    case (granted w1)
    let ?out = "(0, as_array 2 (Block (replicate (unat ?m) None :: byte option list)) :: u16 ptr)"
    obtain st where st: "utf8_to_utf16_loop (utf8_text cps) ?out = Some st" "filled (Suc ?l) (utf16_text cps) st"
      using utf8_to_utf16_loop_text [OF cps filled_as_array [OF m]] by (auto simp del: split_paired_Ex)
    obtain st' where "store [0] st = Some st'" "filled (Suc ?l) (utf16_text cps @ [0]) st'"
      using store_filled [OF st(2), of "[0]"] by auto
    moreover from this(2) obtain j where "st' = (j, Block (map Some (utf16_text cps @ [0])))"
      by (auto simp: filled_def)
    ultimately show ?thesis
      using granted(2,4-6) st(1) units by (simp add: ten_utf8_to_utf16_def del: replicate.simps)
  next
    case (refused w1)
    then show ?thesis using units by (simp add: ten_utf8_to_utf16_def)
  qed
qed

section \<open>Surrogate pairs\<close>

lemma unat_ucast_u16: "unat (ucast (u :: u16) :: u32) = unat u"
proof -
  have "unat u < 2 ^ 32" using unsigned_less [of u, where ?'a = nat] by simp
  then show ?thesis by (simp add: unsigned_ucast_eq take_bit_nat_eq_self)
qed

lemma unat_ucast_to_u16: "unat (ucast (x :: u32) :: u16) = unat x mod 65536"
  by (simp add: unsigned_ucast_eq take_bit_eq_mod)

lemma unat_add_u32: "unat (a :: u32) + unat b < 4294967296 \<Longrightarrow> unat (a + b) = unat a + unat b"
  by (simp add: unat_word_ariths)

lemma unat_diff_u32: "unat (b :: u32) \<le> unat a \<Longrightarrow> unat (a - b) = unat a - unat b"
  by (simp add: unat_sub word_le_nat_alt)

lemma surrogate_pair_value:
  assumes "0xD800 \<le> unat u" "unat u \<le> 0xDBFF" "0xDC00 \<le> unat v" "unat v \<le> 0xDFFF"
  shows "unat (surrogate_pair u v) = 0x10000 + (unat u - 0xD800) * 1024 + (unat v - 0xDC00)"
proof -
  have u: "unat (ucast u - 0xD800 :: u32) = unat u - 0xD800" "unat (ucast v - 0xDC00 :: u32) = unat v - 0xDC00"
    using assms by (simp_all add: unat_diff_u32 unat_ucast_u16)
  have h: "unat (push_bit 10 (ucast u - 0xD800 :: u32)) = (unat u - 0xD800) * 1024"
    using assms u(1) by (subst unat_push_bit_u32) simp_all
  have sum: "unat (0x10000 + h + l) = 0x10000 + unat h + unat l"
    if "unat h \<le> 1023 * 1024" "unat l \<le> 1023" for h l :: u32
    using that by (subst unat_add_u32; (subst unat_add_u32)?; simp)
  have "unat (push_bit 10 (ucast u - 0xD800 :: u32)) \<le> 1023 * 1024" "unat (ucast v - 0xDC00 :: u32) \<le> 1023"
    unfolding h u using assms by simp_all
  from sum [OF this] show ?thesis
    unfolding surrogate_pair_def h u .
qed

lemma utf16_units_values:
  assumes "0x10000 \<le> unat cp" "unat cp < 0x110000"
  obtains u v where "utf16_units cp = [u, v]" "unat u = 0xD800 + (unat cp - 0x10000) div 1024"
    "unat v = 0xDC00 + (unat cp - 0x10000) mod 1024"
proof -
  have v: "unat (cp - 0x10000) = unat cp - 0x10000"
    using assms by (simp add: unat_diff_u32)
  have d: "(unat cp - 0x10000) div 1024 < 1024" using assms by (simp add: less_mult_imp_div_less)
  have hi: "unat (ucast (0xD800 + drop_bit 10 (cp - 0x10000)) :: u16) = 0xD800 + (unat cp - 0x10000) div 1024"
    using d by (simp add: unat_ucast_to_u16 unat_add_u32 unat_drop_bit_u32 v)
  have m: "unat ((cp - 0x10000) AND 0x3FF) = (unat cp - 0x10000) mod 1024"
    using nat_and_mask [of "unat (cp - 0x10000)" 10] v by (simp add: unsigned_and_eq mask_eq_exp_minus_1)
  have lo: "unat (ucast (0xDC00 + ((cp - 0x10000) AND 0x3FF)) :: u16) = 0xDC00 + (unat cp - 0x10000) mod 1024"
    using mod_less_divisor [of 1024 "unat cp - 0x10000"]
    by (simp add: unat_ucast_to_u16 unat_add_u32 m)
  have "cp > 0xFFFF" using assms by (simp add: word_less_nat_alt)
  then show thesis using that hi lo by (simp add: utf16_units_def Let_def)
qed

lemma surrogate_pair_units:
  assumes "0xD800 \<le> unat u" "unat u \<le> 0xDBFF" "0xDC00 \<le> unat v" "unat v \<le> 0xDFFF"
  shows "utf16_units (surrogate_pair u v) = [u, v]" "scalar_value (surrogate_pair u v)"
proof -
  let ?cp = "surrogate_pair u v"
  note cp_val = surrogate_pair_value [OF assms]
  have range: "0x10000 \<le> unat ?cp" "unat ?cp < 0x110000" using cp_val assms by simp_all
  then show "scalar_value ?cp" by (simp add: scalar_value_def)
  obtain a b where ab: "utf16_units ?cp = [a, b]" "unat a = 0xD800 + (unat ?cp - 0x10000) div 1024"
      "unat b = 0xDC00 + (unat ?cp - 0x10000) mod 1024"
    using utf16_units_values [OF range] by blast
  have "unat ?cp - 0x10000 = (unat u - 0xD800) * 1024 + (unat v - 0xDC00)" using cp_val by simp
  moreover have "(q * 1024 + r) div 1024 = q" "(q * 1024 + r) mod 1024 = r" if "r < 1024" for q r :: nat
    using that by simp_all
  moreover have "unat v - 0xDC00 < 1024" using assms by simp
  ultimately have "(unat ?cp - 0x10000) div 1024 = unat u - 0xD800"
      "(unat ?cp - 0x10000) mod 1024 = unat v - 0xDC00"
    by metis+
  with ab assms show "utf16_units ?cp = [u, v]" by (simp add: word_unat_eq_iff)
qed

lemma units_surrogate_pair:
  assumes "0x10000 \<le> unat cp" "unat cp < 0x110000"
  obtains u v where "utf16_units cp = [u, v]" "0xD800 \<le> unat u" "unat u \<le> 0xDBFF"
    "0xDC00 \<le> unat v" "unat v \<le> 0xDFFF" "surrogate_pair u v = cp"
proof -
  obtain u v where uv: "utf16_units cp = [u, v]" "unat u = 0xD800 + (unat cp - 0x10000) div 1024"
      "unat v = 0xDC00 + (unat cp - 0x10000) mod 1024"
    using utf16_units_values [OF assms] by blast
  have d: "(unat cp - 0x10000) div 1024 < 1024" using assms by (simp add: less_mult_imp_div_less)
  have m: "(unat cp - 0x10000) mod 1024 < 1024" by simp
  have r: "0xD800 \<le> unat u" "unat u \<le> 0xDBFF" "0xDC00 \<le> unat v" "unat v \<le> 0xDFFF"
    using uv d m by linarith+
  have "unat (surrogate_pair u v) = unat cp"
    using surrogate_pair_value [OF r] uv assms(1) div_mult_mod_eq [of "unat cp - 0x10000" 1024] by simp
  then have "surrogate_pair u v = cp" by (simp add: word_unat_eq_iff)
  with uv(1) r that show thesis by blast
qed

section \<open>UTF-16 texts\<close>

fun utf16_cps :: "u16 list \<Rightarrow> u32 list option" where
  "utf16_cps [] = Some []"
| "utf16_cps (u # us) =
     (if u \<ge> 0xD800 \<and> u \<le> 0xDBFF
      then case us of
             [] \<Rightarrow> None
           | v # vs \<Rightarrow>
               if v < 0xDC00 \<or> v > 0xDFFF then None
               else map_option ((#) (surrogate_pair u v)) (utf16_cps vs)
      else if u \<ge> 0xDC00 \<and> u \<le> 0xDFFF then None
      else map_option ((#) (ucast u)) (utf16_cps us))"

lemma length_utf8_bytes:
  "length (utf8_bytes cp) = (if cp < 0x80 then 1 else if cp < 0x800 then 2 else if cp < 0x10000 then 3 else 4)"
  by (simp add: utf8_bytes_def)

lemma utf16_bytes_cps: "utf16_bytes us = map_option (\<lambda>cps. of_nat (length (utf8_text cps))) (utf16_cps us)"
  by (induction us rule: utf16_bytes.induct)
    (auto simp: Let_def length_utf8_bytes option.map_comp o_def split: list.splits)

lemma utf16_to_utf8_loop_cps:
  "utf16_cps us = Some cps \<Longrightarrow> filled n ys st \<Longrightarrow> length ys + length (utf8_text cps) \<le> n \<Longrightarrow>
   \<exists>st'. utf16_to_utf8_loop us st = Some st' \<and> filled n (ys @ utf8_text cps) st'"
proof (induction us st arbitrary: cps ys rule: utf16_to_utf8_loop.induct)
  case (2 u us st)
  from 2(3) obtain cp rest where r: "cps = cp # rest"
    by (auto split: if_splits list.splits)
  obtain st1 where st1: "store (utf8_bytes cp) st = Some st1" "filled n (ys @ utf8_bytes cp) st1"
    using store_filled [OF 2(4), of "utf8_bytes cp"] 2(5) r by auto
  have len: "length (ys @ utf8_bytes cp) + length (utf8_text rest) \<le> n" using 2(5) r by simp
  show ?case
  proof (cases "u \<ge> 0xD800 \<and> u \<le> 0xDBFF")
    case True
    with 2(3) r obtain v vs where us: "us = v # vs" "cp = surrogate_pair u v" "utf16_cps vs = Some rest"
      by (auto split: if_splits list.splits)
    from 2(1) [OF True us(1) _ us(3) st1(2) len] st1(1) True us r show ?thesis by simp
  next
    case False
    with 2(3) r have "cp = ucast u" "utf16_cps us = Some rest"
      by (auto split: if_splits)
    from 2(2) [OF False _ this(2) st1(2) len] st1(1) this(1) r show ?thesis
      unfolding utf16_to_utf8_loop.simps if_not_P [OF False] by simp
  qed
qed simp

lemma utf16_cps_sound:
  "utf16_cps us = Some cps \<Longrightarrow> us = utf16_text cps \<and> (\<forall>cp \<in> set cps. scalar_value cp)"
proof (induction us arbitrary: cps rule: utf16_cps.induct)
  case (2 u us)
  show ?case
  proof (cases "u \<ge> 0xD800 \<and> u \<le> 0xDBFF")
    case True
    with 2(3) obtain v vs rest where us: "us = v # vs" "\<not> (v < 0xDC00 \<or> v > 0xDFFF)"
        "cps = surrogate_pair u v # rest" "utf16_cps vs = Some rest"
      by (auto split: if_splits list.splits)
    have "utf16_units (surrogate_pair u v) = [u, v]" "scalar_value (surrogate_pair u v)"
      using surrogate_pair_units [of u v] True us(2) by (simp_all add: word_le_nat_alt word_less_nat_alt)
    then show ?thesis using 2(1) [OF True us(1,2,4)] us by simp
  next
    case False
    with 2(3) obtain rest where r: "\<not> (u \<ge> 0xDC00 \<and> u \<le> 0xDFFF)" "cps = ucast u # rest" "utf16_cps us = Some rest"
      by (auto split: if_splits)
    have "unat u < 65536" using unsigned_less [of u, where ?'a = nat] by simp
    then have "utf16_units (ucast u) = [u]" "scalar_value (ucast u)"
      using False r(1) by (auto simp: utf16_units_def scalar_value_def word_less_nat_alt word_le_nat_alt
          unat_ucast_u16 unat_ucast_to_u16 word_unat_eq_iff)
    then show ?thesis using 2(2) [OF False r(1,3)] r by simp
  qed
qed simp

lemma utf16_cps_text:
  "\<forall>cp \<in> set cps. scalar_value cp \<Longrightarrow> utf16_cps (utf16_text cps) = Some cps"
proof (induction cps)
  case (Cons cp cps)
  then have ih: "utf16_cps (utf16_text cps) = Some cps" and cp: "scalar_value cp" by simp_all
  show ?case
  proof (cases "0x10000 \<le> unat cp")
    case True
    then obtain u v where "utf16_units cp = [u, v]" "0xD800 \<le> unat u" "unat u \<le> 0xDBFF"
        "0xDC00 \<le> unat v" "unat v \<le> 0xDFFF" "surrogate_pair u v = cp"
      using units_surrogate_pair cp unfolding scalar_value_def by blast
    then show ?thesis using ih by (simp add: word_le_nat_alt word_less_nat_alt)
  next
    case False
    then have "utf16_units cp = [ucast cp]" "unat (ucast cp :: u16) = unat cp"
      by (simp_all add: utf16_units_def word_less_nat_alt unat_ucast_to_u16)
    moreover from this(2) have "ucast (ucast cp :: u16) = cp"
      by (simp add: word_unat_eq_iff unat_ucast_u16)
    ultimately show ?thesis
      using ih cp by (auto simp: scalar_value_def word_le_nat_alt)
  qed
qed simp

lemma length_utf8_text_le: "length (utf8_text cps) \<le> 3 * length (utf16_text cps)"
proof (induction cps)
  case (Cons cp cps)
  have "length (utf8_bytes cp) \<le> 3 * length (utf16_units cp)"
    by (simp add: length_utf8_bytes length_utf16_units word_less_nat_alt)
  with Cons show ?case by simp
qed simp

lemma utf16_to_utf8_spec:
  assumes len: "length us < 2 ^ 62" and cps: "utf16_cps us = Some cps"
  shows "fresh_text (utf8_text cps) w (ten_utf16_to_utf8 (Some us) (of_nat (length us)) w)"
proof -
  let ?l = "length (utf8_text cps)"
  have l: "Suc ?l < 2 ^ 64"
    using length_utf8_text_le [of cps] len utf16_cps_sound [OF cps] by simp
  then have m: "unat (of_nat ?l + 1 :: size_t) = Suc ?l"
    by (subst unat_add_size) (simp_all add: unat_of_nat_size)
  have obj: "c_object (Some us) (of_nat (length us)) = Some us" using len by (simp add: c_object_whole)
  show ?thesis
  proof (cases rule: ten_malloc_cases [where n = "of_nat ?l + 1" and w = w])
    case (granted w1)
    have fresh: "filled (Suc ?l) [] (0, Block (replicate (unat (of_nat ?l + 1 :: size_t)) None))"
      unfolding m by (rule filled_fresh)
    obtain st where st: "utf16_to_utf8_loop us (0, Block (replicate (unat (of_nat ?l + 1 :: size_t)) None)) = Some st"
        "filled (Suc ?l) (utf8_text cps) st"
      using utf16_to_utf8_loop_cps [OF cps fresh] by (auto simp del: split_paired_Ex)
    obtain st' where "store [0] st = Some st'" "filled (Suc ?l) (utf8_text cps @ [0]) st'"
      using store_filled [OF st(2), of "[0]"] by auto
    moreover from this(2) obtain j where "st' = (j, Block (c_bytes (utf8_text cps)))"
      by (auto simp: filled_def c_bytes_def)
    ultimately show ?thesis
      using granted(2,4-6) st(1) cps obj
      by (simp add: fresh_text_def ten_utf16_to_utf8_def utf16_bytes_cps del: replicate.simps)
  next
    case (refused w1)
    then show ?thesis using cps obj by (simp add: fresh_text_def ten_utf16_to_utf8_def utf16_bytes_cps)
  qed
qed

text \<open>
  The UTF-8 decoder takes encoded surrogates for characters: ED A0 80 is accepted by
  \<open>ten_utf8_validate\<close>, converted to the lone surrogate D800, and this cannot be converted back.
\<close>

lemma surrogate_accepted:
  "let w = start_world ample; s = [0xED, 0xA0, 0x80]
   in ten_utf8_validate (Some s) 3 w = Some (True, w) \<and>
      (\<exists>w1. ten_utf8_to_utf16 (Some s) (Some 0) w = Some (Block [Some 0xD800, Some 0], Some 1, w1)) \<and>
      ten_utf16_to_utf8 (Some [0xD800]) 1 w = Some (Null, ten__set_error TEN_ERROR_ENCODING w)"
proof -
  let ?w = "start_world ample" and ?s = "[0xED, 0xA0, 0x80] :: byte list"
  have "utf8_valid_loop ?s"
    "map_option (\<lambda>(p, n, w). (p, n)) (ten_utf8_to_utf16 (Some ?s) (Some 0) ?w) = Some (Block [Some 0xD800, Some 0], Some 1)"
    by code_simp+
  moreover have "ten__set_error TEN_OK ?w = ?w" by (simp add: ten__set_error_def start_world_def)
  ultimately show ?thesis
    by (auto simp: Let_def ten_utf16_to_utf8_def ten_utf8_validate_def c_object_def)
qed

end
