(* ===== verification/Ten_Path.thy ===== *)
theory Ten_Path
  imports Ten_String
begin

text \<open>
  The path module (\<open>include/ten/path.h\<close>, \<open>src/path/path.c\<close>) as built for POSIX targets, and
  the interpretation of file modes (\<open>src/internal/file_mode_internal.h\<close>). A pointer into a
  string is the list of the bytes from it on. The operations compute the pure functions
  \<open>path_join\<close>, \<open>path_directory\<close>, \<open>path_filename\<close> and \<open>path_extension\<close> in fresh blocks; the
  lemmas about these say how the parts of a path fit together.
\<close>

section \<open>Separators and copies\<close>

definition TEN_PATH_SEPARATOR :: byte where
  "TEN_PATH_SEPARATOR = 0x2F"

definition ten__is_sep :: "byte \<Rightarrow> bool" where
  "ten__is_sep c \<longleftrightarrow> c = 0x2F \<or> c = 0x5C"

text \<open>The index of the last byte with a property (\<open>last\<close> is the best index seen so far).\<close>

primrec find_last :: "(byte \<Rightarrow> bool) \<Rightarrow> cstring \<Rightarrow> nat \<Rightarrow> nat option \<Rightarrow> nat option" where
  "find_last P [] i best = best"
| "find_last P (c # p) i best = find_last P p (Suc i) (if P c then Some i else best)"

definition ten__find_last_sep :: "cstring \<Rightarrow> nat option" where
  "ten__find_last_sep path = find_last ten__is_sep path 0 None"

definition strrchr :: "cstring \<Rightarrow> byte \<Rightarrow> nat option" where
  "strrchr s b = find_last (\<lambda>c. c = b) s 0 None"

definition ten__dup_range :: "cstring \<Rightarrow> size_t \<Rightarrow> ten_world \<Rightarrow> (byte ptr \<times> ten_world) option" where
  "ten__dup_range start len w =
     (let (res, w1) = ten_malloc (len + 1) w
      in if is_Null res then Some (Null, w1)
         else do {
           bytes \<leftarrow> c_object (Some (start @ [0])) len;
           st1 \<leftarrow> store bytes (0, res);
           (_, res') \<leftarrow> store [0] st1;
           Some (res', w1)
         })"

section \<open>Joining\<close>

primrec trim_end :: "cstring \<Rightarrow> nat \<Rightarrow> nat" where
  "trim_end a 0 = 0"
| "trim_end a (Suc n) = (if ten__is_sep (a ! n) then trim_end a n else Suc n)"

primrec trim_start :: "cstring \<Rightarrow> cstring" where
  "trim_start [] = []"
| "trim_start (c # b) = (if ten__is_sep c then trim_start b else c # b)"

definition ten_path_join ::
    "cstring option \<Rightarrow> cstring option \<Rightarrow> ten_world \<Rightarrow> (byte ptr \<times> ten_world) option" where
  "ten_path_join a b w =
     (case (a, b) of
        (Some x, Some y) \<Rightarrow>
          let len_a = trim_end x (length x);
              b' = trim_start y;
              len_b = length b';
              need_sep = (len_a > 0 \<and> len_b > 0);
              (res, w1) = ten_malloc (of_nat len_a + (if need_sep then 1 else 0) + of_nat len_b + 1) w
          in if is_Null res then Some (Null, w1)
             else do {
               st1 \<leftarrow> store (take len_a x) (0, res);
               st2 \<leftarrow> (if need_sep then store [TEN_PATH_SEPARATOR] st1 else Some st1);
               st3 \<leftarrow> store b' st2;
               (_, res') \<leftarrow> store [0] st3;
               Some (res', ten__set_error TEN_OK w1)
             }
      | _ \<Rightarrow> Some (Null, ten__set_error TEN_ERROR_NULL_ARGUMENT w))"

section \<open>Parts of a path\<close>

definition ten_path_directory :: "cstring option \<Rightarrow> ten_world \<Rightarrow> (byte ptr \<times> ten_world) option" where
  "ten_path_directory path w =
     (case path of
        None \<Rightarrow> Some (Null, ten__set_error TEN_ERROR_NULL_ARGUMENT w)
      | Some p \<Rightarrow>
          let w1 = ten__set_error TEN_OK w
          in case ten__find_last_sep p of
               None \<Rightarrow> ten__dup_range (ascii ''.'') 1 w1
             | Some sep \<Rightarrow>
                 if sep = 0 then ten__dup_range p 1 w1 else ten__dup_range p (of_nat sep) w1)"

definition ten_path_filename :: "cstring option \<Rightarrow> ten_world \<Rightarrow> (byte ptr \<times> ten_world) option" where
  "ten_path_filename path w =
     (case path of
        None \<Rightarrow> Some (Null, ten__set_error TEN_ERROR_NULL_ARGUMENT w)
      | Some p \<Rightarrow>
          let w1 = ten__set_error TEN_OK w
          in case ten__find_last_sep p of
               None \<Rightarrow> ten__dup_range p (strlen p) w1
             | Some sep \<Rightarrow> ten__dup_range (drop (sep + 1) p) (strlen (drop (sep + 1) p)) w1)"

definition ten_path_extension :: "cstring option \<Rightarrow> ten_world \<Rightarrow> (byte ptr \<times> ten_world) option" where
  "ten_path_extension path w =
     (case path of
        None \<Rightarrow> Some (Null, ten__set_error TEN_ERROR_NULL_ARGUMENT w)
      | Some p \<Rightarrow> do {
          (filename, w1) \<leftarrow> ten_path_filename (Some p) w;
          if is_Null filename then Some (Null, w1)
          else do {
            f \<leftarrow> c_string (block_cells filename);
            let from = (if f \<noteq> [] \<and> hd f = 0x2E then drop 1 f else f);
            (case strrchr from 0x2E of
               None \<Rightarrow> do {
                 w2 \<leftarrow> ten_free filename w1;
                 ten__dup_range [] 0 (ten__set_error TEN_OK w2)
               }
             | Some dot \<Rightarrow> do {
                 (res, w2) \<leftarrow> ten__dup_range (drop dot from) (strlen (drop dot from)) w1;
                 w3 \<leftarrow> ten_free filename w2;
                 Some (res, ten__set_error TEN_OK w3)
               })
          }
        })"

definition ten_path_is_absolute :: "cstring option \<Rightarrow> ten_world \<Rightarrow> bool \<times> ten_world" where
  "ten_path_is_absolute path w =
     (case path of
        None \<Rightarrow> (False, ten__set_error TEN_ERROR_NULL_ARGUMENT w)
      | Some p \<Rightarrow> (p \<noteq> [] \<and> hd p = 0x2F, ten__set_error TEN_OK w))"

section \<open>File modes\<close>

record ten__file_mode_t =
  fm_read :: bool
  fm_write :: bool
  fm_append :: bool
  fm_truncate :: bool
  fm_create :: bool

definition ten__parse_file_mode :: "cstring \<Rightarrow> ten__file_mode_t" where
  "ten__parse_file_mode mode =
     (let len = length mode;
          has_plus = (len > 0 \<and> (mode ! (len - 1) = 0x2B \<or> (len > 1 \<and> mode ! 1 = 0x2B)));
          m = \<lparr>fm_read = False, fm_write = False, fm_append = False, fm_truncate = False, fm_create = False\<rparr>
      in if len = 0 then m
         else if mode ! 0 = 0x72
         then (if has_plus then m\<lparr>fm_read := True, fm_write := True\<rparr> else m\<lparr>fm_read := True\<rparr>)
         else if mode ! 0 = 0x77
         then (let m' = m\<lparr>fm_write := True, fm_create := True, fm_truncate := True\<rparr>
               in if has_plus then m'\<lparr>fm_read := True\<rparr> else m')
         else if mode ! 0 = 0x61
         then (let m' = m\<lparr>fm_write := True, fm_create := True, fm_append := True\<rparr>
               in if has_plus then m'\<lparr>fm_read := True\<rparr> else m')
         else m)"

section \<open>What the operations compute\<close>

definition path_join :: "cstring \<Rightarrow> cstring \<Rightarrow> cstring" where
  "path_join a b =
     (let a' = take (trim_end a (length a)) a; b' = trim_start b
      in if a' \<noteq> [] \<and> b' \<noteq> [] then a' @ [TEN_PATH_SEPARATOR] @ b' else a' @ b')"

definition path_directory :: "cstring \<Rightarrow> cstring" where
  "path_directory p =
     (case ten__find_last_sep p of None \<Rightarrow> [0x2E] | Some i \<Rightarrow> if i = 0 then take 1 p else take i p)"

definition path_filename :: "cstring \<Rightarrow> cstring" where
  "path_filename p = (case ten__find_last_sep p of None \<Rightarrow> p | Some i \<Rightarrow> drop (Suc i) p)"

definition path_extension :: "cstring \<Rightarrow> cstring" where
  "path_extension p =
     (let f = path_filename p; from = (if f \<noteq> [] \<and> hd f = 0x2E then drop 1 f else f)
      in case strrchr from 0x2E of None \<Rightarrow> [] | Some dot \<Rightarrow> drop dot from)"

text \<open>\<open>find_last\<close> splits a list at the last byte with the property.\<close>

lemma find_last_None: "(\<forall>c \<in> set p. \<not> P c) \<Longrightarrow> find_last P p i best = best"
  by (induction p arbitrary: i) auto

lemma find_last_append: "find_last P (p @ q) i best = find_last P q (i + length p) (find_last P p i best)"
  by (induction p arbitrary: i best) auto

lemma find_last_split:
  assumes "P c" "\<forall>d \<in> set q. \<not> P d"
  shows "find_last P (p @ c # q) 0 None = Some (length p)"
  using assms by (simp add: find_last_append find_last_None)

lemma find_last_cases:
  obtains (none) "find_last P s 0 None = None" "\<forall>c \<in> set s. \<not> P c"
  | (found) p c q where "s = p @ c # q" "P c" "\<forall>d \<in> set q. \<not> P d" "find_last P s 0 None = Some (length p)"
proof (cases "\<forall>c \<in> set s. \<not> P c")
  case True
  then show thesis by (intro none find_last_None)
next
  case False
  then obtain p c q where "s = p @ c # q" "P c" "\<forall>d \<in> set q. \<not> P d"
    using split_list_last_prop [of s P] by blast
  moreover from this have "find_last P s 0 None = Some (length p)"
    by (simp add: find_last_split)
  ultimately show thesis by (rule found)
qed

section \<open>The operations compute these functions\<close>

text \<open>Filling a block piece by piece with a text and its NUL.\<close>

lemma fill_text:
  assumes "filled (Suc (length t)) ys st" "ys @ zs = t"
  shows "\<exists>st'. store zs st = Some st' \<and> filled (Suc (length t)) t st'"
  using store_filled [OF assms(1), of zs] assms(2) by auto

lemma fill_nul:
  assumes "filled (Suc (length t)) t st"
  shows "\<exists>j. store [0] st = Some (j, Block (c_bytes t))"
  using store_filled [OF assms, of "[0]"] by (auto simp: filled_def c_bytes_def)

lemma store_Nil: "store [] st = Some st' \<Longrightarrow> st = st'"
  by (cases st; cases "snd st") (auto simp: store_def split: if_splits)

lemma dup_range_spec:
  assumes "unat len \<le> length p" "length p < 2 ^ 63 - 1" "g_ten_last_error w = TEN_OK"
  shows "fresh_text (take (unat len) p) w (ten__dup_range p len w)"
proof -
  let ?t = "take (unat len) p"
  have m: "unat (len + 1) = Suc (length ?t)"
    using assms(1,2) by (subst unat_add_size) simp_all
  have obj: "c_object (Some (p @ [0])) len = Some ?t"
    using assms(1) by (simp add: c_object_def)
  show ?thesis
  proof (cases rule: ten_malloc_cases [where n = "len + 1" and w = w])
    case (granted w1)
    have "filled (Suc (length ?t)) [] (0, Block (replicate (unat (len + 1)) None))"
      unfolding m by (rule filled_fresh)
    from fill_text [OF this append_Nil] obtain st where
      "store ?t (0, Block (replicate (unat (len + 1)) None)) = Some st" "filled (Suc (length ?t)) ?t st"
      by blast
    with fill_nul [of ?t st] granted(2,4-6) obj show ?thesis
      by (auto simp: fresh_text_def ten__dup_range_def simp del: replicate.simps)
  next
    case (refused w1)
    then show ?thesis by (simp add: fresh_text_def ten__dup_range_def)
  qed
qed

lemma set_error_fresh: "fresh_text t (ten__set_error c w) r = fresh_text t w r"
  by (simp add: fresh_text_def)

lemma dup_suffix_spec:
  assumes "length p < 2 ^ 63 - 1"
  shows "fresh_text p w (ten__dup_range p (strlen p) (ten__set_error TEN_OK w))"
  using dup_range_spec [of "strlen p" p "ten__set_error TEN_OK w"] assms
  by (simp add: unat_strlen set_error_fresh)

lemma path_directory_spec:
  assumes "cstr_ok p"
  shows "fresh_text (path_directory p) w (ten_path_directory (Some p) w)"
proof -
  have len: "length p < 2 ^ 63 - 1" using assms by (simp add: cstr_ok_def)
  have dup: "fresh_text (take (unat n) q) w (ten__dup_range q n (ten__set_error TEN_OK w))"
    if "unat n \<le> length q" "length q < 2 ^ 63 - 1" for q n
    using dup_range_spec [OF that, of "ten__set_error TEN_OK w"] by (simp add: set_error_fresh)
  show ?thesis
  proof (cases rule: find_last_cases [of ten__is_sep p])
    case none
    then show ?thesis
      using dup [of 1 "[0x2E]"] by (simp add: ten_path_directory_def path_directory_def ten__find_last_sep_def ascii_def)
  next
    case (found a c b)
    have n: "unat (of_nat (length a) :: size_t) = length a"
      using found(1) len by (intro unat_of_nat_size) simp
    have "fresh_text (take 1 p) w (ten__dup_range p 1 (ten__set_error TEN_OK w))"
      using dup [of 1 p] len found(1) by simp
    with n show ?thesis
      using found(1,4) dup [of "of_nat (length a)" p] len
      by (auto simp: ten_path_directory_def path_directory_def ten__find_last_sep_def)
  qed
qed

lemma path_filename_spec:
  assumes "cstr_ok p"
  shows "fresh_text (path_filename p) w (ten_path_filename (Some p) w)"
proof -
  have "length (drop n p) < 2 ^ 63 - 1" for n using assms by (simp add: cstr_ok_def less_imp_diff_less)
  from dup_suffix_spec [OF this [of 0]] dup_suffix_spec [OF this] show ?thesis
    by (simp add: ten_path_filename_def path_filename_def split: option.split)
qed

lemma trim_end_le: "trim_end a n \<le> n"
  by (induction n) auto

lemma length_trim_start: "length (trim_start b) \<le> length b"
  by (induction b) auto

lemma path_join_spec:
  assumes a: "cstr_ok a" and b: "cstr_ok b"
  shows "fresh_text (path_join a b) w (ten_path_join (Some a) (Some b) w)"
proof -
  define la where "la = trim_end a (length a)"
  define c where "c = trim_start b"
  define sep where "sep = (if la > 0 \<and> length c > 0 then [TEN_PATH_SEPARATOR] else [])"
  define n where "n = of_nat la + (if la > 0 \<and> length c > 0 then 1 else 0) + of_nat (length c) + (1 :: size_t)"
  define t where "t = path_join a b"
  have la: "length (take la a) = la" using trim_end_le [of a "length a"] by (simp add: la_def)
  have t: "t = take la a @ sep @ c"
    using la by (auto simp: t_def path_join_def Let_def sep_def la_def c_def)
  have "la < 2 ^ 63 - 1" "length c < 2 ^ 63 - 1"
    using a b trim_end_le [of a "length a"] length_trim_start [of b] by (simp_all add: cstr_ok_def la_def c_def)
  then have m: "unat n = Suc (length t)"
    using la unfolding t n_def sep_def by (auto simp: unat_add_size unat_of_nat_size simp del: length_take)
  have op: "ten_path_join (Some a) (Some b) w =
      (let (res, w1) = ten_malloc n w
       in if is_Null res then Some (Null, w1)
          else do {
            st1 \<leftarrow> store (take la a) (0, res);
            st2 \<leftarrow> (if la > 0 \<and> length c > 0 then store [TEN_PATH_SEPARATOR] st1 else Some st1);
            st3 \<leftarrow> store c st2;
            (_, res') \<leftarrow> store [0] st3;
            Some (res', ten__set_error TEN_OK w1) })"
    unfolding ten_path_join_def la_def c_def n_def Let_def by simp
  show ?thesis
  proof (cases rule: ten_malloc_cases [where n = n and w = w])
    case (granted w1)
    have "filled (Suc (length t)) [] (0, Block (replicate (unat n) None))"
      unfolding m by (rule filled_fresh)
    from store_filled [OF this, of "take la a"] obtain st1 where st1:
        "store (take la a) (0, Block (replicate (unat n) None)) = Some st1"
        "filled (Suc (length t)) (take la a) st1"
      unfolding t by auto
    from store_filled [OF st1(2), of sep] obtain st2 where st2: "store sep st1 = Some st2"
        "filled (Suc (length t)) (take la a @ sep) st2"
      unfolding t by auto
    obtain st3 where st3: "store c st2 = Some st3" "filled (Suc (length t)) t st3"
      using fill_text [OF st2(2), of c] t by auto
    obtain j where j: "store [0] st3 = Some (j, Block (c_bytes t))"
      using fill_nul [OF st3(2)] by blast
    have "(if la > 0 \<and> length c > 0 then store [TEN_PATH_SEPARATOR] st1 else Some st1) = Some st2"
      using st2(1) by (auto simp: sep_def dest: store_Nil)
    then have "ten_path_join (Some a) (Some b) w = Some (Block (c_bytes t), ten__set_error TEN_OK w1)"
      unfolding op using granted(2) st1(1) st3(1) j by (simp del: replicate.simps)
    with granted show ?thesis by (simp add: fresh_text_def t_def)
  next
    case (refused w1)
    then show ?thesis by (simp add: fresh_text_def op)
  qed
qed

lemma path_filename_bytes: "set (path_filename p) \<subseteq> set p" "length (path_filename p) \<le> length p"
  by (auto simp: path_filename_def dest: in_set_dropD split: option.splits)

lemma strrchr_cases:
  obtains (none) "strrchr s b = None" "b \<notin> set s"
  | (found) p q where "s = p @ b # q" "b \<notin> set q" "strrchr s b = Some (length p)"
  by (rule find_last_cases [of "\<lambda>c. c = b" s]) (auto simp: strrchr_def)

text \<open>
  \<open>ten_path_extension\<close> clears the error code after its second allocation: when that one is
  refused the result is a null pointer with the code \<open>TEN_OK\<close>.
\<close>

lemma path_extension_spec:
  assumes p: "cstr_ok p"
  shows "(\<exists>w'. ten_path_extension (Some p) w = Some (Block (c_bytes (path_extension p)), w') \<and>
            g_ten_last_error w' = TEN_OK \<and> refusals w' = refusals w \<and> live w' = live w + 1) \<or>
         (\<exists>w'. ten_path_extension (Some p) w = Some (Null, w') \<and>
            g_ten_last_error w' \<in> {TEN_OK, TEN_ERROR_OUT_OF_MEMORY} \<and>
            refusals w < refusals w' \<and> live w' = live w)"
  using path_filename_spec [OF p, of w] unfolding fresh_text_def
proof (elim disjE exE conjE)
  fix w1
  let ?f = "path_filename p"
  let ?from = "if ?f \<noteq> [] \<and> hd ?f = 0x2E then drop 1 ?f else ?f"
  assume f: "ten_path_filename (Some p) w = Some (Block (c_bytes ?f), w1)"
    "g_ten_last_error w1 = TEN_OK" "refusals w1 = refusals w" "live w1 = live w + 1"
  have nul: "c_string (c_bytes ?f) = Some ?f"
    using p path_filename_bytes(1) [of p] by (intro c_string_bytes) (auto simp: cstr_ok_def)
  have len: "length (drop k ?from) < 2 ^ 63 - 1" for k
    using p path_filename_bytes(2) [of p] by (auto simp: cstr_ok_def)
  show ?thesis
  proof (cases "strrchr ?from 0x2E")
    case None
    have "fresh_text [] (w1\<lparr>live := live w\<rparr>) (ten__dup_range [] 0 (ten__set_error TEN_OK (w1\<lparr>live := live w\<rparr>)))"
      using dup_suffix_spec [of "[]"] by (simp add: strlen_def)
    moreover have "ten_path_extension (Some p) w = ten__dup_range [] 0 (ten__set_error TEN_OK (w1\<lparr>live := live w\<rparr>))"
      using None f nul by (simp add: ten_path_extension_def ten_free_def)
    moreover have "path_extension p = []"
      using None by (simp add: path_extension_def Let_def)
    ultimately show ?thesis
      using f(2-4) by (fastforce simp: fresh_text_def)
  next
    case (Some dot)
    let ?e = "drop dot ?from"
    have e: "path_extension p = ?e" using Some by (simp add: path_extension_def Let_def)
    have op: "ten_path_extension (Some p) w = do {
        (res, w2) \<leftarrow> ten__dup_range ?e (strlen ?e) w1;
        w3 \<leftarrow> ten_free (Block (c_bytes ?f)) w2;
        Some (res, ten__set_error TEN_OK w3) }"
      using Some f(1) nul unfolding ten_path_extension_def by (simp add: Let_def)
    have "ten__set_error TEN_OK w1 = w1" using f(2) by (simp add: ten__set_error_def)
    with dup_suffix_spec [OF len, of dot w1] have "fresh_text ?e w1 (ten__dup_range ?e (strlen ?e) w1)"
      by simp
    then show ?thesis
      unfolding fresh_text_def e op using f(3,4)
      by (elim disjE exE conjE) (simp_all add: ten_free_def)
  qed
next
  fix w1
  assume "ten_path_filename (Some p) w = Some (Null, w1)"
    "g_ten_last_error w1 = TEN_ERROR_OUT_OF_MEMORY" "refusals w < refusals w1" "live w1 = live w"
  then show ?thesis by (auto simp: ten_path_extension_def)
qed

section \<open>How the parts fit together\<close>

lemma sep_is_sep [simp]: "ten__is_sep TEN_PATH_SEPARATOR"
  by (simp add: ten__is_sep_def TEN_PATH_SEPARATOR_def)

lemma filename_no_sep: "\<forall>c \<in> set (path_filename p). \<not> ten__is_sep c"
  by (cases rule: find_last_cases [of ten__is_sep p]) (auto simp: path_filename_def ten__find_last_sep_def)

text \<open>A path is its directory, a separator and its filename, when it has a separator that is
  not its first byte.\<close>

lemma path_parts:
  obtains (bare) "path_directory p = [0x2E]" "path_filename p = p" "\<forall>c \<in> set p. \<not> ten__is_sep c"
  | (root) c where "ten__is_sep c" "path_directory p = [c]" "p = c # path_filename p"
  | (nested) c where "ten__is_sep c" "p = path_directory p @ c # path_filename p" "path_directory p \<noteq> []"
proof (cases rule: find_last_cases [of ten__is_sep p])
  case none
  then show thesis by (intro bare) (auto simp: path_directory_def path_filename_def ten__find_last_sep_def)
next
  case (found a c b)
  show thesis
  proof (cases "a = []")
    case True
    with found show thesis
      by (intro root [of c]) (auto simp: path_directory_def path_filename_def ten__find_last_sep_def)
  next
    case False
    with found show thesis
      by (intro nested [of c]) (auto simp: path_directory_def path_filename_def ten__find_last_sep_def)
  qed
qed

lemma trim_start_id: "b \<noteq> [] \<Longrightarrow> \<not> ten__is_sep (hd b) \<Longrightarrow> trim_start b = b"
  by (cases b) auto

lemma trim_end_id: "a \<noteq> [] \<Longrightarrow> \<not> ten__is_sep (last a) \<Longrightarrow> trim_end a (length a) = length a"
  by (cases "length a") (auto simp: last_conv_nth)

text \<open>Joining a directory that does not end in a separator with a plain name is undone by
  taking the parts.\<close>

lemma join_parts:
  assumes a: "a \<noteq> []" "\<not> ten__is_sep (last a)" and b: "b \<noteq> []" "\<forall>c \<in> set b. \<not> ten__is_sep c"
  shows "path_directory (path_join a b) = a \<and> path_filename (path_join a b) = b"
proof -
  have "trim_start b = b" using b by (intro trim_start_id) auto
  then have j: "path_join a b = a @ TEN_PATH_SEPARATOR # b"
    using a b trim_end_id [OF a] by (simp add: path_join_def)
  have "ten__find_last_sep (path_join a b) = Some (length a)"
    unfolding j ten__find_last_sep_def using b(2) by (intro find_last_split) simp_all
  then show ?thesis using a(1) by (simp add: path_directory_def path_filename_def j)
qed

text \<open>The extension is a suffix of the filename, empty or a dot followed by bytes other than dots.\<close>

lemma extension_parts:
  obtains stem where "path_filename p = stem @ path_extension p"
    "path_extension p = [] \<or> (\<exists>e. path_extension p = 0x2E # e \<and> 0x2E \<notin> set e)"
proof -
  let ?f = "path_filename p"
  let ?from = "if ?f \<noteq> [] \<and> hd ?f = 0x2E then drop 1 ?f else ?f"
  have "\<exists>pre. ?f = pre @ ?from"
    by (auto intro: exI [of _ "take 1 ?f"] exI [of _ "[]"])
  then obtain pre where pre: "?f = pre @ ?from" by blast
  have "\<exists>stem. ?f = stem @ path_extension p \<and>
      (path_extension p = [] \<or> (\<exists>e. path_extension p = 0x2E # e \<and> 0x2E \<notin> set e))"
  proof (cases rule: strrchr_cases [of ?from "0x2E"])
    case none
    then have "path_extension p = []" by (simp add: path_extension_def Let_def)
    then show ?thesis by simp
  next
    case (found a b)
    then have "path_extension p = 0x2E # b" by (simp add: path_extension_def Let_def)
    with found pre show ?thesis by (intro exI [of _ "pre @ a"]) simp
  qed
  with that show thesis by blast
qed

section \<open>File modes\<close>

text \<open>
  File modes: a mode is for reading or writing exactly if it starts with \<open>r\<close>, \<open>w\<close> or \<open>a\<close>, for
  both if moreover its last or second byte is a plus sign; only \<open>w\<close> truncates, only \<open>a\<close> appends,
  and both of them create.
\<close>

lemma file_mode_fields:
  "ten__parse_file_mode mode = \<lparr>
     fm_read = (mode \<noteq> [] \<and> (hd mode = 0x72 \<or> hd mode \<in> {0x77, 0x61} \<and> (last mode = 0x2B \<or> take 1 (tl mode) = [0x2B]))),
     fm_write = (mode \<noteq> [] \<and> (hd mode \<in> {0x77, 0x61} \<or> hd mode = 0x72 \<and> (last mode = 0x2B \<or> take 1 (tl mode) = [0x2B]))),
     fm_append = (mode \<noteq> [] \<and> hd mode = 0x61),
     fm_truncate = (mode \<noteq> [] \<and> hd mode = 0x77),
     fm_create = (mode \<noteq> [] \<and> hd mode \<in> {0x77, 0x61})\<rparr>"
proof (cases mode)
  case (Cons c cs)
  have "c = 0x72 \<Longrightarrow> c \<noteq> 0x77" "c = 0x72 \<Longrightarrow> c \<noteq> 0x61" "c = 0x77 \<Longrightarrow> c \<noteq> 0x61" by auto
  moreover have "mode ! (length mode - 1) = last mode" using Cons by (simp add: last_conv_nth)
  moreover have "1 < length mode \<and> mode ! 1 = 0x2B \<longleftrightarrow> take 1 (tl mode) = [0x2B]"
    using Cons by (cases cs) auto
  ultimately show ?thesis using Cons
    by (auto simp: ten__parse_file_mode_def Let_def)
qed (simp add: ten__parse_file_mode_def)

text \<open>
  Joining loses the root: the join of \<open>/\<close> and \<open>foo\<close> is the relative path \<open>foo\<close>, and the
  extension of the directory name \<open>..\<close> is a single dot.
\<close>

lemma join_loses_root:
  "let w = start_world ample
   in map_option fst (ten_path_join (Some (ascii ''/'')) (Some (ascii ''foo'')) w) = Some (Block (c_bytes (ascii ''foo''))) \<and>
      map_option fst (ten_path_extension (Some (ascii ''..'')) w) = Some (Block (c_bytes (ascii ''.'')))"
  by code_simp

end
