(* ===== verification/Ten_Double.thy ===== *)
theory Ten_Double
  imports Ten_Prelude
begin

text \<open>
  The \<open>double\<close> values of JSON numbers and what \<open>src/json/json.c\<close> uses of the C library on them,
  for IEEE 754 binary64 with rounding to nearest: \<open>strtod\<close>, the conversions between \<open>double\<close> and
  \<open>long long\<close>, comparison, and the formats \<open>%lld\<close> and \<open>%.17g\<close>. A finite value is
  \<open>(-1)\<^sup>s * m * 2\<^sup>e\<close> in its canonical form: \<open>2 ^ 52 \<le> m < 2 ^ 53\<close> with \<open>-1074 \<le> e \<le> 971\<close>, or
  \<open>m < 2 ^ 52\<close> with \<open>e = -1074\<close>.
\<close>

section \<open>Values and rounding\<close>

datatype double =
    Finite (negative: bool) (mantissa: nat) (exponent: int)
  | Infinity (negative: bool)
  | NaN (negative: bool)

fun bit_length :: "nat \<Rightarrow> nat" where
  "bit_length n = (if n = 0 then 0 else Suc (bit_length (n div 2)))"

declare bit_length.simps [simp del]

text \<open>The quotient rounded to the nearest natural number, ties to even.\<close>

definition round_div :: "nat \<Rightarrow> nat \<Rightarrow> nat" where
  "round_div n d =
     (let q = n div d; r = n mod d
      in if 2 * r > d \<or> 2 * r = d \<and> odd q then q + 1 else q)"

text \<open>\<open>num / den\<close> as a multiple of \<open>2 ^ e\<close>.\<close>

definition scaled :: "nat \<Rightarrow> nat \<Rightarrow> int \<Rightarrow> nat \<times> nat" where
  "scaled num den e = (if e \<ge> 0 then (num, den * 2 ^ nat e) else (num * 2 ^ nat (- e), den))"

text \<open>The \<open>double\<close> nearest to \<open>num / den\<close>.\<close>

definition round_double :: "bool \<Rightarrow> nat \<Rightarrow> nat \<Rightarrow> double" where
  "round_double s num den =
     (if num = 0 then Finite s 0 (-1074)
      else
        let l = int (bit_length num) - int (bit_length den);
            (n, d) = scaled num den l;
            msb = (if n \<ge> d then l else l - 1);
            e = max (-1074) (msb - 52);
            (n, d) = scaled num den e;
            m = round_div n d;
            (m, e) = (if m = 2 ^ 53 then (2 ^ 52, e + 1) else (m, e))
        in if e > 971 then Infinity s else Finite s m e)"

definition double_of_int :: "int \<Rightarrow> double" where
  "double_of_int i = round_double (i < 0) (nat \<bar>i\<bar>) 1"

text \<open>A finite value as a multiple of \<open>2 ^ -1074\<close>; comparisons with a NaN are false.\<close>

fun units :: "double \<Rightarrow> int option" where
  "units (Finite s m e) = Some ((if s then -1 else 1) * int m * 2 ^ nat (e + 1074))"
| "units _ = None"

fun double_less :: "double \<Rightarrow> double \<Rightarrow> bool" where
  "double_less (NaN _) _ = False"
| "double_less _ (NaN _) = False"
| "double_less (Infinity s) (Infinity t) = (s \<and> \<not> t)"
| "double_less (Infinity s) (Finite _ _ _) = s"
| "double_less (Finite _ _ _) (Infinity t) = (\<not> t)"
| "double_less x y = (the (units x) < the (units y))"

fun double_equal :: "double \<Rightarrow> double \<Rightarrow> bool" where
  "double_equal (NaN _) _ = False"
| "double_equal _ (NaN _) = False"
| "double_equal (Infinity s) (Infinity t) = (s = t)"
| "double_equal (Infinity s) (Finite _ _ _) = False"
| "double_equal (Finite _ _ _) (Infinity t) = False"
| "double_equal x y = (units x = units y)"

text \<open>\<open>(long long)v\<close>: truncation; undefined when the result does not fit.\<close>

fun to_long_long :: "double \<Rightarrow> int option" where
  "to_long_long (Finite s m e) =
     (let t = (if e \<ge> 0 then int m * 2 ^ nat e else int (m div 2 ^ nat (- e)));
          i = (if s then - t else t)
      in if - (2 ^ 63) \<le> i \<and> i < 2 ^ 63 then Some i else None)"
| "to_long_long _ = None"

section \<open>Reading: strtod\<close>

definition is_digit :: "byte \<Rightarrow> bool" where
  "is_digit c \<longleftrightarrow> 0x30 \<le> c \<and> c \<le> 0x39"

definition digit_value :: "byte \<Rightarrow> nat" where
  "digit_value c =
     (if is_digit c then unat c - 0x30
      else if 0x61 \<le> c \<and> c \<le> 0x66 then unat c - 0x61 + 10
      else if 0x41 \<le> c \<and> c \<le> 0x46 then unat c - 0x41 + 10 else 0)"

definition is_hex_digit :: "byte \<Rightarrow> bool" where
  "is_hex_digit c \<longleftrightarrow> is_digit c \<or> 0x61 \<le> c \<and> c \<le> 0x66 \<or> 0x41 \<le> c \<and> c \<le> 0x46"

definition digits_value :: "nat \<Rightarrow> byte list \<Rightarrow> nat" where
  "digits_value base ds = foldl (\<lambda>n c. n * base + digit_value c) 0 ds"

definition to_lower :: "byte \<Rightarrow> byte" where
  "to_lower c = (if 0x41 \<le> c \<and> c \<le> 0x5A then c + 0x20 else c)"

text \<open>An exponent part introduced by \<open>mark\<close>: its value and the rest, or 0 if there is none.\<close>

definition exponent_part :: "byte \<Rightarrow> cstring \<Rightarrow> int \<times> cstring" where
  "exponent_part mark s =
     (if s \<noteq> [] \<and> to_lower (hd s) = mark
      then let t = tl s;
               neg = (t \<noteq> [] \<and> hd t = 0x2D);
               t' = (if t \<noteq> [] \<and> (hd t = 0x2D \<or> hd t = 0x2B) then tl t else t);
               ds = takeWhile is_digit t'
           in if ds = [] then (0, s)
              else ((if neg then - int (digits_value 10 ds) else int (digits_value 10 ds)),
                    dropWhile is_digit t')
      else (0, s))"

text \<open>Digits with an optional fraction: all digits, how many are fractional, the rest.\<close>

definition mantissa_part :: "(byte \<Rightarrow> bool) \<Rightarrow> cstring \<Rightarrow> cstring \<times> nat \<times> cstring" where
  "mantissa_part P s =
     (let ip = takeWhile P s; r = dropWhile P s
      in if r \<noteq> [] \<and> hd r = 0x2E
         then let fp = takeWhile P (tl r)
              in if ip = [] \<and> fp = [] then ([], 0, s)
                 else (ip @ fp, length fp, dropWhile P (tl r))
         else (ip, 0, r))"

definition ratio :: "nat \<Rightarrow> nat \<Rightarrow> int \<Rightarrow> nat \<times> nat" where
  "ratio n base e = (if e \<ge> 0 then (n * base ^ nat e, 1) else (n, base ^ nat (- e)))"

definition has_prefix :: "cstring \<Rightarrow> cstring \<Rightarrow> bool" where
  "has_prefix p s \<longleftrightarrow> map to_lower (take (length p) s) = p"

text \<open>\<open>nan\<close> may be followed by a parenthesised sequence of letters, digits and underscores.\<close>

definition nan_tail :: "cstring \<Rightarrow> cstring" where
  "nan_tail s =
     (if s \<noteq> [] \<and> hd s = 0x28
      then let word = (\<lambda>c. is_digit c \<or> 0x61 \<le> to_lower c \<and> to_lower c \<le> 0x7A \<or> c = 0x5F);
               r = dropWhile word (tl s)
           in if r \<noteq> [] \<and> hd r = 0x29 then tl r else s
      else s)"

text \<open>
  The subject sequence at the start of \<open>s\<close> (the code calls \<open>strtod\<close> at a digit or a minus sign, so
  no white space is skipped): the value and the rest, or \<open>None\<close> if there is no number.
\<close>

definition strtod :: "cstring \<Rightarrow> (double \<times> cstring) option" where
  "strtod s =
     (let neg = (s \<noteq> [] \<and> hd s = 0x2D);
          t = (if s \<noteq> [] \<and> (hd s = 0x2D \<or> hd s = 0x2B) then tl s else s)
      in if has_prefix (ascii ''infinity'') t then Some (Infinity neg, drop 8 t)
         else if has_prefix (ascii ''inf'') t then Some (Infinity neg, drop 3 t)
         else if has_prefix (ascii ''nan'') t then Some (NaN neg, nan_tail (drop 3 t))
         else
           let (hds, hfrac, hrest) = mantissa_part is_hex_digit (drop 2 t)
           in if has_prefix (ascii ''0x'') t \<and> hds \<noteq> []
              then let (e, rest) = exponent_part 0x70 hrest;
                       (n, d) = ratio (digits_value 16 hds) 2 (e - 4 * int hfrac)
                   in Some (round_double neg n d, rest)
              else
                let (ds, frac, rest) = mantissa_part is_digit t
                in if ds = [] then None
                   else let (e, rest') = exponent_part 0x65 rest;
                            (n, d) = ratio (digits_value 10 ds) 10 (e - int frac)
                        in Some (round_double neg n d, rest'))"

section \<open>Printing: %lld and %.17g\<close>

fun nat_digits :: "nat \<Rightarrow> cstring" where
  "nat_digits n = (if n < 10 then [0x30 + of_nat n] else nat_digits (n div 10) @ [0x30 + of_nat (n mod 10)])"

declare nat_digits.simps [simp del]

definition format_lld :: "int \<Rightarrow> cstring" where
  "format_lld i = (if i < 0 then 0x2D # nat_digits (nat (- i)) else nat_digits (nat i))"

text \<open>How often a positive \<open>n < d\<close> must be multiplied by 10 to reach \<open>d\<close>.\<close>

function shift_up :: "nat \<Rightarrow> nat \<Rightarrow> nat" where
  "shift_up n d = (if n = 0 \<or> d \<le> n * 10 then 1 else Suc (shift_up (n * 10) d))"
  by pat_completeness auto
termination
  by (relation "measure (\<lambda>(n, d). d - n)") auto

declare shift_up.simps [simp del]

definition strip_zeros :: "cstring \<Rightarrow> cstring" where
  "strip_zeros ds = rev (dropWhile (\<lambda>c. c = 0x30) (rev ds))"

definition with_point :: "cstring \<Rightarrow> cstring \<Rightarrow> cstring" where
  "with_point ip fp = (let f = strip_zeros fp in if f = [] then ip else ip @ 0x2E # f)"

text \<open>Seventeen significant digits of a positive value and the decimal exponent of the first.\<close>

definition digits17 :: "nat \<Rightarrow> nat \<Rightarrow> nat \<times> int" where
  "digits17 n d =
     (let x = (if n \<ge> d then int (length (nat_digits (n div d))) - 1 else - int (shift_up n d));
          (n', d') = (if x \<le> 16 then (n * 10 ^ nat (16 - x), d) else (n, d * 10 ^ nat (x - 16)));
          q = round_div n' d'
      in if q = 10 ^ 17 then (10 ^ 16, x + 1) else (q, x))"

definition format_exponent :: "int \<Rightarrow> cstring" where
  "format_exponent x =
     (let ds = nat_digits (nat \<bar>x\<bar>)
      in 0x65 # (if x < 0 then 0x2D else 0x2B) # (if length ds < 2 then 0x30 # ds else ds))"

definition format_17g :: "bool \<Rightarrow> nat \<Rightarrow> int \<Rightarrow> cstring" where
  "format_17g s m e =
     (if s then [0x2D] else []) @
     (if m = 0 then [0x30]
      else
        let (n, d) = ratio m 2 e;
            (q, x) = digits17 n d;
            ds = nat_digits q
        in if -4 \<le> x \<and> x < 17
           then (if x \<ge> 0 then with_point (take (nat x + 1) ds) (drop (nat x + 1) ds)
                 else with_point [0x30] (replicate (nat (- x) - 1) 0x30 @ ds))
           else with_point (take 1 ds) (drop 1 ds) @ format_exponent x)"

section \<open>Integers are exact\<close>

lemma bit_length_bounds: "0 < n \<Longrightarrow> 0 < bit_length n \<and> 2 ^ (bit_length n - 1) \<le> n \<and> n < 2 ^ bit_length n"
proof (induction n rule: bit_length.induct)
  case (1 n)
  show ?case
  proof (cases "n div 2 = 0")
    case True
    with 1(2) have "n = 1" by simp
    then show ?thesis by (simp add: bit_length.simps)
  next
    case False
    with 1 have "0 < bit_length (n div 2)" "2 ^ (bit_length (n div 2) - 1) \<le> n div 2"
        "n div 2 < 2 ^ bit_length (n div 2)"
      by simp_all
    moreover have "bit_length n = Suc (bit_length (n div 2))"
      using 1(2) by (subst bit_length.simps) simp
    moreover obtain k where "bit_length (n div 2) = Suc k"
      using calculation(1) gr0_implies_Suc by blast
    ultimately show ?thesis by simp linarith
  qed
qed

lemma bit_length_le: "0 < n \<Longrightarrow> n < 2 ^ k \<Longrightarrow> bit_length n \<le> k"
proof -
  assume n: "0 < n" "n < 2 ^ k"
  then have "(2 :: nat) ^ (bit_length n - 1) < 2 ^ k"
    using bit_length_bounds [OF n(1)] by linarith
  then have "bit_length n - 1 < k" by (rule power_less_imp_less_exp [rotated]) simp
  then show ?thesis by simp
qed

lemma bit_length_1 [simp]: "bit_length (Suc 0) = 1"
  by (simp add: bit_length.simps)

lemma round_div_1 [simp]: "round_div n (Suc 0) = n"
  by (simp add: round_div_def)

lemma round_double_nat:
  assumes n: "0 < n" "n < 2 ^ 53"
  shows "round_double s n 1 = Finite s (n * 2 ^ (53 - bit_length n)) (int (bit_length n) - 53)"
proof -
  note b = bit_length_bounds [OF n(1)]
  then obtain k where k: "bit_length n = Suc k" using gr0_implies_Suc by blast
  have k52: "k \<le> 52" using bit_length_le [OF n] k by simp
  have low: "2 ^ k \<le> n" and up: "n < 2 ^ Suc k" using b k by simp_all
  have sc: "scaled n (Suc 0) (int k - 52) = (n * 2 ^ (52 - k), Suc 0)"
    using k52 by (cases "k = 52") (simp_all add: scaled_def nat_diff_distrib)
  have "n * 2 ^ (52 - k) < 2 ^ Suc k * 2 ^ (52 - k)" using up by simp
  also have "\<dots> = (2 :: nat) ^ 53" using k52 by (simp only: power_add [symmetric]) simp
  finally have less: "n * 2 ^ (52 - k) \<noteq> 9007199254740992" by simp
  have "scaled n (Suc 0) (int k) = (n, 2 ^ k)" by (simp add: scaled_def)
  then show ?thesis
    using n(1) low less k52 sc by (simp add: round_double_def k)
qed

lemma units_double_of_int:
  assumes "\<bar>i\<bar> < 2 ^ 53"
  shows "units (double_of_int i) = Some (i * 2 ^ 1074)"
proof (cases "i = 0")
  case True
  then show ?thesis by (simp add: double_of_int_def round_double_def)
next
  case False
  let ?n = "nat \<bar>i\<bar>"
  let ?b = "bit_length ?n"
  have n: "0 < ?n" "?n < 2 ^ 53" using assms False by simp_all
  have b53: "?b \<le> 53" using n by (rule bit_length_le)
  have e: "nat (int ?b - 53 + 1074) = ?b + 1021" by simp
  have pq: "int (2 ^ (53 - ?b)) * 2 ^ (?b + 1021) = (2 :: int) ^ 1074"
  proof -
    have "53 - ?b + (?b + 1021) = 1074" using b53 by simp
    then show ?thesis by (simp only: of_nat_power of_nat_numeral power_add [symmetric])
  qed
  have regroup: "s * int (k * p) * q = s * int k * (int p * q)" for s q and k p
    by simp
  have sgn: "(if i < 0 then -1 else 1) * int ?n = i" by simp
  show ?thesis
    unfolding double_of_int_def round_double_nat [OF n] units.simps e regroup pq sgn ..
qed

lemma to_long_long_of_int:
  assumes "\<bar>i\<bar> < 2 ^ 53"
  shows "to_long_long (double_of_int i) = Some i"
proof (cases "i = 0")
  case True
  then show ?thesis by (simp add: double_of_int_def round_double_def)
next
  case False
  let ?n = "nat \<bar>i\<bar>"
  let ?b = "bit_length ?n"
  have n: "0 < ?n" "?n < 2 ^ 53" using assms False by simp_all
  have b53: "?b \<le> 53" using n by (rule bit_length_le)
  have "?n * 2 ^ (53 - ?b) div 2 ^ (53 - ?b) = ?n" by simp
  moreover have "nat (- (int ?b - 53)) = 53 - ?b" using b53 by simp
  moreover have "int ?b - 53 \<ge> 0 \<Longrightarrow> ?b = 53" using b53 by simp
  ultimately have t: "(if int ?b - 53 \<ge> 0 then int (?n * 2 ^ (53 - ?b)) * 2 ^ nat (int ?b - 53)
      else int (?n * 2 ^ (53 - ?b) div 2 ^ nat (- (int ?b - 53)))) = int ?n"
    by auto
  have sgn: "(if i < 0 then - int ?n else int ?n) = i" by simp
  show ?thesis
    unfolding double_of_int_def round_double_nat [OF n] to_long_long.simps Let_def t sgn
    using assms by (simp add: abs_less_iff)
qed

lemma double_of_int_finite: "\<bar>i\<bar> < 2 ^ 53 \<Longrightarrow> \<exists>s m e. double_of_int i = Finite s m e"
  using units_double_of_int [of i] by (cases "double_of_int i") simp_all

lemma double_compare_int:
  assumes "\<bar>i\<bar> < 2 ^ 53" "\<bar>j\<bar> < 2 ^ 53"
  shows "double_less (double_of_int i) (double_of_int j) \<longleftrightarrow> i < j"
    "double_equal (double_of_int i) (double_of_int j) \<longleftrightarrow> i = j"
proof -
  obtain s m e t n f where f: "double_of_int i = Finite s m e" "double_of_int j = Finite t n f"
    using double_of_int_finite assms by blast
  have u: "units (Finite s m e) = Some (i * 2 ^ 1074)" "units (Finite t n f) = Some (j * 2 ^ 1074)"
    using units_double_of_int assms f by metis+
  have pos: "0 < (2 :: int) ^ 1074" by (rule zero_less_power) simp
  show "double_less (double_of_int i) (double_of_int j) \<longleftrightarrow> i < j"
    unfolding f double_less.simps u option.sel using mult_less_cancel_right_pos [OF pos] by blast
  show "double_equal (double_of_int i) (double_of_int j) \<longleftrightarrow> i = j"
    unfolding f double_equal.simps u option.inject using pos by (metis mult_cancel_right less_irrefl)
qed

section \<open>Reading a printed integer\<close>

lemma digit_byte: "n < 10 \<Longrightarrow> is_digit (0x30 + of_nat n) \<and> digit_value (0x30 + of_nat n) = n"
proof -
  assume "n < 10"
  then have "n \<in> {0, 1, 2, 3, 4, 5, 6, 7, 8, 9}" by auto
  then show ?thesis
    by (elim insertE emptyE) (simp_all add: is_digit_def digit_value_def)
qed

lemma nat_digits_digits: "c \<in> set (nat_digits n) \<Longrightarrow> is_digit c"
proof (induction n rule: nat_digits.induct)
  case (1 n)
  then show ?case
    by (cases "n < 10") (auto simp: nat_digits.simps [of n] digit_byte)
qed

lemma nat_digits_nonempty [simp]: "nat_digits n \<noteq> []"
  by (simp add: nat_digits.simps)

lemma digits_value_snoc: "digits_value b (ds @ [c]) = digits_value b ds * b + digit_value c"
  by (simp add: digits_value_def)

lemma digits_value_digits: "digits_value 10 (nat_digits n) = n"
proof (induction n rule: nat_digits.induct)
  case (1 n)
  show ?case
  proof (cases "n < 10")
    case True
    then show ?thesis
      using digit_byte [of n] by (subst nat_digits.simps) (simp add: digits_value_def)
  next
    case False
    then show ?thesis
      using 1 digit_byte [of "n mod 10"] by (subst nat_digits.simps) (simp add: digits_value_snoc)
  qed
qed

text \<open>The bytes that cannot continue a number: what follows a number in printed JSON.\<close>

definition ends_number :: "cstring \<Rightarrow> bool" where
  "ends_number s \<longleftrightarrow> s = [] \<or> hd s = 0x2C \<or> hd s = 0x5D \<or> hd s = 0x7D"

lemma takeWhile_digits:
  "ends_number rest \<Longrightarrow> takeWhile is_digit (nat_digits n @ rest) = nat_digits n"
  "ends_number rest \<Longrightarrow> dropWhile is_digit (nat_digits n @ rest) = rest"
proof -
  assume "ends_number rest"
  then have "takeWhile is_digit rest = []" "dropWhile is_digit rest = rest"
    by (cases rest; auto simp: ends_number_def is_digit_def)+
  then show "takeWhile is_digit (nat_digits n @ rest) = nat_digits n"
    "dropWhile is_digit (nat_digits n @ rest) = rest"
    using nat_digits_digits by (simp_all add: takeWhile_append2 dropWhile_append2)
qed

lemma nat_digits_Cons:
  obtains c cs where "nat_digits n = c # cs" "is_digit c" "\<forall>d \<in> set cs. is_digit d"
  using nat_digits_digits [of _ n] by (cases "nat_digits n") auto

lemma digit_lower: "is_digit c \<Longrightarrow> to_lower c = c \<and> c \<notin> {0x69, 0x6E, 0x78, 0x2D, 0x2B}"
proof -
  have "is_digit c \<longrightarrow> to_lower c = c \<and> c \<notin> {0x69, 0x6E, 0x78, 0x2D, 0x2B}"
    unfolding is_digit_def to_lower_def by (rule byte_all [where c = c]) code_simp
  then show "is_digit c \<Longrightarrow> ?thesis" by simp
qed

lemma strtod_digits:
  assumes "ends_number rest" and t: "t = nat_digits n @ rest"
  shows "\<not> has_prefix (ascii ''infinity'') t" "\<not> has_prefix (ascii ''inf'') t" "\<not> has_prefix (ascii ''nan'') t"
    "\<not> has_prefix (ascii ''0x'') t"
    "mantissa_part is_digit t = (nat_digits n, 0, rest)"
    "exponent_part 0x65 rest = (0, rest)"
proof -
  obtain c cs where cs: "nat_digits n = c # cs" "is_digit c" "\<forall>d \<in> set cs. is_digit d"
    by (rule nat_digits_Cons)
  have c: "to_lower c \<noteq> 0x69" "to_lower c \<noteq> 0x6E"
    using digit_lower [OF cs(2)] by auto
  show "\<not> has_prefix (ascii ''infinity'') t" "\<not> has_prefix (ascii ''inf'') t" "\<not> has_prefix (ascii ''nan'') t"
    using c by (simp_all add: has_prefix_def ascii_def t cs(1))
  have "to_lower d \<noteq> 0x78" if "cs @ rest = d # u" for d u
  proof (cases cs)
    case Nil
    with that assms(1) show ?thesis by (auto simp: ends_number_def to_lower_def)
  next
    case (Cons d' v)
    with that cs(3) digit_lower [of d] show ?thesis by auto
  qed
  then show "\<not> has_prefix (ascii ''0x'') t"
    by (cases "cs @ rest") (auto simp: has_prefix_def ascii_def t cs(1))
  show "mantissa_part is_digit t = (nat_digits n, 0, rest)"
    using assms(1) takeWhile_digits [OF assms(1), of n]
    by (auto simp: mantissa_part_def t Let_def ends_number_def)
  show "exponent_part 0x65 rest = (0, rest)"
    using assms(1) by (auto simp: exponent_part_def ends_number_def to_lower_def)
qed

lemma strtod_format_lld:
  assumes "ends_number rest"
  shows "strtod (format_lld i @ rest) = Some (double_of_int i, rest)"
proof -
  define n where "n = nat \<bar>i\<bar>"
  define t where "t = nat_digits n @ rest"
  note d = strtod_digits [OF assms t_def]
  have s: "format_lld i @ rest = (if i < 0 then 0x2D # t else t)"
    by (simp add: format_lld_def t_def n_def)
  obtain c cs where "nat_digits n = c # cs" "is_digit c" by (rule nat_digits_Cons)
  then have hd: "t \<noteq> []" "hd t \<noteq> 0x2D" "hd t \<noteq> 0x2B"
    using digit_lower [of c] by (auto simp: t_def)
  show ?thesis
    using hd d unfolding strtod_def s
    by (cases "mantissa_part is_hex_digit (drop 2 t)")
      (simp add: Let_def ratio_def double_of_int_def n_def digits_value_digits)
qed

end
