(* ===== verification/Ten_Json.thy ===== *)
theory Ten_Json
  imports Ten_List Ten_Map Ten_Unicode Ten_Double "HOL-Library.AList"
begin

text \<open>
  JSON values (\<open>include/ten/json.h\<close>, \<open>src/json/json.c\<close>): creation, destruction, access, objects
  that keep the order of insertion. A value owns what it contains, so a tree of structs is a
  value of the datatype \<open>ten_json\<close>, built from the model's own lists, maps and strings. A key of
  the map is the \<open>const char *\<close> of a string of the key order; only the bytes it points to are
  compared.

  The abstract values are \<open>json_value\<close>; \<open>json_rep\<close> relates a tree to what it stands for, and
  \<open>json_owned\<close> counts the blocks it is made of.
\<close>

section \<open>Data\<close>

datatype ten_json_type_t =
  TEN_JSON_NULL | TEN_JSON_BOOL | TEN_JSON_NUMBER | TEN_JSON_STRING | TEN_JSON_ARRAY | TEN_JSON_OBJECT

datatype ten_json =
    Json_Null
  | Json_Bool bool
  | Json_Number double
  | Json_String ten_string
  | Json_Array "ten_json ten_list"
  | Json_Object "ten_json ten_map" "ten_string ten_list"

primrec json_tag :: "ten_json \<Rightarrow> ten_json_type_t" where
  "json_tag Json_Null = TEN_JSON_NULL"
| "json_tag (Json_Bool b) = TEN_JSON_BOOL"
| "json_tag (Json_Number d) = TEN_JSON_NUMBER"
| "json_tag (Json_String s) = TEN_JSON_STRING"
| "json_tag (Json_Array a) = TEN_JSON_ARRAY"
| "json_tag (Json_Object m ks) = TEN_JSON_OBJECT"

definition sizeof_ten_json :: size_t where
  "sizeof_ten_json = 24"

text \<open>The object \<open>const char *\<close> that points to the text \<open>k\<close>.\<close>

definition json_key :: "cstring \<Rightarrow> ten_key" where
  "json_key k = \<lparr>obj_bytes = [], obj_cstr = k\<rparr>"

section \<open>Creation\<close>

definition ten__json_alloc :: "ten_world \<Rightarrow> bool \<times> ten_world" where
  "ten__json_alloc w = (let (p, w1) = ten_malloc sizeof_ten_json w in (\<not> is_Null p, w1))"

definition ten_json_create_null :: "ten_world \<Rightarrow> ten_json option \<times> ten_world" where
  "ten_json_create_null w =
     (let (ok, w1) = ten__json_alloc w
      in if ok then (Some Json_Null, ten__set_error TEN_OK w1) else (None, w1))"

definition ten_json_create_bool :: "int \<Rightarrow> ten_world \<Rightarrow> ten_json option \<times> ten_world" where
  "ten_json_create_bool b w =
     (let (ok, w1) = ten__json_alloc w
      in if \<not> ok then (None, w1) else (Some (Json_Bool (b \<noteq> 0)), ten__set_error TEN_OK w1))"

definition ten_json_create_number :: "double \<Rightarrow> ten_world \<Rightarrow> ten_json option \<times> ten_world" where
  "ten_json_create_number d w =
     (let (ok, w1) = ten__json_alloc w
      in if \<not> ok then (None, w1) else (Some (Json_Number d), ten__set_error TEN_OK w1))"

definition ten_json_create_string ::
    "cstring option \<Rightarrow> ten_world \<Rightarrow> (ten_json option \<times> ten_world) option" where
  "ten_json_create_string value w =
     (if value = None then Some (None, ten__set_error TEN_ERROR_NULL_ARGUMENT w)
      else do {
        (string, w1) \<leftarrow> ten_string_create value w;
        (case string of
           None \<Rightarrow> Some (None, w1)
         | Some s \<Rightarrow>
             let (ok, w2) = ten__json_alloc w1
             in if \<not> ok then do { w3 \<leftarrow> ten_string_destroy (Some s) w2; Some (None, w3) }
                else Some (Some (Json_String s), ten__set_error TEN_OK w2))
      })"

definition ten_json_create_array :: "ten_world \<Rightarrow> (ten_json option \<times> ten_world) option" where
  "ten_json_create_array w =
     (let (ok, w1) = ten__json_alloc w
      in if \<not> ok then Some (None, w1)
         else
           let (array, w2) = ten_list_create TEN_TYPE_POINTER w1
           in case array of
                None \<Rightarrow> do { w3 \<leftarrow> free_struct w2; Some (None, w3) }
              | Some a \<Rightarrow> Some (Some (Json_Array a), ten__set_error TEN_OK w2))"

definition ten_json_create_object :: "ten_world \<Rightarrow> (ten_json option \<times> ten_world) option" where
  "ten_json_create_object w =
     (let (ok, w1) = ten__json_alloc w
      in if \<not> ok then Some (None, w1)
         else do {
           (entries, w2) \<leftarrow> ten_map_create TEN_TYPE_STRING TEN_TYPE_POINTER w1;
           let (key_order, w3) = ten_list_create TEN_TYPE_POINTER w2;
           (case (entries, key_order) of
              (Some m, Some ks) \<Rightarrow> Some (Some (Json_Object m ks), ten__set_error TEN_OK w3)
            | _ \<Rightarrow> do {
                w4 \<leftarrow> ten_map_destroy entries w3;
                w5 \<leftarrow> ten_list_destroy key_order w4;
                w6 \<leftarrow> free_struct w5;
                Some (None, w6)
              })
         })"

section \<open>Destruction\<close>

text \<open>
  The recursion goes through the containers: the elements are replaced by what their
  destruction does, and the loops read that through the list and the map, by index and by key.
\<close>

type_synonym action = "ten_world \<Rightarrow> ten_world option"

definition destroy_array :: "action ten_list \<Rightarrow> action" where
  "destroy_array acts w = do {
     let (count, w1) = ten_list_count (Some acts) w;
     w2 \<leftarrow> for_range (unat count) 0
       (\<lambda>i w. do {
          (slot, w') \<leftarrow> ten_list_get (Some acts) i w;
          act \<leftarrow> slot;
          act w'
        }) w1;
     w3 \<leftarrow> ten_list_destroy (Some acts) w2;
     free_struct w3
   }"

definition destroy_object :: "action ten_map \<Rightarrow> ten_string ten_list \<Rightarrow> action" where
  "destroy_object acts key_order w = do {
     let (count, w1) = ten_list_count (Some key_order) w;
     w2 \<leftarrow> for_range (unat count) 0
       (\<lambda>i w. do {
          (kslot, wa) \<leftarrow> ten_list_get (Some key_order) i w;
          key \<leftarrow> kslot;
          (key_cstr, wb) \<leftarrow> ten_string_cstr (Some key) wa;
          k \<leftarrow> key_cstr;
          (slot, wc) \<leftarrow> ten_map_get (Some acts) (Some (json_key k)) wb;
          wd \<leftarrow> (case slot of None \<Rightarrow> Some wc | Some act \<Rightarrow> act wc);
          ten_string_destroy (Some key) wd
        }) w1;
     w3 \<leftarrow> ten_map_destroy (Some acts) w2;
     w4 \<leftarrow> ten_list_destroy (Some key_order) w3;
     free_struct w4
   }"

primrec ten_json_destroy :: "ten_json \<Rightarrow> action" where
  "ten_json_destroy Json_Null = free_struct"
| "ten_json_destroy (Json_Bool b) = free_struct"
| "ten_json_destroy (Json_Number d) = free_struct"
| "ten_json_destroy (Json_String s) = (\<lambda>w. do { w1 \<leftarrow> ten_string_destroy (Some s) w; free_struct w1 })"
| "ten_json_destroy (Json_Array a) = destroy_array (map_ten_list ten_json_destroy a)"
| "ten_json_destroy (Json_Object m ks) = destroy_object (map_ten_map ten_json_destroy m) ks"

text \<open>\<open>ten_json_destroy\<close> of a pointer that may be null.\<close>

definition json_destroy_ptr :: "ten_json option \<Rightarrow> action" where
  "json_destroy_ptr p w = (case p of None \<Rightarrow> Some w | Some j \<Rightarrow> ten_json_destroy j w)"

section \<open>Access\<close>

definition ten_json_type :: "ten_json option \<Rightarrow> ten_world \<Rightarrow> ten_json_type_t \<times> ten_world" where
  "ten_json_type json w =
     (case json of
        None \<Rightarrow> (TEN_JSON_NULL, ten__set_error TEN_ERROR_NULL_ARGUMENT w)
      | Some j \<Rightarrow> (json_tag j, ten__set_error TEN_OK w))"

definition ten_json_get_bool :: "ten_json option \<Rightarrow> ten_world \<Rightarrow> int \<times> ten_world" where
  "ten_json_get_bool json w =
     (case json of
        Some (Json_Bool b) \<Rightarrow> ((if b then 1 else 0), ten__set_error TEN_OK w)
      | _ \<Rightarrow> (0, ten__set_error TEN_ERROR_INVALID_STATE w))"

definition ten_json_get_number :: "ten_json option \<Rightarrow> ten_world \<Rightarrow> double \<times> ten_world" where
  "ten_json_get_number json w =
     (case json of
        Some (Json_Number d) \<Rightarrow> (d, ten__set_error TEN_OK w)
      | _ \<Rightarrow> (double_of_int 0, ten__set_error TEN_ERROR_INVALID_STATE w))"

definition ten_json_get_string :: "ten_json option \<Rightarrow> ten_world \<Rightarrow> (cstring option \<times> ten_world) option" where
  "ten_json_get_string json w =
     (case json of
        Some (Json_String s) \<Rightarrow> ten_string_cstr (Some s) (ten__set_error TEN_OK w)
      | _ \<Rightarrow> Some (None, ten__set_error TEN_ERROR_INVALID_STATE w))"

definition ten_json_array_count :: "ten_json option \<Rightarrow> ten_world \<Rightarrow> size_t \<times> ten_world" where
  "ten_json_array_count json w =
     (case json of
        Some (Json_Array a) \<Rightarrow> ten_list_count (Some a) (ten__set_error TEN_OK w)
      | _ \<Rightarrow> (0, ten__set_error TEN_ERROR_INVALID_STATE w))"

definition ten_json_array_get ::
    "ten_json option \<Rightarrow> size_t \<Rightarrow> ten_world \<Rightarrow> (ten_json option \<times> ten_world) option" where
  "ten_json_array_get json index w =
     (case json of
        Some (Json_Array a) \<Rightarrow> do {
          (slot, w1) \<leftarrow> ten_list_get (Some a) index w;
          (case slot of
             None \<Rightarrow> Some (None, w1)
           | Some j \<Rightarrow> Some (Some j, ten__set_error TEN_OK w1))
        }
      | _ \<Rightarrow> Some (None, ten__set_error TEN_ERROR_INVALID_STATE w))"

definition ten_json_array_add ::
    "ten_json option \<Rightarrow> ten_json option \<Rightarrow> ten_world \<Rightarrow> (ten_error_code \<times> ten_json option \<times> ten_world) option" where
  "ten_json_array_add json value w =
     (case (json, value) of
        (Some (Json_Array a), Some v) \<Rightarrow> do {
          (rc, a1, w1) \<leftarrow> ten_list_add (Some a) (Some v) w;
          Some (rc, map_option Json_Array a1, w1)
        }
      | _ \<Rightarrow> Some (TEN_ERROR_NULL_ARGUMENT, json, ten__set_error TEN_ERROR_NULL_ARGUMENT w))"

definition ten_json_object_count :: "ten_json option \<Rightarrow> ten_world \<Rightarrow> size_t \<times> ten_world" where
  "ten_json_object_count json w =
     (case json of
        Some (Json_Object m ks) \<Rightarrow> ten_map_count (Some m) (ten__set_error TEN_OK w)
      | _ \<Rightarrow> (0, ten__set_error TEN_ERROR_INVALID_STATE w))"

definition ten_json_object_get ::
    "ten_json option \<Rightarrow> cstring option \<Rightarrow> ten_world \<Rightarrow> (ten_json option \<times> ten_world) option" where
  "ten_json_object_get json key w =
     (case (json, key) of
        (Some (Json_Object m ks), Some k) \<Rightarrow> do {
          (slot, w1) \<leftarrow> ten_map_get (Some m) (Some (json_key k)) w;
          (case slot of
             None \<Rightarrow> Some (None, w1)
           | Some j \<Rightarrow> Some (Some j, ten__set_error TEN_OK w1))
        }
      | _ \<Rightarrow> Some (None, ten__set_error TEN_ERROR_NULL_ARGUMENT w))"

definition ten_json_object_key_at ::
    "ten_json option \<Rightarrow> size_t \<Rightarrow> ten_world \<Rightarrow> (cstring option \<times> ten_world) option" where
  "ten_json_object_key_at json index w =
     (case json of
        Some (Json_Object m ks) \<Rightarrow> do {
          (slot, w1) \<leftarrow> ten_list_get (Some ks) index w;
          (case slot of
             None \<Rightarrow> Some (None, w1)
           | Some s \<Rightarrow> ten_string_cstr (Some s) (ten__set_error TEN_OK w1))
        }
      | _ \<Rightarrow> Some (None, ten__set_error TEN_ERROR_INVALID_STATE w))"

section \<open>Storing under a key\<close>

text \<open>The key is consumed in any case, the value only when the result is \<open>TEN_OK\<close>.\<close>

definition ten__json_object_set_owned ::
    "ten_json \<Rightarrow> ten_string \<Rightarrow> ten_json \<Rightarrow> ten_world \<Rightarrow> (ten_error_code \<times> ten_json \<times> ten_world) option" where
  "ten__json_object_set_owned json key value w =
     (case json of
        Json_Object entries key_order \<Rightarrow> do {
          (key_cstr, w1) \<leftarrow> ten_string_cstr (Some key) w;
          k \<leftarrow> key_cstr;
          (slot, w2) \<leftarrow> ten_map_get (Some entries) (Some (json_key k)) w1;
          (case slot of
             Some old_value \<Rightarrow> do {
               (rc, m, w3) \<leftarrow> ten_map_set (Some entries) (Some (json_key k)) (Some value) w2;
               entries1 \<leftarrow> m;
               if rc \<noteq> TEN_OK
               then do {
                 w4 \<leftarrow> ten_string_destroy (Some key) w3;
                 Some (TEN_ERROR_OUT_OF_MEMORY, Json_Object entries1 key_order, w4)
               }
               else do {
                 w4 \<leftarrow> ten_json_destroy old_value w3;
                 w5 \<leftarrow> ten_string_destroy (Some key) w4;
                 Some (TEN_OK, Json_Object entries1 key_order, ten__set_error TEN_OK w5)
               }
             }
           | None \<Rightarrow> do {
               (rc, m, w3) \<leftarrow> ten_map_set (Some entries) (Some (json_key k)) (Some value) w2;
               entries1 \<leftarrow> m;
               if rc \<noteq> TEN_OK
               then do {
                 w4 \<leftarrow> ten_string_destroy (Some key) w3;
                 Some (TEN_ERROR_OUT_OF_MEMORY, Json_Object entries1 key_order, w4)
               }
               else do {
                 (rc', l, w4) \<leftarrow> ten_list_add (Some key_order) (Some key) w3;
                 key_order1 \<leftarrow> l;
                 if rc' \<noteq> TEN_OK
                 then do {
                   (_, m', w5) \<leftarrow> ten_map_remove (Some entries1) (Some (json_key k)) w4;
                   entries2 \<leftarrow> m';
                   w6 \<leftarrow> ten_string_destroy (Some key) w5;
                   Some (TEN_ERROR_OUT_OF_MEMORY, Json_Object entries2 key_order1, w6)
                 }
                 else Some (TEN_OK, Json_Object entries1 key_order1, ten__set_error TEN_OK w4)
               }
             })
        }
      | _ \<Rightarrow> None)"

definition ten_json_object_set ::
    "ten_json option \<Rightarrow> cstring option \<Rightarrow> ten_json option \<Rightarrow> ten_world \<Rightarrow>
     (ten_error_code \<times> ten_json option \<times> ten_world) option" where
  "ten_json_object_set json key value w =
     (case (json, key, value) of
        (Some (Json_Object m ks), Some k, Some v) \<Rightarrow> do {
          (key_copy, w1) \<leftarrow> ten_string_create (Some k) w;
          (case key_copy of
             None \<Rightarrow> Some (TEN_ERROR_OUT_OF_MEMORY, json, w1)
           | Some s \<Rightarrow> do {
               (rc, j, w2) \<leftarrow> ten__json_object_set_owned (Json_Object m ks) s v w1;
               Some (rc, Some j, w2)
             })
        }
      | _ \<Rightarrow> Some (TEN_ERROR_NULL_ARGUMENT, json, ten__set_error TEN_ERROR_NULL_ARGUMENT w))"

section \<open>Containers of images\<close>

lemma ptr_map_sel [simp]:
  "block_cells (map_ptr f p) = map (map_option f) (block_cells p)"
  "owned (map_ptr f p) = owned p"
  "is_Dangling (map_ptr f p) = is_Dangling p"
  by (cases p; simp)+

lemma list_rep_map: "list_rep l xs \<Longrightarrow> list_rep (map_ten_list f l) (map f xs)"
  by (cases l) (auto simp: list_rep_def take_map o_def)

lemma list_owned_map [simp]: "list_owned (map_ten_list f l) = list_owned l"
  by (cases l) (simp add: list_owned_def)

lemma map_buckets [simp]:
  "key_type (map_ten_map f m) = key_type m" "value_type (map_ten_map f m) = value_type m"
  "key_size (map_ten_map f m) = key_size m" "value_size (map_ten_map f m) = value_size m"
  "buckets (map_ten_map f m) = map (map (map_ten_map_entry f)) (buckets m)"
  "bucket_count (map_ten_map f m) = bucket_count m" "m_count (map_ten_map f m) = m_count m"
  by (cases m; simp)+

lemma entry_map [simp]:
  "e_hash (map_ten_map_entry f e) = e_hash e" "e_key (map_ten_map_entry f e) = e_key e"
  "e_value (map_ten_map_entry f e) = f (e_value e)"
  by (cases e; simp)+

lemma concat_map_map: "concat (map (map f) xss) = map f (concat xss)"
  by (induction xss) auto

lemma map_inv_map: "map_inv m \<Longrightarrow> map_inv (map_ten_map f m)"
  by (auto simp: map_inv_def buckets_ok_def chain_ok_def concat_map_map o_def)

lemma map_abs_map: "map_abs (map_ten_map f m) = map_option f \<circ> map_abs m"
proof
  fix k
  have "map_of (map (entry_pair kt) (map (map_ten_map_entry f) es)) k = map_option f (map_of (map (entry_pair kt) es) k)"
    for kt es
    by (induction es) (auto simp: entry_pair_def)
  then show "map_abs (map_ten_map f m) k = (map_option f \<circ> map_abs m) k"
    by (simp add: map_abs_def concat_map_map)
qed

lemma map_owned_map [simp]: "map_owned (map_ten_map f m) = map_owned m"
  by (simp add: map_owned_def concat_map_map)

lemma map_dom_finite [simp]: "finite (dom (map_abs m))"
  by (simp add: map_abs_def finite_dom_map_of)

section \<open>What a tree stands for, and the blocks it owns\<close>

datatype json_value =
    VNull
  | VBool bool
  | VNumber double
  | VString cstring
  | VArray "json_value list"
  | VObject "(cstring \<times> json_value) list"

text \<open>The members of an object stand in the order of their first insertion.\<close>

inductive json_rep :: "ten_json \<Rightarrow> json_value \<Rightarrow> bool" where
  rep_null: "json_rep Json_Null VNull"
| rep_bool: "json_rep (Json_Bool b) (VBool b)"
| rep_number: "json_rep (Json_Number d) (VNumber d)"
| rep_string: "string_rep s t \<Longrightarrow> json_rep (Json_String s) (VString t)"
| rep_array: "list_rep a js \<Longrightarrow> list_all2 json_rep js vs \<Longrightarrow> json_rep (Json_Array a) (VArray vs)"
| rep_object:
    "map_inv m \<Longrightarrow> key_type m = TEN_TYPE_STRING \<Longrightarrow> list_rep ks ss \<Longrightarrow>
     list_all2 string_rep ss (map fst kvs) \<Longrightarrow> distinct (map fst kvs) \<Longrightarrow>
     dom (map_abs m) = set (map fst kvs) \<Longrightarrow>
     \<forall>kv \<in> set kvs. \<exists>j. map_abs m (fst kv) = Some j \<and> json_rep j (snd kv) \<Longrightarrow>
     json_rep (Json_Object m ks) (VObject kvs)"

inductive_cases json_rep_VNull: "json_rep j VNull"
inductive_cases json_rep_VBool: "json_rep j (VBool b)"
inductive_cases json_rep_VNumber: "json_rep j (VNumber d)"
inductive_cases json_rep_VString: "json_rep j (VString t)"
inductive_cases json_rep_VArray: "json_rep j (VArray vs)"
inductive_cases json_rep_VObject: "json_rep j (VObject kvs)"

definition total :: "('v \<Rightarrow> int) \<Rightarrow> ('k \<rightharpoonup> 'v) \<Rightarrow> int" where
  "total f M = (\<Sum>k \<in> dom M. f (the (M k)))"

primrec json_owned :: "ten_json \<Rightarrow> int" where
  "json_owned Json_Null = 1"
| "json_owned (Json_Bool b) = 1"
| "json_owned (Json_Number d) = 1"
| "json_owned (Json_String s) = 1 + string_owned s"
| "json_owned (Json_Array a) =
     1 + list_owned a + sum_list (list_abs (map_ten_list json_owned a))"
| "json_owned (Json_Object m ks) =
     1 + map_owned m + total id (map_abs (map_ten_map json_owned m)) +
     list_owned ks + sum_list (map string_owned (list_abs ks))"

lemma json_owned_array:
  "list_rep a js \<Longrightarrow> json_owned (Json_Array a) = 1 + list_owned a + sum_list (map json_owned js)"
  by (simp add: list_rep_abs [OF list_rep_map])

lemma total_image: "total id (map_abs (map_ten_map f m)) = total f (map_abs m)"
proof -
  have "dom (map_abs (map_ten_map f m)) = dom (map_abs m)"
    by (auto simp: map_abs_map dom_def)
  then show ?thesis
    unfolding total_def by (intro sum.cong) (auto simp: map_abs_map)
qed

lemma total_fresh:
  "finite (dom M) \<Longrightarrow> M k = None \<Longrightarrow> total f (M(k \<mapsto> x)) = f x + total f M"
proof -
  assume fin: "finite (dom M)" "M k = None"
  then have "(\<Sum>k' \<in> dom M. f (the ((M(k \<mapsto> x)) k'))) = (\<Sum>k' \<in> dom M. f (the (M k')))"
    by (intro sum.cong) auto
  moreover have "k \<notin> dom M" using fin(2) by auto
  ultimately show ?thesis using fin(1) by (simp add: total_def)
qed

lemma total_update:
  assumes "finite (dom M)" "M k = Some y"
  shows "total f (M(k \<mapsto> x)) = total f M - f y + f x"
proof -
  have "M = (M(k := None))(k \<mapsto> y)" using assms(2) by auto
  moreover have "M(k \<mapsto> x) = (M(k := None))(k \<mapsto> x)" by simp
  moreover have "finite (dom (M(k := None)))" using assms(1) by (simp add: dom_fun_upd)
  ultimately show ?thesis
    using total_fresh [of "M(k := None)" k f y] total_fresh [of "M(k := None)" k f x] by simp
qed

lemma total_members:
  "distinct (map fst kvs) \<Longrightarrow> dom M = set (map fst kvs) \<Longrightarrow>
   total f M = (\<Sum>kv \<leftarrow> kvs. f (the (M (fst kv))))"
  by (simp add: total_def sum_list_distinct_conv_sum_set [symmetric] o_def flip: set_map)

lemma string_owned_all: "list_all2 string_rep ss ts \<Longrightarrow> sum_list (map string_owned ss) = 2 * int (length ts)"
  by (induction rule: list_all2_induct) (simp_all add: string_rep_owned)

lemma json_owned_object:
  assumes "list_rep ks ss" "list_all2 string_rep ss ts"
  shows "json_owned (Json_Object m ks) =
    1 + map_owned m + list_owned ks + 2 * int (length ts) + total json_owned (map_abs m)"
  using assms string_owned_all [OF assms(2)] by (simp add: total_image list_rep_abs)

text \<open>The members, read as a relation between two maps.\<close>

lemma members_rel:
  assumes "distinct (map fst kvs)"
  shows "(dom M = set (map fst kvs) \<and> (\<forall>kv \<in> set kvs. \<exists>j. M (fst kv) = Some j \<and> R j (snd kv))) \<longleftrightarrow>
    (\<forall>k. rel_option R (M k) (map_of kvs k))"
proof (intro iffI allI conjI ballI)
  fix k
  assume a: "dom M = set (map fst kvs) \<and> (\<forall>kv \<in> set kvs. \<exists>j. M (fst kv) = Some j \<and> R j (snd kv))"
  show "rel_option R (M k) (map_of kvs k)"
  proof (cases "map_of kvs k")
    case None
    then have "k \<notin> dom M" using a by (simp add: map_of_eq_None_iff)
    with None show ?thesis by (simp add: domIff)
  next
    case (Some v)
    then show ?thesis using a map_of_SomeD [OF Some] by fastforce
  qed
next
  assume a: "\<forall>k. rel_option R (M k) (map_of kvs k)"
  have "k \<in> dom M \<longleftrightarrow> k \<in> fst ` set kvs" for k
    using a [rule_format, of k] map_of_eq_None_iff [of kvs k]
    by (cases "M k"; cases "map_of kvs k") auto
  then show "dom M = set (map fst kvs)" by auto
  fix kv
  assume "kv \<in> set kvs"
  then have "map_of kvs (fst kv) = Some (snd kv)" using assms by simp
  then show "\<exists>j. M (fst kv) = Some j \<and> R j (snd kv)"
    using a [rule_format, of "fst kv"] by (cases "M (fst kv)") auto
qed

lemma json_rep_objectI:
  "map_inv m \<Longrightarrow> key_type m = TEN_TYPE_STRING \<Longrightarrow> list_rep ks ss \<Longrightarrow>
   list_all2 string_rep ss (map fst kvs) \<Longrightarrow> distinct (map fst kvs) \<Longrightarrow>
   \<forall>k. rel_option json_rep (map_abs m k) (map_of kvs k) \<Longrightarrow>
   json_rep (Json_Object m ks) (VObject kvs)"
  using members_rel [of kvs "map_abs m" json_rep] by (intro rep_object) simp_all

lemma json_rep_objectE:
  assumes "json_rep j (VObject kvs)"
  obtains m ks ss where "j = Json_Object m ks" "map_inv m" "key_type m = TEN_TYPE_STRING" "list_rep ks ss"
    "list_all2 string_rep ss (map fst kvs)" "distinct (map fst kvs)"
    "\<forall>k. rel_option json_rep (map_abs m k) (map_of kvs k)"
  using assms
proof cases
  case (rep_object m ks ss)
  then show thesis using members_rel [of kvs "map_abs m" json_rep] that by blast
qed

section \<open>Destruction gives back everything\<close>

lemma list_get_in:
  "list_rep l xs \<Longrightarrow> i < length xs \<Longrightarrow>
   ten_list_get (Some l) (of_nat i) w = Some (Some (xs ! i), ten__set_error TEN_OK w)"
proof -
  assume a: "list_rep l xs" "i < length xs"
  then have "i < 2 ^ 64" using list_rep_small(3) [of l xs] by simp
  then have "unat (of_nat i :: size_t) = i" by (rule unat_of_nat_size)
  then show ?thesis using a list_get_spec [OF a(1), of "of_nat i" w] by simp
qed

lemma map_get_key:
  "map_inv m \<Longrightarrow> key_type m = TEN_TYPE_STRING \<Longrightarrow>
   ten_map_get (Some m) (Some (json_key k)) w =
     Some (map_abs m k, ten__set_error (if map_abs m k = None then TEN_ERROR_NOT_FOUND else TEN_OK) w)"
  using map_get_spec [of m "json_key k" w] by (auto simp: key_view_def json_key_def split: option.splits)

text \<open>An action that gives back \<open>n\<close> blocks, whatever the state.\<close>

definition releases :: "action \<Rightarrow> int \<Rightarrow> bool" where
  "releases act n \<longleftrightarrow>
     (\<forall>w. \<exists>w'. act w = Some w' \<and> live w' = live w - n \<and> refusals w' = refusals w)"

lemma releasesD:
  assumes "releases act n"
  obtains w' where "act w = Some w'" "live w' = live w - n" "refusals w' = refusals w"
  using assms unfolding releases_def by blast

lemma releases_struct: "releases free_struct 1"
  by (simp add: releases_def)

lemma releases_string: "string_rep s t \<Longrightarrow> releases (ten_string_destroy (Some s)) 2"
  unfolding releases_def using string_destroy_spec by blast

lemma releases_seq:
  "releases f m \<Longrightarrow> releases g n \<Longrightarrow> releases (\<lambda>w. do { w1 \<leftarrow> f w; g w1 }) (m + n)"
  unfolding releases_def by (intro allI) (metis bind.bind_lunit diff_diff_eq)

lemma releases_after_error: "releases f n \<Longrightarrow> releases (\<lambda>w. f (ten__set_error c w)) n"
  unfolding releases_def by (metis set_error_sel(4,5))

lemma releases_each:
  "(\<And>x. x \<in> set xs \<Longrightarrow> releases (f x) (c x)) \<Longrightarrow> releases (each f xs) (\<Sum>x \<leftarrow> xs. c x)"
proof (induction xs)
  case (Cons x xs)
  then have "releases (f x) (c x)" "releases (each f xs) (\<Sum>x \<leftarrow> xs. c x)" by simp_all
  from releases_seq [OF this] show ?case by (simp add: releases_def)
qed (simp add: releases_def)

lemma releases_list: "list_rep l xs \<Longrightarrow> releases (ten_list_destroy (Some l)) (list_owned l)"
  unfolding releases_def using list_destroy_spec by blast

lemma releases_map: "releases (ten_map_destroy (Some m)) (map_owned m)"
  unfolding releases_def by (simp add: map_destroy_spec)

lemma releases_array:
  assumes rep: "list_rep a js" and els: "\<forall>j \<in> set js. releases (f j) (c j)"
  shows "releases (destroy_array (map_ten_list f a)) (1 + list_owned a + (\<Sum>j \<leftarrow> js. c j))"
proof -
  let ?a = "map_ten_list f a"
  note rep' = list_rep_map [OF rep, of f]
  have loop: "for_range (length js) 0 (\<lambda>i w. do {
        (slot, w') \<leftarrow> ten_list_get (Some ?a) i w; act \<leftarrow> slot; act w' }) w =
      each (\<lambda>j w. f j (ten__set_error TEN_OK w)) js w" for w
    using for_range_each [of js _ 0 "\<lambda>j w. f j (ten__set_error TEN_OK w)"]
    by (simp add: list_get_in [OF rep'])
  have n: "unat (of_nat (length js) :: size_t) = length js"
    using list_rep_small(3) [OF rep] by (intro unat_of_nat_size) simp
  have "destroy_array ?a w = do {
      w1 \<leftarrow> each (\<lambda>j w. f j (ten__set_error TEN_OK w)) js (ten__set_error TEN_OK w);
      w2 \<leftarrow> ten_list_destroy (Some ?a) w1; free_struct w2 }" for w
    using list_count_spec [OF rep', of w] by (simp add: destroy_array_def loop n)
  moreover have "releases (\<lambda>w. do {
      w1 \<leftarrow> each (\<lambda>j w. f j (ten__set_error TEN_OK w)) js (ten__set_error TEN_OK w);
      w2 \<leftarrow> ten_list_destroy (Some ?a) w1; free_struct w2 }) ((\<Sum>j \<leftarrow> js. c j) + (list_owned ?a + 1))"
    using els by (intro releases_seq releases_after_error releases_each releases_list [OF rep']
        releases_struct) auto
  ultimately show ?thesis by (simp add: releases_def algebra_simps)
qed

lemma releases_object:
  fixes kvs :: "(cstring \<times> 'v) list"
  assumes inv: "map_inv m" and kt: "key_type m = TEN_TYPE_STRING" and rep: "list_rep ks ss"
    and keys: "list_all2 string_rep ss (map fst kvs)"
    and vals: "\<forall>kv \<in> set kvs. \<exists>j. map_abs m (fst kv) = Some j \<and> releases (f j) (c j)"
  shows "releases (destroy_object (map_ten_map f m) ks)
    (1 + map_owned m + list_owned ks + 2 * int (length kvs) + (\<Sum>kv \<leftarrow> kvs. c (the (map_abs m (fst kv)))))"
proof -
  let ?m = "map_ten_map f m"
  note inv' = map_inv_map [OF inv, of f]
  have len: "length ss = length kvs" using list_all2_lengthD [OF keys] by simp
  define step where "step = (\<lambda>(s, kv :: cstring \<times> 'v) w. do {
      w1 \<leftarrow> f (the (map_abs m (fst kv))) (ten__set_error TEN_OK w); ten_string_destroy (Some s) w1 })"
  let ?body = "\<lambda>i w. do {
      (kslot, wa) \<leftarrow> ten_list_get (Some ks) i w;
      key \<leftarrow> kslot;
      (key_cstr, wb) \<leftarrow> ten_string_cstr (Some key) wa;
      k \<leftarrow> key_cstr;
      (slot, wc) \<leftarrow> ten_map_get (Some ?m) (Some (json_key k)) wb;
      wd \<leftarrow> (case slot of None \<Rightarrow> Some wc | Some act \<Rightarrow> act wc);
      ten_string_destroy (Some key) wd }"
  have body: "?body (of_nat i) w = step (ss ! i, kvs ! i) w" if i: "i < length ss" for i w
  proof -
    have "string_rep (ss ! i) (fst (kvs ! i))"
      using keys i len by (simp add: list_all2_conv_all_nth)
    moreover have "\<exists>j. map_abs m (fst (kvs ! i)) = Some j" using vals i len nth_mem by metis
    ultimately show ?thesis
      using i kt by (auto simp: list_get_in [OF rep] string_cstr_spec map_get_key [OF inv'] map_abs_map step_def)
  qed
  have loop: "for_range (length ss) 0 ?body w = each step (zip ss kvs) w" for w
    using for_range_each [of "zip ss kvs" ?body 0 step w] body len by simp
  have n: "unat (of_nat (length ss) :: size_t) = length ss"
    using list_rep_small(3) [OF rep] by (intro unat_of_nat_size) simp
  have op: "destroy_object ?m ks w = do {
      w1 \<leftarrow> each step (zip ss kvs) (ten__set_error TEN_OK w);
      w2 \<leftarrow> ten_map_destroy (Some ?m) w1; w3 \<leftarrow> ten_list_destroy (Some ks) w2; free_struct w3 }" for w
    using list_count_spec [OF rep, of w] by (simp add: destroy_object_def loop n)
  have "releases (step x) (c (the (map_abs m (fst (snd x)))) + 2)" if x: "x \<in> set (zip ss kvs)" for x
  proof -
    from x obtain i where "i < length (zip ss kvs)" "zip ss kvs ! i = x"
      unfolding in_set_conv_nth by blast
    then have i: "i < length ss" "x = (ss ! i, kvs ! i)" using len by auto
    then obtain s kv where sk: "x = (s, kv)" "kv \<in> set kvs" "string_rep s (fst kv)"
      using keys len by (metis list_all2_nthD nth_map nth_mem)
    then obtain j where "map_abs m (fst kv) = Some j" "releases (f j) (c j)" using vals by blast
    then show ?thesis
      unfolding step_def sk prod.case using sk(3)
      by (intro releases_seq releases_after_error releases_string) simp_all
  qed
  then have "releases (each step (zip ss kvs)) (\<Sum>x \<leftarrow> zip ss kvs. c (the (map_abs m (fst (snd x)))) + 2)"
    by (rule releases_each)
  moreover have "(\<Sum>x \<leftarrow> zip ss kvs. c (the (map_abs m (fst (snd x)))) + 2) =
      (\<Sum>kv \<leftarrow> kvs. c (the (map_abs m (fst kv)))) + 2 * int (length kvs)"
    using len by (induction ss kvs rule: list_induct2) simp_all
  ultimately have "releases (\<lambda>w. do {
      w1 \<leftarrow> each step (zip ss kvs) (ten__set_error TEN_OK w);
      w2 \<leftarrow> ten_map_destroy (Some ?m) w1; w3 \<leftarrow> ten_list_destroy (Some ks) w2; free_struct w3 })
      ((\<Sum>kv \<leftarrow> kvs. c (the (map_abs m (fst kv)))) + 2 * int (length kvs) + (map_owned ?m + (list_owned ks + 1)))"
    by (intro releases_seq releases_after_error releases_list [OF rep] releases_map releases_struct) simp
  then show ?thesis by (simp add: releases_def op algebra_simps)
qed

lemma json_destroy_releases: "json_rep j v \<Longrightarrow> releases (ten_json_destroy j) (json_owned j)"
proof (induction rule: json_rep.induct)
  case (rep_string s t)
  then show ?case
    using releases_seq [OF releases_string [OF rep_string] releases_struct] by (simp add: string_rep_owned add.commute)
next
  case (rep_array a js vs)
  then have "\<forall>j \<in> set js. releases (ten_json_destroy j) (json_owned j)"
    by (auto simp: list_all2_conv_all_nth in_set_conv_nth)
  from releases_array [OF rep_array(1) this] show ?case
    using json_owned_array [OF rep_array(1)] by simp
next
  case (rep_object m ks ss kvs)
  then have "\<forall>kv \<in> set kvs. \<exists>j. map_abs m (fst kv) = Some j \<and> releases (ten_json_destroy j) (json_owned j)"
    by blast
  from releases_object [OF rep_object(1-4) this] show ?case
    using json_owned_object [OF rep_object(3,4), of m] total_members [OF rep_object(5,6), of json_owned]
    by (simp only: ten_json_destroy.simps length_map)
qed (simp_all add: releases_def)

section \<open>Adding to arrays and objects\<close>

lemma array_add_spec:
  assumes rep: "json_rep (Json_Array a) (VArray vs)" and j: "json_rep j v"
  shows "(\<exists>a' w'. ten_json_array_add (Some (Json_Array a)) (Some j) w = Some (TEN_OK, Some (Json_Array a'), w') \<and>
            json_rep (Json_Array a') (VArray (vs @ [v])) \<and> g_ten_last_error w' = TEN_OK \<and>
            refusals w' = refusals w \<and>
            live w' - json_owned (Json_Array a') = live w - json_owned (Json_Array a) - json_owned j) \<or>
         (\<exists>w'. ten_json_array_add (Some (Json_Array a)) (Some j) w =
              Some (TEN_ERROR_OUT_OF_MEMORY, Some (Json_Array a), w') \<and>
            g_ten_last_error w' = TEN_ERROR_OUT_OF_MEMORY \<and> refusals w < refusals w' \<and> live w' = live w)"
proof -
  obtain js where js: "list_rep a js" "list_all2 json_rep js vs"
    using rep by (auto elim: json_rep_VArray)
  from list_add_spec [OF js(1), of j w] show ?thesis
  proof (elim disjE exE conjE)
    fix a' w'
    assume a': "ten_list_add (Some a) (Some j) w = Some (TEN_OK, Some a', w')" "list_rep a' (js @ [j])"
      "g_ten_last_error w' = TEN_OK" "refusals w' = refusals w" "live w' - list_owned a' = live w - list_owned a"
    have "json_rep (Json_Array a') (VArray (vs @ [v]))"
      using a'(2) js(2) j by (intro rep_array) (auto simp: list_all2_appendI)
    moreover have "json_owned (Json_Array a') = 1 + list_owned a' + (\<Sum>j \<leftarrow> js. json_owned j) + json_owned j"
      "json_owned (Json_Array a) = 1 + list_owned a + (\<Sum>j \<leftarrow> js. json_owned j)"
      using json_owned_array [OF a'(2)] json_owned_array [OF js(1)] by (simp_all del: json_owned.simps)
    ultimately show ?thesis
      using a' by (simp add: ten_json_array_add_def del: json_owned.simps)
  next
    fix w'
    assume "ten_list_add (Some a) (Some j) w = Some (TEN_ERROR_OUT_OF_MEMORY, Some a, w')"
      "g_ten_last_error w' = TEN_ERROR_OUT_OF_MEMORY" "refusals w < refusals w'" "live w' = live w"
    then show ?thesis by (simp add: ten_json_array_add_def)
  qed
qed

text \<open>A key that is there: the value is replaced, the old one and the new key are given back.\<close>

lemma key_view_json [simp]: "key_view TEN_TYPE_STRING (json_key k) = k"
  by (simp add: key_view_def json_key_def)

lemma update_present:
  "k \<in> set (map fst kvs) \<Longrightarrow> map fst (AList.update k v kvs) = map fst kvs"
  "k \<notin> set (map fst kvs) \<Longrightarrow> map fst (AList.update k v kvs) = map fst kvs @ [k]"
  by (simp_all add: update_keys)

lemma set_owned_present:
  assumes o: "json_rep ob (VObject kvs)" and k: "string_rep s k" and j: "json_rep j v"
    and present: "k \<in> set (map fst kvs)"
  shows "\<exists>ob' w'. ten__json_object_set_owned ob s j w = Some (TEN_OK, ob', w') \<and>
    json_rep ob' (VObject (AList.update k v kvs)) \<and> g_ten_last_error w' = TEN_OK \<and>
    refusals w' = refusals w \<and> live w' - json_owned ob' = live w - json_owned ob - 2 - json_owned j"
proof -
  obtain m ks ss where r: "ob = Json_Object m ks" "map_inv m" "key_type m = TEN_TYPE_STRING" "list_rep ks ss"
    "list_all2 string_rep ss (map fst kvs)" "distinct (map fst kvs)"
    "\<forall>k. rel_option json_rep (map_abs m k) (map_of kvs k)"
    using o by (rule json_rep_objectE)
  obtain u where "map_of kvs k = Some u"
    using present map_of_eq_None_iff [of kvs k] by fastforce
  then obtain old where old: "map_abs m k = Some old" "json_rep old u"
    using r(7) by (metis option_rel_Some2)
  obtain m' where m': "ten_map_set (Some m) (Some (json_key k)) (Some j) (ten__set_error TEN_OK (ten__set_error TEN_OK w)) =
        Some (TEN_OK, Some m', ten__set_error TEN_OK (ten__set_error TEN_OK (ten__set_error TEN_OK w)))"
      "map_inv m'" "map_abs m' = (map_abs m)(k \<mapsto> j)" "key_type m' = key_type m" "map_owned m' = map_owned m"
    using map_store_spec [OF r(2), of "json_key k" old j] old(1) r(3) by fastforce
  obtain w1 where w1: "ten_json_destroy old (ten__set_error TEN_OK w) = Some w1"
      "live w1 = live w - json_owned old" "refusals w1 = refusals w"
    using releasesD [OF json_destroy_releases [OF old(2)], of "ten__set_error TEN_OK w"] by auto
  obtain w2 where w2: "ten_string_destroy (Some s) w1 = Some w2" "live w2 = live w1 - 2" "refusals w2 = refusals w1"
    using releasesD [OF releases_string [OF k], of w1] by auto
  have op: "ten__json_object_set_owned ob s j w = Some (TEN_OK, Json_Object m' ks, ten__set_error TEN_OK w2)"
    using m'(1) w1(1) w2(1) old(1) r(1,3) string_cstr_spec [OF k] map_get_key [OF r(2,3)]
    by (simp add: ten__json_object_set_owned_def)
  have "json_rep (Json_Object m' ks) (VObject (AList.update k v kvs))"
    using r m' j present
    by (intro json_rep_objectI [where ss = ss]) (auto simp: update_present update_conv distinct_update)
  moreover have "json_owned (Json_Object m' ks) = json_owned ob - json_owned old + json_owned j"
    unfolding r(1) json_owned_object [OF r(4,5)] m'(3,5) total_update [of "map_abs m", OF map_dom_finite old(1)]
    by simp
  ultimately show ?thesis using op w1 w2 by (simp del: json_owned.simps)
qed

text \<open>The object when its map has a new member at the end of the keys, and when it has the old ones.\<close>

lemma member_appended:
  assumes o: "json_rep (Json_Object m ks) (VObject kvs)" and k: "string_rep s k" and j: "json_rep j v"
    and absent: "k \<notin> set (map fst kvs)" and ks: "list_rep ks ss" "list_rep ks' (ss @ [s])"
    and m': "map_inv m'" "map_abs m' = (map_abs m)(k \<mapsto> j)" "key_type m' = key_type m"
  shows "json_rep (Json_Object m' ks') (VObject (kvs @ [(k, v)]))"
    and "json_owned (Json_Object m' ks') = json_owned (Json_Object m ks) + json_owned j + 2 +
      (map_owned m' - map_owned m) + (list_owned ks' - list_owned ks)"
proof -
  obtain ss' where r: "key_type m = TEN_TYPE_STRING" "list_rep ks ss'"
    "list_all2 string_rep ss' (map fst kvs)" "distinct (map fst kvs)" "\<forall>k. rel_option json_rep (map_abs m k) (map_of kvs k)"
    using o by (cases rule: json_rep_objectE) auto
  have ss: "ss' = ss" using list_rep_abs [OF r(2)] list_rep_abs [OF ks(1)] by simp
  have none: "map_of kvs k = None" using absent by (simp add: map_of_eq_None_iff)
  then have new: "map_abs m k = None" using r(5) by (metis option_rel_Some1 not_None_eq)
  have keys: "list_all2 string_rep (ss @ [s]) (map fst (kvs @ [(k, v)]))"
    using r(3) k ss by (simp add: list_all2_appendI)
  have "map_of (kvs @ [(k, v)]) = (map_of kvs)(k \<mapsto> v)"
    using none by (auto simp: map_add_def split: option.splits)
  then show "json_rep (Json_Object m' ks') (VObject (kvs @ [(k, v)]))"
    using m' r(1,4,5) ks(2) j keys absent by (intro json_rep_objectI [where ss = "ss @ [s]"]) auto
  show "json_owned (Json_Object m' ks') = json_owned (Json_Object m ks) + json_owned j + 2 +
      (map_owned m' - map_owned m) + (list_owned ks' - list_owned ks)"
    unfolding json_owned_object [OF r(2,3)] json_owned_object [OF ks(2) keys] m'(2)
      total_fresh [of "map_abs m", OF map_dom_finite new] by simp
qed

lemma members_kept:
  assumes o: "json_rep (Json_Object m ks) (VObject kvs)"
    and m': "map_inv m'" "map_abs m' = map_abs m" "key_type m' = key_type m"
  shows "json_rep (Json_Object m' ks) (VObject kvs)"
    and "json_owned (Json_Object m' ks) = json_owned (Json_Object m ks) + (map_owned m' - map_owned m)"
proof -
  obtain ss where r: "key_type m = TEN_TYPE_STRING" "list_rep ks ss"
    "list_all2 string_rep ss (map fst kvs)" "distinct (map fst kvs)" "\<forall>k. rel_option json_rep (map_abs m k) (map_of kvs k)"
    using o by (cases rule: json_rep_objectE) auto
  then show "json_rep (Json_Object m' ks) (VObject kvs)" using m' by (intro json_rep_objectI) auto
  show "json_owned (Json_Object m' ks) = json_owned (Json_Object m ks) + (map_owned m' - map_owned m)"
    unfolding json_owned_object [OF r(2,3)] m'(2) by simp
qed

text \<open>A new key: the member is appended, or after a refusal the object is as it was; the key is
  given back in that case.\<close>

lemma set_owned_absent:
  assumes o: "json_rep ob (VObject kvs)" and k: "string_rep s k" and j: "json_rep j v"
    and absent: "k \<notin> set (map fst kvs)"
  shows "(\<exists>ob' w'. ten__json_object_set_owned ob s j w = Some (TEN_OK, ob', w') \<and>
            json_rep ob' (VObject (kvs @ [(k, v)])) \<and> g_ten_last_error w' = TEN_OK \<and>
            refusals w' = refusals w \<and> live w' - json_owned ob' = live w - json_owned ob - 2 - json_owned j) \<or>
         (\<exists>ob' w'. ten__json_object_set_owned ob s j w = Some (TEN_ERROR_OUT_OF_MEMORY, ob', w') \<and>
            json_rep ob' (VObject kvs) \<and>
            refusals w < refusals w' \<and> live w' - json_owned ob' = live w - json_owned ob - 2)"
proof -
  obtain m ks ss where r: "ob = Json_Object m ks" "map_inv m" "key_type m = TEN_TYPE_STRING" "list_rep ks ss"
    "\<forall>k. rel_option json_rep (map_abs m k) (map_of kvs k)"
    using o by (rule json_rep_objectE)
  note ob = o [unfolded r(1)]
  have new: "map_abs m k = None"
    using absent r(5) by (metis map_of_eq_None_iff option_rel_Some1 not_None_eq set_map)
  let ?w = "ten__set_error TEN_ERROR_NOT_FOUND w"
  have run: "ten__json_object_set_owned (Json_Object m ks) s j w = do {
      (rc, m1, w3) \<leftarrow> ten_map_set (Some m) (Some (json_key k)) (Some j) ?w;
      entries1 \<leftarrow> m1;
      if rc \<noteq> TEN_OK
      then do { w4 \<leftarrow> ten_string_destroy (Some s) w3; Some (TEN_ERROR_OUT_OF_MEMORY, Json_Object entries1 ks, w4) }
      else do {
        (rc', l, w4) \<leftarrow> ten_list_add (Some ks) (Some s) w3;
        key_order1 \<leftarrow> l;
        if rc' \<noteq> TEN_OK
        then do {
          (_, m', w5) \<leftarrow> ten_map_remove (Some entries1) (Some (json_key k)) w4;
          entries2 \<leftarrow> m';
          w6 \<leftarrow> ten_string_destroy (Some s) w5;
          Some (TEN_ERROR_OUT_OF_MEMORY, Json_Object entries2 key_order1, w6)
        }
        else Some (TEN_OK, Json_Object entries1 key_order1, ten__set_error TEN_OK w4) } }"
    using string_cstr_spec [OF k] map_get_key [OF r(2,3)] new by (simp add: ten__json_object_set_owned_def)
  have give_back: "\<exists>w'. ten_string_destroy (Some s) w = Some w' \<and> live w' = live w - 2 \<and> refusals w' = refusals w" for w
    using releasesD [OF releases_string [OF k], of w] by metis
  from map_set_spec [OF r(2), of "json_key k" j ?w] show ?thesis
  proof (elim disjE exE conjE)
    fix m' w3
    assume m': "ten_map_set (Some m) (Some (json_key k)) (Some j) ?w = Some (TEN_OK, Some m', w3)"
      "map_inv m'" "map_abs m' = (map_abs m)(key_view (key_type m) (json_key k) \<mapsto> j)" "key_type m' = key_type m"
      "g_ten_last_error w3 = TEN_OK" "refusals w3 = refusals ?w" "live w3 - map_owned m' = live ?w - map_owned m"
    have abs: "map_abs m' = (map_abs m)(k \<mapsto> j)" using m'(3) r(3) by simp
    from list_add_spec [OF r(4), of s w3] show ?thesis
    proof (elim disjE exE conjE)
      fix ks' w4
      assume l: "ten_list_add (Some ks) (Some s) w3 = Some (TEN_OK, Some ks', w4)" "list_rep ks' (ss @ [s])"
        "g_ten_last_error w4 = TEN_OK" "refusals w4 = refusals w3" "live w4 - list_owned ks' = live w3 - list_owned ks"
      show ?thesis
        using member_appended [OF ob k j absent r(4) l(2) m'(2) abs m'(4)] m'(1,6,7) l(1,4,5) r(1)
        by (simp add: run del: json_owned.simps)
    next
      fix w4
      assume l: "ten_list_add (Some ks) (Some s) w3 = Some (TEN_ERROR_OUT_OF_MEMORY, Some ks, w4)"
        "refusals w3 < refusals w4" "live w4 = live w3"
      obtain m'' w5 where m'': "ten_map_remove (Some m') (Some (json_key k)) w4 = Some (TEN_OK, Some m'', w5)"
          "map_inv m''" "map_abs m'' = (map_abs m')(k := None)" "key_type m'' = key_type m'"
          "refusals w5 = refusals w4" "live w5 - map_owned m'' = live w4 - map_owned m'"
        using map_remove_spec [OF m'(2), of "json_key k" w4] abs m'(4) r(3) by auto
      have "map_abs m'' = map_abs m" "key_type m'' = key_type m" using m''(3,4) m'(4) abs new by auto
      then show ?thesis
        using members_kept [OF ob m''(2)] give_back [of w5] m'(1,6,7) m''(1,5,6) l r(1)
        by (auto simp: run simp del: json_owned.simps)
    qed
  next
    fix m' w3
    assume m': "ten_map_set (Some m) (Some (json_key k)) (Some j) ?w = Some (TEN_ERROR_OUT_OF_MEMORY, Some m', w3)"
      "map_inv m'" "map_abs m' = map_abs m" "key_type m' = key_type m"
      "refusals ?w < refusals w3" "live w3 - map_owned m' = live ?w - map_owned m"
    then show ?thesis
      using members_kept [OF ob m'(2-4)] give_back [of w3] r(1) by (auto simp: run simp del: json_owned.simps)
  qed
qed

text \<open>Both cases together: \<open>AList.update\<close> replaces in place or appends.\<close>

lemma set_owned_spec:
  assumes o: "json_rep ob (VObject kvs)" and k: "string_rep s k" and j: "json_rep j v"
  shows "(\<exists>ob' w'. ten__json_object_set_owned ob s j w = Some (TEN_OK, ob', w') \<and>
            json_rep ob' (VObject (AList.update k v kvs)) \<and> g_ten_last_error w' = TEN_OK \<and>
            refusals w' = refusals w \<and> live w' - json_owned ob' = live w - json_owned ob - 2 - json_owned j) \<or>
         (\<exists>ob' w'. ten__json_object_set_owned ob s j w = Some (TEN_ERROR_OUT_OF_MEMORY, ob', w') \<and>
            json_rep ob' (VObject kvs) \<and>
            refusals w < refusals w' \<and> live w' - json_owned ob' = live w - json_owned ob - 2)"
proof (cases "k \<in> set (map fst kvs)")
  case True
  then show ?thesis using set_owned_present [OF o k j True, of w] by blast
next
  case False
  then have "AList.update k v kvs = kvs @ [(k, v)]" by (induction kvs) auto
  then show ?thesis using set_owned_absent [OF o k j False, of w] by (simp del: json_owned.simps)
qed

section \<open>Creating\<close>

lemma json_alloc_cases:
  obtains (granted) w' where "ten__json_alloc w = (True, w')" "g_ten_last_error w' = TEN_OK"
      "refusals w' = refusals w" "live w' = live w + 1"
  | (refused) w' where "ten__json_alloc w = (False, w')" "g_ten_last_error w' = TEN_ERROR_OUT_OF_MEMORY"
      "refusals w < refusals w'" "live w' = live w"
  by (cases rule: ten_malloc_cases [where n = sizeof_ten_json and w = w]) (auto simp: ten__json_alloc_def)

text \<open>A result that is a fresh tree for \<open>v\<close>, or null after a refusal.\<close>

definition fresh_json :: "json_value \<Rightarrow> ten_world \<Rightarrow> ten_json option \<times> ten_world \<Rightarrow> bool" where
  "fresh_json v w r \<longleftrightarrow>
     (\<exists>j w'. r = (Some j, w') \<and> json_rep j v \<and> g_ten_last_error w' = TEN_OK \<and>
        refusals w' = refusals w \<and> live w' - json_owned j = live w) \<or>
     (\<exists>w'. r = (None, w') \<and> refusals w < refusals w' \<and> live w' = live w)"

lemma create_scalars:
  "fresh_json VNull w (ten_json_create_null w)"
  "fresh_json (VBool (i \<noteq> 0)) w (ten_json_create_bool i w)"
  "fresh_json (VNumber d) w (ten_json_create_number d w)"
  by (cases rule: json_alloc_cases [of w];
      auto simp: fresh_json_def ten_json_create_null_def ten_json_create_bool_def ten_json_create_number_def
        intro: json_rep.intros)+

lemma create_string:
  assumes "cstr_ok t"
  shows "\<exists>r. ten_json_create_string (Some t) w = Some r \<and> fresh_json (VString t) w r"
  using string_create_spec [OF assms, of w]
proof (elim disjE exE conjE)
  fix s w1
  assume s: "ten_string_create (Some t) w = Some (Some s, w1)" "string_rep s t"
    "refusals w1 = refusals w" "live w1 = live w + 2"
  show ?thesis
  proof (cases rule: json_alloc_cases [of w1])
    case (granted w2)
    then show ?thesis
      using s by (auto simp: ten_json_create_string_def fresh_json_def string_rep_owned intro: rep_string)
  next
    case (refused w2)
    obtain w3 where "ten_string_destroy (Some s) w2 = Some w3" "live w3 = live w2 - 2" "refusals w3 = refusals w2"
      using releasesD [OF releases_string [OF s(2)], of w2] by auto
    then show ?thesis using s refused by (auto simp: ten_json_create_string_def fresh_json_def)
  qed
qed (auto simp: ten_json_create_string_def fresh_json_def)

lemma create_array: "\<exists>r. ten_json_create_array w = Some r \<and> fresh_json (VArray []) w r"
proof (cases rule: json_alloc_cases [of w])
  case (granted w1)
  have "TEN_TYPE_POINTER \<noteq> TEN_TYPE_VOID" by simp
  from list_create_spec [OF this, where w = w1 and 'a = ten_json] granted show ?thesis
  proof (elim disjE exE conjE)
    fix l :: "ten_json ten_list" and w'
    assume l: "ten_list_create TEN_TYPE_POINTER w1 = (Some l, w')" "list_rep l []" "refusals w' = refusals w1"
      "live w' - list_owned l = live w1"
    have "json_rep (Json_Array l) (VArray [])" using l(2) by (intro rep_array) auto
    moreover have "json_owned (Json_Array l) = 1 + list_owned l"
      using json_owned_array [OF l(2)] by simp
    ultimately show ?thesis
      using granted l by (auto simp: ten_json_create_array_def fresh_json_def simp del: json_owned.simps)
  qed (auto simp: ten_json_create_array_def fresh_json_def)
next
  case (refused w1)
  then show ?thesis by (auto simp: ten_json_create_array_def fresh_json_def)
qed

lemma create_object: "\<exists>r. ten_json_create_object w = Some r \<and> fresh_json (VObject []) w r"
proof (cases rule: json_alloc_cases [of w])
  case (granted w1)
  have ty: "TEN_TYPE_STRING \<noteq> TEN_TYPE_VOID" "TEN_TYPE_POINTER \<noteq> TEN_TYPE_VOID" by simp_all
  obtain e :: "ten_json ten_map option" and w2 where e: "ten_map_create TEN_TYPE_STRING TEN_TYPE_POINTER w1 = Some (e, w2)"
    "(case e of None \<Rightarrow> refusals w1 < refusals w2 \<and> live w2 = live w1
      | Some m \<Rightarrow> map_inv m \<and> map_abs m = Map.empty \<and> key_type m = TEN_TYPE_STRING \<and>
          refusals w2 = refusals w1 \<and> live w2 - map_owned m = live w1)"
    using map_create_spec [OF ty, of w1, where 'v = ten_json] by fastforce
  obtain k :: "ten_string ten_list option" and w3 where k: "ten_list_create TEN_TYPE_POINTER w2 = (k, w3)"
    "(case k of None \<Rightarrow> refusals w2 < refusals w3 \<and> live w3 = live w2
      | Some ks \<Rightarrow> list_rep ks [] \<and> refusals w3 = refusals w2 \<and> live w3 - list_owned ks = live w2)"
    using list_create_spec [OF ty(2), where w = w2 and 'a = ten_string] by fastforce
  show ?thesis
  proof (cases "e = None \<or> k = None")
    case True
    obtain w4 where w4: "ten_map_destroy e w3 = Some w4" "refusals w4 = refusals w3"
        "live w4 = live w3 - (case e of None \<Rightarrow> 0 | Some m \<Rightarrow> map_owned m)"
      using map_destroy_spec [of "the e" w3] by (cases e) (auto simp: ten_map_destroy_def [of None])
    obtain w5 where w5: "ten_list_destroy k w4 = Some w5" "refusals w5 = refusals w4"
        "live w5 = live w4 - (case k of None \<Rightarrow> 0 | Some l \<Rightarrow> list_owned l)"
      using list_destroy_spec [of "the k" "[]" w4] k(2) by (cases k) (auto simp: ten_list_destroy_def [of None])
    have "ten_json_create_object w = Some (None, w5\<lparr>live := live w5 - 1\<rparr>)"
      using granted e(1) k(1) True w4(1) w5(1)
      by (auto simp: ten_json_create_object_def split: option.split)
    moreover have "refusals w < refusals w5" "live w5 - 1 = live w"
      using True granted e(2) k(2) w4 w5 by (auto split: option.splits)
    ultimately show ?thesis by (auto simp: fresh_json_def)
  next
    case False
    then obtain m ks where mk: "e = Some m" "k = Some ks" by auto
    have "json_rep (Json_Object m ks) (VObject [])"
      using e(2) k(2) mk by (intro json_rep_objectI [where ss = "[]"]) auto
    moreover have "json_owned (Json_Object m ks) = 1 + map_owned m + list_owned ks"
      using json_owned_object [of ks "[]" "[]" m] e(2) k(2) mk by (simp add: total_def)
    ultimately show ?thesis
      using granted e k mk by (auto simp: ten_json_create_object_def fresh_json_def simp del: json_owned.simps)
  qed
next
  case (refused w1)
  then show ?thesis by (auto simp: ten_json_create_object_def fresh_json_def)
qed

section \<open>Objects as ordered maps\<close>

lemma object_set_spec:
  assumes o: "json_rep ob (VObject kvs)" and k: "cstr_ok k" and j: "json_rep j v"
  shows "(\<exists>ob' w'. ten_json_object_set (Some ob) (Some k) (Some j) w = Some (TEN_OK, Some ob', w') \<and>
            json_rep ob' (VObject (AList.update k v kvs)) \<and> g_ten_last_error w' = TEN_OK \<and>
            refusals w' = refusals w \<and> live w' - json_owned ob' = live w - json_owned ob - json_owned j) \<or>
         (\<exists>ob' w'. ten_json_object_set (Some ob) (Some k) (Some j) w = Some (TEN_ERROR_OUT_OF_MEMORY, Some ob', w') \<and>
            json_rep ob' (VObject kvs) \<and>
            refusals w < refusals w' \<and> live w' - json_owned ob' = live w - json_owned ob)"
proof -
  obtain m ks where ob: "ob = Json_Object m ks" using o by (rule json_rep_objectE)
  from string_create_spec [OF k, of w] show ?thesis
  proof (elim disjE exE conjE)
    fix s w1
    assume s: "ten_string_create (Some k) w = Some (Some s, w1)" "string_rep s k"
      "refusals w1 = refusals w" "live w1 = live w + 2"
    show ?thesis
      using set_owned_spec [OF o s(2) j, of w1] s by (fastforce simp: ten_json_object_set_def ob)
  next
    fix w1
    assume "ten_string_create (Some k) w = Some (None, w1)" "refusals w < refusals w1" "live w1 = live w"
    then show ?thesis using o by (auto simp: ten_json_object_set_def ob)
  qed
qed

lemma object_get_spec:
  assumes "json_rep ob (VObject kvs)"
  shows "case map_of kvs k of
      None \<Rightarrow> ten_json_object_get (Some ob) (Some k) w = Some (None, ten__set_error TEN_ERROR_NOT_FOUND w)
    | Some v \<Rightarrow> \<exists>j. ten_json_object_get (Some ob) (Some k) w = Some (Some j, ten__set_error TEN_OK w) \<and> json_rep j v"
  using assms
proof (cases rule: json_rep_objectE)
  case (1 m ks ss)
  then have "rel_option json_rep (map_abs m k) (map_of kvs k)" by blast
  then show ?thesis
    using map_get_key [OF 1(2,3), of k w] 1(1)
    by (cases "map_of kvs k"; cases "map_abs m k") (auto simp: ten_json_object_get_def)
qed

lemma object_key_at_spec:
  assumes "json_rep ob (VObject kvs)"
  shows "ten_json_object_key_at (Some ob) i w =
    (if unat i < length kvs then Some (Some (fst (kvs ! unat i)), ten__set_error TEN_OK w)
     else Some (None, ten__set_error TEN_ERROR_OUT_OF_RANGE w))"
  using assms
proof (cases rule: json_rep_objectE)
  case (1 m ks ss)
  have len: "length ss = length kvs" using list_all2_lengthD [OF 1(5)] by simp
  have "string_rep (ss ! unat i) (fst (kvs ! unat i))" if "unat i < length kvs"
    using list_all2_nthD2 [OF 1(5), of "unat i"] that by simp
  then show ?thesis
    using list_get_spec [OF 1(4), of i w] 1(1) len
    by (auto simp: ten_json_object_key_at_def string_cstr_spec)
qed

lemma object_count_spec:
  assumes "json_rep ob (VObject kvs)"
  shows "ten_json_object_count (Some ob) w = (of_nat (length kvs), ten__set_error TEN_OK w)"
  using assms
proof (cases rule: json_rep_objectE)
  case (1 m ks ss)
  have "dom (map_abs m) = dom (map_of kvs)"
  proof (intro set_eqI)
    fix k
    have "rel_option json_rep (map_abs m k) (map_of kvs k)" using 1(7) by blast
    then show "k \<in> dom (map_abs m) \<longleftrightarrow> k \<in> dom (map_of kvs)"
      by (cases "map_abs m k"; cases "map_of kvs k") (auto simp: domIff)
  qed
  then have "card (dom (map_abs m)) = length kvs"
    using distinct_card [OF 1(6)] by (simp add: dom_map_of_conv_image_fst)
  then show ?thesis using map_count_spec [OF 1(2)] 1(1) by (simp add: ten_json_object_count_def)
qed

end
