(* ===== verification/Ten_Json_Access.thy ===== *)
theory Ten_Json_Access
  imports Ten_Json
begin

text \<open>
  Reading a JSON tree (\<open>src/json/json.c\<close>): every accessor of \<open>ten/json.h\<close> as a question, what the
  type of the value allows as its answer, and sequences of questions that go on from the node
  the last one gave, which may be the null pointer. The accessors of the model are those of
  \<open>Ten_Json\<close>.
\<close>

section \<open>Questions and answers\<close>

datatype json_question =
    Ask_Type
  | Ask_Bool
  | Ask_Number
  | Ask_String
  | Ask_Array_Count
  | Ask_Element size_t
  | Ask_Object_Count
  | Ask_Member cstring
  | Ask_Key size_t

datatype 'n json_answer =
    Type_Is ten_json_type_t
  | Bool_Is int
  | Number_Is double
  | String_Is "cstring option"
  | Count_Is size_t
  | Node_Is "'n option"

definition ask :: "json_question \<Rightarrow> ten_json option \<Rightarrow> ten_world \<Rightarrow> (ten_json json_answer \<times> ten_world) option" where
  "ask q json w =
     (case q of
        Ask_Type \<Rightarrow> Some (apfst Type_Is (ten_json_type json w))
      | Ask_Bool \<Rightarrow> Some (apfst Bool_Is (ten_json_get_bool json w))
      | Ask_Number \<Rightarrow> Some (apfst Number_Is (ten_json_get_number json w))
      | Ask_String \<Rightarrow> map_option (apfst String_Is) (ten_json_get_string json w)
      | Ask_Array_Count \<Rightarrow> Some (apfst Count_Is (ten_json_array_count json w))
      | Ask_Element i \<Rightarrow> map_option (apfst Node_Is) (ten_json_array_get json i w)
      | Ask_Object_Count \<Rightarrow> Some (apfst Count_Is (ten_json_object_count json w))
      | Ask_Member k \<Rightarrow> map_option (apfst Node_Is) (ten_json_object_get json (Some k) w)
      | Ask_Key i \<Rightarrow> map_option (apfst String_Is) (ten_json_object_key_at json i w))"

text \<open>A question about a node stays there, one for a node goes to it.\<close>

primrec next_node :: "'n json_answer \<Rightarrow> 'n option \<Rightarrow> 'n option" where
  "next_node (Type_Is t) n = n"
| "next_node (Bool_Is b) n = n"
| "next_node (Number_Is d) n = n"
| "next_node (String_Is s) n = n"
| "next_node (Count_Is c) n = n"
| "next_node (Node_Is m) n = m"

primrec ask_all ::
    "json_question list \<Rightarrow> ten_json option \<Rightarrow> ten_world \<Rightarrow>
     ((ten_json json_answer \<times> ten_error_code) list \<times> ten_world) option" where
  "ask_all [] json w = Some ([], w)"
| "ask_all (q # qs) json w = do {
     (a, w1) \<leftarrow> ask q json w;
     (as, w2) \<leftarrow> ask_all qs (next_node a json) w1;
     Some ((a, ten_last_error w1) # as, w2)
   }"

section \<open>What the type allows\<close>

primrec value_type :: "json_value \<Rightarrow> ten_json_type_t" where
  "value_type VNull = TEN_JSON_NULL"
| "value_type (VBool b) = TEN_JSON_BOOL"
| "value_type (VNumber d) = TEN_JSON_NUMBER"
| "value_type (VString t) = TEN_JSON_STRING"
| "value_type (VArray vs) = TEN_JSON_ARRAY"
| "value_type (VObject kvs) = TEN_JSON_OBJECT"

text \<open>
  \<open>None\<close> is the null pointer. Only the look-up of a member reports a wrong type as a null
  argument.
\<close>

fun typed :: "json_question \<Rightarrow> json_value option \<Rightarrow> json_value json_answer \<times> ten_error_code" where
  "typed Ask_Type None = (Type_Is TEN_JSON_NULL, TEN_ERROR_NULL_ARGUMENT)"
| "typed Ask_Type (Some v) = (Type_Is (value_type v), TEN_OK)"
| "typed Ask_Bool (Some (VBool b)) = (Bool_Is (if b then 1 else 0), TEN_OK)"
| "typed Ask_Bool _ = (Bool_Is 0, TEN_ERROR_INVALID_STATE)"
| "typed Ask_Number (Some (VNumber d)) = (Number_Is d, TEN_OK)"
| "typed Ask_Number _ = (Number_Is (double_of_int 0), TEN_ERROR_INVALID_STATE)"
| "typed Ask_String (Some (VString t)) = (String_Is (Some t), TEN_OK)"
| "typed Ask_String _ = (String_Is None, TEN_ERROR_INVALID_STATE)"
| "typed Ask_Array_Count (Some (VArray vs)) = (Count_Is (of_nat (length vs)), TEN_OK)"
| "typed Ask_Array_Count _ = (Count_Is 0, TEN_ERROR_INVALID_STATE)"
| "typed (Ask_Element i) (Some (VArray vs)) =
     (if unat i < length vs then (Node_Is (Some (vs ! unat i)), TEN_OK)
      else (Node_Is None, TEN_ERROR_OUT_OF_RANGE))"
| "typed (Ask_Element i) _ = (Node_Is None, TEN_ERROR_INVALID_STATE)"
| "typed Ask_Object_Count (Some (VObject kvs)) = (Count_Is (of_nat (length kvs)), TEN_OK)"
| "typed Ask_Object_Count _ = (Count_Is 0, TEN_ERROR_INVALID_STATE)"
| "typed (Ask_Member k) (Some (VObject kvs)) =
     (case map_of kvs k of
        Some v \<Rightarrow> (Node_Is (Some v), TEN_OK)
      | None \<Rightarrow> (Node_Is None, TEN_ERROR_NOT_FOUND))"
| "typed (Ask_Member k) _ = (Node_Is None, TEN_ERROR_NULL_ARGUMENT)"
| "typed (Ask_Key i) (Some (VObject kvs)) =
     (if unat i < length kvs then (String_Is (Some (fst (kvs ! unat i))), TEN_OK)
      else (String_Is None, TEN_ERROR_OUT_OF_RANGE))"
| "typed (Ask_Key i) _ = (String_Is None, TEN_ERROR_INVALID_STATE)"

primrec typed_all :: "json_question list \<Rightarrow> json_value option \<Rightarrow> (json_value json_answer \<times> ten_error_code) list" where
  "typed_all [] v = []"
| "typed_all (q # qs) v = typed q v # typed_all qs (next_node (fst (typed q v)) v)"

section \<open>The accessors keep to the type\<close>

text \<open>One question, answered with an error code and no other change to the world.\<close>

definition answers :: "(ten_json json_answer \<times> ten_world) option \<Rightarrow> ten_world \<Rightarrow> json_value json_answer \<times> ten_error_code \<Rightarrow> bool" where
  "answers r w e \<longleftrightarrow> (\<exists>a. r = Some (a, ten__set_error (snd e) w) \<and> rel_json_answer json_rep a (fst e))"

lemmas accessors =
  ask_def ten_json_type_def ten_json_get_bool_def ten_json_get_number_def ten_json_get_string_def
  ten_json_array_count_def ten_json_array_get_def ten_json_object_count_def ten_json_object_get_def
  ten_json_object_key_at_def

lemma ask_null: "answers (ask q None w) w (typed q None)"
  by (cases q) (simp_all add: answers_def accessors)

lemma ask_scalar:
  "answers (ask q (Some Json_Null) w) w (typed q (Some VNull))"
  "answers (ask q (Some (Json_Bool b)) w) w (typed q (Some (VBool b)))"
  "answers (ask q (Some (Json_Number d)) w) w (typed q (Some (VNumber d)))"
  "string_rep s t \<Longrightarrow> answers (ask q (Some (Json_String s)) w) w (typed q (Some (VString t)))"
  by (cases q; simp add: answers_def accessors string_cstr_spec)+

lemma ask_array:
  assumes "list_rep a js" "list_all2 json_rep js vs"
  shows "answers (ask q (Some (Json_Array a)) w) w (typed q (Some (VArray vs)))"
  using list_get_spec [OF assms(1)] list_count_spec [OF assms(1)] list_all2_lengthD [OF assms(2)]
    list_all2_nthD2 [OF assms(2)]
  by (cases q) (simp_all add: answers_def accessors)

lemma ask_object:
  assumes "json_rep ob (VObject kvs)"
  shows "answers (ask q (Some ob) w) w (typed q (Some (VObject kvs)))"
proof -
  obtain m ks where ob: "ob = Json_Object m ks" using assms by (rule json_rep_objectE)
  show ?thesis
  proof (cases q)
    case (Ask_Member k)
    then show ?thesis
      using object_get_spec [OF assms, of k w] by (auto simp: answers_def ask_def split: option.splits)
  qed (use object_count_spec [OF assms] object_key_at_spec [OF assms] in
      \<open>simp_all add: answers_def ask_def ob ten_json_type_def ten_json_get_bool_def ten_json_get_number_def
        ten_json_get_string_def ten_json_array_count_def ten_json_array_get_def\<close>)
qed

lemma ask_typed: "rel_option json_rep j v \<Longrightarrow> answers (ask q j w) w (typed q v)"
proof (cases v)
  case (Some x)
  assume "rel_option json_rep j v"
  then obtain y where y: "j = Some y" "json_rep y x" using Some by (cases j) auto
  then show ?thesis using Some ask_scalar ask_array ask_object by (cases x) (auto elim: json_rep.cases)
qed (simp add: ask_null)

lemma next_node_rel:
  "rel_json_answer R a b \<Longrightarrow> rel_option R m n \<Longrightarrow> rel_option R (next_node a m) (next_node b n)"
  by (cases a; cases b) simp_all

lemma ask_all_typed:
  assumes "rel_option json_rep j v"
  shows "\<exists>as w1. ask_all qs j w = Some (as, w1) \<and>
    list_all2 (rel_prod (rel_json_answer json_rep) (=)) as (typed_all qs v) \<and>
    live w1 = live w \<and> refusals w1 = refusals w"
  using assms
proof (induction qs arbitrary: j v w)
  case (Cons q qs)
  from ask_typed [OF Cons.prems, of q w] obtain a where
    a: "ask q j w = Some (a, ten__set_error (snd (typed q v)) w)" "rel_json_answer json_rep a (fst (typed q v))"
    by (auto simp: answers_def)
  from Cons.IH [OF next_node_rel [OF a(2) Cons.prems], of "ten__set_error (snd (typed q v)) w"]
  show ?case using a by (auto simp: rel_prod_sel)
qed simp

text \<open>Writing to a node of another type is refused and changes nothing.\<close>

lemma wrong_type_refused:
  assumes "json_rep j v"
  shows "value_type v \<noteq> TEN_JSON_ARRAY \<Longrightarrow> ten_json_array_add (Some j) x w =
      Some (TEN_ERROR_NULL_ARGUMENT, Some j, ten__set_error TEN_ERROR_NULL_ARGUMENT w)"
    and "value_type v \<noteq> TEN_JSON_OBJECT \<Longrightarrow> ten_json_object_set (Some j) k x w =
      Some (TEN_ERROR_NULL_ARGUMENT, Some j, ten__set_error TEN_ERROR_NULL_ARGUMENT w)"
  using assms
  by (auto elim!: json_rep.cases simp: ten_json_array_add_def ten_json_object_set_def)

end
