(* ===== verification/Ten_Json_Parse.thy ===== *)
theory Ten_Json_Parse
  imports Ten_Json
begin

text \<open>
  The JSON parser (\<open>src/json/json.c\<close>). The parser's cursor is the text from it on, its end the
  end of that list. Mutual recursion is bounded by fuel; \<open>ten_json_parse\<close> supplies
  \<open>2 * length text + 1\<close>, which is shown to be enough for every text. The reference is the pure
  parser \<open>value_of\<close>: the code's result stands for its result, or an allocation was refused.
\<close>

unbundle bit_operations_syntax

section \<open>Strings\<close>

primrec ten__json_skip_ws :: "cstring \<Rightarrow> cstring" where
  "ten__json_skip_ws [] = []"
| "ten__json_skip_ws (c # s) =
     (if c = 0x20 \<or> c = 0x09 \<or> c = 0x0A \<or> c = 0x0D then ten__json_skip_ws s else c # s)"

definition ten__json_hex_digit :: "byte \<Rightarrow> int" where
  "ten__json_hex_digit c =
     (if c \<ge> 0x30 \<and> c \<le> 0x39 then uint c - 0x30
      else if c \<ge> 0x61 \<and> c \<le> 0x66 then uint c - 0x61 + 10
      else if c \<ge> 0x41 \<and> c \<le> 0x46 then uint c - 0x41 + 10
      else -1)"

text \<open>Every caller has checked that four bytes are left.\<close>

definition ten__json_parse_hex4 :: "cstring \<Rightarrow> u32 option" where
  "ten__json_parse_hex4 s =
     (let d0 = ten__json_hex_digit (s ! 0); d1 = ten__json_hex_digit (s ! 1);
          d2 = ten__json_hex_digit (s ! 2); d3 = ten__json_hex_digit (s ! 3)
      in if d0 < 0 \<or> d1 < 0 \<or> d2 < 0 \<or> d3 < 0 then None
         else Some (word_of_int (push_bit 12 d0 OR push_bit 8 d1 OR push_bit 4 d2 OR d3)))"

text \<open>
  The C string in \<open>buf\<close> that \<open>ten__json_append_codepoint\<close> appends: the bytes of the code point,
  which is the empty string for the code point 0.
\<close>

definition codepoint_text :: "u32 \<Rightarrow> cstring" where
  "codepoint_text cp = takeWhile (\<lambda>b. b \<noteq> 0) (utf8_bytes cp)"

text \<open>
  One round of the loop of \<open>ten__json_parse_string\<close>, at a byte that is not a quote: the text
  appended and the new cursor, or \<open>None\<close> for a malformed escape.
\<close>

definition unicode_escape :: "cstring \<Rightarrow> (cstring \<times> cstring) option" where
  "unicode_escape s =
     (if length s < 4 then None
      else case ten__json_parse_hex4 s of
             None \<Rightarrow> None
           | Some cp \<Rightarrow>
               let s1 = drop 4 s
               in if cp \<ge> 0xD800 \<and> cp \<le> 0xDBFF
                  then if length s1 < 6 \<or> s1 ! 0 \<noteq> 0x5C \<or> s1 ! 1 \<noteq> 0x75 then None
                       else case ten__json_parse_hex4 (drop 2 s1) of
                              None \<Rightarrow> None
                            | Some low \<Rightarrow>
                                if low < 0xDC00 \<or> low > 0xDFFF then None
                                else Some (codepoint_text
                                             (0x10000 + push_bit 10 (cp - 0xD800) + (low - 0xDC00)), drop 6 s1)
                  else Some (codepoint_text cp, s1))"

definition json_string_step :: "cstring \<Rightarrow> (cstring \<times> cstring) option" where
  "json_string_step s =
     (if hd s \<noteq> 0x5C then Some ([hd s], tl s)
      else let s1 = tl s
           in if s1 = [] then None
              else if hd s1 = 0x22 then Some ([0x22], tl s1)
              else if hd s1 = 0x5C then Some ([0x5C], tl s1)
              else if hd s1 = 0x2F then Some ([0x2F], tl s1)
              else if hd s1 = 0x62 then Some ([0x08], tl s1)
              else if hd s1 = 0x66 then Some ([0x0C], tl s1)
              else if hd s1 = 0x6E then Some ([0x0A], tl s1)
              else if hd s1 = 0x72 then Some ([0x0D], tl s1)
              else if hd s1 = 0x74 then Some ([0x09], tl s1)
              else if hd s1 = 0x75 then unicode_escape (tl s1)
              else None)"

lemma unicode_escape_shorter: "unicode_escape s = Some (t, r) \<Longrightarrow> length r < length s \<and> length t + length r \<le> length s"
  by (auto simp: unicode_escape_def Let_def codepoint_text_def split: if_splits option.splits
      intro!: order_trans [OF add_right_mono [OF length_takeWhile_le]] simp: length_utf8_bytes)

lemma json_string_step_shorter:
  "json_string_step s = Some (t, r) \<Longrightarrow> s \<noteq> [] \<Longrightarrow> length r < length s \<and> length t + length r \<le> length s"
  by (cases s; cases "tl s")
    (auto simp: json_string_step_def Let_def dest!: unicode_escape_shorter split: if_splits)

text \<open>The return codes of the appends are ignored.\<close>

function ten__json_string_loop ::
    "cstring \<Rightarrow> ten_string \<Rightarrow> ten_world \<Rightarrow> (bool \<times> cstring \<times> ten_string \<times> ten_world) option" where
  "ten__json_string_loop s out w =
     (if s = [] \<or> hd s = 0x22 then Some (True, s, out, w)
      else case json_string_step s of
             None \<Rightarrow> Some (False, s, out, w)
           | Some (t, r) \<Rightarrow> do {
               (rc, out1, w1) \<leftarrow> string_put out t w;
               ten__json_string_loop r out1 w1
             })"
  by pat_completeness auto
termination
  by (relation "measure (\<lambda>(s, out, w). length s)") (use json_string_step_shorter in fastforce)+

declare ten__json_string_loop.simps [simp del]

definition ten__json_parse_string ::
    "cstring \<Rightarrow> ten_world \<Rightarrow> (ten_string option \<times> cstring \<times> ten_world) option" where
  "ten__json_parse_string s w =
     (if s = [] \<or> hd s \<noteq> 0x22 then Some (None, s, w)
      else do {
        (out, w1) \<leftarrow> ten_string_empty w;
        (case out of
           None \<Rightarrow> Some (None, tl s, w1)
         | Some o1 \<Rightarrow> do {
             (valid, r, o2, w2) \<leftarrow> ten__json_string_loop (tl s) o1 w1;
             if \<not> valid \<or> r = [] \<or> hd r \<noteq> 0x22
             then do { w3 \<leftarrow> ten_string_destroy (Some o2) w2; Some (None, r, w3) }
             else Some (Some o2, tl r, w2)
           })
      })"

section \<open>Values\<close>

definition ten__json_parse_number :: "cstring \<Rightarrow> ten_world \<Rightarrow> ten_json option \<times> cstring \<times> ten_world" where
  "ten__json_parse_number s w =
     (case strtod s of
        None \<Rightarrow> (None, s, w)
      | Some (d, r) \<Rightarrow> let (j, w1) = ten_json_create_number d w in (j, r, w1))"

fun ten__json_parse_value :: "nat \<Rightarrow> cstring \<Rightarrow> ten_world \<Rightarrow> (ten_json option \<times> cstring \<times> ten_world) option"
  and parse_array_loop :: "nat \<Rightarrow> ten_json \<Rightarrow> cstring \<Rightarrow> ten_world \<Rightarrow> (ten_json option \<times> cstring \<times> ten_world) option"
  and parse_object_loop :: "nat \<Rightarrow> ten_json \<Rightarrow> cstring \<Rightarrow> ten_world \<Rightarrow> (ten_json option \<times> cstring \<times> ten_world) option"
where
  "ten__json_parse_value 0 text w = None"
| "ten__json_parse_value (Suc n) text w =
     (let s = ten__json_skip_ws text
      in if s = [] then Some (None, s, w)
         else if hd s = 0x6E
         then (if length s \<ge> 4 \<and> take 4 s = ascii ''null''
               then let (j, w1) = ten_json_create_null w in Some (j, drop 4 s, w1)
               else Some (None, s, w))
         else if hd s = 0x74
         then (if length s \<ge> 4 \<and> take 4 s = ascii ''true''
               then let (j, w1) = ten_json_create_bool 1 w in Some (j, drop 4 s, w1)
               else Some (None, s, w))
         else if hd s = 0x66
         then (if length s \<ge> 5 \<and> take 5 s = ascii ''false''
               then let (j, w1) = ten_json_create_bool 0 w in Some (j, drop 5 s, w1)
               else Some (None, s, w))
         else if hd s = 0x22
         then do {
           (string, r, w1) \<leftarrow> ten__json_parse_string s w;
           (case string of
              None \<Rightarrow> Some (None, r, w1)
            | Some str \<Rightarrow>
                let (ok, w2) = ten__json_alloc w1
                in if \<not> ok then do { w3 \<leftarrow> ten_string_destroy (Some str) w2; Some (None, r, w3) }
                   else Some (Some (Json_String str), r, w2))
         }
         else if hd s = 0x5B
         then do {
           (arr, w1) \<leftarrow> ten_json_create_array w;
           (case arr of
              None \<Rightarrow> Some (None, s, w1)
            | Some a \<Rightarrow>
                let s1 = ten__json_skip_ws (tl s)
                in if s1 \<noteq> [] \<and> hd s1 = 0x5D then Some (Some a, tl s1, w1)
                   else parse_array_loop n a s1 w1)
         }
         else if hd s = 0x7B
         then do {
           (obj, w1) \<leftarrow> ten_json_create_object w;
           (case obj of
              None \<Rightarrow> Some (None, s, w1)
            | Some ob \<Rightarrow>
                let s1 = ten__json_skip_ws (tl s)
                in if s1 \<noteq> [] \<and> hd s1 = 0x7D then Some (Some ob, tl s1, w1)
                   else parse_object_loop n ob s1 w1)
         }
         else if hd s = 0x2D \<or> (hd s \<ge> 0x30 \<and> hd s \<le> 0x39)
         then Some (ten__json_parse_number s w)
         else Some (None, s, w))"
| "parse_array_loop 0 arr s w = None"
| "parse_array_loop (Suc n) arr s w = do {
     (element, r, w1) \<leftarrow> ten__json_parse_value n s w;
     (case element of
        None \<Rightarrow> do { w2 \<leftarrow> ten_json_destroy arr w1; Some (None, r, w2) }
      | Some j \<Rightarrow> do {
          (rc, a, w2) \<leftarrow> ten_json_array_add (Some arr) (Some j) w1;
          arr1 \<leftarrow> a;
          if rc \<noteq> TEN_OK
          then do { w3 \<leftarrow> ten_json_destroy j w2; w4 \<leftarrow> ten_json_destroy arr1 w3; Some (None, r, w4) }
          else
            let s1 = ten__json_skip_ws r
            in if s1 = [] then do { w3 \<leftarrow> ten_json_destroy arr1 w2; Some (None, s1, w3) }
               else if hd s1 = 0x2C then parse_array_loop n arr1 (tl s1) w2
               else if hd s1 = 0x5D then Some (Some arr1, tl s1, w2)
               else do { w3 \<leftarrow> ten_json_destroy arr1 w2; Some (None, s1, w3) }
        })
   }"
| "parse_object_loop 0 obj s w = None"
| "parse_object_loop (Suc n) obj text w = do {
     (string, r, w1) \<leftarrow> ten__json_parse_string (ten__json_skip_ws text) w;
     (case string of
        None \<Rightarrow> do { w2 \<leftarrow> ten_json_destroy obj w1; Some (None, r, w2) }
      | Some key \<Rightarrow>
          let s = ten__json_skip_ws r
          in if s = [] \<or> hd s \<noteq> 0x3A
             then do {
               w2 \<leftarrow> ten_string_destroy (Some key) w1;
               w3 \<leftarrow> ten_json_destroy obj w2;
               Some (None, s, w3)
             }
             else do {
               (val, r1, w2) \<leftarrow> ten__json_parse_value n (tl s) w1;
               (case val of
                  None \<Rightarrow> do {
                    w3 \<leftarrow> ten_string_destroy (Some key) w2;
                    w4 \<leftarrow> ten_json_destroy obj w3;
                    Some (None, r1, w4)
                  }
                | Some v \<Rightarrow> do {
                    (rc, obj1, w3) \<leftarrow> ten__json_object_set_owned obj key v w2;
                    if rc \<noteq> TEN_OK
                    then do { w4 \<leftarrow> ten_json_destroy v w3; w5 \<leftarrow> ten_json_destroy obj1 w4; Some (None, r1, w5) }
                    else
                      let s1 = ten__json_skip_ws r1
                      in if s1 = [] then do { w4 \<leftarrow> ten_json_destroy obj1 w3; Some (None, s1, w4) }
                         else if hd s1 = 0x2C then parse_object_loop n obj1 (tl s1) w3
                         else if hd s1 = 0x7D then Some (Some obj1, tl s1, w3)
                         else do { w4 \<leftarrow> ten_json_destroy obj1 w3; Some (None, s1, w4) }
                  })
             })
   }"

definition ten_json_parse :: "cstring option \<Rightarrow> ten_world \<Rightarrow> (ten_json option \<times> ten_world) option" where
  "ten_json_parse text w =
     (case text of
        None \<Rightarrow> Some (None, ten__set_error TEN_ERROR_NULL_ARGUMENT w)
      | Some t \<Rightarrow> do {
          (res, r, w1) \<leftarrow> ten__json_parse_value (2 * length t + 1) t w;
          (case res of
             None \<Rightarrow> Some (None, ten__set_error TEN_ERROR_PARSE w1)
           | Some j \<Rightarrow>
               if ten__json_skip_ws r \<noteq> []
               then do { w2 \<leftarrow> ten_json_destroy j w1; Some (None, ten__set_error TEN_ERROR_PARSE w2) }
               else Some (Some j, ten__set_error TEN_OK w1))
        })"

section \<open>The reference: pure parsing\<close>

text \<open>The pieces a string is made of, whether its escapes are well formed, and where it ends.\<close>

function string_scan :: "cstring \<Rightarrow> cstring list \<times> bool \<times> cstring" where
  "string_scan s =
     (if s = [] \<or> hd s = 0x22 then ([], True, s)
      else case json_string_step s of
             None \<Rightarrow> ([], False, s)
           | Some (t, r) \<Rightarrow> (case string_scan r of (ts, valid, r') \<Rightarrow> (t # ts, valid, r')))"
  by pat_completeness auto
termination
  by (relation "measure length") (use json_string_step_shorter in fastforce)+

declare string_scan.simps [simp del]

definition quoted_string :: "cstring \<Rightarrow> (cstring \<times> cstring) option" where
  "quoted_string s =
     (if s = [] \<or> hd s \<noteq> 0x22 then None
      else case string_scan (tl s) of
             (ts, valid, r) \<Rightarrow> if \<not> valid \<or> r = [] \<or> hd r \<noteq> 0x22 then None else Some (concat ts, tl r))"

fun value_of :: "nat \<Rightarrow> cstring \<Rightarrow> (json_value \<times> cstring) option"
  and array_of :: "nat \<Rightarrow> json_value list \<Rightarrow> cstring \<Rightarrow> (json_value \<times> cstring) option"
  and object_of :: "nat \<Rightarrow> (cstring \<times> json_value) list \<Rightarrow> cstring \<Rightarrow> (json_value \<times> cstring) option"
where
  "value_of 0 text = None"
| "value_of (Suc n) text =
     (let s = ten__json_skip_ws text
      in if s = [] then None
         else if hd s = 0x6E
         then (if take 4 s = ascii ''null'' then Some (VNull, drop 4 s) else None)
         else if hd s = 0x74
         then (if take 4 s = ascii ''true'' then Some (VBool True, drop 4 s) else None)
         else if hd s = 0x66
         then (if take 5 s = ascii ''false'' then Some (VBool False, drop 5 s) else None)
         else if hd s = 0x22
         then map_option (\<lambda>(t, r). (VString t, r)) (quoted_string s)
         else if hd s = 0x5B
         then (let s1 = ten__json_skip_ws (tl s)
               in if s1 \<noteq> [] \<and> hd s1 = 0x5D then Some (VArray [], tl s1) else array_of n [] s1)
         else if hd s = 0x7B
         then (let s1 = ten__json_skip_ws (tl s)
               in if s1 \<noteq> [] \<and> hd s1 = 0x7D then Some (VObject [], tl s1) else object_of n [] s1)
         else if hd s = 0x2D \<or> (hd s \<ge> 0x30 \<and> hd s \<le> 0x39)
         then map_option (\<lambda>(d, r). (VNumber d, r)) (strtod s)
         else None)"
| "array_of 0 vs s = None"
| "array_of (Suc n) vs s =
     (case value_of n s of
        None \<Rightarrow> None
      | Some (v, r) \<Rightarrow>
          let s1 = ten__json_skip_ws r
          in if s1 = [] then None
             else if hd s1 = 0x2C then array_of n (vs @ [v]) (tl s1)
             else if hd s1 = 0x5D then Some (VArray (vs @ [v]), tl s1)
             else None)"
| "object_of 0 kvs s = None"
| "object_of (Suc n) kvs text =
     (case quoted_string (ten__json_skip_ws text) of
        None \<Rightarrow> None
      | Some (k, r) \<Rightarrow>
          let s = ten__json_skip_ws r
          in if s = [] \<or> hd s \<noteq> 0x3A then None
             else case value_of n (tl s) of
                    None \<Rightarrow> None
                  | Some (v, r1) \<Rightarrow>
                      let s1 = ten__json_skip_ws r1
                      in if s1 = [] then None
                         else if hd s1 = 0x2C then object_of n (AList.update k v kvs) (tl s1)
                         else if hd s1 = 0x7D then Some (VObject (AList.update k v kvs), tl s1)
                         else None)"

section \<open>Where the cursor goes\<close>

lemma skip_ws_suffix: "suffix (ten__json_skip_ws s) s"
  by (induction s) (auto simp: suffix_ConsI)

lemma unicode_escape_suffix: "unicode_escape s = Some (t, r) \<Longrightarrow> suffix r s"
  by (auto simp: unicode_escape_def Let_def suffix_drop split: if_splits option.splits)

lemma json_string_step_suffix:
  assumes "json_string_step s = Some (t, r)" "s \<noteq> []"
  shows "strict_suffix r s"
proof -
  obtain c u where s: "s = c # u" using assms(2) by (cases s) auto
  have "suffix r s"
  proof (cases "c = 0x5C")
    case False
    with assms s show ?thesis by (auto simp: json_string_step_def suffix_ConsI)
  next
    case True
    with assms s obtain d v where u: "u = d # v" by (cases u) (auto simp: json_string_step_def)
    then have "suffix r v"
      using assms(1) s True by (auto simp: json_string_step_def Let_def dest: unicode_escape_suffix split: if_splits)
    then show ?thesis using s u by (simp add: suffix_ConsI)
  qed
  moreover have "length r < length s" using json_string_step_shorter assms by blast
  ultimately show ?thesis by (auto simp: strict_suffix_def)
qed

lemma scan_simps:
  "s = [] \<or> hd s = 0x22 \<Longrightarrow> string_scan s = ([], True, s)"
  "\<not> (s = [] \<or> hd s = 0x22) \<Longrightarrow> json_string_step s = None \<Longrightarrow> string_scan s = ([], False, s)"
  "\<not> (s = [] \<or> hd s = 0x22) \<Longrightarrow> json_string_step s = Some (t, r) \<Longrightarrow>
     string_scan s = (case string_scan r of (ts, valid, r') \<Rightarrow> (t # ts, valid, r'))"
  by (subst string_scan.simps, simp)+

lemma scan_induct [case_names finish stop step]:
  assumes "\<And>s. s = [] \<or> hd s = 0x22 \<Longrightarrow> P s"
    "\<And>s. \<not> (s = [] \<or> hd s = 0x22) \<Longrightarrow> json_string_step s = None \<Longrightarrow> P s"
    "\<And>s t r. \<not> (s = [] \<or> hd s = 0x22) \<Longrightarrow> json_string_step s = Some (t, r) \<Longrightarrow> P r \<Longrightarrow> P s"
  shows "P s"
proof (induction s rule: string_scan.induct)
  case (1 s)
  show ?case
  proof (cases "s = [] \<or> hd s = 0x22")
    case False
    show ?thesis
    proof (cases "json_string_step s")
      case (Some p)
      obtain t r where p: "p = (t, r)" by (cases p) simp
      show ?thesis using assms(3) [OF False Some [unfolded p] 1 [OF False Some p [symmetric]]] .
    qed (use assms(2) False in simp)
  qed (use assms(1) in simp)
qed

lemma string_scan_suffix: "string_scan s = (ts, valid, r) \<Longrightarrow> suffix r s \<and> length (concat ts) + length r \<le> length s"
proof (induction s arbitrary: ts rule: scan_induct)
  case (step s t q)
  obtain us where q: "string_scan q = (us, valid, r)" "ts = t # us"
    using step.prems scan_simps(3) [OF step.hyps] by (cases "string_scan q") auto
  have "strict_suffix q s" "length t + length q \<le> length s"
    using json_string_step_suffix json_string_step_shorter step.hyps by blast+
  with step.IH [OF q(1)] q(2) show ?case
    by (auto intro: suffix_order.trans simp: strict_suffix_def)
qed (auto simp: scan_simps)

lemma json_string_step_no_nul:
  assumes "json_string_step s = Some (t, r)" "s \<noteq> []" "0 \<notin> set s"
  shows "0 \<notin> set t"
proof -
  have cp: "0 \<notin> set (codepoint_text x)" for x
    by (auto simp: codepoint_text_def dest: set_takeWhileD)
  have "0 \<notin> set t" if "unicode_escape u = Some (t, r)" for u
    using that cp by (auto simp: unicode_escape_def Let_def split: if_splits option.splits)
  then show ?thesis
    using assms by (cases s) (auto simp: json_string_step_def Let_def split: if_splits)
qed

lemma string_scan_no_nul: "string_scan s = (ts, valid, r) \<Longrightarrow> 0 \<notin> set s \<Longrightarrow> \<forall>t \<in> set ts. 0 \<notin> set t"
proof (induction s arbitrary: ts rule: scan_induct)
  case (step s t q)
  obtain us where q: "string_scan q = (us, valid, r)" "ts = t # us"
    using step.prems(1) scan_simps(3) [OF step.hyps] by (cases "string_scan q") auto
  have "set q \<subseteq> set s"
    using json_string_step_suffix [OF step.hyps(2)] step.hyps(1) by (auto simp: strict_suffix_def dest: set_mono_suffix)
  with step.IH [OF q(1)] q(2) json_string_step_no_nul [OF step.hyps(2)] step.hyps(1) step.prems(2) show ?case
    by auto
qed (auto simp: scan_simps)

lemma string_loop_scan:
  "ten__json_string_loop s out w =
     (case string_scan s of (ts, valid, r) \<Rightarrow> do { res \<leftarrow> put_all string_put ts out w; Some (valid, r, res) })"
proof (induction s arbitrary: out w rule: scan_induct)
  case (step s t q)
  show ?case
    by (cases "string_put out t w"; cases "string_scan q"; subst ten__json_string_loop.simps)
      (use step in \<open>auto simp: scan_simps(3) [OF step.hyps] split_beta\<close>)
qed (subst ten__json_string_loop.simps; simp add: scan_simps)+

section \<open>Strings: the code against the reference\<close>

definition short_text :: "cstring \<Rightarrow> bool" where
  "short_text s \<longleftrightarrow> 0 \<notin> set s \<and> length s < 2 ^ 63 - 1"

lemma short_suffix: "suffix r s \<Longrightarrow> short_text s \<Longrightarrow> short_text r"
  using suffix_length_le [of r s] set_mono_suffix [of r s] by (auto simp: short_text_def)

definition parsed_string :: "cstring \<Rightarrow> ten_world \<Rightarrow> (ten_string option \<times> cstring \<times> ten_world) option \<Rightarrow> bool" where
  "parsed_string s w res \<longleftrightarrow>
     (\<exists>so r w'. res = Some (so, r, w') \<and> refusals w \<le> refusals w' \<and>
        (case so of
           None \<Rightarrow> live w' = live w \<and> (refusals w' = refusals w \<longrightarrow> quoted_string s = None)
         | Some str \<Rightarrow> live w' = live w + 2 \<and> strict_suffix r s \<and>
             (\<exists>t. string_rep str t \<and> (refusals w' = refusals w \<longrightarrow> quoted_string s = Some (t, r)))))"

lemma parse_string_spec:
  assumes s: "short_text s"
  shows "parsed_string s w (ten__json_parse_string s w)"
proof (cases "s = [] \<or> hd s \<noteq> 0x22")
  case True
  then show ?thesis by (auto simp: parsed_string_def ten__json_parse_string_def quoted_string_def)
next
  case False
  then obtain u where u: "s = 0x22 # u" by (cases s) auto
  obtain ts valid r where sc: "string_scan u = (ts, valid, r)" by (cases "string_scan u") auto
  have su: "short_text u" using s u by (simp add: short_text_def)
  have suf: "suffix r u" "length (concat ts) + length r \<le> length u" "\<forall>t \<in> set ts. 0 \<notin> set t"
    using string_scan_suffix [OF sc] string_scan_no_nul [OF sc] su by (auto simp: short_text_def)
  have quoted: "quoted_string s = (if \<not> valid \<or> r = [] \<or> hd r \<noteq> 0x22 then None else Some (concat ts, tl r))"
    by (simp add: quoted_string_def u sc)
  from string_empty_spec [of w] show ?thesis
  proof (elim disjE exE conjE)
    fix out w1
    assume o: "ten_string_empty w = Some (Some out, w1)" "string_rep out []"
      "refusals w1 = refusals w" "live w1 = live w + 2"
    have fit: "length ([] :: cstring) + length (concat ts) < 2 ^ 63"
      using suf(2) su by (simp add: short_text_def)
    obtain out' w2 es where p: "put_all string_put ts out w1 = Some (out', w2)" "string_rep out' ([] @ concat es)"
      "refusals w1 \<le> refusals w2" "refusals w2 = refusals w1 \<longrightarrow> es = ts"
      "live w2 - string_owned out' = live w1 - string_owned out"
      using string_sink.put_all_law [OF o(2) suf(3) fit, of w1] by blast
    have live: "live w2 = live w + 2"
      using p(5) string_rep_owned [OF p(2)] string_rep_owned [OF o(2)] o(4) by simp
    have run: "ten__json_parse_string s w =
        (if \<not> valid \<or> r = [] \<or> hd r \<noteq> 0x22
         then do { w3 \<leftarrow> ten_string_destroy (Some out') w2; Some (None, r, w3) }
         else Some (Some out', tl r, w2))"
      using o(1) p(1) by (simp add: ten__json_parse_string_def u string_loop_scan sc)
    show ?thesis
    proof (cases "\<not> valid \<or> r = [] \<or> hd r \<noteq> 0x22")
      case True
      obtain w3 where "ten_string_destroy (Some out') w2 = Some w3" "live w3 = live w2 - 2" "refusals w3 = refusals w2"
        using releasesD [OF releases_string [OF p(2)], of w2] by auto
      then show ?thesis
        unfolding parsed_string_def run quoted using True o(3) p(3) live by auto
    next
      case False
      have "strict_suffix (tl r) s"
        using suf(1) u False by (cases r) (auto simp: strict_suffix_def suffix_def)
      then show ?thesis
        unfolding parsed_string_def run quoted using False o(3) p live by (auto intro!: exI [of _ "concat es"])
    qed
  next
    fix w1
    assume "ten_string_empty w = Some (None, w1)" "refusals w < refusals w1" "live w1 = live w"
    then show ?thesis by (simp add: parsed_string_def ten__json_parse_string_def u)
  qed
qed

end
