(* ===== verification/Ten_Json_Refine.thy ===== *)
theory Ten_Json_Refine
  imports Ten_Json_Parse
begin

text \<open>
  The JSON parser refines the reference parser \<open>value_of\<close>: with fuel for twice the length of
  the text every parsing function returns, its result stands for the reference's, and it leaks
  nothing, whichever allocations are refused.
\<close>

section \<open>Values: the code against the reference\<close>

text \<open>
  What a parsing function that takes over \<open>n\<close> blocks does with the text \<open>s\<close>: it returns; on
  failure it has given the \<open>n\<close> blocks back; on success what it returns owns all that is
  left and represents a value, and the cursor has moved. Without a refusal, it fails and
  succeeds like the reference, with the same value and the same rest.
\<close>

definition outcome :: "int \<Rightarrow> cstring \<Rightarrow> (json_value \<times> cstring) option \<Rightarrow> ten_world \<Rightarrow>
    (ten_json option \<times> cstring \<times> ten_world) option \<Rightarrow> bool" where
  "outcome n s spec w res \<longleftrightarrow>
     (\<exists>jo r w'. res = Some (jo, r, w') \<and> refusals w \<le> refusals w' \<and>
        (case jo of
           None \<Rightarrow> live w' = live w - n \<and> (refusals w' = refusals w \<longrightarrow> spec = None)
         | Some j \<Rightarrow> live w' - json_owned j = live w - n \<and> strict_suffix r s \<and>
             (\<exists>v. json_rep j v \<and> (refusals w' = refusals w \<longrightarrow> spec = Some (v, r)))))"

lemma outcome_cases:
  assumes "outcome n s spec w res"
  obtains (failed) r w' where "res = Some (None, r, w')" "refusals w \<le> refusals w'"
      "live w' = live w - n" "refusals w' = refusals w \<Longrightarrow> spec = None"
  | (parsed) j r w' v where "res = Some (Some j, r, w')" "refusals w \<le> refusals w'"
      "live w' - json_owned j = live w - n" "strict_suffix r s" "json_rep j v"
      "refusals w' = refusals w \<Longrightarrow> spec = Some (v, r)"
proof -
  obtain jo r w' where res: "res = Some (jo, r, w')" "refusals w \<le> refusals w'"
      "case jo of None \<Rightarrow> live w' = live w - n \<and> (refusals w' = refusals w \<longrightarrow> spec = None)
       | Some j \<Rightarrow> live w' - json_owned j = live w - n \<and> strict_suffix r s \<and>
           (\<exists>v. json_rep j v \<and> (refusals w' = refusals w \<longrightarrow> spec = Some (v, r)))"
    using assms unfolding outcome_def by blast
  then show thesis using failed parsed by (cases jo) auto
qed

lemma outcome_None:
  "res = Some (None, r, w') \<Longrightarrow> refusals w \<le> refusals w' \<Longrightarrow> live w' = live w - n \<Longrightarrow>
   (refusals w' = refusals w \<Longrightarrow> spec = None) \<Longrightarrow> outcome n s spec w res"
  by (simp add: outcome_def)

lemma outcome_Some:
  "res = Some (Some j, r, w') \<Longrightarrow> refusals w \<le> refusals w' \<Longrightarrow> live w' - json_owned j = live w - n \<Longrightarrow>
   strict_suffix r s \<Longrightarrow> json_rep j v \<Longrightarrow> (refusals w' = refusals w \<Longrightarrow> spec = Some (v, r)) \<Longrightarrow>
   outcome n s spec w res"
  by (auto simp: outcome_def)

text \<open>Handing on to another parsing function, after \<open>w1\<close> has been reached.\<close>

lemma outcome_later:
  assumes o: "outcome m s' spec' w1 res" and le: "refusals w \<le> refusals w1"
    and live: "live w1 - m = live w - n" and suf: "suffix s' s"
    and spec: "refusals w1 = refusals w \<Longrightarrow> spec = spec'"
  shows "outcome n s spec w res"
  using o
proof (cases rule: outcome_cases)
  case (failed r w')
  then show ?thesis using le live spec by (intro outcome_None) auto
next
  case (parsed j r w' v)
  have "strict_suffix r s" using parsed(4) suf by (rule suffix_order.less_le_trans)
  then show ?thesis using parsed le live spec by (intro outcome_Some) auto
qed

text \<open>Giving up: what is held is destroyed.\<close>

lemma outcome_destroy:
  assumes "releases act m" "refusals w \<le> refusals w1" "live w1 - m = live w - n"
    "refusals w1 = refusals w \<Longrightarrow> spec = None"
  shows "outcome n s spec w (do { w2 \<leftarrow> act w1; Some (None, r, w2) })"
proof -
  obtain w2 where "act w1 = Some w2" "live w2 = live w1 - m" "refusals w2 = refusals w1"
    using assms(1) by (rule releasesD)
  then show ?thesis using assms by (intro outcome_None [where w' = w2]) auto
qed

lemma outcome_destroy2:
  assumes "releases act m" "releases act' m'" "refusals w \<le> refusals w1" "live w1 - m - m' = live w - n"
    "refusals w1 = refusals w \<Longrightarrow> spec = None"
  shows "outcome n s spec w (do { w2 \<leftarrow> act w1; w3 \<leftarrow> act' w2; Some (None, r, w3) })"
proof -
  obtain w2 where w2: "act w1 = Some w2" "live w2 = live w1 - m" "refusals w2 = refusals w1"
    using assms(1) by (rule releasesD)
  have "outcome n s spec w (do { w3 \<leftarrow> act' w2; Some (None, r, w3) })"
    using assms w2 by (intro outcome_destroy) auto
  then show ?thesis using w2(1) by simp
qed

definition value_ok :: "nat \<Rightarrow> bool" where
  "value_ok n \<longleftrightarrow> (\<forall>s w. short_text s \<longrightarrow> 2 * length s + 1 \<le> n \<longrightarrow>
     outcome 0 s (value_of n s) w (ten__json_parse_value n s w))"

definition array_ok :: "nat \<Rightarrow> bool" where
  "array_ok n \<longleftrightarrow> (\<forall>arr vs s w. short_text s \<longrightarrow> 2 * length s + 2 \<le> n \<longrightarrow> json_rep arr (VArray vs) \<longrightarrow>
     outcome (json_owned arr) s (array_of n vs s) w (parse_array_loop n arr s w))"

definition object_ok :: "nat \<Rightarrow> bool" where
  "object_ok n \<longleftrightarrow> (\<forall>obj kvs s w. short_text s \<longrightarrow> 2 * length s + 2 \<le> n \<longrightarrow> json_rep obj (VObject kvs) \<longrightarrow>
     outcome (json_owned obj) s (object_of n kvs s) w (parse_object_loop n obj s w))"

lemma skip_ws_rest:
  "short_text s \<Longrightarrow> short_text (ten__json_skip_ws s)" "length (ten__json_skip_ws s) \<le> length s"
  using skip_ws_suffix [of s] by (auto intro: short_suffix dest: suffix_length_le)

text \<open>The cursor after a separator.\<close>

lemma after_skip:
  assumes "strict_suffix r s" "ten__json_skip_ws r \<noteq> []"
  shows "strict_suffix (tl (ten__json_skip_ws r)) s" "length (tl (ten__json_skip_ws r)) + 2 \<le> length s"
proof -
  have r: "length r < length s" using assms(1) by (simp add: suffix_length_less)
  have "suffix (ten__json_skip_ws r) r" by (rule skip_ws_suffix)
  then have "suffix (tl (ten__json_skip_ws r)) r" by (metis suffix_order.trans suffix_tl)
  then show "strict_suffix (tl (ten__json_skip_ws r)) s"
    using assms(1) by (rule suffix_order.le_less_trans)
  have "length (tl (ten__json_skip_ws r)) < length (ten__json_skip_ws r)" using assms(2) by simp
  then show "length (tl (ten__json_skip_ws r)) + 2 \<le> length s"
    using r skip_ws_rest(2) [of r] by linarith
qed

text \<open>
  After an element: a comma and the rest of the container, its closing bracket, or the end of it
  all. The container that has been built so far is \<open>x\<close>, and \<open>again\<close> parses its rest.
\<close>

lemma separator_outcome:
  assumes x: "json_rep x v" and le: "refusals w0 \<le> refusals w" and live: "live w - json_owned x = live w0 - m"
    and s: "short_text s" "2 * length s + 1 \<le> n" and r: "strict_suffix r s" and suf: "suffix s s0"
    and again: "\<And>u. short_text u \<Longrightarrow> 2 * length u + 2 \<le> n \<Longrightarrow> outcome (json_owned x) u (next u) w (again u)"
    and spec: "refusals w = refusals w0 \<Longrightarrow> spec =
      (let s1 = ten__json_skip_ws r
       in if s1 = [] then None else if hd s1 = 0x2C then next (tl s1) else if hd s1 = closing then Some (v, tl s1) else None)"
  shows "outcome m s0 spec w0
    (let s1 = ten__json_skip_ws r
     in if s1 = [] then do { w4 \<leftarrow> ten_json_destroy x w; Some (None, s1, w4) }
        else if hd s1 = 0x2C then again (tl s1)
        else if hd s1 = closing then Some (Some x, tl s1, w)
        else do { w4 \<leftarrow> ten_json_destroy x w; Some (None, s1, w4) })"
proof -
  let ?s1 = "ten__json_skip_ws r"
  consider (gone) "?s1 = [] \<or> hd ?s1 \<noteq> 0x2C \<and> hd ?s1 \<noteq> closing"
    | (comma) "?s1 \<noteq> []" "hd ?s1 = 0x2C" | (closed) "?s1 \<noteq> []" "hd ?s1 \<noteq> 0x2C" "hd ?s1 = closing"
    by blast
  then show ?thesis
  proof cases
    case gone
    then have "refusals w = refusals w0 \<Longrightarrow> spec = None" using spec by (auto simp: Let_def)
    from outcome_destroy [OF json_destroy_releases [OF x] le live this] show ?thesis using gone by (auto simp: Let_def)
  next
    case comma
    have rest: "strict_suffix (tl ?s1) s" "length (tl ?s1) + 2 \<le> length s" using after_skip [OF r] comma by auto
    then have "short_text (tl ?s1)" "2 * length (tl ?s1) + 2 \<le> n"
      using s by (auto intro: short_suffix simp: strict_suffix_def)
    from again [OF this] have "outcome m s0 spec w0 (again (tl ?s1))"
      using le live spec comma rest(1) suf
      by (elim outcome_later) (auto simp: Let_def strict_suffix_def dest: suffix_order.trans)
    then show ?thesis using comma by (simp add: Let_def)
  next
    case closed
    have "strict_suffix (tl ?s1) s0" using after_skip(1) [OF r closed(1)] suf by (rule suffix_order.less_le_trans)
    then have "outcome m s0 spec w0 (Some (Some x, tl ?s1, w))"
      using spec closed by (intro outcome_Some [OF refl le live _ x]) (auto simp: Let_def)
    then show ?thesis using closed by (simp add: Let_def)
  qed
qed

lemma array_ok_Suc:
  assumes "value_ok n" "array_ok n"
  shows "array_ok (Suc n)"
  unfolding array_ok_def
proof (intro allI impI)
  fix arr vs s w
  assume s: "short_text s" "2 * length s + 2 \<le> Suc n" and arr: "json_rep arr (VArray vs)"
  obtain a where a: "arr = Json_Array a" using arr by (auto elim: json_rep_VArray)
  have "outcome 0 s (value_of n s) w (ten__json_parse_value n s w)"
    using assms(1) s by (simp add: value_ok_def)
  then show "outcome (json_owned arr) s (array_of (Suc n) vs s) w (parse_array_loop (Suc n) arr s w)"
  proof (cases rule: outcome_cases)
    case (failed r w1)
    then show ?thesis
      using outcome_destroy [OF json_destroy_releases [OF arr], of w w1] by simp
  next
    case (parsed j r w1 v)
    note j = parsed
    from array_add_spec [OF arr [unfolded a] j(5), of w1] show ?thesis
    proof (elim disjE exE conjE)
      fix a' w2
      assume add: "ten_json_array_add (Some (Json_Array a)) (Some j) w1 = Some (TEN_OK, Some (Json_Array a'), w2)"
        "json_rep (Json_Array a') (VArray (vs @ [v]))" "refusals w2 = refusals w1"
        "live w2 - json_owned (Json_Array a') = live w1 - json_owned (Json_Array a) - json_owned j"
      have again: "outcome (json_owned (Json_Array a')) u (array_of n (vs @ [v]) u) w2 (parse_array_loop n (Json_Array a') u w2)"
        if "short_text u" "2 * length u + 2 \<le> n" for u
        using assms(2) add(2) that unfolding array_ok_def by blast
      have "refusals w \<le> refusals w2" "live w2 - json_owned (Json_Array a') = live w - json_owned arr"
        using j add a by auto
      from separator_outcome [OF add(2) this s(1) _ j(4) suffix_order.refl again, where closing = "0x5D"] show ?thesis
        using j(1,6) add(1,3) a s(2) by simp
    next
      fix w2
      assume add: "ten_json_array_add (Some (Json_Array a)) (Some j) w1 =
          Some (TEN_ERROR_OUT_OF_MEMORY, Some (Json_Array a), w2)"
        "refusals w1 < refusals w2" "live w2 = live w1"
      have "outcome (json_owned arr) s (array_of (Suc n) vs s) w
          (do { w3 \<leftarrow> ten_json_destroy j w2; w4 \<leftarrow> ten_json_destroy (Json_Array a) w3; Some (None, r, w4) })"
        using j add arr a
        by (intro outcome_destroy2 [OF json_destroy_releases json_destroy_releases]) auto
      then show ?thesis using j(1) add(1) a by simp
    qed
  qed
qed

lemma parsed_string_cases:
  assumes "parsed_string s w res"
  obtains (failed) r w' where "res = Some (None, r, w')" "refusals w \<le> refusals w'" "live w' = live w"
      "refusals w' = refusals w \<Longrightarrow> quoted_string s = None"
  | (parsed) str r w' t where "res = Some (Some str, r, w')" "refusals w \<le> refusals w'"
      "live w' = live w + 2" "strict_suffix r s" "string_rep str t"
      "refusals w' = refusals w \<Longrightarrow> quoted_string s = Some (t, r)"
proof -
  obtain so r w' where res: "res = Some (so, r, w')" "refusals w \<le> refusals w'"
      "case so of None \<Rightarrow> live w' = live w \<and> (refusals w' = refusals w \<longrightarrow> quoted_string s = None)
       | Some str \<Rightarrow> live w' = live w + 2 \<and> strict_suffix r s \<and>
           (\<exists>t. string_rep str t \<and> (refusals w' = refusals w \<longrightarrow> quoted_string s = Some (t, r)))"
    using assms unfolding parsed_string_def by blast
  then show thesis using failed parsed by (cases so) auto
qed

text \<open>The rest of a member of an object, from the value on, with the key held.\<close>

lemma member_ok:
  assumes "value_ok n" "object_ok n"
    and s: "short_text s" "2 * length s + 1 \<le> n" and obj: "json_rep obj (VObject kvs)"
    and key: "string_rep key k" and le: "refusals w0 \<le> refusals w"
    and suf: "suffix s s0" and live: "live w - json_owned obj - 2 = live w0 - m"
    and spec: "refusals w = refusals w0 \<Longrightarrow> spec = (case value_of n s of
         None \<Rightarrow> None
       | Some (v, r1) \<Rightarrow>
           let s1 = ten__json_skip_ws r1
           in if s1 = [] then None
              else if hd s1 = 0x2C then object_of n (AList.update k v kvs) (tl s1)
              else if hd s1 = 0x7D then Some (VObject (AList.update k v kvs), tl s1)
              else None)"
  shows "outcome m s0 spec w0 (do {
     (val, r1, w2) \<leftarrow> ten__json_parse_value n s w;
     (case val of
        None \<Rightarrow> do {
          w3 \<leftarrow> ten_string_destroy (Some key) w2;
          w4 \<leftarrow> ten_json_destroy obj w3;
          Some (None, r1, w4)
        }
      | Some v \<Rightarrow> do {
          (rc, obj1, w3) \<leftarrow> ten__json_object_set_owned obj key v w2;
          if rc \<noteq> TEN_OK
          then do { w4 \<leftarrow> ten_json_destroy v w3; w5 \<leftarrow> ten_json_destroy obj1 w4; Some (None, r1, w5) }
          else
            let s1 = ten__json_skip_ws r1
            in if s1 = [] then do { w4 \<leftarrow> ten_json_destroy obj1 w3; Some (None, s1, w4) }
               else if hd s1 = 0x2C then parse_object_loop n obj1 (tl s1) w3
               else if hd s1 = 0x7D then Some (Some obj1, tl s1, w3)
               else do { w4 \<leftarrow> ten_json_destroy obj1 w3; Some (None, s1, w4) }
        })
   })"
proof -
  have "outcome 0 s (value_of n s) w (ten__json_parse_value n s w)"
    using assms(1) s by (simp add: value_ok_def)
  then show ?thesis
  proof (cases rule: outcome_cases)
    case (failed r1 w2)
    have "outcome m s0 spec w0
        (do { w3 \<leftarrow> ten_string_destroy (Some key) w2; w4 \<leftarrow> ten_json_destroy obj w3; Some (None, r1, w4) })"
      using failed le live spec
      by (intro outcome_destroy2 [OF releases_string [OF key] json_destroy_releases [OF obj]]) auto
    then show ?thesis using failed(1) by simp
  next
    case (parsed j r1 w2 v)
    note j = parsed
    from set_owned_spec [OF obj key j(5), of w2] show ?thesis
    proof (elim disjE exE conjE)
      fix obj1 w3
      assume set: "ten__json_object_set_owned obj key j w2 = Some (TEN_OK, obj1, w3)"
        "json_rep obj1 (VObject (AList.update k v kvs))" "refusals w3 = refusals w2"
        "live w3 - json_owned obj1 = live w2 - json_owned obj - 2 - json_owned j"
      have again: "outcome (json_owned obj1) u (object_of n (AList.update k v kvs) u) w3 (parse_object_loop n obj1 u w3)"
        if "short_text u" "2 * length u + 2 \<le> n" for u
        using assms(2) set(2) that unfolding object_ok_def by blast
      have "refusals w0 \<le> refusals w3" "live w3 - json_owned obj1 = live w0 - m"
        using j set le live by auto
      from separator_outcome [OF set(2) this s j(4) suf again, where closing = "0x7D" and spec = spec] show ?thesis
        using j(1,2,6) set(1,3) spec le by simp
    next
      fix obj1 w3
      assume set: "ten__json_object_set_owned obj key j w2 = Some (TEN_ERROR_OUT_OF_MEMORY, obj1, w3)"
        "json_rep obj1 (VObject kvs)" "refusals w2 < refusals w3"
        "live w3 - json_owned obj1 = live w2 - json_owned obj - 2"
      have "outcome m s0 spec w0
          (do { w4 \<leftarrow> ten_json_destroy j w3; w5 \<leftarrow> ten_json_destroy obj1 w4; Some (None, r1, w5) })"
        using j set le live
        by (intro outcome_destroy2 [OF json_destroy_releases json_destroy_releases]) auto
      then show ?thesis using j(1) set(1) by simp
    qed
  qed
qed

lemma object_ok_Suc:
  assumes "value_ok n" "object_ok n"
  shows "object_ok (Suc n)"
  unfolding object_ok_def
proof (intro allI impI)
  fix obj kvs u w
  assume u: "short_text u" "2 * length u + 2 \<le> Suc n" and obj: "json_rep obj (VObject kvs)"
  let ?t = "ten__json_skip_ws u"
  let ?res = "parse_object_loop (Suc n) obj u w"
  have "parsed_string ?t w (ten__json_parse_string ?t w)"
    using u(1) by (intro parse_string_spec skip_ws_rest)
  then show "outcome (json_owned obj) u (object_of (Suc n) kvs u) w ?res"
  proof (cases rule: parsed_string_cases)
    case (failed r w1)
    then show ?thesis
      using outcome_destroy [OF json_destroy_releases [OF obj], of w w1] by simp
  next
    case (parsed key r w1 k)
    let ?s = "ten__json_skip_ws r"
    have suf: "strict_suffix ?s u" "suffix ?s u" "length ?s < length u"
    proof -
      have "suffix ?s r" "strict_suffix r ?t" "suffix ?t u"
        using parsed(4) by (auto intro: skip_ws_suffix)
      then show "strict_suffix ?s u"
        by (meson suffix_order.le_less_trans suffix_order.less_le_trans)
      then show "suffix ?s u" "length ?s < length u"
        by (auto simp: strict_suffix_def suffix_length_less)
    qed
    show ?thesis
    proof (cases "?s = [] \<or> hd ?s \<noteq> 0x3A")
      case True
      have "outcome (json_owned obj) u (object_of (Suc n) kvs u) w
          (do { w2 \<leftarrow> ten_string_destroy (Some key) w1; w3 \<leftarrow> ten_json_destroy obj w2; Some (None, ?s, w3) })"
        using parsed True
        by (intro outcome_destroy2 [OF releases_string [OF parsed(5)] json_destroy_releases [OF obj]])
          (auto simp: Let_def)
      then show ?thesis using parsed(1) True by (simp add: Let_def)
    next
      case False
      have tl: "suffix (tl ?s) u" using suf(2) by (metis suffix_order.trans suffix_tl)
      then have "short_text (tl ?s)" using u(1) by (rule short_suffix)
      moreover have "length (tl ?s) < length ?s" using False by simp
      then have "2 * length (tl ?s) + 1 \<le> n" using suf(3) u(2) by linarith
      ultimately show ?thesis
        using member_ok [OF assms _ _ obj parsed(5,2) tl, of "json_owned obj" "object_of (Suc n) kvs u"]
          parsed False
        by (simp add: Let_def)
    qed
  qed
qed

text \<open>Values that hold no others.\<close>

lemma fresh_outcome:
  assumes "fresh_json v w (j, w1)" "strict_suffix r u"
  shows "outcome 0 u (Some (v, r)) w (Some (j, r, w1))"
  using assms by (auto simp: fresh_json_def outcome_def)

lemma literal_outcome:
  assumes "fresh_json v w (f w)" and s: "suffix s u" "s \<noteq> []" and k: "length lit = k" "0 < k"
  shows "outcome 0 u (if take k s = lit then Some (v, drop k s) else None) w
    (if length s \<ge> k \<and> take k s = lit then let (j, w1) = f w in Some (j, drop k s, w1) else Some (None, s, w))"
proof (cases "take k s = lit")
  case True
  then have "k \<le> length s" using k by (metis length_take min.absorb_iff2 min.commute)
  moreover have "strict_suffix (drop k s) u"
  proof -
    have "strict_suffix (drop k s) s"
      using s(2) k(2) \<open>k \<le> length s\<close>
      by (auto simp: strict_suffix_def suffix_drop) (metis diff_less length_drop length_greater_0_conv less_irrefl)
    then show ?thesis using s(1) by (rule suffix_order.less_le_trans)
  qed
  ultimately show ?thesis
    using True fresh_outcome [of v w "fst (f w)" "snd (f w)" "drop k s" u] assms(1) by (simp add: split_beta)
qed (auto intro: outcome_None)

lemma string_outcome:
  assumes s: "short_text s" "suffix s u"
  shows "outcome 0 u (map_option (\<lambda>(t, r). (VString t, r)) (quoted_string s)) w (do {
     (string, r, w1) \<leftarrow> ten__json_parse_string s w;
     (case string of
        None \<Rightarrow> Some (None, r, w1)
      | Some str \<Rightarrow>
          let (ok, w2) = ten__json_alloc w1
          in if \<not> ok then do { w3 \<leftarrow> ten_string_destroy (Some str) w2; Some (None, r, w3) }
             else Some (Some (Json_String str), r, w2))
   })"
  using parse_string_spec [OF s(1)]
proof (cases rule: parsed_string_cases [where w = w])
  case (failed r w1)
  then show ?thesis by (auto intro!: outcome_None)
next
  case (parsed str r w1 t)
  have r: "strict_suffix r u" using parsed(4) s(2) by (rule suffix_order.less_le_trans)
  show ?thesis
  proof (cases rule: json_alloc_cases [of w1])
    case (granted w2)
    then have "outcome 0 u (map_option (\<lambda>(t, r). (VString t, r)) (quoted_string s)) w
        (Some (Some (Json_String str), r, w2))"
      using parsed r by (intro outcome_Some [OF refl]) (auto simp: string_rep_owned intro: rep_string)
    then show ?thesis using parsed(1) granted(1) by simp
  next
    case (refused w2)
    then have "outcome 0 u (map_option (\<lambda>(t, r). (VString t, r)) (quoted_string s)) w
        (do { w3 \<leftarrow> ten_string_destroy (Some str) w2; Some (None, r, w3) })"
      using parsed by (intro outcome_destroy [OF releases_string [OF parsed(5)]]) auto
    then show ?thesis using parsed(1) refused(1) by simp
  qed
qed

lemma number_outcome:
  assumes "suffix s u" "\<And>d r. strtod s = Some (d, r) \<Longrightarrow> strict_suffix r s"
  shows "outcome 0 u (map_option (\<lambda>(d, r). (VNumber d, r)) (strtod s)) w (Some (ten__json_parse_number s w))"
proof (cases "strtod s")
  case None
  then show ?thesis by (auto simp: ten__json_parse_number_def intro!: outcome_None)
next
  case (Some dr)
  obtain d r where dr: "dr = (d, r)" by (cases dr)
  then have "strict_suffix r u"
    using assms Some by (auto intro: suffix_order.less_le_trans)
  from fresh_outcome [OF _ this, of "VNumber d" w] show ?thesis
    using create_scalars(3) [where d = d and w = w] Some dr
    by (cases "ten_json_create_number d w") (simp add: ten__json_parse_number_def)
qed

lemma suffix_dropWhile': "suffix (dropWhile P s) s"
  by (metis suffixI takeWhile_dropWhile_id)

lemma strict_suffixI_length: "suffix r s \<Longrightarrow> length r < length s \<Longrightarrow> strict_suffix r s"
  by (auto simp: strict_suffix_def)

lemma exponent_part_suffix: "exponent_part m s = (e, r) \<Longrightarrow> suffix r s"
  by (auto simp: exponent_part_def Let_def split: if_splits
      intro: suffix_order.trans [OF suffix_dropWhile'] suffix_order.trans [OF suffix_tl])

lemma mantissa_part_suffix:
  assumes "mantissa_part P s = (ds, k, r)"
  shows "suffix r s" "ds \<noteq> [] \<Longrightarrow> length r < length s"
proof -
  let ?q = "dropWhile P s"
  have q: "suffix ?q s" "length (takeWhile P s) + length ?q = length s"
    by (rule suffix_dropWhile') (metis length_append takeWhile_dropWhile_id)
  have q': "suffix (dropWhile P (tl ?q)) s" "length (dropWhile P (tl ?q)) \<le> length (tl ?q)"
    using q(1) suffix_dropWhile' [of P "tl ?q"] length_dropWhile_le [of P "tl ?q"]
    by (meson suffix_order.trans suffix_tl, blast)
  have r: "r = dropWhile P (tl ?q) \<and> ?q \<noteq> [] \<or> r = s \<and> ds = [] \<or> r = ?q \<and> ds = takeWhile P s"
    using assms by (auto simp: mantissa_part_def Let_def split: if_splits)
  then show "suffix r s" using q q' by auto
  show "length r < length s" if "ds \<noteq> []"
  proof -
    from r that consider "r = dropWhile P (tl ?q)" "?q \<noteq> []" | "r = ?q" "takeWhile P s \<noteq> []" by auto
    then show ?thesis
    proof cases
      case 1
      then have "length (tl ?q) < length ?q" by simp
      then show ?thesis unfolding 1(1) using q(2) q'(2) by linarith
    next
      case 2
      then show ?thesis using q(2) by (cases "takeWhile P s") auto
    qed
  qed
qed

lemma has_prefix_length: "has_prefix p s \<Longrightarrow> length p \<le> length s"
  unfolding has_prefix_def by (metis length_map length_take min.absorb_iff2 min.commute)

lemma nan_tail_suffix: "suffix (nan_tail s) s"
  by (auto simp: nan_tail_def Let_def intro: suffix_order.trans [OF suffix_tl]
      suffix_order.trans [OF suffix_dropWhile'])

text \<open>A number takes at least one byte.\<close>

lemma strtod_progress:
  assumes "strtod s = Some (d, r)"
  shows "strict_suffix r s"
proof -
  define t where "t = (if s \<noteq> [] \<and> (hd s = 0x2D \<or> hd s = 0x2B) then tl s else s)"
  have t: "suffix t s" by (simp add: t_def)
  have drop: "strict_suffix (drop n t) t" if "length p \<le> length t" "0 < n" "n \<le> length p" for n and p :: cstring
    using that by (intro strict_suffixI_length suffix_drop) auto
  have pre: "length (ascii ''infinity'') = 8" "length (ascii ''inf'') = 3" "length (ascii ''nan'') = 3"
      "length (ascii ''0x'') = 2"
    by (simp_all add: ascii_def)
  obtain hds hf hr where h: "mantissa_part is_hex_digit (drop 2 t) = (hds, hf, hr)"
    by (cases "mantissa_part is_hex_digit (drop 2 t)") auto
  obtain ds fr rest where m: "mantissa_part is_digit t = (ds, fr, rest)"
    by (cases "mantissa_part is_digit t") auto
  obtain e1 r1 where e1: "exponent_part 0x70 hr = (e1, r1)" by (cases "exponent_part 0x70 hr") auto
  obtain e2 r2 where e2: "exponent_part 0x65 rest = (e2, r2)" by (cases "exponent_part 0x65 rest") auto
  have val: "strtod s =
      (let neg = (s \<noteq> [] \<and> hd s = 0x2D)
       in if has_prefix (ascii ''infinity'') t then Some (Infinity neg, drop 8 t)
          else if has_prefix (ascii ''inf'') t then Some (Infinity neg, drop 3 t)
          else if has_prefix (ascii ''nan'') t then Some (NaN neg, nan_tail (drop 3 t))
          else if has_prefix (ascii ''0x'') t \<and> hds \<noteq> []
          then (case ratio (digits_value 16 hds) 2 (e1 - 4 * int hf) of (n, d) \<Rightarrow> Some (round_double neg n d, r1))
          else if ds = [] then None
          else (case ratio (digits_value 10 ds) 10 (e2 - int fr) of (n, d) \<Rightarrow> Some (round_double neg n d, r2)))"
    by (simp only: strtod_def t_def [symmetric] Let_def h m e1 e2 prod.case)
  have hex: "strict_suffix r1 t" if "has_prefix (ascii ''0x'') t"
  proof -
    have "suffix r1 (drop 2 t)"
      using exponent_part_suffix [OF e1] mantissa_part_suffix(1) [OF h] by (rule suffix_order.trans)
    moreover have "strict_suffix (drop 2 t) t"
      using drop [of "ascii ''0x''" 2] has_prefix_length [OF that] by (simp add: pre)
    ultimately show ?thesis by (rule suffix_order.le_less_trans)
  qed
  have dec: "strict_suffix r2 t" if "ds \<noteq> []"
    using exponent_part_suffix [OF e2] mantissa_part_suffix [OF m] that
    by (auto intro: suffix_order.le_less_trans strict_suffixI_length)
  have nan: "strict_suffix (nan_tail (drop 3 t)) t" if "has_prefix (ascii ''nan'') t"
    using nan_tail_suffix drop [of "ascii ''nan''" 3] has_prefix_length [OF that]
    by (auto intro: suffix_order.le_less_trans simp: pre)
  have inf: "has_prefix (ascii ''infinity'') t \<Longrightarrow> strict_suffix (drop 8 t) t"
      "has_prefix (ascii ''inf'') t \<Longrightarrow> strict_suffix (drop 3 t) t"
    using drop [of "ascii ''infinity''" 8] drop [of "ascii ''inf''" 3]
      has_prefix_length [of "ascii ''infinity''" t] has_prefix_length [of "ascii ''inf''" t]
    by (simp_all add: pre)
  have "strict_suffix r t"
    using assms hex dec nan inf unfolding val by (auto simp: Let_def split: if_splits prod.splits)
  then show ?thesis using t by (rule suffix_order.less_le_trans)
qed

text \<open>An opening bracket: an empty container, closed at once or filled by its loop.\<close>

lemma container_outcome:
  assumes fresh: "fresh_json v0 w r" and t: "suffix t u"
    and loop: "\<And>j w1. json_rep j v0 \<Longrightarrow> outcome (json_owned j) t spec w1 (loop j w1)"
  shows "outcome 0 u (if t \<noteq> [] \<and> hd t = closing then Some (v0, tl t) else spec) w
    (case r of (x, w1) \<Rightarrow>
       (case x of
          None \<Rightarrow> Some (None, s, w1)
        | Some a \<Rightarrow> if t \<noteq> [] \<and> hd t = closing then Some (Some a, tl t, w1) else loop a w1))"
proof -
  from fresh consider (made) j w1 where "r = (Some j, w1)" "json_rep j v0" "refusals w1 = refusals w"
      "live w1 - json_owned j = live w"
    | (refused) w1 where "r = (None, w1)" "refusals w < refusals w1" "live w1 = live w"
    by (auto simp: fresh_json_def)
  then show ?thesis
  proof cases
    case made
    have "outcome 0 u spec w (loop j w1)"
      using loop [OF made(2), of w1] made t by (elim outcome_later) auto
    moreover have "outcome 0 u (Some (v0, tl t)) w (Some (Some j, tl t, w1))" if "t \<noteq> []"
    proof -
      have "strict_suffix (tl t) t" using that by (intro strict_suffixI_length) auto
      then have "strict_suffix (tl t) u" using t by (rule suffix_order.less_le_trans)
      then show ?thesis using made by (intro outcome_Some [OF refl]) auto
    qed
    ultimately show ?thesis using made by (cases "t = []") simp_all
  next
    case refused
    then show ?thesis by (simp add: outcome_None)
  qed
qed

lemma value_ok_Suc:
  assumes "array_ok n" "object_ok n"
  shows "value_ok (Suc n)"
  unfolding value_ok_def
proof (intro allI impI)
  fix u w
  assume u: "short_text u" "2 * length u + 1 \<le> Suc n"
  let ?s = "ten__json_skip_ws u"
  let ?t = "ten__json_skip_ws (tl ?s)"
  have s: "suffix ?s u" "short_text ?s" "length ?s \<le> length u"
    using u skip_ws_rest skip_ws_suffix by auto
  show "outcome 0 u (value_of (Suc n) u) w (ten__json_parse_value (Suc n) u w)"
  proof (cases "?s = []")
    case True
    then show ?thesis by (auto simp: Let_def intro!: outcome_None)
  next
    case ne: False
    have "suffix ?t (tl ?s)" by (rule skip_ws_suffix)
    then have t: "suffix ?t u" using s(1) by (meson suffix_order.trans suffix_tl)
    then have fits: "short_text ?t" using u(1) by (rule short_suffix)
    have "length (tl ?s) < length ?s" using ne by simp
    then have room: "2 * length ?t + 2 \<le> n" using skip_ws_rest(2) [of "tl ?s"] s(3) u(2) by linarith
    consider "hd ?s = 0x5B" | "hd ?s = 0x7B" | "hd ?s \<noteq> 0x5B" "hd ?s \<noteq> 0x7B" by blast
    then show ?thesis
    proof cases
      case 1
      obtain r where r: "ten_json_create_array w = Some r" "fresh_json (VArray []) w r" using create_array by blast
      have "outcome (json_owned j) ?t (array_of n [] ?t) w1 (parse_array_loop n j ?t w1)" if "json_rep j (VArray [])" for j w1
        using assms(1) fits room that unfolding array_ok_def by blast
      from container_outcome [OF r(2) t this, where closing = "0x5D" and s = ?s] show ?thesis
        using ne 1 r(1) by (cases r; cases "fst r") (simp_all add: Let_def split: if_splits)
    next
      case 2
      obtain r where r: "ten_json_create_object w = Some r" "fresh_json (VObject []) w r" using create_object by blast
      have "outcome (json_owned j) ?t (object_of n [] ?t) w1 (parse_object_loop n j ?t w1)" if "json_rep j (VObject [])" for j w1
        using assms(2) fits room that unfolding object_ok_def by blast
      from container_outcome [OF r(2) t this, where closing = "0x7D" and s = ?s] show ?thesis
        using ne 2 r(1) by (cases r; cases "fst r") (simp_all add: Let_def split: if_splits)
    next
      case 3
      then show ?thesis
        using ne literal_outcome [where w = w and f = ten_json_create_null and v = VNull
              and lit = "ascii ''null''" and k = 4, OF _ s(1) ne]
          literal_outcome [where w = w and f = "ten_json_create_bool 1" and v = "VBool True"
              and lit = "ascii ''true''" and k = 4, OF _ s(1) ne]
          literal_outcome [where w = w and f = "ten_json_create_bool 0" and v = "VBool False"
              and lit = "ascii ''false''" and k = 5, OF _ s(1) ne]
          create_scalars(1) [where w = w] create_scalars(2) [where w = w and i = 1]
          create_scalars(2) [where w = w and i = 0]
          string_outcome [OF s(2,1), of w] number_outcome [where w = w, OF s(1) strtod_progress]
        by (simp add: Let_def ascii_def outcome_None)
    qed
  qed
qed

lemma parsers_ok: "value_ok n \<and> array_ok n \<and> object_ok n"
proof (induction n)
  case 0
  show ?case by (simp add: value_ok_def array_ok_def object_ok_def)
next
  case (Suc n)
  then show ?case by (simp add: value_ok_Suc array_ok_Suc object_ok_Suc)
qed

text \<open>The whole text: one value, and nothing but white space after it.\<close>

definition text_value :: "cstring \<Rightarrow> json_value option" where
  "text_value t =
     (case value_of (2 * length t + 1) t of
        None \<Rightarrow> None
      | Some (v, r) \<Rightarrow> if ten__json_skip_ws r = [] then Some v else None)"

lemma json_parse_cases:
  assumes t: "short_text t"
  obtains (failed) w' where "ten_json_parse (Some t) w = Some (None, w')" "refusals w \<le> refusals w'"
      "live w' = live w" "g_ten_last_error w' = TEN_ERROR_PARSE" "refusals w' = refusals w \<Longrightarrow> text_value t = None"
  | (parsed) j v w' where "ten_json_parse (Some t) w = Some (Some j, w')" "refusals w \<le> refusals w'"
      "live w' - json_owned j = live w" "g_ten_last_error w' = TEN_OK" "json_rep j v"
      "refusals w' = refusals w \<Longrightarrow> text_value t = Some v"
proof -
  have "value_ok (2 * length t + 1)" using parsers_ok by blast
  then have "outcome 0 t (value_of (2 * length t + 1) t) w (ten__json_parse_value (2 * length t + 1) t w)"
    using t by (simp add: value_ok_def)
  then show thesis
  proof (cases rule: outcome_cases)
    case (failed r w1)
    then show thesis
      by (intro that(1) [of "ten__set_error TEN_ERROR_PARSE w1"]) (auto simp: ten_json_parse_def text_value_def)
  next
    case (parsed j r w1 v)
    show thesis
    proof (cases "ten__json_skip_ws r = []")
      case True
      then show thesis using parsed
        by (intro that(2) [of j "ten__set_error TEN_OK w1" v]) (auto simp: ten_json_parse_def text_value_def)
    next
      case False
      obtain w2 where "ten_json_destroy j w1 = Some w2" "live w2 = live w1 - json_owned j" "refusals w2 = refusals w1"
        using json_destroy_releases [OF parsed(5)] by (rule releasesD)
      then show thesis using parsed False
        by (intro that(1) [of "ten__set_error TEN_ERROR_PARSE w2"]) (auto simp: ten_json_parse_def text_value_def)
    qed
  qed
qed

end
