(* ===== verification/Ten_Json_Print.thy ===== *)
theory Ten_Json_Print
  imports Ten_Json_Refine Ten_Encoding
begin

text \<open>
  The JSON printer (\<open>src/json/json.c\<close>, \<open>ten_json_stringify\<close>). A printing function extends the
  output string; the return codes of the appends are ignored, so the state is the string and
  the thread's state. The text of a value is \<open>json_text\<close>; the code's output is shown to be this
  text, unless an append was refused, and parsing the text gives the value back.
\<close>

section \<open>The code\<close>

type_synonym printer = "ten_string \<times> ten_world \<Rightarrow> (ten_string \<times> ten_world) option"

definition emit :: "cstring \<Rightarrow> printer" where
  "emit t = (\<lambda>(out, w). do { (rc, out1, w1) \<leftarrow> string_put out t w; Some (out1, w1) })"

text \<open>What the switch appends for one byte; \<open>%04x\<close> of a byte is two zeros and two digits.\<close>

definition escape_byte :: "byte \<Rightarrow> cstring" where
  "escape_byte c =
     (if c = 0x22 then [0x5C, 0x22]
      else if c = 0x5C then [0x5C, 0x5C]
      else if c = 0x0A then [0x5C, 0x6E]
      else if c = 0x0D then [0x5C, 0x72]
      else if c = 0x09 then [0x5C, 0x74]
      else if c < 0x20 then [0x5C, 0x75, 0x30, 0x30] @ hex_pair c
      else [c])"

definition ten__json_stringify_escape_string :: "cstring \<Rightarrow> printer" where
  "ten__json_stringify_escape_string s st = do {
     st1 \<leftarrow> emit [0x22] st;
     st2 \<leftarrow> each (\<lambda>c. emit (escape_byte c)) s st1;
     emit [0x22] st2
   }"

text \<open>
  The text of a number. The conversion to \<open>long long\<close> comes first and is undefined for values
  out of its range, infinities and NaNs.
\<close>

definition number_text :: "double \<Rightarrow> cstring option" where
  "number_text v =
     (case to_long_long v of
        None \<Rightarrow> None
      | Some i \<Rightarrow>
          if double_equal v (double_of_int i) \<and> double_less (double_of_int (- (10 ^ 15))) v \<and>
             double_less v (double_of_int (10 ^ 15))
          then Some (format_lld i)
          else (case v of Finite s m e \<Rightarrow> Some (format_17g s m e) | _ \<Rightarrow> None))"

definition stringify_array :: "printer ten_list \<Rightarrow> printer" where
  "stringify_array acts = (\<lambda>(out, w). do {
     let (count, w1) = ten_list_count (Some acts) w;
     st1 \<leftarrow> emit [0x5B] (out, w1);
     st2 \<leftarrow> for_range (unat count) 0
       (\<lambda>i (out, w). do {
          (slot, w') \<leftarrow> ten_list_get (Some acts) i w;
          element \<leftarrow> slot;
          st \<leftarrow> (if i > 0 then emit [0x2C] (out, w') else Some (out, w'));
          element st
        }) st1;
     emit [0x5D] st2
   })"

definition stringify_object :: "printer ten_map \<Rightarrow> ten_string ten_list \<Rightarrow> printer" where
  "stringify_object acts key_order = (\<lambda>(out, w). do {
     let (count, w1) = ten_list_count (Some key_order) w;
     st1 \<leftarrow> emit [0x7B] (out, w1);
     st2 \<leftarrow> for_range (unat count) 0
       (\<lambda>i (out, w). do {
          (kslot, wa) \<leftarrow> ten_list_get (Some key_order) i w;
          key \<leftarrow> kslot;
          (key_cstr, wb) \<leftarrow> ten_string_cstr (Some key) wa;
          k \<leftarrow> key_cstr;
          (slot, wc) \<leftarrow> ten_map_get (Some acts) (Some (json_key k)) wb;
          member \<leftarrow> slot;
          sta \<leftarrow> (if i > 0 then emit [0x2C] (out, wc) else Some (out, wc));
          stb \<leftarrow> ten__json_stringify_escape_string k sta;
          stc \<leftarrow> emit [0x3A] stb;
          member stc
        }) st1;
     emit [0x7D] st2
   })"

primrec ten__json_stringify_value :: "ten_json \<Rightarrow> printer" where
  "ten__json_stringify_value Json_Null = emit (ascii ''null'')"
| "ten__json_stringify_value (Json_Bool b) = emit (if b then ascii ''true'' else ascii ''false'')"
| "ten__json_stringify_value (Json_Number d) =
     (\<lambda>st. do { t \<leftarrow> number_text d; emit t st })"
| "ten__json_stringify_value (Json_String s) = (\<lambda>(out, w). do {
     (cstr, w1) \<leftarrow> ten_string_cstr (Some s) w;
     t \<leftarrow> cstr;
     ten__json_stringify_escape_string t (out, w1)
   })"
| "ten__json_stringify_value (Json_Array a) = stringify_array (map_ten_list ten__json_stringify_value a)"
| "ten__json_stringify_value (Json_Object m ks) =
     stringify_object (map_ten_map ten__json_stringify_value m) ks"

definition ten_json_stringify :: "ten_json option \<Rightarrow> ten_world \<Rightarrow> (byte ptr \<times> ten_world) option" where
  "ten_json_stringify json w =
     (case json of
        None \<Rightarrow> Some (Null, ten__set_error TEN_ERROR_NULL_ARGUMENT w)
      | Some j \<Rightarrow> do {
          (out, w1) \<leftarrow> ten_string_empty w;
          (case out of
             None \<Rightarrow> Some (Null, w1)
           | Some o1 \<Rightarrow> do {
               (o2, w2) \<leftarrow> ten__json_stringify_value j (o1, w1);
               (cstr, w3) \<leftarrow> ten_string_cstr (Some o2) w2;
               let (n, w4) = ten_string_length (Some o2) w3;
               (result, w5) \<leftarrow> ten_memdup (map_option (\<lambda>t. t @ [0]) cstr) (n + 1) w4;
               w6 \<leftarrow> ten_string_destroy (Some o2) w5;
               Some (result, if is_Null result then w6 else ten__set_error TEN_OK w6)
             })
        })"

section \<open>The text of a value\<close>

definition string_pieces :: "cstring \<Rightarrow> cstring list" where
  "string_pieces t = [[0x22]] @ map escape_byte t @ [[0x22]]"

primrec separated :: "cstring list list \<Rightarrow> cstring list" where
  "separated [] = []"
| "separated (d # ds) = d @ concat (map (\<lambda>e. [0x2C] # e) ds)"

primrec value_pieces :: "json_value \<Rightarrow> cstring list" where
  "value_pieces VNull = [ascii ''null'']"
| "value_pieces (VBool b) = [if b then ascii ''true'' else ascii ''false'']"
| "value_pieces (VNumber d) = [the (number_text d)]"
| "value_pieces (VString t) = string_pieces t"
| "value_pieces (VArray vs) = [[0x5B]] @ separated (map value_pieces vs) @ [[0x5D]]"
| "value_pieces (VObject kvs) =
     [[0x7B]] @ separated (map (\<lambda>(k, ds). string_pieces k @ [[0x3A]] @ ds)
       (map (map_prod id value_pieces) kvs)) @ [[0x7D]]"

definition json_text :: "json_value \<Rightarrow> cstring" where
  "json_text v = concat (value_pieces v)"

text \<open>Every number in the value can be converted to \<open>long long\<close>.\<close>

primrec printable :: "json_value \<Rightarrow> bool" where
  "printable VNull \<longleftrightarrow> True"
| "printable (VBool b) \<longleftrightarrow> True"
| "printable (VNumber d) \<longleftrightarrow> to_long_long d \<noteq> None"
| "printable (VString t) \<longleftrightarrow> True"
| "printable (VArray vs) \<longleftrightarrow> list_all id (map printable vs)"
| "printable (VObject kvs) \<longleftrightarrow> list_all snd (map (map_prod id printable) kvs)"

section \<open>The code prints the text\<close>

text \<open>A printer that appends the pieces \<open>ds\<close>, whatever the last error was.\<close>

definition prints :: "printer \<Rightarrow> cstring list \<Rightarrow> bool" where
  "prints p ds \<longleftrightarrow> (\<forall>c out w. p (out, ten__set_error c w) = put_all string_put ds out w)"

lemma request_set_error: "request ok (ten__set_error c w) = ten__set_error c (request ok w)"
  by (simp add: request_def ten__set_error_def)

lemma realloc_set_error: "ten_realloc k p n (ten__set_error c w) = ten_realloc k p n w"
  by (simp add: ten_realloc_def Let_def grants_realloc_def request_set_error)

lemma put_set_error: "string_put s t (ten__set_error c w) = string_put s t w"
  by (simp add: string_put_def ten_string_append_def string_reserve_def realloc_set_error Let_def
      split: Option.bind_split)

lemma set_error_last: "ten__set_error (g_ten_last_error w) w = w"
  by (simp add: ten__set_error_def)

lemma printsD: "prints p ds \<Longrightarrow> p (out, w) = put_all string_put ds out w"
  unfolding prints_def by (metis set_error_last)

lemma prints_emit: "prints (emit t) [t]"
  by (simp add: prints_def emit_def put_set_error)

lemma prints_seq:
  assumes "prints p ds" "prints q es"
  shows "prints (\<lambda>st. do { st1 \<leftarrow> p st; q st1 }) (ds @ es)"
proof -
  have "q = (\<lambda>(out, w). put_all string_put es out w)"
    using printsD [OF assms(2)] by (simp add: fun_eq_iff)
  then show ?thesis using assms(1) by (simp add: prints_def put_all_append)
qed

lemma prints_each:
  assumes "\<And>x. x \<in> set xs \<Longrightarrow> prints (f x) (d x)" "prints q es"
  shows "prints (\<lambda>st. do { st1 \<leftarrow> each f xs st; q st1 }) (concat (map d xs) @ es)"
  using assms(1)
proof (induction xs)
  case Nil
  then show ?case using assms(2) by simp
next
  case (Cons x xs)
  have "prints (f x) (d x)" using Cons.prems by simp
  moreover have "prints (\<lambda>st. do { st1 \<leftarrow> each f xs st; q st1 }) (concat (map d xs) @ es)"
    using Cons by simp
  ultimately show ?case using prints_seq by fastforce
qed

lemma prints_string: "prints (ten__json_stringify_escape_string t) (string_pieces t)"
proof -
  have "prints (\<lambda>st. do { st1 \<leftarrow> each (\<lambda>c. emit (escape_byte c)) t st; emit [0x22] st1 })
      (concat (map (\<lambda>c. [escape_byte c]) t) @ [[0x22]])"
    by (intro prints_each prints_emit)
  from prints_seq [OF prints_emit this, of "[0x22]"] show ?thesis
    unfolding ten__json_stringify_escape_string_def [abs_def] string_pieces_def
    by (simp add: concat_map_singleton)
qed

lemma prints_at_error: "prints p ds \<Longrightarrow> prints (\<lambda>(out, w). p (out, ten__set_error c w)) ds"
  unfolding prints_def split_conv set_error_sel(6) by blast

text \<open>Element \<open>i\<close> of a comma-separated sequence.\<close>

definition comma :: "nat \<Rightarrow> printer \<Rightarrow> printer" where
  "comma i p st = do { st1 \<leftarrow> (if i > 0 then emit [0x2C] st else Some st); p st1 }"

lemma prints_comma: "prints p ds \<Longrightarrow> prints (comma i p) (if i = 0 then ds else [0x2C] # ds)"
  using prints_seq [OF prints_emit [of "[0x2C]"], of p ds] by (auto simp: comma_def [abs_def])

lemma separated_enumerate:
  "concat (map (\<lambda>(i, ds). if i = 0 then ds else [0x2C] # ds) (enumerate 0 dss)) = separated dss"
proof (cases dss)
  case (Cons d ds)
  have "concat (map (\<lambda>(i, ds). if i = 0 then ds else [0x2C] # ds) (enumerate (Suc n) ds)) =
      concat (map (\<lambda>e. [0x2C] # e) ds)" for n
    by (induction ds arbitrary: n) simp_all
  then show ?thesis using Cons by simp
qed simp

text \<open>The loops over the elements of an array and the members of an object.\<close>

lemma prints_separated:
  assumes p: "\<And>i x. (i, x) \<in> set (enumerate 0 xs) \<Longrightarrow> prints (p x) (d x)" and q: "prints q es"
    and body: "\<And>i out w. i < length xs \<Longrightarrow>
      body (of_nat i) (out, w) = comma i (p (xs ! i)) (out, ten__set_error TEN_OK w)"
  shows "prints (\<lambda>st. do { st1 \<leftarrow> for_range (length xs) 0 body st; q st1 }) (separated (map d xs) @ es)"
proof -
  define f where "f = (\<lambda>(i, x) (out, w). comma i (p x) (out, ten__set_error TEN_OK w))"
  have "body (of_nat j) s = f (enumerate 0 xs ! j) s" if "j < length xs" for j s
    using body [OF that, of "fst s" "snd s"] that by (simp add: f_def nth_enumerate_eq split_beta)
  then have "for_range (length xs) 0 body st = each f (enumerate 0 xs) st" for st
    using for_range_each [of "enumerate 0 xs" body 0 f st] by simp
  moreover have "prints (\<lambda>st. do { st1 \<leftarrow> each f (enumerate 0 xs) st; q st1 })
      (concat (map (\<lambda>(i, x). if i = 0 then d x else [0x2C] # d x) (enumerate 0 xs)) @ es)"
    using p q by (intro prints_each) (auto simp: f_def intro!: prints_at_error [OF prints_comma, simplified])
  moreover have "map (\<lambda>(i, x). if i = 0 then d x else [0x2C] # d x) (enumerate 0 xs) =
      map (\<lambda>(i, ds). if i = 0 then ds else [0x2C] # ds) (enumerate 0 (map d xs))"
    by (rule nth_equalityI) (simp_all add: nth_enumerate_eq)
  ultimately show ?thesis by (simp add: separated_enumerate)
qed

lemma prints_array:
  assumes rep: "list_rep a js" and els: "list_all2 (\<lambda>j v. prints (f j) (d v)) js vs"
  shows "prints (stringify_array (map_ten_list f a)) ([[0x5B]] @ separated (map d vs) @ [[0x5D]])"
proof -
  let ?acts = "map_ten_list f a"
  note rep' = list_rep_map [OF rep, of f]
  have len: "length js = length vs" using els by (rule list_all2_lengthD)
  have n: "unat (of_nat (length vs) :: size_t) = length vs"
    and pos: "i < length vs \<Longrightarrow> (of_nat i :: size_t) > 0 \<longleftrightarrow> i > 0" for i
    using list_rep_small(3) [OF rep] len by (auto simp: unat_of_nat_size size_nat)
  let ?body = "\<lambda>i (out, w). do {
      (slot, w') \<leftarrow> ten_list_get (Some ?acts) i w;
      element \<leftarrow> slot;
      st \<leftarrow> (if i > 0 then emit [0x2C] (out, w') else Some (out, w'));
      element st }"
  have "prints (\<lambda>st. do { st1 \<leftarrow> for_range (length (zip js vs)) 0 ?body st; emit [0x5D] st1 })
      (separated (map (d \<circ> snd) (zip js vs)) @ [[0x5D]])"
  proof (rule prints_separated [where p = "f \<circ> fst"])
    show "prints ((f \<circ> fst) x) ((d \<circ> snd) x)" if "(i, x) \<in> set (enumerate 0 (zip js vs))" for i x
      using that els by (auto simp: in_set_enumerate_eq list_all2_conv_all_nth)
    show "?body (of_nat i) (out, w) = comma i ((f \<circ> fst) (zip js vs ! i)) (out, ten__set_error TEN_OK w)"
      if "i < length (zip js vs)" for i out w
      using that len by (simp add: list_get_in [OF rep'] comma_def pos cong: if_cong)
  qed (rule prints_emit)
  from prints_at_error [OF prints_seq [OF prints_emit [of "[0x5B]"] this], of TEN_OK] show ?thesis
    using len by (simp add: stringify_array_def list_count_spec [OF rep'] n map_snd_zip flip: map_map)
qed

lemma prints_object:
  assumes inv: "map_inv m" and kt: "key_type m = TEN_TYPE_STRING" and rep: "list_rep ks ss"
    and keys: "list_all2 string_rep ss (map fst kvs)"
    and vals: "\<forall>kv \<in> set kvs. \<exists>j. map_abs m (fst kv) = Some j \<and> prints (f j) (d (snd kv))"
  shows "prints (stringify_object (map_ten_map f m) ks)
    ([[0x7B]] @ separated (map (\<lambda>kv. string_pieces (fst kv) @ [[0x3A]] @ d (snd kv)) kvs) @ [[0x7D]])"
proof -
  let ?acts = "map_ten_map f m"
  note inv' = map_inv_map [OF inv, of f]
  have len: "length ss = length kvs" using list_all2_lengthD [OF keys] by simp
  have n: "unat (of_nat (length kvs) :: size_t) = length kvs"
    and pos: "i < length kvs \<Longrightarrow> (of_nat i :: size_t) > 0 \<longleftrightarrow> i > 0" for i
    using list_rep_small(3) [OF rep] len by (auto simp: unat_of_nat_size size_nat)
  let ?p = "\<lambda>kv st. do {
      st1 \<leftarrow> ten__json_stringify_escape_string (fst kv) st;
      st2 \<leftarrow> emit [0x3A] st1;
      f (the (map_abs m (fst kv))) st2 }"
  let ?body = "\<lambda>i (out, w). do {
      (kslot, wa) \<leftarrow> ten_list_get (Some ks) i w;
      key \<leftarrow> kslot;
      (key_cstr, wb) \<leftarrow> ten_string_cstr (Some key) wa;
      k \<leftarrow> key_cstr;
      (slot, wc) \<leftarrow> ten_map_get (Some ?acts) (Some (json_key k)) wb;
      member \<leftarrow> slot;
      sta \<leftarrow> (if i > 0 then emit [0x2C] (out, wc) else Some (out, wc));
      stb \<leftarrow> ten__json_stringify_escape_string k sta;
      stc \<leftarrow> emit [0x3A] stb;
      member stc }"
  have "prints (\<lambda>st. do { st1 \<leftarrow> for_range (length kvs) 0 ?body st; emit [0x7D] st1 })
      (separated (map (\<lambda>kv. string_pieces (fst kv) @ [[0x3A]] @ d (snd kv)) kvs) @ [[0x7D]])"
  proof (rule prints_separated [where p = ?p])
    show "prints (?p kv) (string_pieces (fst kv) @ [[0x3A]] @ d (snd kv))" if "(i, kv) \<in> set (enumerate 0 kvs)" for i kv
    proof -
      have "kv \<in> set kvs" using that by (auto simp: in_set_enumerate_eq)
      then have "prints (f (the (map_abs m (fst kv)))) (d (snd kv))" using vals by fastforce
      then show ?thesis by (intro prints_seq prints_string prints_emit)
    qed
    show "?body (of_nat i) (out, w) = comma i (?p (kvs ! i)) (out, ten__set_error TEN_OK w)"
      if i: "i < length kvs" for i out w
    proof -
      have "string_rep (ss ! i) (fst (kvs ! i))"
        using keys i len by (simp add: list_all2_conv_all_nth)
      moreover have "\<exists>j. map_abs m (fst (kvs ! i)) = Some j" using vals i nth_mem by metis
      ultimately show ?thesis
        using i kt len by (auto simp: list_get_in [OF rep] string_cstr_spec map_get_key [OF inv'] map_abs_map
            comma_def pos cong: if_cong)
    qed
  qed (rule prints_emit)
  from prints_at_error [OF prints_seq [OF prints_emit [of "[0x7B]"] this], of TEN_OK] show ?thesis
    using len by (simp add: stringify_object_def list_count_spec [OF rep] n)
qed

lemma prints_value: "json_rep j v \<Longrightarrow> printable v \<Longrightarrow> prints (ten__json_stringify_value j) (value_pieces v)"
proof (induction rule: json_rep.induct)
  case (rep_number d)
  then have "number_text d \<noteq> None"
    by (cases d) (auto simp: number_text_def simp del: to_long_long.simps(1))
  then obtain t where t: "number_text d = Some t" by blast
  then show ?case using prints_emit [of t] by simp
next
  case (rep_string s t)
  then show ?case
    using prints_at_error [OF prints_string [of t], of TEN_OK] by (simp add: string_cstr_spec)
next
  case (rep_array a js vs)
  then have "list_all2 (\<lambda>j v. prints (ten__json_stringify_value j) (value_pieces v)) js vs"
    by (auto simp: list_all2_conv_all_nth list_all_length)
  from prints_array [OF rep_array(1) this] show ?case by simp
next
  case (rep_object m ks ss kvs)
  then have "\<forall>kv \<in> set kvs. \<exists>j. map_abs m (fst kv) = Some j \<and>
      prints (ten__json_stringify_value j) (value_pieces (snd kv))"
    by (auto simp: list_all_iff)
  from prints_object [OF rep_object(1-4) this] show ?case by (simp add: case_prod_unfold comp_def)
qed (simp_all add: prints_emit)

section \<open>No piece holds a NUL\<close>

lemma nat_digits_no_nul: "0 \<notin> set (nat_digits n)"
  using nat_digits_digits by (force simp: is_digit_def)

lemma with_point_no_nul: "0 \<in> set (with_point ip fp) \<Longrightarrow> 0 \<in> set ip \<or> 0 \<in> set fp"
  by (auto simp: with_point_def strip_zeros_def Let_def dest: set_dropWhileD split: if_splits)

lemma format_17g_no_nul: "0 \<notin> set (format_17g s m e)"
proof -
  have "0 \<notin> set (take k (nat_digits q))" "0 \<notin> set (drop k (nat_digits q))" for k q
    using nat_digits_no_nul [of q] by (auto dest: in_set_takeD in_set_dropD)
  then show ?thesis
    by (auto simp: format_17g_def format_exponent_def Let_def nat_digits_no_nul split: prod.split
        dest!: with_point_no_nul)
qed

lemma number_text_no_nul: "number_text d = Some t \<Longrightarrow> 0 \<notin> set t"
  by (auto simp: number_text_def format_lld_def nat_digits_no_nul format_17g_no_nul
      split: option.splits if_splits double.splits)

lemma escape_byte_no_nul: "c \<noteq> 0 \<Longrightarrow> 0 \<notin> set (escape_byte c)"
  using hex_pair_facts [of c] by (simp add: escape_byte_def)

lemma string_pieces_no_nul: "0 \<notin> set t \<Longrightarrow> d \<in> set (string_pieces t) \<Longrightarrow> 0 \<notin> set d"
  by (auto simp: string_pieces_def) (metis escape_byte_no_nul)

lemma separated_pieces: "d \<in> set (separated dss) \<Longrightarrow> d = [0x2C] \<or> (\<exists>ds \<in> set dss. d \<in> set ds)"
  by (cases dss) (auto split: if_splits)

lemma value_pieces_no_nul: "json_rep j v \<Longrightarrow> printable v \<Longrightarrow> d \<in> set (value_pieces v) \<Longrightarrow> 0 \<notin> set d"
proof (induction arbitrary: d rule: json_rep.induct)
  case (rep_number d')
  then have "number_text d' \<noteq> None"
    by (cases d') (auto simp: number_text_def simp del: to_long_long.simps(1))
  then show ?case using rep_number number_text_no_nul by auto
next
  case (rep_string s t)
  then show ?case using string_pieces_no_nul by (auto simp: string_rep_def)
next
  case (rep_array a js vs)
  have "0 \<notin> set e" if e: "e \<in> set (value_pieces v)" and v: "v \<in> set vs" for e v
  proof -
    obtain i where "i < length vs" "v = vs ! i" using v by (auto simp: in_set_conv_nth)
    moreover have "printable v" using v rep_array.prems(1) by (auto simp: list_all_iff)
    ultimately show ?thesis using list_all2_nthD2 [OF rep_array(2)] e by blast
  qed
  then show ?case using rep_array.prems by (auto dest!: separated_pieces)
next
  case (rep_object m ks ss kvs)
  have "0 \<notin> set (fst kv)" if "kv \<in> set kvs" for kv
  proof -
    have "fst kv \<in> set (map fst kvs)" using that by simp
    then obtain s where "string_rep s (fst kv)"
      using rep_object(4) by (metis in_set_conv_nth list_all2_conv_all_nth)
    then show ?thesis by (simp add: string_rep_def)
  qed
  moreover have "0 \<notin> set e" if "e \<in> set (value_pieces (snd kv))" "kv \<in> set kvs" for e kv
    using that rep_object by (fastforce simp: list_all_iff)
  ultimately show ?case
    using rep_object.prems string_pieces_no_nul by (fastforce dest!: separated_pieces)
qed (auto simp: ascii_def split: if_splits)

text \<open>
  What \<open>ten_json_stringify\<close> returns is one fresh block with a NUL-terminated text, the text of
  the value if no request was refused, or \<open>NULL\<close> after a refusal; the string it was built in is
  given back.
\<close>

lemma json_stringify_cases:
  assumes j: "json_rep j v" and v: "printable v" and len: "length (json_text v) < 2 ^ 63 - 1"
  obtains (printed) t w' where "ten_json_stringify (Some j) w = Some (Block (c_bytes t), w')" "0 \<notin> set t"
      "g_ten_last_error w' = TEN_OK" "refusals w \<le> refusals w'" "live w' = live w + 1"
      "refusals w' = refusals w \<Longrightarrow> t = json_text v"
  | (refused) w' where "ten_json_stringify (Some j) w = Some (Null, w')"
      "g_ten_last_error w' = TEN_ERROR_OUT_OF_MEMORY" "refusals w < refusals w'" "live w' = live w"
  using string_empty_spec [of w]
proof (elim disjE exE conjE)
  fix o1 w1
  assume o1: "ten_string_empty w = Some (Some o1, w1)" "string_rep o1 []"
    "refusals w1 = refusals w" "live w1 = live w + 2"
  have fit: "length ([] :: cstring) + length (concat (value_pieces v)) < 2 ^ 63"
    using len by (simp add: json_text_def)
  have ok: "\<forall>d \<in> set (value_pieces v). 0 \<notin> set d" using value_pieces_no_nul [OF j v] by blast
  obtain o2 w2 es where p: "put_all string_put (value_pieces v) o1 w1 = Some (o2, w2)"
    "string_rep o2 ([] @ concat es)" "set es \<subseteq> set (value_pieces v)" "refusals w1 \<le> refusals w2"
    "refusals w2 = refusals w1 \<longrightarrow> es = value_pieces v" "live w2 - string_owned o2 = live w1 - string_owned o1"
    using string_sink.put_all_law [OF o1(2) ok fit, of w1] by blast
  let ?t = "concat es"
  have rep: "string_rep o2 ?t" using p(2) by simp
  have t: "0 \<notin> set ?t" "length ?t < 2 ^ 63 - 1"
    using rep string_rep_small [OF rep] by (auto simp: string_rep_def)
  have live2: "live w2 = live w + 2"
    using p(6) o1(4) string_rep_owned [OF rep] string_rep_owned [OF o1(2)] by simp
  let ?w4 = "ten__set_error TEN_OK w2"
  have size: "strlen ?t + 1 = of_nat (length (?t @ [0]))" by (simp add: strlen_def)
  have run: "ten_json_stringify (Some j) w = do {
      (result, w5) \<leftarrow> ten_memdup (Some (?t @ [0])) (strlen ?t + 1) ?w4;
      w6 \<leftarrow> ten_string_destroy (Some o2) w5;
      Some (result, if is_Null result then w6 else ten__set_error TEN_OK w6) }"
    using o1(1) p(1) printsD [OF prints_value [OF j v], of o1 w1]
    by (simp add: ten_json_stringify_def string_cstr_spec [OF rep] string_length_spec [OF rep])
  note run = run [unfolded size]
  have "length (?t @ [0]) < 2 ^ 63" using t(2) by simp
  then show thesis
  proof (cases rule: ten_memdup_cases [where w = ?w4])
    case (copied w5)
    obtain w6 where "ten_string_destroy (Some o2) w5 = Some w6" "live w6 = live w5 - 2" "refusals w6 = refusals w5"
      using string_destroy_spec [OF rep, of w5] by blast
    then show thesis
      using run copied p(4,5) live2 o1(3) t(1)
      by (intro printed [of ?t "ten__set_error TEN_OK w6"]) (auto simp: c_bytes_def json_text_def)
  next
    case (refused w5)
    obtain w6 where "ten_string_destroy (Some o2) w5 = Some w6" "live w6 = live w5 - 2" "refusals w6 = refusals w5"
      "g_ten_last_error w6 = g_ten_last_error w5"
      using string_destroy_spec [OF rep, of w5] by blast
    then show thesis
      using run refused p(4) live2 o1(3) by (intro that(2) [of w6]) auto
  qed
next
  fix w1
  assume "ten_string_empty w = Some (None, w1)" "g_ten_last_error w1 = TEN_ERROR_OUT_OF_MEMORY"
    "refusals w < refusals w1" "live w1 = live w"
  then show thesis by (intro refused [of w1]) (simp_all add: ten_json_stringify_def)
qed

end
