(* ===== verification/Ten_Json_Roundtrip.thy ===== *)
theory Ten_Json_Roundtrip
  imports Ten_Json_Print
begin

text \<open>
  The parser reads back what the printer writes. The values concerned are those whose numbers
  are integers of absolute value below \<open>10 ^ 15\<close> (printed by \<open>%lld\<close>), whose strings hold no
  NUL and whose objects have distinct keys; every tree the library builds has the last two.
\<close>

section \<open>Plain values\<close>

definition plain_number :: "double \<Rightarrow> bool" where
  "plain_number d \<longleftrightarrow>
     (case to_long_long d of None \<Rightarrow> False | Some i \<Rightarrow> \<bar>i\<bar> < 10 ^ 15 \<and> d = double_of_int i)"

primrec plain :: "json_value \<Rightarrow> bool" where
  "plain VNull \<longleftrightarrow> True"
| "plain (VBool b) \<longleftrightarrow> True"
| "plain (VNumber d) \<longleftrightarrow> plain_number d"
| "plain (VString t) \<longleftrightarrow> 0 \<notin> set t"
| "plain (VArray vs) \<longleftrightarrow> list_all id (map plain vs)"
| "plain (VObject kvs) \<longleftrightarrow> list_all snd (map (map_prod id plain) kvs) \<and>
     list_all (\<lambda>k. 0 \<notin> set k) (map fst kvs) \<and> distinct (map fst kvs)"

lemma plain_number_obtains:
  assumes "plain_number d"
  obtains i where "d = double_of_int i" "\<bar>i\<bar> < 10 ^ 15" "number_text d = Some (format_lld i)"
proof -
  obtain i where i: "to_long_long d = Some i" "\<bar>i\<bar> < 10 ^ 15" "d = double_of_int i"
    using assms by (auto simp: plain_number_def split: option.splits)
  have "\<bar>i\<bar> < 2 ^ 53" "\<bar>10 ^ 15 :: int\<bar> < 2 ^ 53" "\<bar>- (10 ^ 15) :: int\<bar> < 2 ^ 53" using i(2) by simp_all
  then have "number_text d = Some (format_lld i)"
    unfolding number_text_def i(1) using i(2,3) double_compare_int by (auto simp: abs_less_iff)
  with i show thesis using that by blast
qed

lemma plain_printable: "plain v \<Longrightarrow> printable v"
proof (induction v)
  case (VObject kvs)
  then show ?case by (fastforce simp: list_all_iff)
qed (auto simp: plain_number_def list_all_iff split: option.splits)

section \<open>Texts\<close>

primrec sep_text :: "cstring list \<Rightarrow> cstring" where
  "sep_text [] = []"
| "sep_text (t # ts) = t @ concat (map (\<lambda>u. 0x2C # u) ts)"

definition quote :: "cstring \<Rightarrow> cstring" where
  "quote t = 0x22 # concat (map escape_byte t) @ [0x22]"

lemma concat_separated: "concat (separated dss) = sep_text (map concat dss)"
proof (cases dss)
  case (Cons d ds)
  have "concat (concat (map (\<lambda>e. [0x2C] # e) ds)) = concat (map (\<lambda>u. 0x2C # u) (map concat ds))"
    by (induction ds) simp_all
  then show ?thesis using Cons by simp
qed simp

lemma concat_string_pieces: "concat (string_pieces t) = quote t"
  by (simp add: string_pieces_def quote_def)

lemma json_text_simps:
  "json_text VNull = [0x6E, 0x75, 0x6C, 0x6C]"
  "json_text (VBool True) = [0x74, 0x72, 0x75, 0x65]"
  "json_text (VBool False) = [0x66, 0x61, 0x6C, 0x73, 0x65]"
  "json_text (VNumber d) = the (number_text d)"
  "json_text (VString t) = quote t"
  "json_text (VArray vs) = 0x5B # sep_text (map json_text vs) @ [0x5D]"
  "json_text (VObject kvs) =
     0x7B # sep_text (map (\<lambda>(k, v). quote k @ 0x3A # json_text v) kvs) @ [0x7D]"
  by (simp_all add: json_text_def [abs_def] concat_separated concat_string_pieces ascii_def comp_def
      case_prod_unfold)

lemma sep_text_Cons: "ts \<noteq> [] \<Longrightarrow> sep_text (t # ts) = t @ 0x2C # sep_text ts"
  by (cases ts) simp_all

section \<open>Strings\<close>

lemma hex4_head: "ten__json_parse_hex4 (a # b # c # d # r) = ten__json_parse_hex4 [a, b, c, d]"
  by (simp add: ten__json_parse_hex4_def)

lemma control_escape:
  assumes "c < 0x20" "c \<noteq> 0"
  shows "unicode_escape (0x30 # 0x30 # hex_pair c @ r) = Some ([c], r)"
proof -
  obtain x y where xy: "hex_pair c = [x, y]" by (simp add: hex_pair_def)
  let ?P = "\<lambda>c. ten__json_parse_hex4 (0x30 # 0x30 # hex_pair c) = Some (ucast c) \<and>
      ucast c < (0xD800 :: u32) \<and> codepoint_text (ucast c) = [c]"
  have "list_all ?P (map of_nat [1..<32])" by code_simp
  moreover have "c \<in> set (map of_nat [1..<32])"
  proof -
    have "unat c \<in> set [1..<32]"
      using assms by (auto simp: word_less_nat_alt Suc_le_eq unat_gt_0)
    then have "of_nat (unat c) \<in> set (map (of_nat :: nat \<Rightarrow> byte) [1..<32])"
      unfolding set_map by (rule imageI)
    then show ?thesis by simp
  qed
  ultimately have "?P c" by (simp only: list_all_iff)
  then have "ten__json_parse_hex4 [0x30, 0x30, x, y] = Some (ucast c)"
      "\<not> ucast c \<ge> (0xD800 :: u32)" "codepoint_text (ucast c) = [c]"
    unfolding xy by (auto simp: not_le)
  then show ?thesis
    by (simp add: unicode_escape_def xy hex4_head [of _ _ _ _ r] Let_def)
qed

lemma escape_step:
  assumes "c \<noteq> 0"
  shows "json_string_step (escape_byte c @ r) = Some ([c], r) \<and> escape_byte c \<noteq> [] \<and> hd (escape_byte c) \<noteq> 0x22"
  using control_escape [OF _ assms, of r]
  by (auto simp: escape_byte_def json_string_step_def Let_def)

lemma scan_quote:
  "0 \<notin> set t \<Longrightarrow> string_scan (concat (map escape_byte t) @ 0x22 # rest) = (map (\<lambda>c. [c]) t, True, 0x22 # rest)"
proof (induction t)
  case Nil
  then show ?case by (simp add: scan_simps)
next
  case (Cons c t)
  then have "c \<noteq> 0" by auto
  from escape_step [OF this, of "concat (map escape_byte t) @ 0x22 # rest"] Cons show ?case
    by (subst scan_simps(3)) auto
qed

lemma quoted_quote: "0 \<notin> set t \<Longrightarrow> quoted_string (quote t @ rest) = Some (t, rest)"
  by (simp add: quoted_string_def quote_def scan_quote)

section \<open>Values\<close>

text \<open>How the text of a value starts.\<close>

definition starts_value :: "byte \<Rightarrow> bool" where
  "starts_value c \<longleftrightarrow> c = 0x6E \<or> c = 0x74 \<or> c = 0x66 \<or> c = 0x22 \<or> c = 0x5B \<or> c = 0x7B \<or> c = 0x2D \<or> is_digit c"

lemma format_lld_start:
  obtains c u where "format_lld i = c # u" "c = 0x2D \<or> is_digit c"
  by (metis format_lld_def nat_digits_Cons)

lemma json_text_start:
  assumes "plain v"
  obtains c u where "json_text v = c # u" "starts_value c"
proof (cases v)
  case (VNumber d)
  then obtain i where i: "number_text d = Some (format_lld i)"
    using assms plain_number_obtains by (metis plain.simps(3))
  obtain c u where "format_lld i = c # u" "c = 0x2D \<or> is_digit c" by (rule format_lld_start)
  then show thesis using that VNumber i by (auto simp: json_text_simps starts_value_def)
next
  case (VBool b)
  then show thesis using that by (cases b) (auto simp: json_text_simps starts_value_def)
qed (use that in \<open>auto simp: json_text_simps quote_def starts_value_def\<close>)

lemma skip_start: "starts_value c \<Longrightarrow> ten__json_skip_ws (c # u) = c # u"
  by (auto simp: starts_value_def is_digit_def)

lemma skip_punct [simp]:
  "ten__json_skip_ws (0x2C # u) = 0x2C # u" "ten__json_skip_ws (0x5D # u) = 0x5D # u"
  "ten__json_skip_ws (0x7D # u) = 0x7D # u" "ten__json_skip_ws (0x3A # u) = 0x3A # u"
  "ten__json_skip_ws (0x22 # u) = 0x22 # u"
  by simp_all

lemma json_text_pos: "plain v \<Longrightarrow> 0 < length (json_text v)"
  by (rule json_text_start) auto

text \<open>The parser reads the text of \<open>v\<close> and stops behind it, given fuel for its length.\<close>

definition reads :: "json_value \<Rightarrow> bool" where
  "reads v \<longleftrightarrow> (\<forall>n rest. 2 * length (json_text v) \<le> n \<longrightarrow> ends_number rest \<longrightarrow>
     value_of n (json_text v @ rest) = Some (v, rest))"

lemma reads_scalar:
  "(\<And>m rest. ends_number rest \<Longrightarrow> value_of (Suc m) (json_text v @ rest) = Some (v, rest)) \<Longrightarrow>
   0 < length (json_text v) \<Longrightarrow> reads v"
  unfolding reads_def by (intro allI impI, case_tac n) auto

lemma reads_number:
  assumes "plain_number d"
  shows "reads (VNumber d)"
  unfolding reads_def
proof (intro allI impI)
  fix n rest
  assume n: "2 * length (json_text (VNumber d)) \<le> n" and rest: "ends_number rest"
  obtain i where i: "d = double_of_int i" "number_text d = Some (format_lld i)"
    using assms by (rule plain_number_obtains)
  obtain c u where c: "format_lld i = c # u" "c = 0x2D \<or> is_digit c" by (rule format_lld_start)
  obtain m where m: "n = Suc m" using n i c by (cases n) (auto simp: json_text_simps)
  have "strtod (c # u @ rest) = Some (d, rest)"
    using strtod_format_lld [OF rest, of i] c(1) i(1) by simp
  moreover have "ten__json_skip_ws (c # u @ rest) = c # u @ rest"
    using c(2) by (intro skip_start) (auto simp: starts_value_def)
  ultimately show "value_of n (json_text (VNumber d) @ rest) = Some (VNumber d, rest)"
    using c i m by (auto simp: json_text_simps Let_def is_digit_def)
qed

lemma array_reads:
  "vs \<noteq> [] \<Longrightarrow> \<forall>v \<in> set vs. reads v \<and> plain v \<Longrightarrow> 2 * length (sep_text (map json_text vs)) + 2 \<le> n \<Longrightarrow>
   array_of n acc (sep_text (map json_text vs) @ 0x5D # rest) = Some (VArray (acc @ vs), rest)"
proof (induction vs arbitrary: n acc)
  case (Cons v vs)
  obtain m where m: "n = Suc m" using Cons.prems(3) by (cases n) auto
  have pos: "0 < length (json_text v)" using Cons.prems(2) json_text_pos by auto
  show ?case
  proof (cases "vs = []")
    case True
    then have "value_of m (json_text v @ 0x5D # rest) = Some (v, 0x5D # rest)"
      using Cons.prems m by (auto simp: reads_def ends_number_def)
    then show ?thesis using True m by (simp add: Let_def)
  next
    case False
    have split: "sep_text (map json_text (v # vs)) = json_text v @ 0x2C # sep_text (map json_text vs)"
      using False by (simp only: list.map) (rule sep_text_Cons, simp)
    have "value_of m (json_text v @ 0x2C # sep_text (map json_text vs) @ 0x5D # rest) =
        Some (v, 0x2C # sep_text (map json_text vs) @ 0x5D # rest)"
      using Cons.prems(2,3) m unfolding split by (auto simp: reads_def ends_number_def)
    moreover have "array_of m (acc @ [v]) (sep_text (map json_text vs) @ 0x5D # rest) =
        Some (VArray ((acc @ [v]) @ vs), rest)"
      using Cons.prems(2,3) False m pos unfolding split by (intro Cons.IH) auto
    ultimately show ?thesis using m unfolding split by (simp add: Let_def)
  qed
qed simp

lemma reads_array:
  assumes "\<forall>v \<in> set vs. reads v \<and> plain v"
  shows "reads (VArray vs)"
  unfolding reads_def
proof (intro allI impI)
  fix n rest
  assume n: "2 * length (json_text (VArray vs)) \<le> n"
  then obtain m where m: "n = Suc m" by (cases n) (auto simp: json_text_simps)
  show "value_of n (json_text (VArray vs) @ rest) = Some (VArray vs, rest)"
  proof (cases vs)
    case Nil
    then show ?thesis using m by (simp add: json_text_simps Let_def)
  next
    case (Cons v vs')
    have read: "array_of m [] (sep_text (map json_text vs) @ 0x5D # rest) = Some (VArray vs, rest)"
      using array_reads [of vs m "[]" rest] assms n m Cons by (simp add: json_text_simps)
    obtain c u where c: "json_text v = c # u" "starts_value c"
      using assms Cons json_text_start [of v] by auto
    have "sep_text (map json_text vs) = c # u @ concat (map (\<lambda>u. 0x2C # u) (map json_text vs'))"
      using c Cons by simp
    then show ?thesis
      using read m c(2) skip_start [OF c(2)] by (auto simp: json_text_simps Let_def starts_value_def is_digit_def)
  qed
qed

lemma update_new: "k \<notin> set (map fst al) \<Longrightarrow> AList.update k v al = al @ [(k, v)]"
  by (induction al) auto

abbreviation member_text :: "cstring \<times> json_value \<Rightarrow> cstring" where
  "member_text \<equiv> \<lambda>(k, v). quote k @ 0x3A # json_text v"

lemma object_reads:
  "kvs \<noteq> [] \<Longrightarrow> \<forall>kv \<in> set kvs. reads (snd kv) \<and> plain (snd kv) \<and> 0 \<notin> set (fst kv) \<Longrightarrow>
   distinct (map fst (acc @ kvs)) \<Longrightarrow> 2 * length (sep_text (map member_text kvs)) + 2 \<le> n \<Longrightarrow>
   object_of n acc (sep_text (map member_text kvs) @ 0x7D # rest) = Some (VObject (acc @ kvs), rest)"
proof (induction kvs arbitrary: n acc)
  case (Cons kv kvs)
  obtain k v where kv: "kv = (k, v)" by (cases kv)
  obtain m where m: "n = Suc m" using Cons.prems(4) by (cases n) auto
  have v: "reads v" "plain v" "0 \<notin> set k" using Cons.prems(2) kv by auto
  have upd: "AList.update k v acc = acc @ [(k, v)]"
    using Cons.prems(3) kv by (intro update_new) auto
  obtain c u where c: "json_text v = c # u" "starts_value c" using v(2) by (rule json_text_start)
  have q: "ten__json_skip_ws (quote k @ s) = quote k @ s" for s by (simp add: quote_def)
  show ?case
  proof (cases "kvs = []")
    case True
    then have "value_of m (json_text v @ 0x7D # rest) = Some (v, 0x7D # rest)"
      using Cons.prems(4) m v(1) kv by (auto simp: reads_def ends_number_def)
    then show ?thesis using True m kv upd by (simp add: q quoted_quote [OF v(3)] Let_def)
  next
    case False
    have split: "sep_text (map member_text (kv # kvs)) =
        quote k @ 0x3A # json_text v @ 0x2C # sep_text (map member_text kvs)"
      using False kv by (simp only: list.map) (subst sep_text_Cons, simp_all)
    have "value_of m (json_text v @ 0x2C # sep_text (map member_text kvs) @ 0x7D # rest) =
        Some (v, 0x2C # sep_text (map member_text kvs) @ 0x7D # rest)"
      using Cons.prems(4) m v(1) unfolding split by (auto simp: reads_def ends_number_def)
    moreover have "object_of m (acc @ [(k, v)]) (sep_text (map member_text kvs) @ 0x7D # rest) =
        Some (VObject ((acc @ [(k, v)]) @ kvs), rest)"
      using Cons.prems False m kv unfolding split by (intro Cons.IH) auto
    ultimately show ?thesis using m kv upd unfolding split by (simp add: q quoted_quote [OF v(3)] Let_def)
  qed
qed simp

lemma reads_object:
  assumes "\<forall>kv \<in> set kvs. reads (snd kv) \<and> plain (snd kv) \<and> 0 \<notin> set (fst kv)" "distinct (map fst kvs)"
  shows "reads (VObject kvs)"
  unfolding reads_def
proof (intro allI impI)
  fix n rest
  assume n: "2 * length (json_text (VObject kvs)) \<le> n"
  then obtain m where m: "n = Suc m" by (cases n) (auto simp: json_text_simps)
  show "value_of n (json_text (VObject kvs) @ rest) = Some (VObject kvs, rest)"
  proof (cases kvs)
    case Nil
    then show ?thesis using m by (simp add: json_text_simps Let_def)
  next
    case (Cons kv kvs')
    have read: "object_of m [] (sep_text (map member_text kvs) @ 0x7D # rest) = Some (VObject kvs, rest)"
      using object_reads [of kvs "[]" m rest] assms n m Cons by (simp add: json_text_simps)
    have "\<exists>u. sep_text (map member_text kvs) = 0x22 # u"
      using Cons by (cases kv) (simp add: quote_def)
    then show ?thesis using read m by (auto simp: json_text_simps Let_def)
  qed
qed

lemma plain_reads: "plain v \<Longrightarrow> reads v"
proof (induction v)
  case VNull
  show ?case by (rule reads_scalar) (simp_all add: json_text_simps Let_def ascii_def)
next
  case (VBool b)
  show ?case by (cases b; rule reads_scalar) (simp_all add: json_text_simps Let_def ascii_def)
next
  case (VNumber d)
  then show ?case by (simp add: reads_number)
next
  case (VString t)
  then have "quoted_string (0x22 # concat (map escape_byte t) @ 0x22 # rest) = Some (t, rest)" for rest
    using quoted_quote [of t rest] by (simp add: quote_def)
  then show ?case by (intro reads_scalar) (simp_all add: json_text_simps quote_def Let_def)
next
  case (VArray vs)
  then show ?case by (intro reads_array) (auto simp: list_all_iff)
next
  case (VObject kvs)
  then show ?case by (intro reads_object) (fastforce simp: list_all_iff)+
qed

lemma text_value_json_text: "plain v \<Longrightarrow> text_value (json_text v) = Some v"
  using plain_reads [of v] unfolding reads_def text_value_def
  by (auto simp: ends_number_def dest!: spec [where x = "2 * length (json_text v) + 1"] spec [where x = "[]"])

end
