(* ===== verification/Ten_Socket.thy ===== *)
theory Ten_Socket
  imports Ten_Buffer
begin

text \<open>
  Stream sockets (\<open>include/ten/socket.h\<close>, \<open>src/platform/posix/socket_posix.c\<close>). The operating
  system is a parameter given as data: a connection holds the fragments the peer's bytes arrive
  in, what each call of \<open>send\<close> will accept, and the bytes accepted so far; the resolver is a
  function from a host and a port to the addresses found, each with the connection that
  connecting to it gives or none. Every behaviour of a blocking stream socket is such a script:
  \<open>recv\<close> gives a non-empty part of what the peer has sent, nothing after the peer has closed,
  or fails, and \<open>send\<close> accepts a part of the bytes or fails.
\<close>

section \<open>Connections\<close>

record ten_socket =
  sk_incoming :: "byte list option list"
  sk_room :: "nat option list"
  sk_sent :: "byte list"

text \<open>\<open>recv\<close>: at most \<open>n\<close> bytes of the next fragment; \<open>None\<close> for a failure, no bytes at the end.\<close>

definition posix_recv :: "ten_socket \<Rightarrow> size_t \<Rightarrow> byte list option \<times> ten_socket" where
  "posix_recv s n =
     (case sk_incoming s of
        [] \<Rightarrow> (Some [], s)
      | None # fs \<Rightarrow> (None, s\<lparr>sk_incoming := fs\<rparr>)
      | Some f # fs \<Rightarrow>
          if length f \<le> unat n then (Some f, s\<lparr>sk_incoming := fs\<rparr>)
          else (Some (take (unat n) f), s\<lparr>sk_incoming := Some (drop (unat n) f) # fs\<rparr>))"

definition posix_send :: "ten_socket \<Rightarrow> byte list \<Rightarrow> nat option \<times> ten_socket" where
  "posix_send s data =
     (case sk_room s of
        [] \<Rightarrow> (Some (length data), s\<lparr>sk_sent := sk_sent s @ data\<rparr>)
      | None # rs \<Rightarrow> (None, s\<lparr>sk_room := rs\<rparr>)
      | Some k # rs \<Rightarrow> (Some (min k (length data)), s\<lparr>sk_room := rs, sk_sent := sk_sent s @ take k data\<rparr>))"

section \<open>Operations\<close>

text \<open>
  \<open>ten_socket_receive\<close> with the bytes it stores in the caller's buffer; \<open>buffer\<close> says whether
  there is one.
\<close>

definition ten_socket_receive ::
    "ten_socket option \<Rightarrow> bool \<Rightarrow> size_t \<Rightarrow> ten_world \<Rightarrow> int \<times> byte list \<times> ten_socket option \<times> ten_world" where
  "ten_socket_receive sock buffer sz w =
     (case sock of
        None \<Rightarrow> (-1, [], None, ten__set_error TEN_ERROR_NULL_ARGUMENT w)
      | Some s \<Rightarrow>
          if \<not> buffer \<and> sz > 0 then (-1, [], sock, ten__set_error TEN_ERROR_NULL_ARGUMENT w)
          else (case posix_recv s sz of
                  (None, s') \<Rightarrow> (-1, [], Some s', ten__set_error TEN_ERROR_NETWORK w)
                | (Some bs, s') \<Rightarrow> (int (length bs), bs, Some s', ten__set_error TEN_OK w)))"

definition ten_socket_send ::
    "ten_socket option \<Rightarrow> byte list option \<Rightarrow> size_t \<Rightarrow> ten_world \<Rightarrow> (int \<times> ten_socket option \<times> ten_world) option" where
  "ten_socket_send sock data sz w =
     (case sock of
        None \<Rightarrow> Some (-1, None, ten__set_error TEN_ERROR_NULL_ARGUMENT w)
      | Some s \<Rightarrow>
          if data = None \<and> sz > 0 then Some (-1, sock, ten__set_error TEN_ERROR_NULL_ARGUMENT w)
          else do {
            bytes \<leftarrow> c_object data sz;
            (case posix_send s bytes of
               (None, s') \<Rightarrow> Some (-1, Some s', ten__set_error TEN_ERROR_NETWORK w)
             | (Some n, s') \<Rightarrow> Some (int n, Some s', ten__set_error TEN_OK w))
          })"

definition sizeof_ten_socket :: size_t where
  "sizeof_ten_socket = 4"

definition ten__socket_wrap :: "ten_socket \<Rightarrow> ten_world \<Rightarrow> ten_socket option \<times> ten_world" where
  "ten__socket_wrap fd w =
     (let (sock, w1) = ten_malloc sizeof_ten_socket w
      in if is_Null sock then (None, w1) else (Some fd, w1))"

definition ten_socket_close :: "ten_socket option \<Rightarrow> ten_world \<Rightarrow> ten_world option" where
  "ten_socket_close sock w = (case sock of None \<Rightarrow> Some w | Some s \<Rightarrow> free_struct w)"

text \<open>The addresses of a host, in the order the resolver gives them; \<open>None\<close> if it fails.\<close>

type_synonym resolver = "cstring \<Rightarrow> u16 \<Rightarrow> ten_socket option list option"

primrec first_connected :: "ten_socket option list \<Rightarrow> ten_socket option" where
  "first_connected [] = None"
| "first_connected (a # as) = (case a of Some fd \<Rightarrow> Some fd | None \<Rightarrow> first_connected as)"

definition ten_tcp_connect ::
    "resolver \<Rightarrow> cstring option \<Rightarrow> u16 \<Rightarrow> ten_world \<Rightarrow> ten_socket option \<times> ten_world" where
  "ten_tcp_connect resolve host port w =
     (case host of
        None \<Rightarrow> (None, ten__set_error TEN_ERROR_NULL_ARGUMENT w)
      | Some h \<Rightarrow>
          (case resolve h port of
             None \<Rightarrow> (None, ten__set_error TEN_ERROR_NETWORK w)
           | Some addresses \<Rightarrow>
               (case first_connected addresses of
                  None \<Rightarrow> (None, ten__set_error TEN_ERROR_NETWORK w)
                | Some fd \<Rightarrow> ten__socket_wrap fd (ten__set_error TEN_OK w))))"

text \<open>
  A listening socket is bound to the first address that can be bound; here the resolver gives with
  each address the socket bound to it or none, and \<open>listen_rc\<close> is the answer of \<open>listen\<close>.
\<close>

definition ten_tcp_listen ::
    "resolver \<Rightarrow> int \<Rightarrow> cstring option \<Rightarrow> u16 \<Rightarrow> ten_world \<Rightarrow> ten_socket option \<times> ten_world" where
  "ten_tcp_listen resolve listen_rc host port w =
     (case host of
        None \<Rightarrow> (None, ten__set_error TEN_ERROR_NULL_ARGUMENT w)
      | Some h \<Rightarrow>
          (case resolve h port of
             None \<Rightarrow> (None, ten__set_error TEN_ERROR_NETWORK w)
           | Some addresses \<Rightarrow>
               (case first_connected addresses of
                  None \<Rightarrow> (None, ten__set_error TEN_ERROR_NETWORK w)
                | Some fd \<Rightarrow>
                    if listen_rc \<noteq> 0 then (None, ten__set_error TEN_ERROR_NETWORK w)
                    else ten__socket_wrap fd (ten__set_error TEN_OK w))))"

text \<open>\<open>accepted\<close> is the connection that \<open>accept\<close> gives, or none when it fails.\<close>

definition ten_tcp_accept :: "ten_socket option \<Rightarrow> ten_socket option \<Rightarrow> ten_world \<Rightarrow> ten_socket option \<times> ten_world" where
  "ten_tcp_accept server accepted w =
     (if server = None then (None, ten__set_error TEN_ERROR_NULL_ARGUMENT w)
      else (case accepted of
              None \<Rightarrow> (None, ten__set_error TEN_ERROR_NETWORK w)
            | Some fd \<Rightarrow> ten__socket_wrap fd (ten__set_error TEN_OK w)))"

text \<open>\<open>ready\<close> is the answer of \<open>select\<close>: negative for a failure, 0 when the time is over.\<close>

definition ten_socket_poll_readable :: "ten_socket option \<Rightarrow> int \<Rightarrow> ten_world \<Rightarrow> int \<times> ten_world" where
  "ten_socket_poll_readable sock ready w =
     (if sock = None then (-1, ten__set_error TEN_ERROR_NULL_ARGUMENT w)
      else if ready < 0 then (-1, ten__set_error TEN_ERROR_NETWORK w)
      else ((if ready > 0 then 1 else 0), ten__set_error TEN_OK w))"

text \<open>\<open>fd\<close> is the descriptor of the connection.\<close>

definition ten_socket_native_handle :: "ten_socket option \<Rightarrow> int \<Rightarrow> ten_world \<Rightarrow> int \<times> ten_world" where
  "ten_socket_native_handle sock fd w =
     (if sock = None then (-1, ten__set_error TEN_ERROR_NULL_ARGUMENT w) else (fd, ten__set_error TEN_OK w))"

section \<open>The stream of a connection\<close>

text \<open>The bytes that can still be received before the peer closes or the connection fails.\<close>

fun stream :: "byte list option list \<Rightarrow> byte list" where
  "stream [] = []"
| "stream (None # fs) = []"
| "stream (Some [] # fs) = []"
| "stream (Some f # fs) = f @ stream fs"

text \<open>
  What a call of \<open>recv\<close> does with it: it takes at least one byte and at most \<open>n\<close>, and when
  there is none it gives none.
\<close>

lemma receive_cases [consumes 1, case_names received ended]:
  assumes "0 < n"
  obtains (received) bs s' where "ten_socket_receive (Some s) True n w = (int (length bs), bs, Some s', ten__set_error TEN_OK w)"
      "bs \<noteq> []" "length bs \<le> unat n" "stream (sk_incoming s) = bs @ stream (sk_incoming s')"
      "sk_sent s' = sk_sent s" "sk_room s' = sk_room s"
  | (ended) k s' c where "ten_socket_receive (Some s) True n w = (k, [], Some s', ten__set_error c w)"
      "k \<le> 0" "stream (sk_incoming s) = []" "sk_sent s' = sk_sent s" "sk_room s' = sk_room s"
proof (cases "sk_incoming s" rule: stream.cases)
  case (4 b bs fs)
  have n: "unat n \<noteq> 0" using assms by (simp add: unat_gt_0 [symmetric] word_gt_0)
  show thesis
  proof (cases "length (b # bs) \<le> unat n")
    case True
    then show thesis
      using 4 by (intro received [of "b # bs" "s\<lparr>sk_incoming := fs\<rparr>"]) (simp_all add: ten_socket_receive_def posix_recv_def)
  next
    case False
    let ?s' = "s\<lparr>sk_incoming := Some (drop (unat n) (b # bs)) # fs\<rparr>"
    have "drop (unat n) (b # bs) \<noteq> []" using False by simp
    then have "stream (sk_incoming ?s') = drop (unat n) (b # bs) @ stream fs"
      by (cases "drop (unat n) (b # bs)") simp_all
    then have "stream (sk_incoming s) = take (unat n) (b # bs) @ stream (sk_incoming ?s')"
      using 4 by (simp flip: append_assoc)
    then show thesis
      using 4 False n by (intro received [of "take (unat n) (b # bs)" ?s'])
        (auto simp: ten_socket_receive_def posix_recv_def)
  qed
next
  case 1
  then show thesis by (intro ended [of 0 s TEN_OK]) (simp_all add: ten_socket_receive_def posix_recv_def)
next
  case (2 fs)
  then show thesis by (intro ended [of "-1" "s\<lparr>sk_incoming := fs\<rparr>" TEN_ERROR_NETWORK])
      (simp_all add: ten_socket_receive_def posix_recv_def)
next
  case (3 fs)
  then show thesis by (intro ended [of 0 "s\<lparr>sk_incoming := fs\<rparr>" TEN_OK])
      (simp_all add: ten_socket_receive_def posix_recv_def)
qed

section \<open>Sending\<close>

lemma send_cases [consumes 1, case_names accepted failed]:
  assumes "length d < 2 ^ 64"
  obtains (accepted) k s' where
      "ten_socket_send (Some s) (Some d) (of_nat (length d)) w = Some (int k, Some s', ten__set_error TEN_OK w)"
      "k \<le> length d" "sk_sent s' = sk_sent s @ take k d" "sk_incoming s' = sk_incoming s"
      "sk_room s = [] \<longrightarrow> k = length d \<and> sk_room s' = []"
  | (failed) s' where
      "ten_socket_send (Some s) (Some d) (of_nat (length d)) w = Some (-1, Some s', ten__set_error TEN_ERROR_NETWORK w)"
      "sk_sent s' = sk_sent s" "sk_incoming s' = sk_incoming s" "sk_room s \<noteq> []"
proof (cases "sk_room s")
  case Nil
  then show thesis
    using assms by (intro accepted [of "length d" "s\<lparr>sk_sent := sk_sent s @ d\<rparr>"])
      (simp_all add: ten_socket_send_def posix_send_def c_object_whole)
next
  case (Cons a rs)
  show thesis
  proof (cases a)
    case None
    then show thesis
      using assms Cons by (intro failed [of "s\<lparr>sk_room := rs\<rparr>"])
        (simp_all add: ten_socket_send_def posix_send_def c_object_whole)
  next
    case (Some k)
    then show thesis
      using assms Cons by (intro accepted [of "min k (length d)" "s\<lparr>sk_room := rs, sk_sent := sk_sent s @ take k d\<rparr>"])
        (simp_all add: ten_socket_send_def posix_send_def c_object_whole min_def)
  qed
qed

end
