(* ===== verification/Ten_Http_Headers.thy ===== *)
theory Ten_Http_Headers
  imports Ten_String Ten_Contract
begin

text \<open>
  The header list of an HTTP message (\<open>src/http/http.c\<close>, the utilities at its start): a block of
  pairs of C strings that grows by doubling, searched from its start with a comparison that
  ignores the case of ASCII letters. A list of headers represents the association list of its
  pairs in the order of first insertion (\<open>headers_rep\<close>).
\<close>

section \<open>Comparison of names\<close>

definition ci_fold :: "byte \<Rightarrow> byte" where
  "ci_fold c = (if 0x41 \<le> c \<and> c \<le> 0x5A then c - 0x41 + 0x61 else c)"

text \<open>The difference of the first bytes that differ when folded; at the end of one string, of
  the bytes as they are.\<close>

fun ten__ci_strcmp :: "cstring \<Rightarrow> cstring \<Rightarrow> int" where
  "ten__ci_strcmp (a # as) (b # bs) =
     (if ci_fold a \<noteq> ci_fold b then uint (ci_fold a) - uint (ci_fold b) else ten__ci_strcmp as bs)"
| "ten__ci_strcmp [] [] = 0"
| "ten__ci_strcmp [] (b # bs) = - uint b"
| "ten__ci_strcmp (a # as) [] = uint a"

definition ci_equal :: "cstring \<Rightarrow> cstring \<Rightarrow> bool" where
  "ci_equal a b \<longleftrightarrow> map ci_fold a = map ci_fold b"

lemma ci_strcmp_equal:
  "0 \<notin> set a \<Longrightarrow> 0 \<notin> set b \<Longrightarrow> ten__ci_strcmp a b = 0 \<longleftrightarrow> ci_equal a b"
  by (induction a b rule: ten__ci_strcmp.induct) (auto simp: ci_equal_def uint_0_iff dest: unsigned_word_eqI)

lemma ci_equal_refl [simp]: "ci_equal a a"
  by (simp add: ci_equal_def)

section \<open>The header list\<close>

record ten__http_header_pair_t =
  hp_name :: "byte ptr"
  hp_value :: "byte ptr"

record http_headers =
  hh_pairs :: "ten__http_header_pair_t ptr"
  hh_count :: size_t
  hh_capacity :: size_t

definition no_headers :: http_headers where
  "no_headers = \<lparr>hh_pairs = Null, hh_count = 0, hh_capacity = 0\<rparr>"

definition sizeof_header_pair :: size_t where
  "sizeof_header_pair = 16"

definition pair_at :: "ten__http_header_pair_t ptr \<Rightarrow> size_t \<Rightarrow> ten__http_header_pair_t option" where
  "pair_at p i = do { xs \<leftarrow> block_values (unat i) 1 p; Some (hd xs) }"

text \<open>The search shared by setting and getting, \<open>k\<close> pairs before its end.\<close>

primrec header_index :: "nat \<Rightarrow> size_t \<Rightarrow> ten__http_header_pair_t ptr \<Rightarrow> cstring \<Rightarrow> size_t option option" where
  "header_index 0 i headers name = Some None"
| "header_index (Suc k) i headers name = do {
     pair \<leftarrow> pair_at headers i;
     n \<leftarrow> c_string (block_cells (hp_name pair));
     if ten__ci_strcmp n name = 0 then Some (Some i) else header_index k (i + 1) headers name
   }"

definition headers_grow ::
    "http_headers \<Rightarrow> ten_world \<Rightarrow> (ten_error_code \<times> http_headers \<times> ten_world) option" where
  "headers_grow h w =
     (if hh_count h = hh_capacity h
      then do {
        let new_capacity = (if hh_capacity h = 0 then 4 else hh_capacity h * 2);
        (new_headers, old_headers, w1) \<leftarrow>
          ten_realloc sizeof_header_pair (hh_pairs h) (new_capacity * sizeof_header_pair) w;
        if is_Null new_headers then Some (TEN_ERROR_OUT_OF_MEMORY, h\<lparr>hh_pairs := old_headers\<rparr>, w1)
        else Some (TEN_OK, h\<lparr>hh_pairs := new_headers, hh_capacity := new_capacity\<rparr>, w1)
      }
      else Some (TEN_OK, h, w))"

definition ten__http_headers_set ::
    "http_headers \<Rightarrow> cstring \<Rightarrow> cstring \<Rightarrow> ten_world \<Rightarrow>
     (ten_error_code \<times> http_headers \<times> ten_world) option" where
  "ten__http_headers_set h name value w = do {
     found \<leftarrow> header_index (unat (hh_count h)) 0 (hh_pairs h) name;
     (case found of
        Some i \<Rightarrow> do {
          (value_copy, w1) \<leftarrow> ten_memdup (Some (value @ [0])) (strlen value + 1) w;
          if is_Null value_copy then Some (TEN_ERROR_OUT_OF_MEMORY, h, w1)
          else do {
            pair \<leftarrow> pair_at (hh_pairs h) i;
            w2 \<leftarrow> ten_free (hp_value pair) w1;
            p \<leftarrow> block_write (unat i) [Some (pair\<lparr>hp_value := value_copy\<rparr>)] (hh_pairs h);
            Some (TEN_OK, h\<lparr>hh_pairs := p\<rparr>, w2)
          }
        }
      | None \<Rightarrow> do {
          (rc, h1, w1) \<leftarrow> headers_grow h w;
          if rc \<noteq> TEN_OK then Some (rc, h1, w1)
          else do {
            (name_copy, w2) \<leftarrow> ten_memdup (Some (name @ [0])) (strlen name + 1) w1;
            if is_Null name_copy then Some (TEN_ERROR_OUT_OF_MEMORY, h1, w2)
            else do {
              (value_copy, w3) \<leftarrow> ten_memdup (Some (value @ [0])) (strlen value + 1) w2;
              if is_Null value_copy
              then do { w4 \<leftarrow> ten_free name_copy w3; Some (TEN_ERROR_OUT_OF_MEMORY, h1, w4) }
              else do {
                p \<leftarrow> block_write (unat (hh_count h1)) [Some \<lparr>hp_name = name_copy, hp_value = value_copy\<rparr>] (hh_pairs h1);
                Some (TEN_OK, h1\<lparr>hh_pairs := p, hh_count := hh_count h1 + 1\<rparr>, w3)
              }
            }
          }
        })
   }"

definition ten__http_headers_get :: "http_headers \<Rightarrow> cstring \<Rightarrow> cstring option option" where
  "ten__http_headers_get h name = do {
     found \<leftarrow> header_index (unat (hh_count h)) 0 (hh_pairs h) name;
     (case found of
        Some i \<Rightarrow> do {
          pair \<leftarrow> pair_at (hh_pairs h) i;
          t \<leftarrow> c_string (block_cells (hp_value pair));
          Some (Some t)
        }
      | None \<Rightarrow> Some None)
   }"

definition ten__http_headers_free :: "http_headers \<Rightarrow> ten_world \<Rightarrow> ten_world option" where
  "ten__http_headers_free h w = do {
     w1 \<leftarrow> for_range (unat (hh_count h)) 0
       (\<lambda>i w. do {
          pair \<leftarrow> pair_at (hh_pairs h) i;
          wa \<leftarrow> ten_free (hp_name pair) w;
          ten_free (hp_value pair) wa
        }) w;
     ten_free (hh_pairs h) w1
   }"

section \<open>Representation\<close>

definition pair_of :: "cstring \<times> cstring \<Rightarrow> ten__http_header_pair_t" where
  "pair_of kv = \<lparr>hp_name = Block (c_bytes (fst kv)), hp_value = Block (c_bytes (snd kv))\<rparr>"

definition headers_rep :: "http_headers \<Rightarrow> (cstring \<times> cstring) list \<Rightarrow> bool" where
  "headers_rep h kvs \<longleftrightarrow>
     \<not> is_Dangling (hh_pairs h) \<and>
     length (block_cells (hh_pairs h)) = unat (hh_capacity h) \<and> unat (hh_capacity h) < 2 ^ 59 \<and>
     length kvs = unat (hh_count h) \<and> unat (hh_count h) \<le> unat (hh_capacity h) \<and>
     take (unat (hh_count h)) (block_cells (hh_pairs h)) = map (Some \<circ> pair_of) kvs \<and>
     (\<forall>(n, v) \<in> set kvs. cstr_ok n \<and> cstr_ok v)"

definition headers_owned :: "http_headers \<Rightarrow> int" where
  "headers_owned h = owned (hh_pairs h) + 2 * int (unat (hh_count h))"

text \<open>The specification: update in place at the first name that agrees, or at the end.\<close>

primrec header_update :: "cstring \<Rightarrow> cstring \<Rightarrow> (cstring \<times> cstring) list \<Rightarrow> (cstring \<times> cstring) list" where
  "header_update n v [] = [(n, v)]"
| "header_update n v (kv # kvs) =
     (if ci_equal (fst kv) n then (fst kv, v) # kvs else kv # header_update n v kvs)"

definition header_lookup :: "cstring \<Rightarrow> (cstring \<times> cstring) list \<Rightarrow> cstring option" where
  "header_lookup n kvs = map_option snd (find (\<lambda>kv. ci_equal (fst kv) n) kvs)"

lemma headers_rep_empty: "headers_rep no_headers []" "headers_owned no_headers = 0"
  by (simp_all add: headers_rep_def headers_owned_def no_headers_def)

lemma rep_small:
  "headers_rep h kvs \<Longrightarrow> length kvs < 2 ^ 59" "headers_rep h kvs \<Longrightarrow> unat (hh_count h) = length kvs"
  by (simp_all add: headers_rep_def)

lemma rep_index: "headers_rep h kvs \<Longrightarrow> i < length kvs \<Longrightarrow> unat (of_nat i :: size_t) = i"
  using rep_small(1) [of h kvs] by (intro unat_of_nat_size) simp

lemma pair_at_rep:
  assumes "headers_rep h kvs" "i < length kvs"
  shows "pair_at (hh_pairs h) (of_nat i) = Some (pair_of (kvs ! i))"
proof -
  obtain b where b: "hh_pairs h = Block b" "length b = unat (hh_capacity h)"
    using assms by (cases "hh_pairs h") (auto simp: headers_rep_def)
  have "take (length kvs) b = map Some (map pair_of kvs)" "length kvs \<le> length b"
    using assms b by (simp_all add: headers_rep_def)
  then have "block_values i 1 (hh_pairs h) = Some [pair_of (kvs ! i)]"
    using block_values_whole [of "map pair_of kvs" "length kvs" b i 1] assms(2)
    by (simp add: b(1) take_Suc_conv_app_nth Cons_nth_drop_Suc [symmetric] del: map_map)
  then show ?thesis using rep_index [OF assms] by (simp add: pair_at_def)
qed

text \<open>The search finds the first pair whose name agrees.\<close>

primrec first_index :: "cstring \<Rightarrow> (cstring \<times> cstring) list \<Rightarrow> nat option" where
  "first_index n [] = None"
| "first_index n (kv # kvs) = (if ci_equal (fst kv) n then Some 0 else map_option Suc (first_index n kvs))"

lemma header_index_from:
  assumes "headers_rep h kvs" "0 \<notin> set name" "j + k = length kvs"
  shows "header_index k (of_nat j) (hh_pairs h) name =
    Some (map_option (\<lambda>i. of_nat (j + i)) (first_index name (drop j kvs)))"
  using assms(3)
proof (induction k arbitrary: j)
  case (Suc k)
  then have j: "j < length kvs" by simp
  obtain n v where kv: "kvs ! j = (n, v)" by (cases "kvs ! j")
  have "(n, v) \<in> set kvs" using j kv by (metis nth_mem)
  then have ok: "0 \<notin> set n" using assms(1) by (auto simp: headers_rep_def cstr_ok_def)
  have "header_index k (of_nat (Suc j)) (hh_pairs h) name =
      Some (map_option (\<lambda>i. of_nat (Suc j + i)) (first_index name (drop (Suc j) kvs)))"
    using Suc.prems by (intro Suc.IH) simp
  moreover have "drop j kvs = (n, v) # drop (Suc j) kvs"
    using j kv by (metis Cons_nth_drop_Suc)
  ultimately show ?case
    using pair_at_rep [OF assms(1) j] kv ok ci_strcmp_equal [OF ok assms(2)]
    by (simp add: pair_of_def c_string_bytes option.map_comp o_def algebra_simps)
qed simp

lemma header_index_rep:
  "headers_rep h kvs \<Longrightarrow> 0 \<notin> set name \<Longrightarrow>
   header_index (unat (hh_count h)) 0 (hh_pairs h) name = Some (map_option of_nat (first_index name kvs))"
  using header_index_from [of h kvs name 0 "length kvs"] by (simp add: rep_small(2))

lemma first_index_None: "first_index n kvs = None \<Longrightarrow> header_update n v kvs = kvs @ [(n, v)]"
  by (induction kvs) (auto split: if_splits)

lemma first_index_Some:
  "first_index n kvs = Some i \<Longrightarrow> i < length kvs \<and>
   header_update n v kvs = kvs[i := (fst (kvs ! i), v)] \<and> header_lookup n kvs = Some (snd (kvs ! i))"
  by (induction kvs arbitrary: i) (auto simp: header_lookup_def split: if_splits)

lemma first_index_lookup: "first_index n kvs = None \<longleftrightarrow> header_lookup n kvs = None"
  by (induction kvs) (auto simp: header_lookup_def)

section \<open>The operations on represented lists\<close>

lemma memdup_text_cases [consumes 1, case_names copied refused]:
  assumes "cstr_ok t"
  obtains (copied) w' where "ten_memdup (Some (t @ [0])) (strlen t + 1) w = Some (Block (c_bytes t), w')"
      "g_ten_last_error w' = TEN_OK" "refusals w' = refusals w" "live w' = live w + 1"
  | (refused) w' where "ten_memdup (Some (t @ [0])) (strlen t + 1) w = Some (Null, w')"
      "g_ten_last_error w' = TEN_ERROR_OUT_OF_MEMORY" "refusals w' = Suc (refusals w)" "live w' = live w"
proof -
  have n: "(of_nat (length (t @ [0])) :: size_t) = strlen t + 1" by (simp add: strlen_def)
  have "length (t @ [0]) < 2 ^ 63" using assms by (simp add: cstr_ok_def)
  then show thesis
    by (cases rule: ten_memdup_cases [where d = "t @ [0]" and w = w, unfolded n])
      (use that in \<open>simp_all add: c_bytes_def\<close>)
qed

lemma headers_grow_spec:
  assumes rep: "headers_rep h kvs"
  shows "(\<exists>h' w'. headers_grow h w = Some (TEN_OK, h', w') \<and> headers_rep h' kvs \<and>
            hh_count h' = hh_count h \<and> unat (hh_count h') < unat (hh_capacity h') \<and> refusals w' = refusals w \<and>
            live w' - headers_owned h' = live w - headers_owned h) \<or>
         (\<exists>w'. headers_grow h w = Some (TEN_ERROR_OUT_OF_MEMORY, h, w') \<and>
            g_ten_last_error w' = TEN_ERROR_OUT_OF_MEMORY \<and> refusals w < refusals w' \<and> live w' = live w)"
proof (cases "hh_count h = hh_capacity h")
  case False
  then have "unat (hh_count h) < unat (hh_capacity h)"
    using rep by (auto simp: headers_rep_def size_eq_iff)
  with False rep show ?thesis by (simp add: headers_grow_def)
next
  case True
  define nc where "nc = (if hh_capacity h = 0 then 4 else hh_capacity h * 2)"
  have cap: "unat (hh_capacity h) < 2 ^ 59" using rep by (simp add: headers_rep_def)
  then have nc: "unat (hh_capacity h) < unat nc" "unat nc < 2 ^ 60"
    by (auto simp: nc_def unat_mult_size size_eq_iff)
  then have bytes: "unat (nc * sizeof_header_pair) = unat nc * 16"
    by (simp add: sizeof_header_pair_def unat_mult_size)
  have nd: "\<not> is_Dangling (hh_pairs h)" using rep by (simp add: headers_rep_def)
  have grow: "headers_grow h w = do {
      (new_headers, old_headers, w1) \<leftarrow> ten_realloc sizeof_header_pair (hh_pairs h) (nc * sizeof_header_pair) w;
      if is_Null new_headers then Some (TEN_ERROR_OUT_OF_MEMORY, h\<lparr>hh_pairs := old_headers\<rparr>, w1)
      else Some (TEN_OK, h\<lparr>hh_pairs := new_headers, hh_capacity := nc\<rparr>, w1) }"
    using True by (simp only: headers_grow_def Let_def if_True simp_thms nc_def [symmetric])
  from nd show ?thesis
  proof (cases rule: ten_realloc_cases [where n = "nc * sizeof_header_pair" and w = w and cs = sizeof_header_pair])
    case (granted w')
    let ?h = "h\<lparr>hh_pairs := Block (block_cells (hh_pairs h) @ replicate (unat nc - unat (hh_capacity h)) None),
                hh_capacity := nc\<rparr>"
    have "unat (nc * sizeof_header_pair) div unat sizeof_header_pair = unat nc"
      unfolding bytes by (simp add: sizeof_header_pair_def)
    moreover have "length (block_cells (hh_pairs h)) = unat (hh_capacity h)"
      using rep by (simp add: headers_rep_def)
    ultimately have "headers_grow h w = Some (TEN_OK, ?h, w')"
      using granted(2) nc(1) by (simp add: grow)
    moreover have "unat nc < 2 ^ 59" using granted(3) bytes by simp
    with nc(1) rep have "headers_rep ?h kvs" by (auto simp: headers_rep_def)
    ultimately show ?thesis
      using granted(5,6) nc(1) True by (auto simp: headers_owned_def)
  next
    case (refused w')
    then show ?thesis by (auto simp: grow)
  next
    case (emptied w')
    then show ?thesis using bytes nc(1) by (simp add: size_eq_iff)
  qed
qed

text \<open>Replacing the value of a pair, and adding one.\<close>

lemma headers_replace:
  assumes rep: "headers_rep h kvs" and i: "i < length kvs" and v: "cstr_ok v"
  shows "\<exists>p. block_write i [Some (pair_of (fst (kvs ! i), v))] (hh_pairs h) = Some p \<and>
    headers_rep (h\<lparr>hh_pairs := p\<rparr>) (kvs[i := (fst (kvs ! i), v)]) \<and> owned p = owned (hh_pairs h)"
proof -
  obtain b where b: "hh_pairs h = Block b"
    using rep i by (cases "hh_pairs h") (auto simp: headers_rep_def)
  have len: "length b = unat (hh_capacity h)" "length kvs \<le> length b"
    and eq: "take (length kvs) b = map (Some \<circ> pair_of) kvs"
    using rep b by (simp_all add: headers_rep_def)
  let ?x = "Some (pair_of (fst (kvs ! i), v))"
  have upd: "take i b @ [?x] @ drop (i + length [?x]) b = b[i := ?x]"
    using i len by (simp add: upd_conv_take_nth_drop)
  have "take (length kvs) (b[i := ?x]) = map (Some \<circ> pair_of) (kvs[i := (fst (kvs ! i), v)])"
    by (simp add: take_update_swap eq map_update)
  moreover have "\<forall>(n, u) \<in> set (kvs[i := (fst (kvs ! i), v)]). cstr_ok n \<and> cstr_ok u"
    using rep i v set_update_subset_insert [of kvs i] nth_mem [OF i]
    by (cases "kvs ! i") (fastforce simp: headers_rep_def)
  ultimately show ?thesis
    using rep i len b upd by (auto simp: headers_rep_def)
qed

lemma headers_append:
  assumes rep: "headers_rep h kvs" and room: "unat (hh_count h) < unat (hh_capacity h)"
    and kv: "cstr_ok n" "cstr_ok v"
  shows "\<exists>p. block_write (unat (hh_count h)) [Some (pair_of (n, v))] (hh_pairs h) = Some p \<and>
    headers_rep (h\<lparr>hh_pairs := p, hh_count := hh_count h + 1\<rparr>) (kvs @ [(n, v)]) \<and>
    headers_owned (h\<lparr>hh_pairs := p, hh_count := hh_count h + 1\<rparr>) = headers_owned h + 2"
proof -
  obtain b where b: "hh_pairs h = Block b"
    using rep room by (cases "hh_pairs h") (auto simp: headers_rep_def)
  have len: "length b = unat (hh_capacity h)" "unat (hh_count h) = length kvs"
    and eq: "take (length kvs) b = map (Some \<circ> pair_of) kvs" and cap: "unat (hh_capacity h) < 2 ^ 59"
    using rep b by (simp_all add: headers_rep_def)
  have "unat (hh_count h + 1) = Suc (length kvs)"
    using len cap room by (subst unat_add_size) simp_all
  then show ?thesis
    using rep kv b len eq room by (auto simp: headers_rep_def headers_owned_def)
qed

lemma headers_set_spec:
  assumes rep: "headers_rep h kvs" and n: "cstr_ok n" and v: "cstr_ok v"
  shows "(\<exists>h' w'. ten__http_headers_set h n v w = Some (TEN_OK, h', w') \<and> headers_rep h' (header_update n v kvs) \<and>
            refusals w' = refusals w \<and> live w' - headers_owned h' = live w - headers_owned h) \<or>
         (\<exists>h' w'. ten__http_headers_set h n v w = Some (TEN_ERROR_OUT_OF_MEMORY, h', w') \<and> headers_rep h' kvs \<and>
            refusals w < refusals w' \<and> live w' - headers_owned h' = live w - headers_owned h)"
proof (cases "first_index n kvs")
  case (Some i)
  note upd = first_index_Some [OF Some, of v]
  then have i: "i < length kvs" by simp
  have find: "header_index (unat (hh_count h)) 0 (hh_pairs h) n = Some (Some (of_nat i))"
    using header_index_rep [OF rep] n Some by (simp add: cstr_ok_def)
  have pair: "pair_at (hh_pairs h) (of_nat i) = Some (pair_of (kvs ! i))" by (rule pair_at_rep [OF rep i])
  from v show ?thesis
  proof (cases rule: memdup_text_cases [where w = w])
    case (copied w')
    obtain p where "block_write i [Some (pair_of (fst (kvs ! i), v))] (hh_pairs h) = Some p"
      "headers_rep (h\<lparr>hh_pairs := p\<rparr>) (kvs[i := (fst (kvs ! i), v)])" "owned p = owned (hh_pairs h)"
      using headers_replace [OF rep i v] by blast
    then show ?thesis
      using find pair copied upd rep_index [OF rep i]
      by (auto simp: ten__http_headers_set_def pair_of_def ten_free_def headers_owned_def)
  next
    case (refused w')
    then show ?thesis using find rep by (simp add: ten__http_headers_set_def)
  qed
next
  case None
  have find: "header_index (unat (hh_count h)) 0 (hh_pairs h) n = Some None"
    using header_index_rep [OF rep] n None by (simp add: cstr_ok_def)
  from headers_grow_spec [OF rep, of w] show ?thesis
  proof (elim disjE exE conjE)
    fix h1 w1
    assume grow: "headers_grow h w = Some (TEN_OK, h1, w1)" "headers_rep h1 kvs"
      "unat (hh_count h1) < unat (hh_capacity h1)" "refusals w1 = refusals w"
      "live w1 - headers_owned h1 = live w - headers_owned h"
    from n show ?thesis
    proof (cases rule: memdup_text_cases [where w = w1])
      case (copied w2)
      note name = copied
      from v show ?thesis
      proof (cases rule: memdup_text_cases [where w = w2])
        case (copied w3)
        obtain p where "block_write (unat (hh_count h1)) [Some (pair_of (n, v))] (hh_pairs h1) = Some p"
          "headers_rep (h1\<lparr>hh_pairs := p, hh_count := hh_count h1 + 1\<rparr>) (kvs @ [(n, v)])"
          "headers_owned (h1\<lparr>hh_pairs := p, hh_count := hh_count h1 + 1\<rparr>) = headers_owned h1 + 2"
          using headers_append [OF grow(2,3) n v] by blast
        then show ?thesis
          using find grow name copied first_index_None [OF None]
          by (auto simp: ten__http_headers_set_def pair_of_def)
      next
        case (refused w3)
        then show ?thesis using find grow name by (auto simp: ten__http_headers_set_def ten_free_def)
      qed
    next
      case (refused w2)
      then show ?thesis using find grow by (auto simp: ten__http_headers_set_def)
    qed
  next
    fix w1
    assume "headers_grow h w = Some (TEN_ERROR_OUT_OF_MEMORY, h, w1)" "refusals w < refusals w1" "live w1 = live w"
    then show ?thesis using find rep by (auto simp: ten__http_headers_set_def)
  qed
qed

lemma headers_get_spec:
  assumes rep: "headers_rep h kvs" and n: "0 \<notin> set n"
  shows "ten__http_headers_get h n = Some (header_lookup n kvs)"
proof (cases "first_index n kvs")
  case None
  then have "header_lookup n kvs = None" by (simp add: first_index_lookup)
  then show ?thesis
    using header_index_rep [OF rep n] None by (simp add: ten__http_headers_get_def)
next
  case (Some i)
  then have i: "i < length kvs" and l: "header_lookup n kvs = Some (snd (kvs ! i))"
    using first_index_Some [OF Some] by auto
  have "0 \<notin> set (snd (kvs ! i))"
    using rep nth_mem [OF i] by (cases "kvs ! i") (auto simp: headers_rep_def cstr_ok_def)
  then show ?thesis
    using header_index_rep [OF rep n] Some pair_at_rep [OF rep i] l
    by (simp add: ten__http_headers_get_def pair_of_def c_string_bytes)
qed

lemma headers_free_from:
  assumes "headers_rep h kvs" "j + k = length kvs"
  shows "\<exists>w'. for_range k (of_nat j)
       (\<lambda>i w. do { pair \<leftarrow> pair_at (hh_pairs h) i; wa \<leftarrow> ten_free (hp_name pair) w; ten_free (hp_value pair) wa }) w =
      Some w' \<and> live w' = live w - 2 * int k \<and> refusals w' = refusals w \<and> g_ten_last_error w' = g_ten_last_error w"
  using assms(2)
proof (induction k arbitrary: j w)
  case (Suc k)
  then have "j < length kvs" by simp
  moreover from Suc.IH [of "Suc j" "w\<lparr>live := live w - 1 - 1\<rparr>"] Suc.prems
  obtain w' where "for_range k (of_nat (Suc j))
       (\<lambda>i w. do { pair \<leftarrow> pair_at (hh_pairs h) i; wa \<leftarrow> ten_free (hp_name pair) w; ten_free (hp_value pair) wa })
       (w\<lparr>live := live w - 1 - 1\<rparr>) = Some w'" "live w' = live w - 2 - 2 * int k" "refusals w' = refusals w"
       "g_ten_last_error w' = g_ten_last_error w"
    by auto
  ultimately show ?case
    using pair_at_rep [OF assms(1)] by (simp add: pair_of_def ten_free_def add.commute)
qed simp

lemma headers_free_spec:
  assumes "headers_rep h kvs"
  shows "\<exists>w'. ten__http_headers_free h w = Some w' \<and> live w' = live w - headers_owned h \<and>
    refusals w' = refusals w \<and> g_ten_last_error w' = g_ten_last_error w"
proof -
  have "\<not> is_Dangling (hh_pairs h)" using assms by (simp add: headers_rep_def)
  with headers_free_from [OF assms, of 0 "length kvs" w] show ?thesis
    using ten_free_live [of "hh_pairs h"] rep_small(2) [OF assms]
    by (fastforce simp: ten__http_headers_free_def headers_owned_def)
qed

section \<open>The contract\<close>

datatype header_command = Header_Set cstring cstring | Header_Get cstring

datatype header_answer = Header_Rc ten_error_code | Header_Value "cstring option"

primrec header_step ::
    "header_command \<Rightarrow> http_headers \<Rightarrow> ten_world \<Rightarrow> (header_answer \<times> http_headers \<times> ten_world) option" where
  "header_step (Header_Set n v) h w = do {
     (rc, h1, w1) \<leftarrow> ten__http_headers_set h n v w; Some (Header_Rc rc, h1, w1) }"
| "header_step (Header_Get n) h w = do { t \<leftarrow> ten__http_headers_get h n; Some (Header_Value t, h, w) }"

primrec header_spec :: "header_command \<Rightarrow> (cstring \<times> cstring) list \<Rightarrow> header_answer \<times> (cstring \<times> cstring) list" where
  "header_spec (Header_Set n v) kvs = (Header_Rc TEN_OK, header_update n v kvs)"
| "header_spec (Header_Get n) kvs = (Header_Value (header_lookup n kvs), kvs)"

definition header_oom :: "header_command \<Rightarrow> header_answer" where
  "header_oom c = Header_Rc TEN_ERROR_OUT_OF_MEMORY"

primrec header_allowed :: "header_command \<Rightarrow> (cstring \<times> cstring) list \<Rightarrow> bool" where
  "header_allowed (Header_Set n v) kvs \<longleftrightarrow> cstr_ok n \<and> cstr_ok v"
| "header_allowed (Header_Get n) kvs \<longleftrightarrow> 0 \<notin> set n"

lemma header_step_law:
  assumes "headers_rep h kvs" "header_allowed c kvs"
  shows "\<exists>r h' w'. header_step c h w = Some (r, h', w') \<and> live w' - headers_owned h' = live w - headers_owned h \<and>
      (refusals w' = refusals w \<and> r = fst (header_spec c kvs) \<and> headers_rep h' (snd (header_spec c kvs)) \<or>
       refusals w < refusals w' \<and> r = header_oom c \<and> headers_rep h' kvs)"
proof (cases c)
  case (Header_Set n v)
  then show ?thesis
    using headers_set_spec [OF assms(1), of n v w] assms(2) by (auto simp: header_oom_def)
next
  case (Header_Get n)
  then show ?thesis using headers_get_spec [OF assms(1), of n] assms by simp
qed

interpretation header_component:
  ten_owned_component header_step header_spec header_oom headers_rep headers_owned header_allowed
    ten__http_headers_free
  by unfold_locales (blast intro: header_step_law dest: headers_free_spec)+

text \<open>The names of a list of headers stay distinct up to case, and the last value set is found.\<close>

lemma header_update_names:
  "map fst (header_update n v kvs) = (if header_lookup n kvs = None then map fst kvs @ [n] else map fst kvs)"
  by (induction kvs) (auto simp: header_lookup_def)

lemma header_lookup_update:
  "header_lookup m (header_update n v kvs) = (if ci_equal n m then Some v else header_lookup m kvs)"
  by (induction kvs) (auto simp: header_lookup_def ci_equal_def)

end
