(* ===== verification/Ten_Http_Message.thy ===== *)
theory Ten_Http_Message
  imports Ten_Http_Headers Ten_Buffer
begin

text \<open>
  HTTP requests and responses as objects (\<open>include/ten/http.h\<close>, \<open>src/http/http.c\<close>): creation,
  destruction, and the setters and getters of status, path, headers and body. A message
  represents a tuple of its method and path (or its status), its headers as an association
  list, and its body, which may be absent (\<open>request_rep\<close>, \<open>response_rep\<close>).
\<close>

section \<open>Methods and status codes\<close>

datatype ten_http_method_t =
    TEN_HTTP_GET
  | TEN_HTTP_POST
  | TEN_HTTP_PUT
  | TEN_HTTP_DELETE
  | TEN_HTTP_HEAD
  | TEN_HTTP_OPTIONS

primrec ten__http_method_name :: "ten_http_method_t \<Rightarrow> cstring" where
  "ten__http_method_name TEN_HTTP_GET = ascii ''GET''"
| "ten__http_method_name TEN_HTTP_POST = ascii ''POST''"
| "ten__http_method_name TEN_HTTP_PUT = ascii ''PUT''"
| "ten__http_method_name TEN_HTTP_DELETE = ascii ''DELETE''"
| "ten__http_method_name TEN_HTTP_HEAD = ascii ''HEAD''"
| "ten__http_method_name TEN_HTTP_OPTIONS = ascii ''OPTIONS''"

definition ten__http_method_parse :: "cstring \<Rightarrow> ten_http_method_t option" where
  "ten__http_method_parse s =
     (if s = ascii ''GET'' then Some TEN_HTTP_GET
      else if s = ascii ''POST'' then Some TEN_HTTP_POST
      else if s = ascii ''PUT'' then Some TEN_HTTP_PUT
      else if s = ascii ''DELETE'' then Some TEN_HTTP_DELETE
      else if s = ascii ''HEAD'' then Some TEN_HTTP_HEAD
      else if s = ascii ''OPTIONS'' then Some TEN_HTTP_OPTIONS
      else None)"

definition ten__http_status_text :: "int \<Rightarrow> cstring" where
  "ten__http_status_text status =
     (if status = 200 then ascii ''OK''
      else if status = 201 then ascii ''Created''
      else if status = 204 then ascii ''No Content''
      else if status = 301 then ascii ''Moved Permanently''
      else if status = 302 then ascii ''Found''
      else if status = 400 then ascii ''Bad Request''
      else if status = 401 then ascii ''Unauthorized''
      else if status = 403 then ascii ''Forbidden''
      else if status = 404 then ascii ''Not Found''
      else if status = 405 then ascii ''Method Not Allowed''
      else if status = 500 then ascii ''Internal Server Error''
      else if status = 501 then ascii ''Not Implemented''
      else if status = 503 then ascii ''Service Unavailable''
      else ascii ''Unknown'')"

lemma method_parse_name: "ten__http_method_parse (ten__http_method_name m) = Some m"
  by (cases m) (simp_all add: ten__http_method_parse_def ascii_def)

lemma method_name_parse: "ten__http_method_parse s = Some m \<Longrightarrow> s = ten__http_method_name m"
  by (auto simp: ten__http_method_parse_def split: if_splits)

section \<open>Requests\<close>

record ten_http_request =
  rq_method :: ten_http_method_t
  rq_path :: "byte ptr"
  rq_headers :: http_headers
  rq_body :: "ten_buffer option"

definition sizeof_ten_http_request :: size_t where
  "sizeof_ten_http_request = 56"

definition ten_http_request_create ::
    "ten_http_method_t \<Rightarrow> cstring option \<Rightarrow> ten_world \<Rightarrow> (ten_http_request option \<times> ten_world) option" where
  "ten_http_request_create meth path w =
     (case path of
        None \<Rightarrow> Some (None, ten__set_error TEN_ERROR_NULL_ARGUMENT w)
      | Some t \<Rightarrow>
          let (block, w1) = ten_malloc sizeof_ten_http_request w
          in if is_Null block then Some (None, w1)
             else do {
               (path_copy, w2) \<leftarrow> ten_memdup (Some (t @ [0])) (strlen t + 1) w1;
               if is_Null path_copy then do { w3 \<leftarrow> free_struct w2; Some (None, w3) }
               else Some (Some \<lparr>rq_method = meth, rq_path = path_copy, rq_headers = no_headers, rq_body = None\<rparr>,
                          ten__set_error TEN_OK w2)
             })"

definition ten_http_request_destroy :: "ten_http_request option \<Rightarrow> ten_world \<Rightarrow> ten_world option" where
  "ten_http_request_destroy req w =
     (case req of
        None \<Rightarrow> Some w
      | Some r \<Rightarrow> do {
          w1 \<leftarrow> ten_free (rq_path r) w;
          w2 \<leftarrow> ten__http_headers_free (rq_headers r) w1;
          w3 \<leftarrow> ten_buffer_destroy (rq_body r) w2;
          free_struct w3
        })"

definition ten_http_request_set_header ::
    "ten_http_request option \<Rightarrow> cstring option \<Rightarrow> cstring option \<Rightarrow> ten_world \<Rightarrow>
     (ten_error_code \<times> ten_http_request option \<times> ten_world) option" where
  "ten_http_request_set_header req name value w =
     (case (req, name, value) of
        (Some r, Some n, Some v) \<Rightarrow> do {
          (rc, h, w1) \<leftarrow> ten__http_headers_set (rq_headers r) n v w;
          Some (rc, Some (r\<lparr>rq_headers := h\<rparr>), w1)
        }
      | _ \<Rightarrow> Some (TEN_ERROR_NULL_ARGUMENT, req, ten__set_error TEN_ERROR_NULL_ARGUMENT w))"

text \<open>
  Setting a body, the same code for requests and responses: the body is created or cleared, and
  written. The result has the body as it is left.
\<close>

definition set_body ::
    "ten_buffer option \<Rightarrow> byte list option \<Rightarrow> size_t \<Rightarrow> ten_world \<Rightarrow>
     (ten_error_code \<times> ten_buffer option \<times> ten_world) option" where
  "set_body body data sz w =
     (case body of
        None \<Rightarrow>
          (case ten_buffer_create w of
             (None, w1) \<Rightarrow> Some (TEN_ERROR_OUT_OF_MEMORY, None, w1)
           | (Some b, w1) \<Rightarrow> ten_buffer_write (Some b) data sz w1)
      | Some b \<Rightarrow> ten_buffer_write (ten_buffer_clear (Some b)) data sz w)"

definition ten_http_request_set_body ::
    "ten_http_request option \<Rightarrow> byte list option \<Rightarrow> size_t \<Rightarrow> ten_world \<Rightarrow>
     (ten_error_code \<times> ten_http_request option \<times> ten_world) option" where
  "ten_http_request_set_body req data sz w =
     (case req of
        None \<Rightarrow> Some (TEN_ERROR_NULL_ARGUMENT, None, ten__set_error TEN_ERROR_NULL_ARGUMENT w)
      | Some r \<Rightarrow>
          if data = None \<and> sz > 0
          then Some (TEN_ERROR_NULL_ARGUMENT, req, ten__set_error TEN_ERROR_NULL_ARGUMENT w)
          else do {
            (rc, b, w1) \<leftarrow> set_body (rq_body r) data sz w;
            Some (rc, Some (r\<lparr>rq_body := b\<rparr>), w1)
          })"

definition ten_http_request_method :: "ten_http_request option \<Rightarrow> ten_world \<Rightarrow> ten_http_method_t \<times> ten_world" where
  "ten_http_request_method req w =
     (case req of
        None \<Rightarrow> (TEN_HTTP_GET, ten__set_error TEN_ERROR_NULL_ARGUMENT w)
      | Some r \<Rightarrow> (rq_method r, ten__set_error TEN_OK w))"

definition ten_http_request_path ::
    "ten_http_request option \<Rightarrow> ten_world \<Rightarrow> byte ptr \<times> ten_world" where
  "ten_http_request_path req w =
     (case req of
        None \<Rightarrow> (Null, ten__set_error TEN_ERROR_NULL_ARGUMENT w)
      | Some r \<Rightarrow> (rq_path r, ten__set_error TEN_OK w))"

definition ten_http_request_header ::
    "ten_http_request option \<Rightarrow> cstring option \<Rightarrow> ten_world \<Rightarrow> (cstring option \<times> ten_world) option" where
  "ten_http_request_header req name w =
     (case (req, name) of
        (Some r, Some n) \<Rightarrow> do {
          t \<leftarrow> ten__http_headers_get (rq_headers r) n;
          Some (t, ten__set_error TEN_OK w)
        }
      | _ \<Rightarrow> Some (None, ten__set_error TEN_ERROR_NULL_ARGUMENT w))"

text \<open>The body of a message: its bytes and their number in \<open>*out_size\<close>, which may be absent.\<close>

definition message_body ::
    "ten_buffer option \<Rightarrow> ten_world \<Rightarrow> byte ptr \<times> size_t option \<times> ten_world" where
  "message_body body w =
     (case body of
        None \<Rightarrow> (Null, Some 0, ten__set_error TEN_OK w)
      | Some b \<Rightarrow>
          let (n, w1) = ten_buffer_size (Some b) w; (p, w2) = ten_buffer_data (Some b) w1
          in (p, Some n, w2))"

definition ten_http_request_body ::
    "ten_http_request option \<Rightarrow> size_t option \<Rightarrow> ten_world \<Rightarrow> byte ptr \<times> size_t option \<times> ten_world" where
  "ten_http_request_body req out_size w =
     (case (req, out_size) of
        (Some r, Some _) \<Rightarrow> message_body (rq_body r) (ten__set_error TEN_OK w)
      | (_, None) \<Rightarrow> (Null, None, ten__set_error TEN_ERROR_NULL_ARGUMENT w)
      | _ \<Rightarrow> (Null, Some 0, ten__set_error TEN_ERROR_NULL_ARGUMENT w))"

section \<open>Responses\<close>

record ten_http_response =
  rs_status :: int
  rs_headers :: http_headers
  rs_body :: "ten_buffer option"

definition sizeof_ten_http_response :: size_t where
  "sizeof_ten_http_response = 40"

definition ten__http_response_create :: "ten_world \<Rightarrow> ten_http_response option \<times> ten_world" where
  "ten__http_response_create w =
     (let (resp, w1) = ten_malloc sizeof_ten_http_response w
      in if is_Null resp then (None, w1)
         else (Some \<lparr>rs_status = 200, rs_headers = no_headers, rs_body = None\<rparr>, w1))"

definition ten_http_response_destroy :: "ten_http_response option \<Rightarrow> ten_world \<Rightarrow> ten_world option" where
  "ten_http_response_destroy response w =
     (case response of
        None \<Rightarrow> Some w
      | Some r \<Rightarrow> do {
          w1 \<leftarrow> ten__http_headers_free (rs_headers r) w;
          w2 \<leftarrow> ten_buffer_destroy (rs_body r) w1;
          free_struct w2
        })"

definition ten_http_response_set_status ::
    "ten_http_response option \<Rightarrow> int \<Rightarrow> ten_world \<Rightarrow> ten_error_code \<times> ten_http_response option \<times> ten_world" where
  "ten_http_response_set_status response status_code w =
     (case response of
        None \<Rightarrow> (TEN_ERROR_NULL_ARGUMENT, None, ten__set_error TEN_ERROR_NULL_ARGUMENT w)
      | Some r \<Rightarrow> (TEN_OK, Some (r\<lparr>rs_status := status_code\<rparr>), ten__set_error TEN_OK w))"

definition ten_http_response_set_header ::
    "ten_http_response option \<Rightarrow> cstring option \<Rightarrow> cstring option \<Rightarrow> ten_world \<Rightarrow>
     (ten_error_code \<times> ten_http_response option \<times> ten_world) option" where
  "ten_http_response_set_header response name value w =
     (case (response, name, value) of
        (Some r, Some n, Some v) \<Rightarrow> do {
          (rc, h, w1) \<leftarrow> ten__http_headers_set (rs_headers r) n v w;
          Some (rc, Some (r\<lparr>rs_headers := h\<rparr>), w1)
        }
      | _ \<Rightarrow> Some (TEN_ERROR_NULL_ARGUMENT, response, ten__set_error TEN_ERROR_NULL_ARGUMENT w))"

definition ten_http_response_set_body ::
    "ten_http_response option \<Rightarrow> byte list option \<Rightarrow> size_t \<Rightarrow> ten_world \<Rightarrow>
     (ten_error_code \<times> ten_http_response option \<times> ten_world) option" where
  "ten_http_response_set_body response data sz w =
     (case response of
        None \<Rightarrow> Some (TEN_ERROR_NULL_ARGUMENT, None, ten__set_error TEN_ERROR_NULL_ARGUMENT w)
      | Some r \<Rightarrow>
          if data = None \<and> sz > 0
          then Some (TEN_ERROR_NULL_ARGUMENT, response, ten__set_error TEN_ERROR_NULL_ARGUMENT w)
          else do {
            (rc, b, w1) \<leftarrow> set_body (rs_body r) data sz w;
            Some (rc, Some (r\<lparr>rs_body := b\<rparr>), w1)
          })"

definition ten_http_response_status :: "ten_http_response option \<Rightarrow> ten_world \<Rightarrow> int \<times> ten_world" where
  "ten_http_response_status response w =
     (case response of
        None \<Rightarrow> (0, ten__set_error TEN_ERROR_NULL_ARGUMENT w)
      | Some r \<Rightarrow> (rs_status r, ten__set_error TEN_OK w))"

definition ten_http_response_header ::
    "ten_http_response option \<Rightarrow> cstring option \<Rightarrow> ten_world \<Rightarrow> (cstring option \<times> ten_world) option" where
  "ten_http_response_header response name w =
     (case (response, name) of
        (Some r, Some n) \<Rightarrow> do {
          t \<leftarrow> ten__http_headers_get (rs_headers r) n;
          Some (t, ten__set_error TEN_OK w)
        }
      | _ \<Rightarrow> Some (None, ten__set_error TEN_ERROR_NULL_ARGUMENT w))"

definition ten_http_response_body ::
    "ten_http_response option \<Rightarrow> size_t option \<Rightarrow> ten_world \<Rightarrow> byte ptr \<times> size_t option \<times> ten_world" where
  "ten_http_response_body response out_size w =
     (case (response, out_size) of
        (Some r, Some _) \<Rightarrow> message_body (rs_body r) (ten__set_error TEN_OK w)
      | (_, None) \<Rightarrow> (Null, None, ten__set_error TEN_ERROR_NULL_ARGUMENT w)
      | _ \<Rightarrow> (Null, Some 0, ten__set_error TEN_ERROR_NULL_ARGUMENT w))"

section \<open>Representation\<close>

fun body_rep :: "ten_buffer option \<Rightarrow> byte list option \<Rightarrow> bool" where
  "body_rep None None \<longleftrightarrow> True"
| "body_rep (Some b) (Some xs) \<longleftrightarrow> buffer_rep b xs"
| "body_rep _ _ \<longleftrightarrow> False"

primrec body_owned :: "ten_buffer option \<Rightarrow> int" where
  "body_owned None = 0"
| "body_owned (Some b) = buffer_owned b"

text \<open>What a request and a response stand for.\<close>

record request_value =
  req_method :: ten_http_method_t
  req_path :: cstring
  req_headers :: "(cstring \<times> cstring) list"
  req_body :: "byte list option"

record response_value =
  resp_status :: int
  resp_headers :: "(cstring \<times> cstring) list"
  resp_body :: "byte list option"

definition request_rep :: "ten_http_request \<Rightarrow> request_value \<Rightarrow> bool" where
  "request_rep r v \<longleftrightarrow>
     rq_method r = req_method v \<and> rq_path r = Block (c_bytes (req_path v)) \<and> cstr_ok (req_path v) \<and>
     headers_rep (rq_headers r) (req_headers v) \<and> body_rep (rq_body r) (req_body v)"

definition response_rep :: "ten_http_response \<Rightarrow> response_value \<Rightarrow> bool" where
  "response_rep r v \<longleftrightarrow>
     rs_status r = resp_status v \<and> headers_rep (rs_headers r) (resp_headers v) \<and> body_rep (rs_body r) (resp_body v)"

definition request_owned :: "ten_http_request \<Rightarrow> int" where
  "request_owned r = 1 + owned (rq_path r) + headers_owned (rq_headers r) + body_owned (rq_body r)"

definition response_owned :: "ten_http_response \<Rightarrow> int" where
  "response_owned r = 1 + headers_owned (rs_headers r) + body_owned (rs_body r)"

section \<open>The operations on represented messages\<close>

lemma body_destroy_spec:
  "body_rep b x \<Longrightarrow> \<exists>w'. ten_buffer_destroy b w = Some w' \<and> live w' = live w - body_owned b \<and>
     refusals w' = refusals w \<and> g_ten_last_error w' = g_ten_last_error w"
  by (cases b; cases x) (auto simp: ten_buffer_destroy_def [where buffer = None] dest!: buffer_destroy_spec [where w = w])

lemma request_create_spec:
  assumes "cstr_ok t"
  shows "(\<exists>r w'. ten_http_request_create m (Some t) w = Some (Some r, w') \<and>
            request_rep r \<lparr>req_method = m, req_path = t, req_headers = [], req_body = None\<rparr> \<and>
            g_ten_last_error w' = TEN_OK \<and> refusals w' = refusals w \<and> live w' - request_owned r = live w) \<or>
         (\<exists>w'. ten_http_request_create m (Some t) w = Some (None, w') \<and>
            g_ten_last_error w' = TEN_ERROR_OUT_OF_MEMORY \<and> refusals w < refusals w' \<and> live w' = live w)"
proof (cases rule: ten_malloc_cases [where n = sizeof_ten_http_request and w = w])
  case (granted w1)
  note block = granted
  from assms show ?thesis
  proof (cases rule: memdup_text_cases [where w = w1])
    case (copied w2)
    then show ?thesis
      using block assms headers_rep_empty
      by (auto simp: ten_http_request_create_def request_rep_def request_owned_def)
  next
    case (refused w2)
    then show ?thesis using block by (auto simp: ten_http_request_create_def)
  qed
next
  case (refused w1)
  then show ?thesis by (auto simp: ten_http_request_create_def)
qed

lemma response_create_spec:
  "(\<exists>r w'. ten__http_response_create w = (Some r, w') \<and>
      response_rep r \<lparr>resp_status = 200, resp_headers = [], resp_body = None\<rparr> \<and>
      g_ten_last_error w' = TEN_OK \<and> refusals w' = refusals w \<and> live w' - response_owned r = live w) \<or>
   (\<exists>w'. ten__http_response_create w = (None, w') \<and>
      g_ten_last_error w' = TEN_ERROR_OUT_OF_MEMORY \<and> refusals w < refusals w' \<and> live w' = live w)"
  by (cases rule: ten_malloc_cases [where n = sizeof_ten_http_response and w = w])
    (auto simp: ten__http_response_create_def response_rep_def response_owned_def headers_rep_empty)

text \<open>
  Destroying needs less than a represented request: the parser destroys requests whose path was
  never set.
\<close>

lemma request_destroy_parts:
  assumes "\<not> is_Dangling (rq_path r)" "headers_rep (rq_headers r) kvs" "body_rep (rq_body r) x"
  shows "\<exists>w'. ten_http_request_destroy (Some r) w = Some w' \<and> live w' = live w - request_owned r \<and>
    refusals w' = refusals w \<and> g_ten_last_error w' = g_ten_last_error w"
proof -
  obtain w1 where 1: "ten_free (rq_path r) w = Some w1" "live w1 = live w - owned (rq_path r)"
      "refusals w1 = refusals w" "g_ten_last_error w1 = g_ten_last_error w"
    using ten_free_live [OF assms(1), of w] by blast
  obtain w2 where 2: "ten__http_headers_free (rq_headers r) w1 = Some w2" "live w2 = live w1 - headers_owned (rq_headers r)"
      "refusals w2 = refusals w1" "g_ten_last_error w2 = g_ten_last_error w1"
    using headers_free_spec [OF assms(2), of w1] by blast
  obtain w3 where 3: "ten_buffer_destroy (rq_body r) w2 = Some w3" "live w3 = live w2 - body_owned (rq_body r)"
      "refusals w3 = refusals w2" "g_ten_last_error w3 = g_ten_last_error w2"
    using body_destroy_spec [OF assms(3), of w2] by blast
  from 1 2 3 show ?thesis by (simp add: ten_http_request_destroy_def request_owned_def)
qed

lemma request_destroy_spec:
  "request_rep r v \<Longrightarrow> \<exists>w'. ten_http_request_destroy (Some r) w = Some w' \<and> live w' = live w - request_owned r \<and>
    refusals w' = refusals w \<and> g_ten_last_error w' = g_ten_last_error w"
  by (rule request_destroy_parts [where kvs = "req_headers v" and x = "req_body v"]) (simp_all add: request_rep_def)

lemma response_destroy_spec:
  assumes "response_rep r v"
  shows "\<exists>w'. ten_http_response_destroy (Some r) w = Some w' \<and> live w' = live w - response_owned r \<and>
    refusals w' = refusals w \<and> g_ten_last_error w' = g_ten_last_error w"
proof -
  have parts: "headers_rep (rs_headers r) (resp_headers v)" "body_rep (rs_body r) (resp_body v)"
    using assms by (simp_all add: response_rep_def)
  obtain w1 where 1: "ten__http_headers_free (rs_headers r) w = Some w1" "live w1 = live w - headers_owned (rs_headers r)"
      "refusals w1 = refusals w" "g_ten_last_error w1 = g_ten_last_error w"
    using headers_free_spec [OF parts(1), of w] by blast
  obtain w2 where 2: "ten_buffer_destroy (rs_body r) w1 = Some w2" "live w2 = live w1 - body_owned (rs_body r)"
      "refusals w2 = refusals w1" "g_ten_last_error w2 = g_ten_last_error w1"
    using body_destroy_spec [OF parts(2), of w1] by blast
  from 1 2 show ?thesis by (simp add: ten_http_response_destroy_def response_owned_def)
qed

text \<open>
  A body that was refused memory is lost: it was cleared, or created empty, before the write.
\<close>

lemma set_body_spec:
  assumes "body_rep b x" "length d < 2 ^ 63"
  shows "(\<exists>b' w'. set_body b (Some d) (of_nat (length d)) w = Some (TEN_OK, b', w') \<and> body_rep b' (Some d) \<and>
            g_ten_last_error w' = TEN_OK \<and> refusals w' = refusals w \<and>
            live w' - body_owned b' = live w - body_owned b) \<or>
         (\<exists>b' w'. set_body b (Some d) (of_nat (length d)) w = Some (TEN_ERROR_OUT_OF_MEMORY, b', w') \<and>
            (body_rep b' None \<and> b = None \<or> body_rep b' (Some [])) \<and>
            g_ten_last_error w' = TEN_ERROR_OUT_OF_MEMORY \<and> refusals w < refusals w' \<and>
            live w' - body_owned b' = live w - body_owned b)"
proof (cases b)
  case None
  from buffer_create_spec [of w] show ?thesis
  proof (elim disjE exE conjE)
    fix b0 w1
    assume b0: "ten_buffer_create w = (Some b0, w1)" "buffer_rep b0 []" "refusals w1 = refusals w"
      "live w1 - buffer_owned b0 = live w"
    have "length ([] :: byte list) + length d < 2 ^ 63" using assms(2) by simp
    from buffer_write_spec [OF b0(2) this, of w1] show ?thesis
    proof (elim disjE exE conjE)
      fix b' w'
      assume "ten_buffer_write (Some b0) (Some d) (of_nat (length d)) w1 = Some (TEN_OK, Some b', w')"
        "buffer_rep b' ([] @ d)" "g_ten_last_error w' = TEN_OK" "refusals w' = refusals w1"
        "live w' - buffer_owned b' = live w1 - buffer_owned b0"
      then show ?thesis using None b0
        by (intro disjI1 exI [of _ "Some b'"] exI [of _ w']) (simp add: set_body_def)
    next
      fix w'
      assume "ten_buffer_write (Some b0) (Some d) (of_nat (length d)) w1 = Some (TEN_ERROR_OUT_OF_MEMORY, Some b0, w')"
        "g_ten_last_error w' = TEN_ERROR_OUT_OF_MEMORY" "refusals w1 < refusals w'" "live w' = live w1"
      then show ?thesis using None b0
        by (intro disjI2 exI [of _ "Some b0"] exI [of _ w']) (simp add: set_body_def)
    qed
  next
    fix w1
    assume "ten_buffer_create w = (None, w1)" "g_ten_last_error w1 = TEN_ERROR_OUT_OF_MEMORY"
      "refusals w < refusals w1" "live w1 = live w"
    then show ?thesis using None
      by (intro disjI2 exI [of _ None] exI [of _ w1]) (simp add: set_body_def)
  qed
next
  case (Some b0)
  then obtain xs where "buffer_rep b0 xs" using assms(1) by (cases x) auto
  then obtain b1 where b1: "ten_buffer_clear (Some b0) = Some b1" "buffer_rep b1 []" "buffer_owned b1 = buffer_owned b0"
    using buffer_clear_spec by blast
  have "length ([] :: byte list) + length d < 2 ^ 63" using assms(2) by simp
  from buffer_write_spec [OF b1(2) this, of w] show ?thesis
  proof (elim disjE exE conjE)
    fix b' w'
    assume "ten_buffer_write (Some b1) (Some d) (of_nat (length d)) w = Some (TEN_OK, Some b', w')"
      "buffer_rep b' ([] @ d)" "g_ten_last_error w' = TEN_OK" "refusals w' = refusals w"
      "live w' - buffer_owned b' = live w - buffer_owned b1"
    then show ?thesis using Some b1
      by (intro disjI1 exI [of _ "Some b'"] exI [of _ w']) (simp add: set_body_def)
  next
    fix w'
    assume "ten_buffer_write (Some b1) (Some d) (of_nat (length d)) w = Some (TEN_ERROR_OUT_OF_MEMORY, Some b1, w')"
      "g_ten_last_error w' = TEN_ERROR_OUT_OF_MEMORY" "refusals w < refusals w'" "live w' = live w"
    then show ?thesis using Some b1
      by (intro disjI2 exI [of _ "Some b1"] exI [of _ w']) (simp add: set_body_def)
  qed
qed

end
