(* ===== verification/Ten_Http_Read.thy ===== *)
theory Ten_Http_Read
  imports Ten_Socket Ten_Http_Message
begin

text \<open>
  Reading a message from a connection (\<open>src/http/http.c\<close>): the bytes up to the empty line that
  ends the headers, at most 64 KB and one chunk, and then the body by its content length. Both
  loops always end on a connection that the peer closes at some point; the first one ends on
  any, because of its bound.
\<close>

section \<open>The end of the headers\<close>

fun ten__find_crlf_crlf :: "byte list \<Rightarrow> nat option" where
  "ten__find_crlf_crlf (a # b # c # d # r) =
     (if a = 0x0D \<and> b = 0x0A \<and> c = 0x0D \<and> d = 0x0A then Some 0
      else map_option Suc (ten__find_crlf_crlf (b # c # d # r)))"
| "ten__find_crlf_crlf _ = None"

definition TEN_HTTP_MAX_HEADER_SIZE :: size_t where
  "TEN_HTTP_MAX_HEADER_SIZE = 64 * 1024"

text \<open>The first \<open>n\<close> bytes behind a pointer, which may be \<open>NULL\<close> when there are none.\<close>

definition bytes_at :: "byte ptr \<Rightarrow> size_t \<Rightarrow> byte list option" where
  "bytes_at p n = (if n = 0 then Some [] else block_values 0 (unat n) p)"

partial_function (option) ten__http_read_until_headers_end ::
    "ten_socket \<Rightarrow> ten_buffer \<Rightarrow> ten_world \<Rightarrow> (bool \<times> ten_socket \<times> ten_buffer \<times> ten_world) option" where
  "ten__http_read_until_headers_end sock raw w = do {
     let (p, w1) = ten_buffer_data (Some raw) w;
     let (size, w2) = ten_buffer_size (Some raw) w1;
     data \<leftarrow> bytes_at p size;
     if ten__find_crlf_crlf data \<noteq> None then Some (True, sock, raw, w2)
     else if size > TEN_HTTP_MAX_HEADER_SIZE then Some (False, sock, raw, w2)
     else do {
       let (n, chunk, sock1, w3) = ten_socket_receive (Some sock) True 4096 w2;
       s1 \<leftarrow> sock1;
       if n \<le> 0 then Some (False, s1, raw, w3)
       else do {
         (rc, raw1, w4) \<leftarrow> ten_buffer_write (Some raw) (Some chunk) (word_of_int n) w3;
         r1 \<leftarrow> raw1;
         if rc \<noteq> TEN_OK then Some (False, s1, r1, w4)
         else ten__http_read_until_headers_end s1 r1 w4
       }
     }
   }"

section \<open>The body\<close>

text \<open>The loop; \<open>content_length\<close> is a positive \<open>long\<close>, and the results of the writes are ignored.\<close>

partial_function (option) read_body_loop ::
    "ten_socket \<Rightarrow> int \<Rightarrow> ten_buffer \<Rightarrow> ten_world \<Rightarrow> (ten_socket \<times> ten_buffer \<times> ten_world) option" where
  "read_body_loop sock content_length body w = do {
     let (size, w1) = ten_buffer_size (Some body) w;
     if sint size < content_length
     then do {
       let remaining = word_of_int content_length - size;
       let to_read = (if remaining < 4096 then remaining else 4096);
       let (n, chunk, sock1, w2) = ten_socket_receive (Some sock) True to_read w1;
       s1 \<leftarrow> sock1;
       if n \<le> 0 then Some (s1, body, w2)
       else do {
         (rc, body1, w3) \<leftarrow> ten_buffer_write (Some body) (Some chunk) (word_of_int n) w2;
         b1 \<leftarrow> body1;
         read_body_loop s1 content_length b1 w3
       }
     }
     else Some (sock, body, w1)
   }"

definition ten__http_read_body ::
    "ten_socket \<Rightarrow> int \<Rightarrow> byte list \<Rightarrow> ten_world \<Rightarrow> (ten_buffer option \<times> ten_socket \<times> ten_world) option" where
  "ten__http_read_body sock content_length body_prefix w =
     (case ten_buffer_create w of
        (None, w1) \<Rightarrow> Some (None, sock, w1)
      | (Some body, w1) \<Rightarrow>
          if content_length \<le> 0 then Some (Some body, sock, w1)
          else do {
            let take_len = (if of_nat (length body_prefix) < (word_of_int content_length :: size_t)
                            then of_nat (length body_prefix) else word_of_int content_length);
            (body1, w2) \<leftarrow>
              (if take_len > 0
               then do { (rc, b, w2) \<leftarrow> ten_buffer_write (Some body) (Some body_prefix) take_len w1; Some (b, w2) }
               else Some (Some body, w1));
            b1 \<leftarrow> body1;
            (s1, b2, w3) \<leftarrow> read_body_loop sock content_length b1 w2;
            Some (Some b2, s1, w3)
          })"

section \<open>Finding the empty line\<close>

lemma find_crlf_Some:
  "ten__find_crlf_crlf xs = Some i \<Longrightarrow> i + 4 \<le> length xs \<and> take 4 (drop i xs) = [0x0D, 0x0A, 0x0D, 0x0A]"
  by (induction xs arbitrary: i rule: ten__find_crlf_crlf.induct) (auto split: if_splits)

lemma find_crlf_append:
  "ten__find_crlf_crlf xs = Some i \<Longrightarrow> ten__find_crlf_crlf (xs @ ys) = Some i"
  by (induction xs arbitrary: i rule: ten__find_crlf_crlf.induct) (auto split: if_splits)

lemma find_crlf_short: "length xs < 4 \<Longrightarrow> ten__find_crlf_crlf xs = None"
  by (cases xs rule: ten__find_crlf_crlf.cases) auto

lemma find_crlf_complete:
  "i + 4 \<le> length xs \<Longrightarrow> take 4 (drop i xs) = [0x0D, 0x0A, 0x0D, 0x0A] \<Longrightarrow> \<exists>j. ten__find_crlf_crlf xs = Some j \<and> j \<le> i"
proof (induction xs arbitrary: i rule: ten__find_crlf_crlf.induct)
  case (1 a b c d r)
  show ?case
  proof (cases i)
    case (Suc k)
    then have "take 4 (drop k (b # c # d # r)) = [0x0D, 0x0A, 0x0D, 0x0A]" "k + 4 \<le> length (b # c # d # r)"
      using "1.prems" by auto
    with "1.IH" Suc show ?thesis by force
  qed (use 1 in simp)
qed auto

text \<open>A part of the text that reaches over the first empty line has it at the same place.\<close>

lemma find_crlf_take:
  assumes "ten__find_crlf_crlf (xs @ ys) = Some i" "i + 4 \<le> length xs"
  shows "ten__find_crlf_crlf xs = Some i"
proof -
  have "take 4 (drop i xs) = [0x0D, 0x0A, 0x0D, 0x0A]"
    using find_crlf_Some [OF assms(1)] assms(2) by simp
  then obtain j where "ten__find_crlf_crlf xs = Some j"
    using find_crlf_complete assms(2) by blast
  with find_crlf_append [OF this, of ys] assms(1) show ?thesis by simp
qed

lemma buffer_bytes: "buffer_rep b xs \<Longrightarrow> bytes_at (b_data b) (b_size b) = Some xs"
  by (cases "b_data b") (auto simp: bytes_at_def buffer_rep_def block_values_eq_Some size_eq_iff)

section \<open>The loops\<close>

lemma chunk_size: "length bs < 2 ^ 64 \<Longrightarrow> (word_of_int (int (length bs)) :: size_t) = of_nat (length bs)"
  by simp

lemma chunk_write:
  assumes "buffer_rep b xs" "length xs + length d < 2 ^ 63"
  shows "\<exists>rc b' w' e. ten_buffer_write (Some b) (Some d) (word_of_int (int (length d))) w = Some (rc, Some b', w') \<and>
    buffer_rep b' (xs @ e) \<and> (e = d \<and> rc = TEN_OK \<and> refusals w' = refusals w \<or>
      e = [] \<and> rc \<noteq> TEN_OK \<and> refusals w < refusals w') \<and>
    live w' - buffer_owned b' = live w - buffer_owned b"
  using buffer_write_spec [OF assms, of w] assms(1)
  by (elim disjE exE conjE) (fastforce intro: exI [of _ d], fastforce intro: exI [of _ "[]"])

text \<open>
  One round of both loops: the stream has ended, or a chunk of it came and was stored, or was
  lost because the write was refused memory. Both loops go on from \<open>\<lambda>n chunk s w. rest\<close>.
\<close>

lemma receive_write_cases [consumes 3, case_names ended stored lost]:
  assumes "0 < n" "buffer_rep b xs" "length xs + unat n < 2 ^ 63"
  obtains (ended) k s1 c where "ten_socket_receive (Some s) True n w = (k, [], Some s1, ten__set_error c w)"
      "k \<le> 0" "stream (sk_incoming s) = []" "sk_sent s1 = sk_sent s" "sk_room s1 = sk_room s"
  | (stored) bs s1 w1 b1 w2 where "ten_socket_receive (Some s) True n w = (int (length bs), bs, Some s1, w1)"
      "ten_buffer_write (Some b) (Some bs) (word_of_int (int (length bs))) w1 = Some (TEN_OK, Some b1, w2)"
      "bs \<noteq> []" "length bs \<le> unat n" "stream (sk_incoming s) = bs @ stream (sk_incoming s1)"
      "sk_sent s1 = sk_sent s" "sk_room s1 = sk_room s"
      "buffer_rep b1 (xs @ bs)" "refusals w2 = refusals w" "live w2 - buffer_owned b1 = live w - buffer_owned b"
  | (lost) rc bs s1 w1 b1 w2 where "ten_socket_receive (Some s) True n w = (int (length bs), bs, Some s1, w1)"
      "ten_buffer_write (Some b) (Some bs) (word_of_int (int (length bs))) w1 = Some (rc, Some b1, w2)" "rc \<noteq> TEN_OK"
      "bs \<noteq> []" "length bs \<le> unat n" "stream (sk_incoming s) = bs @ stream (sk_incoming s1)"
      "sk_sent s1 = sk_sent s" "sk_room s1 = sk_room s"
      "buffer_rep b1 xs" "refusals w < refusals w2" "live w2 - buffer_owned b1 = live w - buffer_owned b"
  using assms(1)
proof (cases rule: receive_cases [where s = s and w = w])
  case (received bs s1)
  have "length xs + length bs < 2 ^ 63" using received(3) assms(3) by simp
  from chunk_write [OF assms(2) this, of "ten__set_error TEN_OK w"] obtain rc b1 w2 e where
    "ten_buffer_write (Some b) (Some bs) (word_of_int (int (length bs))) (ten__set_error TEN_OK w) = Some (rc, Some b1, w2)"
    "buffer_rep b1 (xs @ e)"
    "e = bs \<and> rc = TEN_OK \<and> refusals w2 = refusals w \<or> e = [] \<and> rc \<noteq> TEN_OK \<and> refusals w < refusals w2"
    "live w2 - buffer_owned b1 = live w - buffer_owned b"
    by auto
  then show thesis using stored [OF received(1)] lost [OF received(1)] received(2-) by auto
qed (rule ended)

text \<open>
  Reading until the headers end: what has been read is what was there and the next bytes of the
  stream, it ends after the empty line has come, the bound has been passed, the stream has ended
  or a write was refused.
\<close>

definition headers_read ::
    "nat \<Rightarrow> byte list \<Rightarrow> ten_socket \<Rightarrow> ten_buffer \<Rightarrow> ten_world \<Rightarrow> bool \<times> ten_socket \<times> ten_buffer \<times> ten_world \<Rightarrow> bool" where
  "headers_read k xs s raw w res \<longleftrightarrow> (case res of (ok, s', raw', w') \<Rightarrow>
    buffer_rep raw' (xs @ take k (stream (sk_incoming s))) \<and>
    length xs + k \<le> 65536 + 4096 \<and> k \<le> length (stream (sk_incoming s)) \<and>
    sk_sent s' = sk_sent s \<and> sk_room s' = sk_room s \<and> refusals w \<le> refusals w' \<and>
    live w' - buffer_owned raw' = live w - buffer_owned raw \<and>
    (if ok
     then stream (sk_incoming s') = drop k (stream (sk_incoming s)) \<and>
       ten__find_crlf_crlf (xs @ take k (stream (sk_incoming s))) \<noteq> None
     else refusals w < refusals w' \<or>
       ten__find_crlf_crlf (xs @ take k (stream (sk_incoming s))) = None \<and>
       (65536 < length xs + k \<or> k = length (stream (sk_incoming s)))))"

lemma headers_read_more:
  assumes "headers_read k (xs @ bs) s1 b1 w1 res" "stream (sk_incoming s) = bs @ stream (sk_incoming s1)"
    and "sk_sent s1 = sk_sent s" "sk_room s1 = sk_room s" "refusals w1 = refusals w"
    and "live w1 - buffer_owned b1 = live w - buffer_owned raw"
  shows "headers_read (length bs + k) xs s raw w res"
  using assms by (auto simp: headers_read_def split: prod.splits if_splits)

lemma read_headers_spec:
  assumes "buffer_rep raw xs" "length xs \<le> 65536 + 4096"
  shows "\<exists>k res. ten__http_read_until_headers_end s raw w = Some res \<and> headers_read k xs s raw w res"
  using assms
proof (induction "65536 + 4096 - length xs" arbitrary: xs s raw w rule: less_induct)
  case less
  let ?w = "ten__set_error TEN_OK w"
  have big: "b_size raw > TEN_HTTP_MAX_HEADER_SIZE \<longleftrightarrow> 65536 < length xs"
    using less.prems(1) by (simp add: buffer_rep_def size_nat TEN_HTTP_MAX_HEADER_SIZE_def)
  note run = ten__http_read_until_headers_end.simps [of s raw w] ten_buffer_data_def ten_buffer_size_def
    buffer_bytes [OF less.prems(1)] big
  show ?case
  proof (cases "ten__find_crlf_crlf xs \<noteq> None \<or> 65536 < length xs")
    case True
    then show ?thesis using less.prems by (auto simp: run headers_read_def intro!: exI [of _ 0])
  next
    case False
    then have small: "length xs \<le> 65536" by simp
    then have "0 < (4096 :: size_t)" "length xs + unat (4096 :: size_t) < 2 ^ 63" by simp_all
    from this(1) less.prems(1) this(2) show ?thesis
    proof (cases rule: receive_write_cases [where s = s and w = ?w])
      case (ended k s1 c)
      then show ?thesis using False less.prems by (auto simp: run headers_read_def intro!: exI [of _ 0])
    next
      case (lost rc bs s1 w1 b1 w2)
      then show ?thesis using False less.prems by (auto simp: run headers_read_def intro!: exI [of _ 0])
    next
      case (stored bs s1 w1 b1 w2)
      have "0 < length bs" using stored(3) by simp
      then have shorter: "65536 + 4096 - length (xs @ bs) < 65536 + 4096 - length xs"
        "length (xs @ bs) \<le> 65536 + 4096" using small stored(4) by (simp_all del: length_greater_0_conv)
      from less.hyps [OF shorter(1) stored(8) shorter(2), of s1 w2] obtain k res where
        "ten__http_read_until_headers_end s1 b1 w2 = Some res" "headers_read k (xs @ bs) s1 b1 w2 res" by blast
      then show ?thesis
        using False stored headers_read_more [of k xs bs s1 b1 w2 res s w raw] by (auto simp: run)
    qed
  qed
qed

lemma read_headers_start:
  assumes "buffer_rep raw []"
  obtains ok s' raw' w' k where "ten__http_read_until_headers_end s raw w = Some (ok, s', raw', w')"
    "buffer_rep raw' (take k (stream (sk_incoming s)))" "k \<le> 65536 + 4096" "k \<le> length (stream (sk_incoming s))"
    "sk_sent s' = sk_sent s" "sk_room s' = sk_room s" "refusals w \<le> refusals w'"
    "live w' - buffer_owned raw' = live w - buffer_owned raw"
    "ok \<Longrightarrow> stream (sk_incoming s') = drop k (stream (sk_incoming s))"
    "ok \<Longrightarrow> ten__find_crlf_crlf (take k (stream (sk_incoming s))) \<noteq> None"
    "\<not> ok \<Longrightarrow> refusals w < refusals w' \<or> ten__find_crlf_crlf (take k (stream (sk_incoming s))) = None \<and>
       (65536 < k \<or> k = length (stream (sk_incoming s)))"
proof -
  have "length ([] :: byte list) \<le> 65536 + 4096" by simp
  from read_headers_spec [OF assms this, of s w] obtain k res where
    read: "ten__http_read_until_headers_end s raw w = Some res" "headers_read k [] s raw w res" by blast
  obtain ok s' raw' w' where "res = (ok, s', raw', w')" by (cases res)
  with read show thesis by (intro that [of ok s' raw' w' k]) (simp_all add: headers_read_def)
qed

text \<open>
  Reading the body: the bytes up to the content length, or up to the end of the stream; when a
  write is refused its chunk is lost and the loop goes on.
\<close>

definition body_read ::
    "byte list \<Rightarrow> byte list \<Rightarrow> nat \<Rightarrow> ten_socket \<Rightarrow> ten_buffer \<Rightarrow> ten_world \<Rightarrow> ten_socket \<times> ten_buffer \<times> ten_world \<Rightarrow> bool" where
  "body_read ys xs n s b w res \<longleftrightarrow> (case res of (s', b', w') \<Rightarrow>
    buffer_rep b' (xs @ ys) \<and> length xs + length ys \<le> n \<and>
    sk_sent s' = sk_sent s \<and> sk_room s' = sk_room s \<and> refusals w \<le> refusals w' \<and>
    live w' - buffer_owned b' = live w - buffer_owned b \<and>
    (refusals w' = refusals w \<longrightarrow> ys = take (n - length xs) (stream (sk_incoming s))))"

lemma body_read_more:
  assumes "body_read ys (xs @ bs) n s1 b1 w1 res" "stream (sk_incoming s) = bs @ stream (sk_incoming s1)"
    and "sk_sent s1 = sk_sent s" "sk_room s1 = sk_room s" "refusals w1 = refusals w"
    and "live w1 - buffer_owned b1 = live w - buffer_owned b" "length xs + length bs \<le> n"
  shows "body_read (bs @ ys) xs n s b w res"
  using assms by (auto simp: body_read_def take_append split: prod.splits)

lemma body_read_lost:
  assumes "body_read ys xs n s1 b1 w1 res" "sk_sent s1 = sk_sent s" "sk_room s1 = sk_room s" "refusals w < refusals w1"
    and "live w1 - buffer_owned b1 = live w - buffer_owned b"
  shows "body_read ys xs n s b w res"
  using assms by (auto simp: body_read_def split: prod.splits)

lemma read_body_loop_spec:
  assumes "buffer_rep b xs" "length xs \<le> n" "n < 2 ^ 63"
  shows "\<exists>ys res. read_body_loop s (int n) b w = Some res \<and> body_read ys xs n s b w res"
  using assms
proof (induction "length (stream (sk_incoming s))" arbitrary: xs s b w rule: less_induct)
  case less
  let ?w = "ten__set_error TEN_OK w"
  define to_read where "to_read = (if of_nat n - b_size b < 4096 then of_nat n - b_size b else 4096)"
  have size: "unat (b_size b) = length xs" using less.prems(1) by (simp add: buffer_rep_def)
  then have sint: "sint (b_size b) = int (length xs)" using less.prems by (simp add: sint_size)
  note run = read_body_loop.simps [of s "int n" b w] ten_buffer_size_def sint to_read_def [symmetric] Let_def
  show ?case
  proof (cases "length xs < n")
    case False
    then show ?thesis using less.prems by (auto simp: run body_read_def intro!: exI [of _ "[]"])
  next
    case True
    have n: "unat (of_nat n :: size_t) = n" using less.prems(3) by (intro unat_of_nat_size) simp
    then have "unat (of_nat n - b_size b) = n - length xs"
      using True size by (simp add: unat_diff_size size_nat)
    then have to_read: "0 < to_read" "length xs + unat to_read \<le> n"
      using True by (auto simp: to_read_def size_nat)
    then have "length xs + unat to_read < 2 ^ 63" using less.prems(3) by simp
    from to_read(1) less.prems(1) this show ?thesis
    proof (cases rule: receive_write_cases [where s = s and w = ?w])
      case (ended k s1 c)
      then show ?thesis using True less.prems by (auto simp: run body_read_def intro!: exI [of _ "[]"])
    next
      case (stored bs s1 w1 b1 w2)
      then have "length (stream (sk_incoming s1)) < length (stream (sk_incoming s))" "length (xs @ bs) \<le> n"
        using to_read(2) by auto
      from less.hyps [OF this(1) stored(8) this(2) less.prems(3), of w2] obtain ys res where
        "read_body_loop s1 (int n) b1 w2 = Some res" "body_read ys (xs @ bs) n s1 b1 w2 res" by blast
      then show ?thesis
        using True stored to_read(2) body_read_more [of ys xs bs n s1 b1 w2 res s w b] by (auto simp: run)
    next
      case (lost rc bs s1 w1 b1 w2)
      then have "length (stream (sk_incoming s1)) < length (stream (sk_incoming s))" by simp
      from less.hyps [OF this lost(9) less.prems(2,3), of w2] obtain ys res where
        "read_body_loop s1 (int n) b1 w2 = Some res" "body_read ys xs n s1 b1 w2 res" by blast
      then show ?thesis using True lost body_read_lost [of ys xs n s1 b1 w2 res s w b] by (auto simp: run)
    qed
  qed
qed

lemma write_part:
  assumes "k \<le> length d" "k < 2 ^ 64"
  shows "ten_buffer_write (Some b) (Some d) (of_nat k) w = ten_buffer_write (Some b) (Some (take k d)) (of_nat k) w"
  using assms by (cases "buffer_reserve b (b_size b + of_nat k) w")
    (auto simp: ten_buffer_write_def unat_of_nat_size take_map)

text \<open>Storing what has been read of the body already; when the write is refused, it is lost.\<close>

lemma write_prefix:
  assumes "buffer_rep b0 []" "length pre < 2 ^ 62" "0 < n"
  obtains b1 w2 e where "(if (of_nat (min (length pre) n) :: size_t) > 0
      then do {
        (rc, b, w2) \<leftarrow> ten_buffer_write (Some b0) (Some pre) (of_nat (min (length pre) n)) w1;
        Some (b, w2)
      }
      else Some (Some b0, w1)) = Some (Some b1, w2)"
    "buffer_rep b1 e" "length e \<le> n" "refusals w1 \<le> refusals w2" "refusals w2 = refusals w1 \<longrightarrow> e = take n pre"
    "live w2 - buffer_owned b1 = live w1 - buffer_owned b0"
proof (cases "min (length pre) n = 0")
  case True
  then have "pre = []" using assms(3) by (simp add: min_def split: if_splits)
  then show thesis using that [of b0 w1 "[]"] assms(1) by simp
next
  case False
  have small: "min (length pre) n < 2 ^ 62" using assms(2) by simp
  then have pos: "(of_nat (min (length pre) n) :: size_t) > 0" using False by (simp add: size_nat unat_of_nat_size del: of_nat_min)
  have min_take: "take (min n (length pre)) pre = take n pre" by (simp add: min_def)
  have part: "ten_buffer_write (Some b0) (Some pre) (of_nat (min (length pre) n)) w1 =
      ten_buffer_write (Some b0) (Some (take n pre)) (of_nat (length (take n pre))) w1"
    using write_part [of "min (length pre) n" pre b0 w1] small min_take by (simp add: min.commute)
  have "length ([] :: byte list) + length (take n pre) < 2 ^ 63" using assms(2) by simp
  from buffer_write_spec [OF assms(1) this, of w1] show thesis
  proof (elim disjE exE conjE)
    fix b1 w2
    assume "ten_buffer_write (Some b0) (Some (take n pre)) (of_nat (length (take n pre))) w1 = Some (TEN_OK, Some b1, w2)"
      "buffer_rep b1 ([] @ take n pre)" "refusals w2 = refusals w1" "live w2 - buffer_owned b1 = live w1 - buffer_owned b0"
    then show thesis using pos part by (intro that [of b1 w2 "take n pre"]) simp_all
  next
    fix w2
    assume "ten_buffer_write (Some b0) (Some (take n pre)) (of_nat (length (take n pre))) w1 =
        Some (TEN_ERROR_OUT_OF_MEMORY, Some b0, w2)" "refusals w1 < refusals w2" "live w2 = live w1"
    then show thesis using pos part assms(1) by (intro that [of b0 w2 "[]"]) simp_all
  qed
qed

lemma read_body_spec:
  assumes "length pre < 2 ^ 62" "cl < 2 ^ 63"
  shows "(\<exists>b s' w' ys. ten__http_read_body s cl pre w = Some (Some b, s', w') \<and> buffer_rep b ys \<and>
            sk_sent s' = sk_sent s \<and> sk_room s' = sk_room s \<and> refusals w \<le> refusals w' \<and>
            live w' - buffer_owned b = live w \<and>
            (refusals w' = refusals w \<longrightarrow> ys = take (nat cl) (pre @ stream (sk_incoming s)))) \<or>
         (\<exists>w'. ten__http_read_body s cl pre w = Some (None, s, w') \<and> refusals w < refusals w' \<and> live w' = live w)"
  using buffer_create_spec [of w]
proof (elim disjE exE conjE)
  fix b0 w1
  assume b0: "ten_buffer_create w = (Some b0, w1)" "buffer_rep b0 []" "refusals w1 = refusals w"
    "live w1 - buffer_owned b0 = live w"
  show ?thesis
  proof (cases "cl \<le> 0")
    case True
    then show ?thesis using b0 by (simp add: ten__http_read_body_def)
  next
    case False
    then obtain n where n: "cl = int n" "0 < n" "n < 2 ^ 63" using assms(2) by (cases cl) auto
    let ?k = "min (length pre) n"
    have k: "(if of_nat (length pre) < (word_of_int cl :: size_t) then of_nat (length pre) else word_of_int cl) =
        (of_nat ?k :: size_t)"
      using assms(1) n by (auto simp: size_nat unat_of_nat_size min_def)
    obtain b1 w2 e where wr: "(if (of_nat ?k :: size_t) > 0
         then do { (rc, b, w2) \<leftarrow> ten_buffer_write (Some b0) (Some pre) (of_nat ?k) w1; Some (b, w2) }
         else Some (Some b0, w1)) = Some (Some b1, w2)" "buffer_rep b1 e" "length e \<le> n"
      "refusals w1 \<le> refusals w2" "refusals w2 = refusals w1 \<longrightarrow> e = take n pre"
      "live w2 - buffer_owned b1 = live w1 - buffer_owned b0"
      using write_prefix [OF b0(2) assms(1) n(2), of w1] by blast
    from read_body_loop_spec [OF wr(2,3) n(3), of s w2] obtain s' b' w' ys where
      "read_body_loop s (int n) b1 w2 = Some (s', b', w')" "buffer_rep b' (e @ ys)"
      "sk_sent s' = sk_sent s" "sk_room s' = sk_room s" "refusals w2 \<le> refusals w'"
      "live w' - buffer_owned b' = live w2 - buffer_owned b1"
      "refusals w' = refusals w2 \<longrightarrow> ys = take (n - length e) (stream (sk_incoming s))"
      by (auto simp: body_read_def)
    moreover have rest: "n - min (length pre) n = n - length pre" by (simp add: min_def)
    ultimately show ?thesis
      using b0 wr False n unfolding ten__http_read_body_def b0(1) prod.case option.case k
      by (intro disjI1 exI [of _ b'] exI [of _ s'] exI [of _ w'] exI [of _ "e @ ys"]) (auto simp: rest)
  qed
qed (simp add: ten__http_read_body_def)

end
