(* ===== verification/Ten_Stdlib.thy ===== *)
theory Ten_Stdlib
  imports Ten_Double
begin

text \<open>
  Functions of the C library that the network code calls: searching in a string, and reading
  decimal numbers.
\<close>

section \<open>Searching and reading numbers\<close>

primrec strchr :: "cstring \<Rightarrow> byte \<Rightarrow> nat option" where
  "strchr [] c = None"
| "strchr (b # bs) c = (if b = c then Some 0 else map_option Suc (strchr bs c))"

text \<open>\<open>strstr\<close> for CR LF.\<close>

fun strstr_crlf :: "cstring \<Rightarrow> nat option" where
  "strstr_crlf (a # b # r) = (if a = 0x0D \<and> b = 0x0A then Some 0 else map_option Suc (strstr_crlf (b # r)))"
| "strstr_crlf _ = None"

definition is_space :: "byte \<Rightarrow> bool" where
  "is_space c \<longleftrightarrow> c = 0x20 \<or> 0x09 \<le> c \<and> c \<le> 0x0D"

text \<open>\<open>atol\<close> and \<open>atoi\<close>: white space, a sign, digits. A value out of range is undefined.\<close>

definition decimal :: "cstring \<Rightarrow> int" where
  "decimal t =
     (let u = dropWhile is_space t;
          neg = (u \<noteq> [] \<and> hd u = 0x2D);
          d = (if u \<noteq> [] \<and> (hd u = 0x2D \<or> hd u = 0x2B) then tl u else u);
          n = int (digits_value 10 (takeWhile is_digit d))
      in if neg then - n else n)"

definition atol :: "cstring \<Rightarrow> int option" where
  "atol t = (if - (2 ^ 63) \<le> decimal t \<and> decimal t < 2 ^ 63 then Some (decimal t) else None)"

definition atoi :: "cstring \<Rightarrow> int option" where
  "atoi t = (if - (2 ^ 31) \<le> decimal t \<and> decimal t < 2 ^ 31 then Some (decimal t) else None)"

lemma strchr_Some: "strchr t c = Some i \<Longrightarrow> i < length t \<and> t ! i = c \<and> c \<notin> set (take i t)"
  by (induction t arbitrary: i) (auto split: if_splits)

lemma strchr_None: "strchr t c = None \<longleftrightarrow> c \<notin> set t"
  by (induction t) auto

lemma strchr_append: "c \<notin> set t \<Longrightarrow> strchr (t @ c # u) c = Some (length t)"
  by (induction t) auto

section \<open>Numbers that were printed\<close>

lemma length_nat_digits: "0 < k \<Longrightarrow> n < 10 ^ k \<Longrightarrow> length (nat_digits n) \<le> k"
proof (induction k arbitrary: n)
  case (Suc k)
  show ?case
  proof (cases "n < 10")
    case True
    then show ?thesis by (subst nat_digits.simps) simp
  next
    case False
    then have "0 < k" using Suc.prems by (cases k) auto
    moreover have "n div 10 < 10 ^ k" using Suc.prems(2) by (simp add: less_mult_imp_div_less mult.commute)
    ultimately show ?thesis using False Suc.IH by (subst nat_digits.simps) simp
  qed
qed simp

lemma decimal_digits: "decimal (nat_digits n) = int n"
proof -
  obtain c cs where d: "nat_digits n = c # cs" "is_digit c" "\<forall>d \<in> set cs. is_digit d"
    by (rule nat_digits_Cons)
  have c: "\<not> is_space c" "c \<noteq> 0x2D" "c \<noteq> 0x2B"
    using d(2) by (auto simp: is_space_def is_digit_def word_le_nat_alt)
  have "takeWhile is_digit (nat_digits n) = nat_digits n"
    using nat_digits_digits by (simp add: takeWhile_eq_all_conv)
  then show ?thesis
    using d(1) c digits_value_digits [of n] by (simp add: decimal_def)
qed

end
