(* ===== verification/Ten_Http_Parse.thy ===== *)
theory Ten_Http_Parse
  imports Ten_Http_Read Ten_Stdlib
begin

text \<open>
  The parser of the first line and the headers of a message (\<open>src/http/http.c\<close>). The code cuts the
  lines in place, by writing NULs; here a line is the part of the text before the next CR LF. The
  reference is a fold over the lines (\<open>parse_lines\<close>), and what a block of headers says is read
  off its lines (\<open>headers_of\<close>, \<open>length_of\<close>).
\<close>

section \<open>The header parser\<close>

text \<open>The callback for the first line changes its context and says whether it could parse the line.\<close>

type_synonym 'c ten__first_line_fn = "cstring \<Rightarrow> 'c \<Rightarrow> ten_world \<Rightarrow> (bool \<times> 'c \<times> ten_world) option"

definition content_length_name :: cstring where
  "content_length_name = ascii ''Content-Length''"

definition line_of :: "cstring \<Rightarrow> cstring" where
  "line_of t = (case strstr_crlf t of None \<Rightarrow> t | Some i \<Rightarrow> take i t)"

definition next_cursor :: "cstring \<Rightarrow> cstring option" where
  "next_cursor t = map_option (\<lambda>i. drop (i + 2) t) (strstr_crlf t)"

text \<open>A line after the first: a name, a colon, spaces, a value; a line without a colon is ignored.\<close>

definition parse_header_line ::
    "cstring \<Rightarrow> int \<Rightarrow> http_headers \<Rightarrow> ten_world \<Rightarrow> (int \<times> http_headers \<times> ten_world) option" where
  "parse_header_line line content_length headers w =
     (case strchr line 0x3A of
        None \<Rightarrow> Some (content_length, headers, w)
      | Some i \<Rightarrow> do {
          let name = take i line;
          let value = dropWhile (\<lambda>c. c = 0x20) (drop (i + 1) line);
          cl \<leftarrow> (if ten__ci_strcmp name content_length_name = 0 then atol value else Some content_length);
          (rc, h, w1) \<leftarrow> ten__http_headers_set headers name value w;
          Some (cl, h, w1)
        })"

lemma next_cursor_shorter: "t \<noteq> [] \<Longrightarrow> next_cursor t = Some u \<Longrightarrow> length u < length t"
  by (auto simp: next_cursor_def)

function parse_headers_loop ::
    "'c ten__first_line_fn \<Rightarrow> cstring option \<Rightarrow> bool \<Rightarrow> int \<Rightarrow> http_headers \<Rightarrow> 'c \<Rightarrow> ten_world \<Rightarrow>
     (int \<times> http_headers \<times> 'c \<times> ten_world) option" where
  "parse_headers_loop fn cursor first_line content_length headers ctx w =
     (if cursor = None \<or> cursor = Some []
      then Some ((if first_line then -2 else content_length), headers, ctx, w)
      else
        let t = the cursor; line = line_of t; next_line = next_cursor t
        in if line = [] then parse_headers_loop fn next_line first_line content_length headers ctx w
           else if first_line
           then do {
             (ok, ctx1, w1) \<leftarrow> fn line ctx w;
             if \<not> ok then Some (-2, headers, ctx1, w1)
             else parse_headers_loop fn next_line False content_length headers ctx1 w1
           }
           else do {
             (cl, h, w1) \<leftarrow> parse_header_line line content_length headers w;
             parse_headers_loop fn next_line False cl h ctx w1
           })"
  by pat_completeness auto

termination
  by (relation "measure (\<lambda>(fn, cursor, _). case cursor of None \<Rightarrow> 0 | Some t \<Rightarrow> Suc (length t))")
    (auto dest: next_cursor_shorter split: option.splits)

declare parse_headers_loop.simps [simp del]

definition ten__http_parse_headers_text ::
    "cstring \<Rightarrow> http_headers \<Rightarrow> 'c ten__first_line_fn \<Rightarrow> 'c \<Rightarrow> ten_world \<Rightarrow>
     (int \<times> http_headers \<times> 'c \<times> ten_world) option" where
  "ten__http_parse_headers_text headers_text headers fn ctx w =
     parse_headers_loop fn (Some headers_text) True (-1) headers ctx w"

section \<open>First lines\<close>

definition ten__request_first_line :: "(ten_http_method_t \<times> byte ptr) ten__first_line_fn" where
  "ten__request_first_line line ctx w =
     (case strchr line 0x20 of
        None \<Rightarrow> Some (False, ctx, w)
      | Some i \<Rightarrow>
          let rest = drop (i + 1) line
          in case ten__http_method_parse (take i line) of
               None \<Rightarrow> Some (False, ctx, w)
             | Some m \<Rightarrow> do {
                 let target = (case strchr rest 0x20 of None \<Rightarrow> rest | Some j \<Rightarrow> take j rest);
                 (p, w1) \<leftarrow> ten_memdup (Some (target @ [0])) (strlen target + 1) w;
                 Some (\<not> is_Null p, (m, p), w1)
               })"

definition ten__response_first_line :: "int ten__first_line_fn" where
  "ten__response_first_line line ctx w =
     (case strchr line 0x20 of
        None \<Rightarrow> Some (False, ctx, w)
      | Some i \<Rightarrow> do {
          let rest = drop (i + 1) line;
          let status_str = (case strchr rest 0x20 of None \<Rightarrow> rest | Some j \<Rightarrow> take j rest);
          status \<leftarrow> atoi status_str;
          Some (status > 0, status, w)
        })"

section \<open>Messages\<close>

text \<open>The header block copied to a C string; the text is what comes before its first NUL.\<close>

definition header_text :: "byte list \<Rightarrow> ten_world \<Rightarrow> (byte ptr \<times> ten_world) option" where
  "header_text header_block w =
     (let (p, w1) = ten_malloc (of_nat (length header_block) + 1) w
      in if is_Null p then Some (Null, w1)
         else do {
           (_, p1) \<leftarrow> store (header_block @ [0]) (0, p);
           Some (p1, w1)
         })"

definition ten__http_parse_request ::
    "byte list \<Rightarrow> byte list \<Rightarrow> ten_socket \<Rightarrow> ten_world \<Rightarrow>
     (ten_http_request option \<times> ten_socket \<times> ten_world) option" where
  "ten__http_parse_request header_block body_prefix sock w = do {
     (text_block, w1) \<leftarrow> header_text header_block w;
     if is_Null text_block then Some (None, sock, w1)
     else do {
       let (block, w2) = ten_malloc sizeof_ten_http_request w1;
       if is_Null block then do { w3 \<leftarrow> ten_free text_block w2; Some (None, sock, w3) }
       else do {
         headers_text \<leftarrow> c_string (block_cells text_block);
         (content_length, headers, (meth, path), w3) \<leftarrow>
           ten__http_parse_headers_text headers_text no_headers ten__request_first_line (TEN_HTTP_GET, Null) w2;
         let req = \<lparr>rq_method = meth, rq_path = path, rq_headers = headers, rq_body = None\<rparr>;
         w4 \<leftarrow> ten_free text_block w3;
         if content_length = -2 then do { w5 \<leftarrow> ten_http_request_destroy (Some req) w4; Some (None, sock, w5) }
         else do {
           (body, sock1, w5) \<leftarrow> ten__http_read_body sock content_length body_prefix w4;
           (case body of
              None \<Rightarrow> do { w6 \<leftarrow> ten_http_request_destroy (Some req) w5; Some (None, sock1, w6) }
            | Some b \<Rightarrow> Some (Some (req\<lparr>rq_body := Some b\<rparr>), sock1, w5))
         }
       }
     }
   }"

definition ten__http_parse_response ::
    "byte list \<Rightarrow> byte list \<Rightarrow> ten_socket \<Rightarrow> ten_world \<Rightarrow>
     (ten_http_response option \<times> ten_socket \<times> ten_world) option" where
  "ten__http_parse_response header_block body_prefix sock w = do {
     (text_block, w1) \<leftarrow> header_text header_block w;
     if is_Null text_block then Some (None, sock, w1)
     else do {
       let (resp, w2) = ten__http_response_create w1;
       (case resp of
          None \<Rightarrow> do { w3 \<leftarrow> ten_free text_block w2; Some (None, sock, w3) }
        | Some r \<Rightarrow> do {
            headers_text \<leftarrow> c_string (block_cells text_block);
            (content_length, headers, status, w3) \<leftarrow>
              ten__http_parse_headers_text headers_text (rs_headers r) ten__response_first_line 0 w2;
            w4 \<leftarrow> ten_free text_block w3;
            let r1 = r\<lparr>rs_headers := headers\<rparr>;
            if content_length = -2 then do { w5 \<leftarrow> ten_http_response_destroy (Some r1) w4; Some (None, sock, w5) }
            else do {
              let r2 = r1\<lparr>rs_status := status\<rparr>;
              (body, sock1, w5) \<leftarrow> ten__http_read_body sock content_length body_prefix w4;
              (case body of
                 None \<Rightarrow> do { w6 \<leftarrow> ten_http_response_destroy (Some r2) w5; Some (None, sock1, w6) }
               | Some b \<Rightarrow> Some (Some (r2\<lparr>rs_body := Some b\<rparr>), sock1, w5))
            }
          })
     }
   }"

section \<open>Lines\<close>

function lines :: "cstring \<Rightarrow> cstring list" where
  "lines t = (if t = [] then [] else line_of t # (case next_cursor t of None \<Rightarrow> [] | Some u \<Rightarrow> lines u))"
  by pat_completeness auto
termination
  by (relation "measure length") (auto dest: next_cursor_shorter)

declare lines.simps [simp del]

primrec parse_lines ::
    "'c ten__first_line_fn \<Rightarrow> cstring list \<Rightarrow> bool \<Rightarrow> int \<Rightarrow> http_headers \<Rightarrow> 'c \<Rightarrow> ten_world \<Rightarrow>
     (int \<times> http_headers \<times> 'c \<times> ten_world) option" where
  "parse_lines fn [] first_line content_length headers ctx w =
     Some ((if first_line then -2 else content_length), headers, ctx, w)"
| "parse_lines fn (line # ls) first_line content_length headers ctx w =
     (if line = [] then parse_lines fn ls first_line content_length headers ctx w
      else if first_line
      then do {
        (ok, ctx1, w1) \<leftarrow> fn line ctx w;
        if \<not> ok then Some (-2, headers, ctx1, w1)
        else parse_lines fn ls False content_length headers ctx1 w1
      }
      else do {
        (cl, h, w1) \<leftarrow> parse_header_line line content_length headers w;
        parse_lines fn ls False cl h ctx w1
      })"

lemma parse_headers_lines:
  "parse_headers_loop fn cursor first_line cl h ctx w =
   parse_lines fn (case cursor of None \<Rightarrow> [] | Some t \<Rightarrow> lines t) first_line cl h ctx w"
proof (induction "case cursor of None \<Rightarrow> 0 | Some t \<Rightarrow> Suc (length t)" arbitrary: cursor first_line cl h ctx w
    rule: less_induct)
  case less
  show ?case
  proof (cases "cursor = None \<or> cursor = Some []")
    case True
    then show ?thesis by (auto simp: parse_headers_loop.simps [of fn cursor] lines.simps)
  next
    case False
    then obtain t where t: "cursor = Some t" "t \<noteq> []" by (cases cursor) auto
    have next_less: "(case next_cursor t of None \<Rightarrow> 0 | Some u \<Rightarrow> Suc (length u)) <
        (case cursor of None \<Rightarrow> 0 | Some u \<Rightarrow> Suc (length u))"
      using t by (auto dest: next_cursor_shorter split: option.split)
    note ih = less.hyps [OF next_less]
    have "lines t = line_of t # (case next_cursor t of None \<Rightarrow> [] | Some u \<Rightarrow> lines u)"
      using t(2) by (subst lines.simps) simp
    then show ?thesis
      using t by (subst parse_headers_loop.simps, cases "fn (line_of t) ctx w";
          cases "parse_header_line (line_of t) cl h w") (auto simp: ih Let_def)
  qed
qed

text \<open>What the lines say.\<close>

definition header_of :: "cstring \<Rightarrow> (cstring \<times> cstring) option" where
  "header_of line = map_option (\<lambda>i. (take i line, dropWhile (\<lambda>c. c = 0x20) (drop (i + 1) line))) (strchr line 0x3A)"

definition headers_of :: "cstring list \<Rightarrow> (cstring \<times> cstring) list \<Rightarrow> (cstring \<times> cstring) list" where
  "headers_of ls kvs = fold (\<lambda>l kvs. case header_of l of None \<Rightarrow> kvs | Some (n, v) \<Rightarrow> header_update n v kvs) ls kvs"

definition length_of :: "cstring list \<Rightarrow> int \<Rightarrow> int" where
  "length_of ls cl = fold (\<lambda>l c. case header_of l of
     Some (n, v) \<Rightarrow> if ci_equal n content_length_name then decimal v else c | None \<Rightarrow> c) ls cl"

text \<open>Every content length that is given fits a \<open>long\<close>.\<close>

definition lengths_ok :: "cstring list \<Rightarrow> bool" where
  "lengths_ok ls \<longleftrightarrow> (\<forall>l \<in> set ls. case header_of l of
     Some (n, v) \<Rightarrow> ci_equal n content_length_name \<longrightarrow> atol v \<noteq> None | None \<Rightarrow> True)"

lemma content_length_no_nul: "0 \<notin> set content_length_name"
  by (simp add: content_length_name_def ascii_def)

lemma header_line_spec:
  assumes rep: "headers_rep h kvs" and line: "cstr_ok line" and ok: "lengths_ok [line]"
  shows "\<exists>h' w' kvs'. parse_header_line line cl h w = Some (length_of [line] cl, h', w') \<and> headers_rep h' kvs' \<and>
    refusals w \<le> refusals w' \<and> (refusals w' = refusals w \<longrightarrow> kvs' = headers_of [line] kvs) \<and>
    live w' - headers_owned h' = live w - headers_owned h"
proof (cases "strchr line 0x3A")
  case None
  then show ?thesis
    using rep by (simp add: parse_header_line_def length_of_def headers_of_def header_of_def)
next
  case (Some i)
  let ?n = "take i line" and ?v = "dropWhile (\<lambda>c. c = 0x20) (drop (Suc i) line)"
  have part: "cstr_ok ?n" "cstr_ok ?v"
    using line length_dropWhile_le [of "\<lambda>c. c = 0x20" "drop (Suc i) line"]
    by (auto simp: cstr_ok_def dest!: in_set_takeD in_set_dropD set_dropWhileD)
  then have "ten__ci_strcmp ?n content_length_name = 0 \<longleftrightarrow> ci_equal ?n content_length_name"
    by (intro ci_strcmp_equal content_length_no_nul) (simp add: cstr_ok_def)
  then have "(if ten__ci_strcmp ?n content_length_name = 0 then atol ?v else Some cl) = Some (length_of [line] cl)"
    using ok Some by (auto simp: length_of_def lengths_ok_def header_of_def atol_def split: if_splits)
  then have "parse_header_line line cl h w = do {
      (rc, h, w1) \<leftarrow> ten__http_headers_set h ?n ?v w; Some (length_of [line] cl, h, w1) }"
    using Some by (simp add: parse_header_line_def Let_def)
  moreover have "headers_of [line] kvs = header_update ?n ?v kvs"
    using Some by (simp add: headers_of_def header_of_def)
  ultimately show ?thesis
    using headers_set_spec [OF rep part, of w] rep by auto
qed

lemma parse_rest_spec:
  assumes "headers_rep h kvs" "\<forall>l \<in> set ls. cstr_ok l" "lengths_ok ls"
  shows "\<exists>h' w' kvs'. parse_lines fn ls False cl h ctx w = Some (length_of ls cl, h', ctx, w') \<and> headers_rep h' kvs' \<and>
    refusals w \<le> refusals w' \<and> (refusals w' = refusals w \<longrightarrow> kvs' = headers_of ls kvs) \<and>
    live w' - headers_owned h' = live w - headers_owned h"
  using assms
proof (induction ls arbitrary: h kvs cl w)
  case Nil
  then show ?case by (auto simp: length_of_def headers_of_def)
next
  case (Cons l ls)
  have pre: "cstr_ok l" "lengths_ok [l]" "\<forall>l \<in> set ls. cstr_ok l" "lengths_ok ls"
    using Cons.prems by (simp_all add: lengths_ok_def)
  show ?case
  proof (cases "l = []")
    case True
    then have "header_of l = None" by (simp add: header_of_def)
    then show ?thesis
      using Cons.IH [OF Cons.prems(1) pre(3,4), of cl w] True by (simp add: length_of_def headers_of_def)
  next
    case False
    from header_line_spec [OF Cons.prems(1) pre(1,2), of cl w] obtain h1 w1 kvs1 where
      1: "parse_header_line l cl h w = Some (length_of [l] cl, h1, w1)" "headers_rep h1 kvs1"
        "refusals w \<le> refusals w1" "refusals w1 = refusals w \<longrightarrow> kvs1 = headers_of [l] kvs"
        "live w1 - headers_owned h1 = live w - headers_owned h"
      by blast
    from Cons.IH [OF 1(2) pre(3,4), of "length_of [l] cl" w1] obtain h' w' kvs' where
      2: "parse_lines fn ls False (length_of [l] cl) h1 ctx w1 = Some (length_of ls (length_of [l] cl), h', ctx, w')"
        "headers_rep h' kvs'" "refusals w1 \<le> refusals w'" "refusals w' = refusals w1 \<longrightarrow> kvs' = headers_of ls kvs1"
        "live w' - headers_owned h' = live w1 - headers_owned h1"
      by blast
    from 1 2 False show ?thesis
      by (intro exI [of _ h'] exI [of _ w'] exI [of _ kvs']) (auto simp: length_of_def headers_of_def)
  qed
qed

lemma lines_parts: "l \<in> set (lines t) \<Longrightarrow> set l \<subseteq> set t \<and> length l \<le> length t"
proof (induction t rule: lines.induct)
  case (1 t)
  then have "t \<noteq> []" and l: "l = line_of t \<or> (\<exists>u. next_cursor t = Some u \<and> l \<in> set (lines u))"
    by (auto simp: lines.simps [of t] split: if_splits option.splits)
  from l show ?case
  proof (elim disjE exE conjE)
    assume "l = line_of t"
    then show ?thesis by (auto simp: line_of_def dest: in_set_takeD split: option.split)
  next
    fix u
    assume u: "next_cursor t = Some u" "l \<in> set (lines u)"
    then have "set l \<subseteq> set u \<and> length l \<le> length u" using "1.IH" \<open>t \<noteq> []\<close> by blast
    with u(1) show ?thesis by (auto simp: next_cursor_def dest: in_set_dropD)
  qed
qed

lemma lines_ok: "cstr_ok t \<Longrightarrow> \<forall>l \<in> set (lines t). cstr_ok l"
  by (fastforce simp: cstr_ok_def dest: lines_parts)

lemma parse_lines_nonempty:
  "parse_lines fn ls first_line cl h ctx w = parse_lines fn (filter (\<lambda>l. l \<noteq> []) ls) first_line cl h ctx w"
proof (induction ls arbitrary: first_line cl h ctx w)
  case (Cons l ls)
  then show ?case
    by (cases "fn l ctx w"; cases "parse_header_line l cl h w") auto
qed simp

lemma length_of_bound:
  assumes "lengths_ok ls" "c < 2 ^ 63"
  shows "length_of ls c < 2 ^ 63"
  using assms
proof (induction ls arbitrary: c)
  case (Cons l ls)
  let ?c = "length_of [l] c"
  have "lengths_ok [l]" "lengths_ok ls" using Cons.prems(1) by (simp_all add: lengths_ok_def)
  then have "?c < 2 ^ 63"
    using Cons.prems(2) by (auto simp: length_of_def lengths_ok_def atol_def split: option.splits if_splits)
  with Cons.IH [OF \<open>lengths_ok ls\<close>] show ?case by (simp add: length_of_def)
qed (simp add: length_of_def)

section \<open>The contract of the callbacks\<close>

text \<open>
  What a block of headers says, given how its first line is read: the reading of the first line
  that is not empty, the headers and the content length of those after it.
\<close>

definition message_head ::
    "(cstring \<Rightarrow> 'v option) \<Rightarrow> cstring \<Rightarrow> ('v \<times> (cstring \<times> cstring) list \<times> int) option" where
  "message_head reads t =
     (case filter (\<lambda>l. l \<noteq> []) (lines t) of
        [] \<Rightarrow> None
      | l # ls \<Rightarrow> map_option (\<lambda>v. (v, headers_of ls [], length_of ls (-1))) (reads l))"

definition head_ok :: "(cstring \<Rightarrow> bool) \<Rightarrow> cstring \<Rightarrow> bool" where
  "head_ok line_ok t \<longleftrightarrow>
     (case filter (\<lambda>l. l \<noteq> []) (lines t) of [] \<Rightarrow> True | l # ls \<Rightarrow> line_ok l \<and> lengths_ok ls)"

locale first_line_parser =
  fixes fn :: "'c ten__first_line_fn"
    and start :: 'c
    and line_ok :: "cstring \<Rightarrow> bool"
    and reads :: "cstring \<Rightarrow> 'v option"
    and ctx_rep :: "'c \<Rightarrow> 'v \<Rightarrow> bool"
    and ctx_ok :: "'c \<Rightarrow> bool"
    and ctx_owned :: "'c \<Rightarrow> int"
  assumes start_ok: "ctx_ok start"
    and first_law: "cstr_ok line \<Longrightarrow> line_ok line \<Longrightarrow>
      \<exists>ok c w'. fn line start w = Some (ok, c, w') \<and> ctx_ok c \<and> refusals w \<le> refusals w' \<and>
        live w' - ctx_owned c = live w - ctx_owned start \<and>
        (if ok then \<exists>v. reads line = Some v \<and> ctx_rep c v
         else refusals w < refusals w' \<or> reads line = None)"
begin

lemma headers_text_law:
  assumes t: "cstr_ok t" "head_ok line_ok t"
  shows "\<exists>cl h c w' kvs. ten__http_parse_headers_text t no_headers fn start w = Some (cl, h, c, w') \<and>
    headers_rep h kvs \<and> ctx_ok c \<and> refusals w \<le> refusals w' \<and>
    live w' - headers_owned h - ctx_owned c = live w - ctx_owned start \<and> cl < 2 ^ 63 \<and>
    ((\<exists>v. ctx_rep c v \<and>
        (refusals w' = refusals w \<longrightarrow> message_head reads t = Some (v, kvs, cl))) \<or>
     cl = -2 \<and> (refusals w' = refusals w \<longrightarrow> message_head reads t = None))"
proof -
  let ?ls = "filter (\<lambda>l. l \<noteq> []) (lines t)"
  have lines: "\<forall>l \<in> set ?ls. cstr_ok l" using lines_ok [OF t(1)] by auto
  have run: "ten__http_parse_headers_text t no_headers fn start w = parse_lines fn ?ls True (-1) no_headers start w"
    by (simp add: ten__http_parse_headers_text_def parse_headers_lines flip: parse_lines_nonempty)
  show ?thesis
  proof (cases ?ls)
    case Nil
    then have "message_head reads t = None" by (simp add: message_head_def)
    then show ?thesis
      using Nil run start_ok headers_rep_empty
      by (intro exI [of _ "-2"] exI [of _ no_headers] exI [of _ start] exI [of _ w] exI [of _ "[]"]) simp
  next
    case (Cons l ls)
    have "l \<in> set ?ls" unfolding Cons by simp
    then have l: "l \<noteq> []" by simp
    have pre: "cstr_ok l" "\<forall>l \<in> set ls. cstr_ok l" "line_ok l" "lengths_ok ls"
      using lines t(2) unfolding head_ok_def Cons by auto
    have head: "message_head reads t = map_option (\<lambda>v. (v, headers_of ls [], length_of ls (-1))) (reads l)"
      unfolding message_head_def Cons by simp
    from first_law [OF pre(1,3), of w] obtain ok c w1 where
      first: "fn l start w = Some (ok, c, w1)" "ctx_ok c" "refusals w \<le> refusals w1"
        "live w1 - ctx_owned c = live w - ctx_owned start"
        "if ok then \<exists>v. reads l = Some v \<and> ctx_rep c v else refusals w < refusals w1 \<or> reads l = None"
      by blast
    show ?thesis
    proof (cases ok)
      case False
      then show ?thesis
        using run first head headers_rep_empty l unfolding Cons
        by (intro exI [of _ "-2"] exI [of _ no_headers] exI [of _ c] exI [of _ w1] exI [of _ "[]"]) auto
    next
      case True
      then obtain v where v: "reads l = Some v" "ctx_rep c v" using first(5) by auto
      from parse_rest_spec [OF headers_rep_empty(1) pre(2,4), of fn "-1" c w1] obtain h w' kvs where
        rest: "parse_lines fn ls False (-1) no_headers c w1 = Some (length_of ls (-1), h, c, w')" "headers_rep h kvs"
          "refusals w1 \<le> refusals w'" "refusals w' = refusals w1 \<longrightarrow> kvs = headers_of ls []"
          "live w' - headers_owned h = live w1 - headers_owned no_headers"
        by blast
      have "ten__http_parse_headers_text t no_headers fn start w = Some (length_of ls (-1), h, c, w')"
        using run first(1) rest(1) True l unfolding Cons by simp
      moreover have "live w' - headers_owned h - ctx_owned c = live w - ctx_owned start"
        using rest(5) first(4) headers_rep_empty(2) by simp
      moreover have "length_of ls (-1) < 2 ^ 63" using pre(4) by (rule length_of_bound) simp
      moreover have "refusals w' = refusals w \<longrightarrow> message_head reads t = Some (v, kvs, length_of ls (-1))"
        using head v(1) rest(3,4) first(3) by auto
      ultimately show ?thesis
        using rest(2,3) first(2,3) v(2)
        by (intro exI [of _ "length_of ls (-1)"] exI [of _ h] exI [of _ c] exI [of _ w'] exI [of _ kvs]) auto
    qed
  qed
qed

end

section \<open>Request and status lines\<close>

definition word_before_space :: "cstring \<Rightarrow> cstring" where
  "word_before_space t = (case strchr t 0x20 of None \<Rightarrow> t | Some j \<Rightarrow> take j t)"

definition request_line :: "cstring \<Rightarrow> (ten_http_method_t \<times> cstring) option" where
  "request_line line = do {
     i \<leftarrow> strchr line 0x20;
     m \<leftarrow> ten__http_method_parse (take i line);
     Some (m, word_before_space (drop (Suc i) line))
   }"

definition status_line :: "cstring \<Rightarrow> int option" where
  "status_line line = do {
     i \<leftarrow> strchr line 0x20;
     let status = decimal (word_before_space (drop (Suc i) line));
     if status > 0 then Some status else None
   }"

text \<open>The status number of a status line fits an \<open>int\<close>.\<close>

definition status_ok :: "cstring \<Rightarrow> bool" where
  "status_ok line = (case strchr line 0x20 of
     None \<Rightarrow> True | Some i \<Rightarrow> atoi (word_before_space (drop (Suc i) line)) \<noteq> None)"

lemma request_first_line_spec:
  assumes line: "cstr_ok line"
  shows "\<exists>ok m p w'. ten__request_first_line line (TEN_HTTP_GET, Null) w = Some (ok, (m, p), w') \<and>
    \<not> is_Dangling p \<and> refusals w \<le> refusals w' \<and> live w' - owned p = live w \<and>
    (if ok then \<exists>t. request_line line = Some (m, t) \<and> p = Block (c_bytes t) \<and> cstr_ok t
     else refusals w < refusals w' \<or> request_line line = None)"
proof (cases "strchr line 0x20")
  case None
  then show ?thesis by (auto simp: ten__request_first_line_def request_line_def intro: exI [of _ False])
next
  case (Some i)
  show ?thesis
  proof (cases "ten__http_method_parse (take i line)")
    case None
    then show ?thesis using Some by (auto simp: ten__request_first_line_def request_line_def intro: exI [of _ False])
  next
    case m: (Some m)
    let ?t = "word_before_space (drop (Suc i) line)"
    have "cstr_ok ?t"
      using line by (auto simp: cstr_ok_def word_before_space_def dest: in_set_takeD in_set_dropD split: option.split)
    note t = this
    have op: "ten__request_first_line line (TEN_HTTP_GET, Null) w = do {
        (p, w1) \<leftarrow> ten_memdup (Some (?t @ [0])) (strlen ?t + 1) w; Some (\<not> is_Null p, (m, p), w1) }"
      using Some m by (simp add: ten__request_first_line_def word_before_space_def Let_def)
    have "request_line line = Some (m, ?t)"
      using Some m by (simp add: request_line_def)
    note reads = this
    from t show ?thesis
    proof (cases rule: memdup_text_cases [where w = w])
      case (copied w')
      then show ?thesis
        using t reads
        by (intro exI [of _ True] exI [of _ m] exI [of _ "Block (c_bytes ?t)"] exI [of _ w']) (simp add: op)
    next
      case (refused w')
      then show ?thesis
        by (intro exI [of _ False] exI [of _ m] exI [of _ Null] exI [of _ w']) (simp add: op)
    qed
  qed
qed

interpretation request_line_parser:
  first_line_parser ten__request_first_line "(TEN_HTTP_GET, Null)" "\<lambda>_. True" request_line
    "\<lambda>(m, p) (m', t). m = m' \<and> p = Block (c_bytes t) \<and> cstr_ok t" "\<lambda>(m, p). \<not> is_Dangling p" "\<lambda>(m, p). owned p"
proof (unfold_locales, simp)
  fix line w
  assume "cstr_ok line"
  from request_first_line_spec [OF this, of w] obtain ok m p w' where
    r: "ten__request_first_line line (TEN_HTTP_GET, Null) w = Some (ok, (m, p), w')" "\<not> is_Dangling p"
      "refusals w \<le> refusals w'" "live w' - owned p = live w"
      "if ok then \<exists>t. request_line line = Some (m, t) \<and> p = Block (c_bytes t) \<and> cstr_ok t
       else refusals w < refusals w' \<or> request_line line = None"
    by blast
  then show "\<exists>ok c w'. ten__request_first_line line (TEN_HTTP_GET, Null) w = Some (ok, c, w') \<and>
      (case c of (m, p) \<Rightarrow> \<not> is_Dangling p) \<and> refusals w \<le> refusals w' \<and>
      live w' - (case c of (m, p) \<Rightarrow> owned p) =
        live w - (case (TEN_HTTP_GET, Null :: byte ptr) of (m, p) \<Rightarrow> owned p) \<and>
      (if ok then \<exists>v. request_line line = Some v \<and>
            (case c of (m, p) \<Rightarrow> \<lambda>(m', t). m = m' \<and> p = Block (c_bytes t) \<and> cstr_ok t) v
       else refusals w < refusals w' \<or> request_line line = None)"
    by (intro exI [of _ ok] exI [of _ "(m, p)"] exI [of _ w']) (auto split: if_splits)
qed

interpretation status_line_parser:
  first_line_parser ten__response_first_line 0 status_ok status_line "\<lambda>c v. c = v" "\<lambda>_. True" "\<lambda>_. 0"
  by unfold_locales
    (auto simp: ten__response_first_line_def status_line_def status_ok_def word_before_space_def atoi_def Let_def
      split: option.splits if_splits)

section \<open>Parsing messages\<close>

lemma header_text_cases [consumes 1, case_names copied refused]:
  assumes "length hb < 2 ^ 62"
  obtains (copied) w' where "header_text hb w = Some (Block (c_bytes hb), w')" "refusals w' = refusals w" "live w' = live w + 1"
  | (refused) w' where "header_text hb w = Some (Null, w')" "refusals w < refusals w'" "live w' = live w"
proof -
  let ?n = "of_nat (length hb) + 1 :: size_t"
  have n: "unat ?n = length (hb @ [0])"
    using assms by (subst unat_add_size) (simp_all add: unat_of_nat_size)
  show thesis
  proof (cases rule: ten_malloc_cases [where n = ?n and w = w])
    case (granted w')
    have "filled (length (hb @ [0])) [] (0, Block (replicate (unat ?n) None))"
      unfolding n by (rule filled_fresh)
    from store_filled [OF this, of "hb @ [0]"] obtain st where
      "store (hb @ [0]) (0, Block (replicate (unat ?n) None)) = Some st" "filled (length (hb @ [0])) (hb @ [0]) st"
      by auto
    then have "header_text hb w = Some (Block (c_bytes hb), w')"
      using granted(2) by (auto simp: header_text_def filled_def c_bytes_def simp del: replicate.simps)
    with granted(5,6) copied show thesis by blast
  next
    case (refused w')
    then show thesis using that(2) [of w'] by (simp add: header_text_def)
  qed
qed

lemma c_string_before_nul: "c_string (c_bytes hb) = Some (takeWhile (\<lambda>b. b \<noteq> 0) hb)"
  by (induction hb) (auto simp: c_bytes_def)

lemma text_before_nul: "length hb < 2 ^ 62 \<Longrightarrow> cstr_ok (takeWhile (\<lambda>b. b \<noteq> 0) hb)"
  using length_takeWhile_le [of "\<lambda>b. b \<noteq> 0" hb] by (auto simp: cstr_ok_def dest: set_takeWhileD)

text \<open>The request and the response that a block of headers and the bytes after it stand for.\<close>

definition request_of :: "byte list \<Rightarrow> byte list \<Rightarrow> request_value option" where
  "request_of header_block bytes =
     (case message_head request_line (takeWhile (\<lambda>b. b \<noteq> 0) header_block) of
        None \<Rightarrow> None
      | Some ((m, p), kvs, cl) \<Rightarrow>
          if cl = -2 then None
          else Some \<lparr>req_method = m, req_path = p, req_headers = kvs, req_body = Some (take (nat cl) bytes)\<rparr>)"

definition response_of :: "byte list \<Rightarrow> byte list \<Rightarrow> response_value option" where
  "response_of header_block bytes =
     (case message_head status_line (takeWhile (\<lambda>b. b \<noteq> 0) header_block) of
        None \<Rightarrow> None
      | Some (status, kvs, cl) \<Rightarrow>
          if cl = -2 then None
          else Some \<lparr>resp_status = status, resp_headers = kvs, resp_body = Some (take (nat cl) bytes)\<rparr>)"

text \<open>The numbers in a header block can be read.\<close>

definition request_head_ok :: "byte list \<Rightarrow> bool" where
  "request_head_ok header_block \<longleftrightarrow> head_ok (\<lambda>_. True) (takeWhile (\<lambda>b. b \<noteq> 0) header_block)"

definition response_head_ok :: "byte list \<Rightarrow> bool" where
  "response_head_ok header_block \<longleftrightarrow> head_ok status_ok (takeWhile (\<lambda>b. b \<noteq> 0) header_block)"

section \<open>The parsers\<close>

text \<open>
  What a parser gives: a message that represents the value the bytes stand for, or none with all
  blocks given back; a refusal of memory may make it none, or lose bytes of its body.
\<close>

definition parsed_as ::
    "('r \<Rightarrow> 'v \<Rightarrow> bool) \<Rightarrow> ('r \<Rightarrow> int) \<Rightarrow> 'v option \<Rightarrow> ten_socket \<Rightarrow> ten_world \<Rightarrow>
     ('r option \<times> ten_socket \<times> ten_world) option \<Rightarrow> bool" where
  "parsed_as rep blocks value s w res \<longleftrightarrow>
     (\<exists>m s' w'. res = Some (m, s', w') \<and> sk_sent s' = sk_sent s \<and> sk_room s' = sk_room s \<and> refusals w \<le> refusals w' \<and>
        (case m of
           None \<Rightarrow> live w' = live w \<and> (refusals w' = refusals w \<longrightarrow> value = None)
         | Some r \<Rightarrow> live w' - blocks r = live w \<and> (\<exists>v. rep r v \<and> (refusals w' = refusals w \<longrightarrow> value = Some v))))"

lemma parsed_none:
  "live w1 = live w \<Longrightarrow> refusals w \<le> refusals w1 \<Longrightarrow> (refusals w1 = refusals w \<Longrightarrow> value = None) \<Longrightarrow>
   parsed_as rep blocks value s w (Some (None, s, w1))"
  by (simp add: parsed_as_def)

text \<open>Giving up after the head, and reading the body after it.\<close>

lemma parsed_gone:
  assumes "\<exists>w5. destroy w4 = Some w5 \<and> live w5 = live w4 - n \<and> refusals w5 = refusals w4"
    and "live w4 - n = live w" "refusals w \<le> refusals w4" "refusals w4 = refusals w \<Longrightarrow> value = None"
  shows "parsed_as rep blocks value s w (do { w5 \<leftarrow> destroy w4; Some (None, s, w5) })"
  using assms by (auto simp: parsed_as_def)

lemma parsed_body:
  assumes bp: "length bp < 2 ^ 62" "cl < 2 ^ 63"
    and destroy: "\<And>w5. \<exists>w6. destroy w5 = Some w6 \<and> live w6 = live w5 - n \<and> refusals w6 = refusals w5"
    and w4: "live w4 - n = live w" "refusals w \<le> refusals w4"
    and finish: "\<And>b ys. buffer_rep b ys \<Longrightarrow> rep (finish b) (whole ys)" "\<And>b. blocks (finish b) = n + buffer_owned b"
    and outcome: "refusals w4 = refusals w \<Longrightarrow> value = Some (whole (take (nat cl) (bp @ stream (sk_incoming s))))"
  shows "parsed_as rep blocks value s w (do {
     (body, sock1, w5) \<leftarrow> ten__http_read_body s cl bp w4;
     (case body of
        None \<Rightarrow> do { w6 \<leftarrow> destroy w5; Some (None, sock1, w6) }
      | Some b \<Rightarrow> Some (Some (finish b), sock1, w5))
   })"
  using read_body_spec [OF bp, of s w4]
proof (elim disjE exE conjE)
  fix b s' w5 ys
  assume "ten__http_read_body s cl bp w4 = Some (Some b, s', w5)" "buffer_rep b ys" "sk_sent s' = sk_sent s"
    "sk_room s' = sk_room s" "refusals w4 \<le> refusals w5" "live w5 - buffer_owned b = live w4"
    "refusals w5 = refusals w4 \<longrightarrow> ys = take (nat cl) (bp @ stream (sk_incoming s))"
  then show ?thesis using w4 finish outcome by (auto simp: parsed_as_def intro!: exI [of _ "whole ys"])
next
  fix w5
  assume body: "ten__http_read_body s cl bp w4 = Some (None, s, w5)" "refusals w4 < refusals w5" "live w5 = live w4"
  obtain w6 where "destroy w5 = Some w6" "live w6 = live w5 - n" "refusals w6 = refusals w5" using destroy by blast
  then show ?thesis using body w4 by (auto simp: parsed_as_def)
qed

lemma parse_request_parsed:
  assumes hb: "length hb < 2 ^ 62" "request_head_ok hb" and bp: "length bp < 2 ^ 62"
  shows "parsed_as request_rep request_owned (request_of hb (bp @ stream (sk_incoming s))) s w (ten__http_parse_request hb bp s w)"
  using hb(1)
proof (cases rule: header_text_cases [where w = w])
  case (refused w1)
  then show ?thesis by (auto simp: ten__http_parse_request_def intro: parsed_none)
next
  case (copied w1)
  note block = copied
  let ?t = "takeWhile (\<lambda>b. b \<noteq> 0) hb"
  show ?thesis
  proof (cases rule: ten_malloc_cases [where n = sizeof_ten_http_request and w = w1])
    case (refused w2)
    then show ?thesis using block by (auto simp: ten__http_parse_request_def ten_free_def intro: parsed_none)
  next
    case (granted w2)
    note req = granted
    obtain cl h m p w3 kvs where
      head: "ten__http_parse_headers_text ?t no_headers ten__request_first_line (TEN_HTTP_GET, Null) w2 = Some (cl, h, (m, p), w3)"
        "headers_rep h kvs" "\<not> is_Dangling p" "refusals w2 \<le> refusals w3"
        "live w3 - headers_owned h - owned p = live w2" "cl < 2 ^ 63"
        "(\<exists>t. p = Block (c_bytes t) \<and> cstr_ok t \<and>
            (refusals w3 = refusals w2 \<longrightarrow> message_head request_line ?t = Some ((m, t), kvs, cl))) \<or>
         cl = -2 \<and> (refusals w3 = refusals w2 \<longrightarrow> message_head request_line ?t = None)"
      using request_line_parser.headers_text_law [OF text_before_nul [OF hb(1)] hb(2) [unfolded request_head_ok_def], of w2]
      by fastforce
    let ?req = "\<lparr>rq_method = m, rq_path = p, rq_headers = h, rq_body = None\<rparr>"
    let ?w4 = "w3\<lparr>live := live w3 - 1\<rparr>"
    have run: "ten__http_parse_request hb bp s w =
        (if cl = -2 then do { w5 \<leftarrow> ten_http_request_destroy (Some ?req) ?w4; Some (None, s, w5) }
         else do {
           (body, sock1, w5) \<leftarrow> ten__http_read_body s cl bp ?w4;
           (case body of
              None \<Rightarrow> do { w6 \<leftarrow> ten_http_request_destroy (Some ?req) w5; Some (None, sock1, w6) }
            | Some b \<Rightarrow> Some (Some (?req\<lparr>rq_body := Some b\<rparr>), sock1, w5))
         })"
      using block req(2) head(1) c_string_before_nul [of hb]
      by (simp add: ten__http_parse_request_def ten_free_def Let_def)
    have destroy: "\<exists>w'. ten_http_request_destroy (Some ?req) w5 = Some w' \<and> live w' = live w5 - request_owned ?req \<and>
        refusals w' = refusals w5" for w5
      using request_destroy_parts [of ?req kvs None w5] head(2,3) by auto
    have w4: "live ?w4 - request_owned ?req = live w" "refusals w \<le> refusals ?w4"
      using head block req by (simp_all add: request_owned_def)
    show ?thesis
    proof (cases "cl = -2")
      case True
      then have "refusals ?w4 = refusals w \<Longrightarrow> request_of hb (bp @ stream (sk_incoming s)) = None"
        using head(4,7) block req by (auto simp: request_of_def)
      from parsed_gone [where destroy = "ten_http_request_destroy (Some ?req)", OF destroy w4 this] show ?thesis using True run by simp
    next
      case False
      then obtain t where t: "p = Block (c_bytes t)" "cstr_ok t"
          "refusals w3 = refusals w2 \<longrightarrow> message_head request_line ?t = Some ((m, t), kvs, cl)"
        using head(7) by blast
      let ?v = "\<lambda>ys. \<lparr>req_method = m, req_path = t, req_headers = kvs, req_body = Some ys\<rparr>"
      have "parsed_as request_rep request_owned (request_of hb (bp @ stream (sk_incoming s))) s w (do {
           (body, sock1, w5) \<leftarrow> ten__http_read_body s cl bp ?w4;
           (case body of
              None \<Rightarrow> do { w6 \<leftarrow> ten_http_request_destroy (Some ?req) w5; Some (None, sock1, w6) }
            | Some b \<Rightarrow> Some (Some (?req\<lparr>rq_body := Some b\<rparr>), sock1, w5))
         })"
        using t head(2,4) block req False
        by (intro parsed_body [where destroy = "ten_http_request_destroy (Some ?req)" and whole = ?v, OF bp head(6) destroy w4])
          (auto simp: request_rep_def request_owned_def request_of_def)
      then show ?thesis using False run by simp
    qed
  qed
qed

lemma parse_request_spec:
  assumes "length hb < 2 ^ 62" "request_head_ok hb" "length bp < 2 ^ 62"
  shows "(\<exists>r s' w' v. ten__http_parse_request hb bp s w = Some (Some r, s', w') \<and> request_rep r v \<and>
            live w' - request_owned r = live w \<and> refusals w \<le> refusals w' \<and> sk_sent s' = sk_sent s \<and> sk_room s' = sk_room s \<and>
            (refusals w' = refusals w \<longrightarrow> request_of hb (bp @ stream (sk_incoming s)) = Some v)) \<or>
         (\<exists>s' w'. ten__http_parse_request hb bp s w = Some (None, s', w') \<and>
            live w' = live w \<and> refusals w \<le> refusals w' \<and> sk_sent s' = sk_sent s \<and> sk_room s' = sk_room s \<and>
            (refusals w' = refusals w \<longrightarrow> request_of hb (bp @ stream (sk_incoming s)) = None))"
  using parse_request_parsed [OF assms, of s w] by (auto simp: parsed_as_def split: option.splits)

lemma response_destroy_parts:
  assumes "headers_rep (rs_headers r) kvs" "body_rep (rs_body r) x"
  shows "\<exists>w'. ten_http_response_destroy (Some r) w = Some w' \<and> live w' = live w - response_owned r \<and>
    refusals w' = refusals w"
proof -
  have "response_rep r \<lparr>resp_status = rs_status r, resp_headers = kvs, resp_body = x\<rparr>"
    using assms by (simp add: response_rep_def)
  then show ?thesis using response_destroy_spec by blast
qed

lemma parse_response_parsed:
  assumes hb: "length hb < 2 ^ 62" "response_head_ok hb" and bp: "length bp < 2 ^ 62"
  shows "parsed_as response_rep response_owned (response_of hb (bp @ stream (sk_incoming s))) s w (ten__http_parse_response hb bp s w)"
  using hb(1)
proof (cases rule: header_text_cases [where w = w])
  case (refused w1)
  then show ?thesis by (auto simp: ten__http_parse_response_def intro: parsed_none)
next
  case (copied w1)
  note block = copied
  let ?t = "takeWhile (\<lambda>b. b \<noteq> 0) hb"
  show ?thesis
  proof (cases rule: ten_malloc_cases [where n = sizeof_ten_http_response and w = w1])
    case (refused w2)
    then show ?thesis
      using block by (auto simp: ten__http_parse_response_def ten__http_response_create_def ten_free_def intro: parsed_none)
  next
    case (granted w2)
    note resp = granted
    obtain cl h c w3 kvs where
      head: "ten__http_parse_headers_text ?t no_headers ten__response_first_line 0 w2 = Some (cl, h, c, w3)"
        "headers_rep h kvs" "refusals w2 \<le> refusals w3" "live w3 - headers_owned h = live w2" "cl < 2 ^ 63"
        "(refusals w3 = refusals w2 \<longrightarrow> message_head status_line ?t = Some (c, kvs, cl)) \<or>
         cl = -2 \<and> (refusals w3 = refusals w2 \<longrightarrow> message_head status_line ?t = None)"
      using status_line_parser.headers_text_law [OF text_before_nul [OF hb(1)] hb(2) [unfolded response_head_ok_def], of w2]
      by auto
    let ?r = "\<lambda>st. \<lparr>rs_status = st, rs_headers = h, rs_body = None\<rparr>"
    let ?w4 = "w3\<lparr>live := live w3 - 1\<rparr>"
    have run: "ten__http_parse_response hb bp s w =
        (if cl = -2 then do { w5 \<leftarrow> ten_http_response_destroy (Some (?r 200)) ?w4; Some (None, s, w5) }
         else do {
           (body, sock1, w5) \<leftarrow> ten__http_read_body s cl bp ?w4;
           (case body of
              None \<Rightarrow> do { w6 \<leftarrow> ten_http_response_destroy (Some (?r c)) w5; Some (None, sock1, w6) }
            | Some b \<Rightarrow> Some (Some (?r c\<lparr>rs_body := Some b\<rparr>), sock1, w5))
         })"
      using block resp(2) head(1) c_string_before_nul [of hb]
      by (simp add: ten__http_parse_response_def ten__http_response_create_def ten_free_def Let_def)
    have destroy: "\<exists>w'. ten_http_response_destroy (Some (?r st)) w5 = Some w' \<and> live w' = live w5 - (1 + headers_owned h) \<and>
        refusals w' = refusals w5" for st w5
      using response_destroy_parts [of "?r st" kvs None w5] head(2) by (simp add: response_owned_def)
    have w4: "live ?w4 - (1 + headers_owned h) = live w" "refusals w \<le> refusals ?w4"
      using head block resp by simp_all
    show ?thesis
    proof (cases "cl = -2")
      case True
      then have "refusals ?w4 = refusals w \<Longrightarrow> response_of hb (bp @ stream (sk_incoming s)) = None"
        using head(3,6) block resp by (auto simp: response_of_def)
      from parsed_gone [where destroy = "ten_http_response_destroy (Some (?r 200))", OF destroy w4 this] show ?thesis using True run by simp
    next
      case False
      let ?v = "\<lambda>ys. \<lparr>resp_status = c, resp_headers = kvs, resp_body = Some ys\<rparr>"
      have "parsed_as response_rep response_owned (response_of hb (bp @ stream (sk_incoming s))) s w (do {
           (body, sock1, w5) \<leftarrow> ten__http_read_body s cl bp ?w4;
           (case body of
              None \<Rightarrow> do { w6 \<leftarrow> ten_http_response_destroy (Some (?r c)) w5; Some (None, sock1, w6) }
            | Some b \<Rightarrow> Some (Some (?r c\<lparr>rs_body := Some b\<rparr>), sock1, w5))
         })"
        using head(2,3,6) block resp False
        by (intro parsed_body [where destroy = "ten_http_response_destroy (Some (?r c))" and whole = ?v, OF bp head(5) destroy w4])
          (auto simp: response_rep_def response_owned_def response_of_def)
      then show ?thesis using False run by simp
    qed
  qed
qed

lemma parse_response_spec:
  assumes "length hb < 2 ^ 62" "response_head_ok hb" "length bp < 2 ^ 62"
  shows "(\<exists>r s' w' v. ten__http_parse_response hb bp s w = Some (Some r, s', w') \<and> response_rep r v \<and>
            live w' - response_owned r = live w \<and> refusals w \<le> refusals w' \<and> sk_sent s' = sk_sent s \<and> sk_room s' = sk_room s \<and>
            (refusals w' = refusals w \<longrightarrow> response_of hb (bp @ stream (sk_incoming s)) = Some v)) \<or>
         (\<exists>s' w'. ten__http_parse_response hb bp s w = Some (None, s', w') \<and>
            live w' = live w \<and> refusals w \<le> refusals w' \<and> sk_sent s' = sk_sent s \<and> sk_room s' = sk_room s \<and>
            (refusals w' = refusals w \<longrightarrow> response_of hb (bp @ stream (sk_incoming s)) = None))"
  using parse_response_parsed [OF assms, of s w] by (auto simp: parsed_as_def split: option.splits)

end
