(* ===== verification/Ten_Http_Send.thy ===== *)
theory Ten_Http_Send
  imports Ten_Http_Parse
begin

text \<open>
  Writing messages to a connection (\<open>src/http/http.c\<close>): a message is put together in a buffer, whose
  writes are not checked, and sent until all of it has been accepted. The lines made by
  \<open>snprintf\<close> are cut to the 255 characters that fit the line buffer.
\<close>

section \<open>Definitions\<close>

definition snprintf_line :: "cstring \<Rightarrow> cstring" where
  "snprintf_line t = take 255 t"

definition CRLF :: cstring where
  "CRLF = [0x0D, 0x0A]"

text \<open>A write to the buffer whose return code is ignored.\<close>

definition put :: "byte list \<Rightarrow> ten_buffer \<times> ten_world \<Rightarrow> (ten_buffer \<times> ten_world) option" where
  "put d st = (case st of (out, w) \<Rightarrow> do { (rc, out1, w1) \<leftarrow> buffer_put out d w; Some (out1, w1) })"

partial_function (option) ten__http_send_all ::
    "ten_socket \<Rightarrow> byte list \<Rightarrow> ten_world \<Rightarrow> (ten_error_code \<times> ten_socket \<times> ten_world) option" where
  "ten__http_send_all sock data w =
     (if data = [] then Some (TEN_OK, sock, w)
      else do {
        (n, sock1, w1) \<leftarrow> ten_socket_send (Some sock) (Some data) (of_nat (length data)) w;
        s1 \<leftarrow> sock1;
        if n \<le> 0 then Some (TEN_ERROR_NETWORK, s1, w1)
        else ten__http_send_all s1 (drop (nat n) data) w1
      })"

definition ten__http_write_headers ::
    "http_headers \<Rightarrow> ten_buffer \<times> ten_world \<Rightarrow> (ten_buffer \<times> ten_world) option" where
  "ten__http_write_headers h st =
     for_range (unat (hh_count h)) 0
       (\<lambda>i st. do {
          pair \<leftarrow> pair_at (hh_pairs h) i;
          n \<leftarrow> c_string (block_cells (hp_name pair));
          st1 \<leftarrow> put n st;
          st2 \<leftarrow> put (ascii '': '') st1;
          v \<leftarrow> c_string (block_cells (hp_value pair));
          st3 \<leftarrow> put v st2;
          put CRLF st3
        }) st"

definition length_lines :: "nat \<Rightarrow> cstring" where
  "length_lines n = ascii ''Content-Length: '' @ nat_digits n @ CRLF @ ascii ''Connection: close'' @ CRLF @ CRLF"

definition message_size :: "ten_buffer option \<Rightarrow> size_t" where
  "message_size body = (case body of None \<Rightarrow> 0 | Some b \<Rightarrow> b_size b)"

text \<open>What requests and responses share: the lines, the headers, the last lines, the body.\<close>

definition send_message ::
    "cstring list \<Rightarrow> http_headers \<Rightarrow> ten_buffer option \<Rightarrow> ten_socket \<Rightarrow> ten_world \<Rightarrow>
     (ten_error_code \<times> ten_socket \<times> ten_world) option" where
  "send_message ls headers body sock w =
     (case ten_buffer_create w of
        (None, w1) \<Rightarrow> Some (TEN_ERROR_OUT_OF_MEMORY, sock, w1)
      | (Some out, w1) \<Rightarrow> do {
          st1 \<leftarrow> each (\<lambda>l. put (snprintf_line l)) ls (out, w1);
          st2 \<leftarrow> ten__http_write_headers headers st1;
          let body_size = message_size body;
          st3 \<leftarrow> put (snprintf_line (length_lines (unat body_size))) st2;
          st4 \<leftarrow> (if body_size > 0
                 then do { b \<leftarrow> body; d \<leftarrow> bytes_at (b_data b) body_size; put d st3 }
                 else Some st3);
          let (out1, w2) = st4;
          data \<leftarrow> bytes_at (b_data out1) (b_size out1);
          (rc, sock1, w3) \<leftarrow> ten__http_send_all sock data w2;
          w4 \<leftarrow> ten_buffer_destroy (Some out1) w3;
          Some (rc, sock1, w4)
        })"

definition request_lines :: "ten_http_method_t \<Rightarrow> cstring \<Rightarrow> cstring \<Rightarrow> cstring list" where
  "request_lines m path host =
     [ten__http_method_name m @ [0x20] @ path @ ascii '' HTTP/1.1'' @ CRLF, ascii ''Host: '' @ host @ CRLF]"

definition ten__http_send_request ::
    "ten_socket \<Rightarrow> ten_http_request \<Rightarrow> cstring \<Rightarrow> ten_world \<Rightarrow>
     (ten_error_code \<times> ten_socket \<times> ten_world) option" where
  "ten__http_send_request sock req host w = do {
     path \<leftarrow> c_string (block_cells (rq_path req));
     send_message (request_lines (rq_method req) path host) (rq_headers req) (rq_body req) sock w
   }"

definition status_lines :: "int \<Rightarrow> cstring list" where
  "status_lines status =
     [ascii ''HTTP/1.1 '' @ format_lld status @ [0x20] @ ten__http_status_text status @ CRLF]"

definition ten__http_send_response ::
    "ten_socket \<Rightarrow> ten_http_response \<Rightarrow> ten_world \<Rightarrow> (ten_error_code \<times> ten_socket \<times> ten_world) option" where
  "ten__http_send_response sock response w =
     send_message (status_lines (rs_status response)) (rs_headers response) (rs_body response) sock w"

section \<open>The bytes of a message\<close>

definition header_pieces :: "(cstring \<times> cstring) list \<Rightarrow> byte list list" where
  "header_pieces kvs = concat (map (\<lambda>(n, v). [n, ascii '': '', v, CRLF]) kvs)"

definition message_pieces ::
    "cstring list \<Rightarrow> (cstring \<times> cstring) list \<Rightarrow> byte list option \<Rightarrow> byte list list" where
  "message_pieces ls kvs body =
     (let d = (case body of None \<Rightarrow> [] | Some d \<Rightarrow> d)
      in map snprintf_line ls @ header_pieces kvs @ [snprintf_line (length_lines (length d))] @ (if d = [] then [] else [d]))"

definition message_bytes :: "cstring list \<Rightarrow> (cstring \<times> cstring) list \<Rightarrow> byte list option \<Rightarrow> byte list" where
  "message_bytes ls kvs body = concat (message_pieces ls kvs body)"

lemma put_put_all: "put d (out, w) = put_all buffer_put [d] out w"
  by (simp add: put_def)

lemma put_all_put: "put_all buffer_put (d # ds) out w = do { (out1, w1) \<leftarrow> put d (out, w); put_all buffer_put ds out1 w1 }"
  by (cases "buffer_put out d w") (auto simp: put_def)

lemma each_put: "each (\<lambda>l. put (f l)) ls (out, w) = put_all buffer_put (map f ls) out w"
proof (induction ls arbitrary: out w)
  case (Cons l ls)
  then show ?case by (cases "put (f l) (out, w)") (auto simp: put_all_put simp del: put_all.simps)
qed simp

lemma write_headers_from:
  assumes "headers_rep h kvs" "j + k = length kvs"
  shows "for_range k (of_nat j)
       (\<lambda>i st. do {
          pair \<leftarrow> pair_at (hh_pairs h) i; n \<leftarrow> c_string (block_cells (hp_name pair));
          st1 \<leftarrow> put n st; st2 \<leftarrow> put (ascii '': '') st1;
          v \<leftarrow> c_string (block_cells (hp_value pair)); st3 \<leftarrow> put v st2; put CRLF st3
        }) (out, w) = put_all buffer_put (header_pieces (drop j kvs)) out w"
  using assms(2)
proof (induction k arbitrary: j out w)
  case 0
  then show ?case by (simp add: header_pieces_def)
next
  case (Suc k)
  then have j: "j < length kvs" by simp
  obtain n v where kv: "kvs ! j = (n, v)" by (cases "kvs ! j")
  then have "(n, v) \<in> set kvs" using j by (metis nth_mem)
  then have nul: "0 \<notin> set n" "0 \<notin> set v" using assms(1) by (auto simp: headers_rep_def cstr_ok_def)
  have pieces: "header_pieces (drop j kvs) = [n, ascii '': '', v, CRLF] @ header_pieces (drop (Suc j) kvs)"
    using kv j by (simp add: header_pieces_def flip: Cons_nth_drop_Suc)
  have ih: "for_range k (of_nat (Suc j))
       (\<lambda>i st. do {
          pair \<leftarrow> pair_at (hh_pairs h) i; n \<leftarrow> c_string (block_cells (hp_name pair));
          st1 \<leftarrow> put n st; st2 \<leftarrow> put (ascii '': '') st1;
          v \<leftarrow> c_string (block_cells (hp_value pair)); st3 \<leftarrow> put v st2; put CRLF st3
        }) (out', w') = put_all buffer_put (header_pieces (drop (Suc j) kvs)) out' w'" for out' w'
    using Suc.prems by (intro Suc.IH) simp
  show ?case
    using pair_at_rep [OF assms(1) j] kv nul ih
    by (simp add: pieces pair_of_def c_string_bytes put_all_put add.commute split: Option.bind_split del: put_all.simps)
qed

lemma write_headers_spec:
  "headers_rep h kvs \<Longrightarrow> ten__http_write_headers h (out, w) = put_all buffer_put (header_pieces kvs) out w"
  using write_headers_from [of h kvs 0 "length kvs" out w] rep_small(2) [of h kvs]
  by (simp add: ten__http_write_headers_def)

lemma body_bytes:
  assumes "body_rep body x"
  shows "unat (message_size body) = length (case x of None \<Rightarrow> [] | Some d \<Rightarrow> d)"
    "message_size body > 0 \<Longrightarrow> \<exists>b d. body = Some b \<and> x = Some d \<and> d \<noteq> [] \<and> bytes_at (b_data b) (message_size body) = Some d"
    "message_size body = 0 \<longleftrightarrow> (case x of None \<Rightarrow> [] | Some d \<Rightarrow> d) = []"
  using assms buffer_bytes
  by (cases body; cases x; auto simp: message_size_def buffer_rep_def size_eq_iff word_gt_0)+

section \<open>Sending\<close>

lemma send_all_spec:
  assumes "length d < 2 ^ 64"
  shows "\<exists>rc s' w' k. ten__http_send_all s d w = Some (rc, s', w') \<and> sk_sent s' = sk_sent s @ take k d \<and>
    sk_incoming s' = sk_incoming s \<and> live w' = live w \<and> refusals w' = refusals w \<and>
    (rc = TEN_OK \<and> k = length d \<or> rc = TEN_ERROR_NETWORK \<and> k \<le> length d \<and> sk_room s \<noteq> [])"
  using assms
proof (induction "length d" arbitrary: d s w rule: less_induct)
  case less
  show ?case
  proof (cases "d = []")
    case True
    then show ?thesis by (subst ten__http_send_all.simps) simp
  next
    case False
    then have run: "ten__http_send_all s d w = do {
        (n, sock1, w1) \<leftarrow> ten_socket_send (Some s) (Some d) (of_nat (length d)) w;
        s1 \<leftarrow> sock1;
        if n \<le> 0 then Some (TEN_ERROR_NETWORK, s1, w1) else ten__http_send_all s1 (drop (nat n) d) w1 }"
      by (subst ten__http_send_all.simps) simp
    from less.prems show ?thesis
    proof (cases rule: send_cases [where s = s and w = w])
      case (failed s1)
      then show ?thesis
        by (intro exI [of _ TEN_ERROR_NETWORK] exI [of _ s1] exI [of _ "ten__set_error TEN_ERROR_NETWORK w"] exI [of _ 0])
          (simp add: run)
    next
      case (accepted k s1)
      show ?thesis
      proof (cases "k = 0")
        case True
        then show ?thesis
          using accepted False
          by (intro exI [of _ TEN_ERROR_NETWORK] exI [of _ s1] exI [of _ "ten__set_error TEN_OK w"] exI [of _ 0])
            (auto simp: run)
      next
        case nz: False
        then have "length (drop k d) < length d" "length (drop k d) < 2 ^ 64"
          using False less.prems accepted(2) by simp_all
        from less.hyps [OF this, of s1 "ten__set_error TEN_OK w"] obtain rc s' w' j where
          ih: "ten__http_send_all s1 (drop k d) (ten__set_error TEN_OK w) = Some (rc, s', w')"
            "sk_sent s' = sk_sent s1 @ take j (drop k d)" "sk_incoming s' = sk_incoming s1" "live w' = live w"
            "refusals w' = refusals w"
            "rc = TEN_OK \<and> j = length (drop k d) \<or> rc = TEN_ERROR_NETWORK \<and> j \<le> length (drop k d) \<and> sk_room s1 \<noteq> []"
          by auto
        then show ?thesis
          using accepted nz
          by (intro exI [of _ rc] exI [of _ s'] exI [of _ w'] exI [of _ "k + j"]) (auto simp: run take_add)
      qed
    qed
  qed
qed

text \<open>
  Sending a message: it is always defined and leaves no block behind; when no request was refused
  and the peer took everything, the bytes of the message have been sent.
\<close>

lemma send_message_spec:
  assumes rep: "headers_rep h kvs" "body_rep body x" and len: "length (message_bytes ls kvs x) < 2 ^ 63"
  shows "\<exists>rc s' w' e. send_message ls h body s w = Some (rc, s', w') \<and> sk_sent s' = sk_sent s @ e \<and>
    sk_incoming s' = sk_incoming s \<and> live w' = live w \<and> refusals w \<le> refusals w' \<and>
    (refusals w' = refusals w \<longrightarrow> rc \<in> {TEN_OK, TEN_ERROR_NETWORK} \<and>
       (rc = TEN_OK \<longrightarrow> e = message_bytes ls kvs x) \<and> (sk_room s = [] \<longrightarrow> rc = TEN_OK))"
  using buffer_create_spec [of w]
proof (elim disjE exE conjE)
  fix w1
  assume "ten_buffer_create w = (None, w1)" "refusals w < refusals w1" "live w1 = live w"
  then show ?thesis by (simp add: send_message_def)
next
  fix out w1
  assume out: "ten_buffer_create w = (Some out, w1)" "buffer_rep out []" "refusals w1 = refusals w"
    "live w1 - buffer_owned out = live w"
  let ?d = "case x of None \<Rightarrow> [] | Some d \<Rightarrow> d"
  have "length ([] :: byte list) + length (concat (message_pieces ls kvs x)) < 2 ^ 63"
    using len by (simp add: message_bytes_def)
  from buffer_sink.put_all_law [OF out(2) _ this, of w1] obtain out1 w2 es where
    put: "put_all buffer_put (message_pieces ls kvs x) out w1 = Some (out1, w2)" "buffer_rep out1 (concat es)"
      "length (concat es) \<le> length (concat (message_pieces ls kvs x))"
      "refusals w1 \<le> refusals w2" "refusals w2 = refusals w1 \<longrightarrow> es = message_pieces ls kvs x"
      "live w2 - buffer_owned out1 = live w1 - buffer_owned out"
    by auto
  have body: "(if message_size body > 0
         then do { b \<leftarrow> body; d \<leftarrow> bytes_at (b_data b) (message_size body); put d (o3, w3) }
         else Some (o3, w3)) = put_all buffer_put (if ?d = [] then [] else [?d]) o3 w3" for o3 w3
    using body_bytes [OF rep(2)] by (auto simp: word_gt_0 put_put_all simp del: put_all.simps(2))
  have run: "send_message ls h body s w = do {
      (out1, w2) \<leftarrow> put_all buffer_put (message_pieces ls kvs x) out w1;
      data \<leftarrow> bytes_at (b_data out1) (b_size out1);
      (rc, sock1, w3) \<leftarrow> ten__http_send_all s data w2;
      w4 \<leftarrow> ten_buffer_destroy (Some out1) w3;
      Some (rc, sock1, w4) }"
  proof -
    have pieces: "message_pieces ls h' x = map snprintf_line ls @ header_pieces h' @
        [snprintf_line (length_lines (unat (message_size body)))] @ (if ?d = [] then [] else [?d])" for h'
      using body_bytes(1) [OF rep(2)] by (simp add: message_pieces_def Let_def)
    show ?thesis
      unfolding send_message_def out(1) prod.case option.case each_put pieces put_all_append
      by (cases "put_all buffer_put (map snprintf_line ls) out w1")
        (auto simp: write_headers_spec [OF rep(1)] body put_put_all Let_def simp del: put_all.simps split: Option.bind_split)
  qed
  have "length (concat es) < 2 ^ 64" using put(3) len by (simp add: message_bytes_def)
  from send_all_spec [OF this, of s w2] obtain rc s' w3 k where
    sent: "ten__http_send_all s (concat es) w2 = Some (rc, s', w3)" "sk_sent s' = sk_sent s @ take k (concat es)"
      "sk_incoming s' = sk_incoming s" "live w3 = live w2" "refusals w3 = refusals w2"
      "rc = TEN_OK \<and> k = length (concat es) \<or> rc = TEN_ERROR_NETWORK \<and> k \<le> length (concat es) \<and> sk_room s \<noteq> []"
    by blast
  obtain w4 where w4: "ten_buffer_destroy (Some out1) w3 = Some w4" "live w4 = live w3 - buffer_owned out1"
      "refusals w4 = refusals w3"
    using buffer_destroy_spec [OF put(2), of w3] by blast
  show ?thesis
    using run put sent w4 out buffer_bytes [OF put(2)]
    by (intro exI [of _ rc] exI [of _ s'] exI [of _ w4] exI [of _ "take k (concat es)"])
      (auto simp: message_bytes_def)
qed

end
