(* ===== verification/Ten_Sync.thy ===== *)
theory Ten_Sync
  imports Ten_Memory
begin

text \<open>
  The wrappers of the POSIX synchronisation primitives and of threads
  (\<open>include/ten/sync.h\<close>, \<open>include/ten/thread.h\<close>, \<open>src/platform/posix/sync_posix.c\<close>,
  \<open>thread_posix.c\<close>). What a call of the operating system answers is an argument: 0 for
  success, an error number otherwise. A handle is what the wrapper allocated for it; the
  primitive itself, with its blocking, is the operating system's.
\<close>

section \<open>Answers of the operating system\<close>

definition EBUSY :: int where "EBUSY = 16"

definition ETIMEDOUT :: int where "ETIMEDOUT = 110"

text \<open>A handle of a mutex, a semaphore, a condition variable or a thread that exists.\<close>

type_synonym handle = unit

text \<open>The body that most operations share: a null check, the call, the error code of its answer.\<close>

definition checked :: "bool \<Rightarrow> int \<Rightarrow> ten_world \<Rightarrow> ten_error_code \<times> ten_world" where
  "checked present rc w =
     (if \<not> present then (TEN_ERROR_NULL_ARGUMENT, ten__set_error TEN_ERROR_NULL_ARGUMENT w)
      else if rc \<noteq> 0 then (TEN_ERROR_SYSTEM, ten__set_error TEN_ERROR_SYSTEM w)
      else (TEN_OK, ten__set_error TEN_OK w))"

text \<open>Creation: a block for the handle, which is given back when the primitive cannot be made.\<close>

definition created :: "size_t \<Rightarrow> int \<Rightarrow> ten_world \<Rightarrow> (handle option \<times> ten_world) option" where
  "created sz rc w =
     (let (block, w1) = ten_malloc sz w
      in if is_Null block then Some (None, w1)
         else if rc \<noteq> 0
         then do { w2 \<leftarrow> ten_free block w1; Some (None, ten__set_error TEN_ERROR_SYSTEM w2) }
         else Some (Some (), ten__set_error TEN_OK w1))"

definition destroyed :: "handle option \<Rightarrow> ten_world \<Rightarrow> ten_world option" where
  "destroyed h w = (case h of None \<Rightarrow> Some w | Some _ \<Rightarrow> free_struct w)"

section \<open>Mutexes\<close>

definition sizeof_ten_mutex :: size_t where
  "sizeof_ten_mutex = 40"

text \<open>\<open>recursive\<close> only chooses the attributes that \<open>pthread_mutex_init\<close> gets.\<close>

definition ten__mutex_create :: "bool \<Rightarrow> (bool \<Rightarrow> int) \<Rightarrow> ten_world \<Rightarrow> (handle option \<times> ten_world) option" where
  "ten__mutex_create recursive pthread_mutex_init w = created sizeof_ten_mutex (pthread_mutex_init recursive) w"

definition ten_mutex_create :: "(bool \<Rightarrow> int) \<Rightarrow> ten_world \<Rightarrow> (handle option \<times> ten_world) option" where
  "ten_mutex_create pthread_mutex_init w = ten__mutex_create False pthread_mutex_init w"

definition ten_mutex_create_recursive :: "(bool \<Rightarrow> int) \<Rightarrow> ten_world \<Rightarrow> (handle option \<times> ten_world) option" where
  "ten_mutex_create_recursive pthread_mutex_init w = ten__mutex_create True pthread_mutex_init w"

definition ten_mutex_destroy :: "handle option \<Rightarrow> ten_world \<Rightarrow> ten_world option" where
  "ten_mutex_destroy mutex w = destroyed mutex w"

definition ten_mutex_lock :: "handle option \<Rightarrow> int \<Rightarrow> ten_world \<Rightarrow> ten_error_code \<times> ten_world" where
  "ten_mutex_lock mutex rc w = checked (mutex \<noteq> None) rc w"

definition ten_mutex_try_lock :: "handle option \<Rightarrow> int \<Rightarrow> ten_world \<Rightarrow> ten_error_code \<times> ten_world" where
  "ten_mutex_try_lock mutex rc w =
     (if mutex = None then (TEN_ERROR_NULL_ARGUMENT, ten__set_error TEN_ERROR_NULL_ARGUMENT w)
      else if rc = 0 then (TEN_OK, ten__set_error TEN_OK w)
      else if rc = EBUSY then (TEN_ERROR_TIMEOUT, ten__set_error TEN_ERROR_TIMEOUT w)
      else (TEN_ERROR_SYSTEM, ten__set_error TEN_ERROR_SYSTEM w))"

definition ten_mutex_unlock :: "handle option \<Rightarrow> int \<Rightarrow> ten_world \<Rightarrow> ten_error_code \<times> ten_world" where
  "ten_mutex_unlock mutex rc w = checked (mutex \<noteq> None) rc w"

section \<open>Semaphores\<close>

definition sizeof_ten_semaphore :: size_t where
  "sizeof_ten_semaphore = 32"

definition ten_semaphore_create :: "u32 \<Rightarrow> (u32 \<Rightarrow> int) \<Rightarrow> ten_world \<Rightarrow> (handle option \<times> ten_world) option" where
  "ten_semaphore_create initial sem_init w = created sizeof_ten_semaphore (sem_init initial) w"

definition ten_semaphore_wait :: "handle option \<Rightarrow> int \<Rightarrow> ten_world \<Rightarrow> ten_error_code \<times> ten_world" where
  "ten_semaphore_wait semaphore rc w = checked (semaphore \<noteq> None) rc w"

definition ten_semaphore_post :: "handle option \<Rightarrow> int \<Rightarrow> ten_world \<Rightarrow> ten_error_code \<times> ten_world" where
  "ten_semaphore_post semaphore rc w = checked (semaphore \<noteq> None) rc w"

definition ten_semaphore_destroy :: "handle option \<Rightarrow> ten_world \<Rightarrow> ten_world option" where
  "ten_semaphore_destroy semaphore w = destroyed semaphore w"

section \<open>Condition variables\<close>

definition sizeof_ten_cond :: size_t where
  "sizeof_ten_cond = 48"

definition ten_cond_create :: "int \<Rightarrow> ten_world \<Rightarrow> (handle option \<times> ten_world) option" where
  "ten_cond_create rc w = created sizeof_ten_cond rc w"

definition ten_cond_destroy :: "handle option \<Rightarrow> ten_world \<Rightarrow> ten_world option" where
  "ten_cond_destroy cond w = destroyed cond w"

definition ten_cond_wait :: "handle option \<Rightarrow> handle option \<Rightarrow> int \<Rightarrow> ten_world \<Rightarrow> ten_error_code \<times> ten_world" where
  "ten_cond_wait cond mutex rc w = checked (cond \<noteq> None \<and> mutex \<noteq> None) rc w"

record timespec =
  tv_sec :: "64 word"
  tv_nsec :: "64 word"

text \<open>
  The deadline \<open>ms\<close> milliseconds after \<open>now\<close>. The C fields are signed; within the bounds stated
  with the theorems the arithmetic does not leave their range.
\<close>

definition deadline :: "timespec \<Rightarrow> 64 word \<Rightarrow> timespec" where
  "deadline now ms =
     (let sec = tv_sec now + ms div 1000;
          nsec = tv_nsec now + (ms mod 1000) * 1000000
      in if 1000000000 <=s nsec
         then \<lparr>tv_sec = sec + 1, tv_nsec = nsec - 1000000000\<rparr>
         else \<lparr>tv_sec = sec, tv_nsec = nsec\<rparr>)"

definition ten_cond_wait_timeout ::
    "handle option \<Rightarrow> handle option \<Rightarrow> 64 word \<Rightarrow> timespec \<Rightarrow> (timespec \<Rightarrow> int) \<Rightarrow> ten_world \<Rightarrow>
     ten_error_code \<times> ten_world" where
  "ten_cond_wait_timeout cond mutex milliseconds now pthread_cond_timedwait w =
     (if cond = None \<or> mutex = None
      then (TEN_ERROR_NULL_ARGUMENT, ten__set_error TEN_ERROR_NULL_ARGUMENT w)
      else
        let rc = pthread_cond_timedwait (deadline now milliseconds)
        in if rc = 0 then (TEN_OK, ten__set_error TEN_OK w)
           else if rc = ETIMEDOUT then (TEN_ERROR_TIMEOUT, ten__set_error TEN_ERROR_TIMEOUT w)
           else (TEN_ERROR_SYSTEM, ten__set_error TEN_ERROR_SYSTEM w))"

definition ten_cond_signal :: "handle option \<Rightarrow> int \<Rightarrow> ten_world \<Rightarrow> ten_error_code \<times> ten_world" where
  "ten_cond_signal cond rc w = checked (cond \<noteq> None) rc w"

definition ten_cond_broadcast :: "handle option \<Rightarrow> int \<Rightarrow> ten_world \<Rightarrow> ten_error_code \<times> ten_world" where
  "ten_cond_broadcast cond rc w = checked (cond \<noteq> None) rc w"

section \<open>Threads\<close>

definition sizeof_ten_thread :: size_t where
  "sizeof_ten_thread = 8"

definition ten_thread_create :: "bool \<Rightarrow> int \<Rightarrow> ten_world \<Rightarrow> (handle option \<times> ten_world) option" where
  "ten_thread_create has_function rc w =
     (if \<not> has_function then Some (None, ten__set_error TEN_ERROR_NULL_ARGUMENT w)
      else created sizeof_ten_thread rc w)"

text \<open>Joining gives the handle back whatever the answer is; the thread's result is \<open>ret\<close>.\<close>

definition ten_thread_join ::
    "handle option \<Rightarrow> int \<Rightarrow> 'r \<Rightarrow> ten_world \<Rightarrow> (ten_error_code \<times> 'r option \<times> ten_world) option" where
  "ten_thread_join thread rc ret w =
     (case thread of
        None \<Rightarrow> Some (TEN_ERROR_NULL_ARGUMENT, None, ten__set_error TEN_ERROR_NULL_ARGUMENT w)
      | Some _ \<Rightarrow> do {
          w1 \<leftarrow> free_struct w;
          if rc \<noteq> 0 then Some (TEN_ERROR_SYSTEM, None, ten__set_error TEN_ERROR_SYSTEM w1)
          else Some (TEN_OK, Some ret, ten__set_error TEN_OK w1)
        })"

section \<open>Facts\<close>

lemma created_cases:
  obtains (made) w' where "created sz 0 w = Some (Some (), w')" "g_ten_last_error w' = TEN_OK"
      "refusals w' = refusals w" "live w' = live w + 1" "rc = 0"
  | (refused) w' where "created sz rc w = Some (None, w')" "g_ten_last_error w' = TEN_ERROR_OUT_OF_MEMORY"
      "refusals w < refusals w'" "live w' = live w"
  | (failed) w' where "created sz rc w = Some (None, w')" "g_ten_last_error w' = TEN_ERROR_SYSTEM"
      "refusals w' = refusals w" "live w' = live w" "rc \<noteq> 0"
proof (cases rule: ten_malloc_cases [where n = sz and w = w])
  case (granted w1)
  show thesis
  proof (cases "rc = 0")
    case True
    then show thesis using granted by (intro made [of "ten__set_error TEN_OK w1"]) (simp_all add: created_def)
  next
    case False
    then show thesis using granted
      by (intro failed [of "ten__set_error TEN_ERROR_SYSTEM (w1\<lparr>live := live w1 - 1\<rparr>)"])
        (simp_all add: created_def ten_free_def)
  qed
next
  case (refused w1)
  then show thesis using that(2) [of w1] by (simp add: created_def)
qed

lemma destroyed_spec: "\<exists>w'. destroyed h w = Some w' \<and> live w' = live w - (if h = None then 0 else 1) \<and>
    refusals w' = refusals w \<and> g_ten_last_error w' = g_ten_last_error w"
  by (cases h) (simp_all add: destroyed_def)

text \<open>The deadline is a normal time, exactly \<open>ms\<close> milliseconds later.\<close>

lemma deadline_exact:
  assumes "unat (tv_nsec now) < 10 ^ 9" "unat (tv_sec now) + unat ms < 2 ^ 62"
  shows "unat (tv_nsec (deadline now ms)) < 10 ^ 9 \<and>
    unat (tv_sec (deadline now ms)) * 10 ^ 9 + unat (tv_nsec (deadline now ms)) =
    unat (tv_sec now) * 10 ^ 9 + unat (tv_nsec now) + unat ms * 10 ^ 6"
proof -
  let ?s = "unat (tv_sec now)" and ?n = "unat (tv_nsec now)"
  define q where "q = unat ms div 1000"
  define r where "r = unat ms mod 1000 * 1000000"
  have "unat ms div 1000 * 1000 + unat ms mod 1000 = unat ms" by (rule div_mult_mod_eq)
  then have qr: "q * 1000000000 + r = unat ms * 1000000" unfolding q_def r_def by linarith
  have small: "r < 1000000000" by (simp add: r_def)
  define sec where "sec = tv_sec now + ms div 1000"
  define nsec where "nsec = tv_nsec now + (ms mod 1000) * 1000000"
  have "unat (ms mod 1000 * 1000000) = r"
    unfolding r_def by (subst unat_mult_size) (simp_all add: unat_mod)
  then have nsec: "unat nsec = ?n + r"
    using assms(1) small unfolding nsec_def by (subst unat_add_size) simp_all
  have "?s + q < 2 ^ 62" using assms(2) unfolding q_def by linarith
  then have sec: "unat sec = ?s + q"
    unfolding sec_def q_def by (subst unat_add_size) (simp_all add: unat_div)
  have "unat nsec < 2 ^ 63" using nsec assms(1) small by simp
  then have "1000000000 <=s nsec \<longleftrightarrow> 1000000000 \<le> uint nsec"
    by (simp add: word_sle_eq sint_size)
  moreover have "int (10 ^ 9) \<le> int (unat nsec) \<longleftrightarrow> 10 ^ 9 \<le> unat nsec" by (rule of_nat_le_iff)
  ultimately have carry: "1000000000 <=s nsec \<longleftrightarrow> 10 ^ 9 \<le> unat nsec" by simp
  show ?thesis
  proof (cases "10 ^ 9 \<le> unat nsec")
    case True
    then have "deadline now ms = \<lparr>tv_sec = sec + 1, tv_nsec = nsec - 1000000000\<rparr>"
      using carry by (simp add: deadline_def sec_def nsec_def Let_def)
    moreover have "unat (sec + 1) = ?s + q + 1"
      using sec \<open>?s + q < 2 ^ 62\<close> by (subst unat_add_size) simp_all
    moreover have "unat (nsec - 1000000000) = ?n + r - 1000000000"
      using True nsec by (subst unat_diff_size) (simp_all add: size_nat)
    ultimately show ?thesis using True nsec assms(1) small qr by auto
  next
    case False
    then have "deadline now ms = \<lparr>tv_sec = sec, tv_nsec = nsec\<rparr>"
      using carry by (simp add: deadline_def sec_def nsec_def Let_def)
    then show ?thesis using False nsec sec qr by simp
  qed
qed

end
