(* ===== verification/Ten_Http_Server.thy ===== *)
theory Ten_Http_Server
  imports Ten_Http_Send Ten_Sync
begin

text \<open>
  The HTTP client and the HTTP server (\<open>src/http/http.c\<close>). The client connects, sends a request and
  reads the response. The server answers one request on each connection it accepts; its handler
  is a parameter, and what polling and accepting give in each round of its loop is a list.
\<close>

section \<open>The client\<close>

text \<open>Reading a message: its headers, the bytes read with them, and the state of the connection.\<close>

definition split_message :: "ten_buffer \<Rightarrow> (byte list \<times> byte list) option" where
  "split_message raw = do {
     data \<leftarrow> bytes_at (b_data raw) (b_size raw);
     header_len \<leftarrow> ten__find_crlf_crlf data;
     Some (take header_len data, drop (header_len + 4) data)
   }"

text \<open>
  After the request has been sent: the response is read and parsed, and the connection closed.
\<close>

definition await_response :: "ten_socket \<Rightarrow> ten_world \<Rightarrow> (ten_http_response option \<times> ten_socket option \<times> ten_world) option" where
  "await_response s1 w2 =
     (case ten_buffer_create w2 of
        (None, w3) \<Rightarrow> do { w4 \<leftarrow> ten_socket_close (Some s1) w3; Some (None, Some s1, w4) }
      | (Some raw, w3) \<Rightarrow> do {
          (ok, s2, raw1, w4) \<leftarrow> ten__http_read_until_headers_end s1 raw w3;
          if \<not> ok
          then do {
            w5 \<leftarrow> ten_buffer_destroy (Some raw1) w4;
            w6 \<leftarrow> ten_socket_close (Some s2) w5;
            Some (None, Some s2, ten__set_error TEN_ERROR_NETWORK w6)
          }
          else do {
            (header_block, body_prefix) \<leftarrow> split_message raw1;
            (resp, s3, w5) \<leftarrow> ten__http_parse_response header_block body_prefix s2 w4;
            w6 \<leftarrow> ten_buffer_destroy (Some raw1) w5;
            w7 \<leftarrow> ten_socket_close (Some s3) w6;
            (case resp of
               None \<Rightarrow> Some (None, Some s3, ten__set_error TEN_ERROR_PARSE w7)
             | Some p \<Rightarrow> Some (Some p, Some s3, ten__set_error TEN_OK w7))
          }
        })"

definition ten_http_client_send ::
    "resolver \<Rightarrow> cstring option \<Rightarrow> u16 \<Rightarrow> ten_http_request option \<Rightarrow> ten_world \<Rightarrow>
     (ten_http_response option \<times> ten_socket option \<times> ten_world) option" where
  "ten_http_client_send resolve host port req w =
     (case (host, req) of
        (Some h, Some r) \<Rightarrow>
          (case ten_tcp_connect resolve host port w of
             (None, w1) \<Rightarrow> Some (None, None, w1)
           | (Some sock, w1) \<Rightarrow> do {
               (rc, s1, w2) \<leftarrow> ten__http_send_request sock r h w1;
               if rc \<noteq> TEN_OK
               then do { w3 \<leftarrow> ten_socket_close (Some s1) w2; Some (None, Some s1, ten__set_error TEN_ERROR_NETWORK w3) }
               else await_response s1 w2
             })
      | _ \<Rightarrow> Some (None, None, ten__set_error TEN_ERROR_NULL_ARGUMENT w))"

section \<open>One connection of the server\<close>

type_synonym ten_http_handler_t =
  "ten_http_request \<Rightarrow> ten_http_response \<Rightarrow> ten_world \<Rightarrow> (ten_http_response \<times> ten_world) option"

text \<open>The answer to a request that could not be read, and to one that could.\<close>

definition respond_error :: "ten_socket \<Rightarrow> ten_world \<Rightarrow> (ten_socket \<times> ten_world) option" where
  "respond_error client w =
     (case ten__http_response_create w of
        (None, w1) \<Rightarrow> Some (client, w1)
      | (Some r, w1) \<Rightarrow> do {
          let r1 = r\<lparr>rs_status := 400\<rparr>;
          (rc, c1, w2) \<leftarrow> ten__http_send_response client r1 w1;
          w3 \<leftarrow> ten_http_response_destroy (Some r1) w2;
          Some (c1, w3)
        })"

definition respond ::
    "ten_http_handler_t \<Rightarrow> ten_http_request \<Rightarrow> ten_socket \<Rightarrow> ten_world \<Rightarrow> (ten_socket \<times> ten_world) option" where
  "respond handler req client w =
     (case ten__http_response_create w of
        (None, w1) \<Rightarrow> Some (client, w1)
      | (Some r, w1) \<Rightarrow> do {
          (r1, w2) \<leftarrow> handler req r w1;
          (rc, c1, w3) \<leftarrow> ten__http_send_response client r1 w2;
          w4 \<leftarrow> ten_http_response_destroy (Some r1) w3;
          Some (c1, w4)
        })"

definition ten__http_handle_connection ::
    "ten_http_handler_t \<Rightarrow> ten_socket \<Rightarrow> ten_world \<Rightarrow> (ten_socket \<times> ten_world) option" where
  "ten__http_handle_connection handler client w =
     (case ten_buffer_create w of
        (None, w1) \<Rightarrow> Some (client, w1)
      | (Some raw, w1) \<Rightarrow> do {
          (ok, c1, raw1, w2) \<leftarrow> ten__http_read_until_headers_end client raw w1;
          if \<not> ok then do { w3 \<leftarrow> ten_buffer_destroy (Some raw1) w2; Some (c1, w3) }
          else do {
            (header_block, body_prefix) \<leftarrow> split_message raw1;
            (req, c2, w3) \<leftarrow> ten__http_parse_request header_block body_prefix c1 w2;
            w4 \<leftarrow> ten_buffer_destroy (Some raw1) w3;
            (case req of
               None \<Rightarrow> respond_error c2 w4
             | Some r \<Rightarrow> do {
                 (c3, w5) \<leftarrow> respond handler r c2 w4;
                 w6 \<leftarrow> ten_http_request_destroy (Some r) w5;
                 Some (c3, w6)
               })
          }
        })"

section \<open>The server\<close>

record ten_http_server =
  sv_listener :: "ten_socket option"
  sv_lock :: "handle option"
  sv_handler :: ten_http_handler_t
  sv_stopping :: bool

definition sizeof_ten_http_server :: size_t where
  "sizeof_ten_http_server = 40"

text \<open>The listening socket has a backlog of 32 connections, which the model does not see.\<close>

definition ten_http_server_create ::
    "resolver \<Rightarrow> int \<Rightarrow> (bool \<Rightarrow> int) \<Rightarrow> cstring option \<Rightarrow> u16 \<Rightarrow> ten_http_handler_t option \<Rightarrow> ten_world \<Rightarrow>
     (ten_http_server option \<times> ten_world) option" where
  "ten_http_server_create resolve listen_rc pthread_mutex_init host port handler w =
     (case (host, handler) of
        (Some h, Some f) \<Rightarrow>
          (case ten_tcp_listen resolve listen_rc host port w of
             (None, w1) \<Rightarrow> Some (None, w1)
           | (Some listener, w1) \<Rightarrow>
               let (server, w2) = ten_malloc sizeof_ten_http_server w1
               in if is_Null server then do { w3 \<leftarrow> ten_socket_close (Some listener) w2; Some (None, w3) }
                  else do {
                    (lock, w3) \<leftarrow> ten_mutex_create pthread_mutex_init w2;
                    if lock = None
                    then do { w4 \<leftarrow> free_struct w3; w5 \<leftarrow> ten_socket_close (Some listener) w4; Some (None, w5) }
                    else Some (Some \<lparr>sv_listener = Some listener, sv_lock = lock, sv_handler = f, sv_stopping = False\<rparr>,
                               ten__set_error TEN_OK w3)
                  })
      | _ \<Rightarrow> Some (None, ten__set_error TEN_ERROR_NULL_ARGUMENT w))"

text \<open>
  What a round of the server loop meets: whether the server has been told to stop, the answer of
  polling the listener, and the connection that accepting gives.
\<close>

record http_round =
  rd_stopping :: bool
  rd_ready :: int
  rd_accepted :: "ten_socket option"

text \<open>
  The loop over the rounds to come: it returns at the first round that finds the server stopping,
  with the connections it has served, in order, as they were left. If there is no such round the
  loop never returns.
\<close>

fun server_loop ::
    "ten_http_handler_t \<Rightarrow> ten_socket option \<Rightarrow> http_round list \<Rightarrow> ten_world \<Rightarrow>
     (ten_socket list \<times> ten_world) option" where
  "server_loop handler listener [] w = None"
| "server_loop handler listener (r # rs) w =
     (if rd_stopping r then Some ([], w)
      else
        let (ready, w1) = ten_socket_poll_readable listener (rd_ready r) w
        in if ready \<le> 0 then server_loop handler listener rs w1
           else (case ten_tcp_accept listener (rd_accepted r) w1 of
                   (None, w2) \<Rightarrow> server_loop handler listener rs w2
                 | (Some client, w2) \<Rightarrow> do {
                     (c1, w3) \<leftarrow> ten__http_handle_connection handler client w2;
                     w4 \<leftarrow> ten_socket_close (Some c1) w3;
                     (served, w5) \<leftarrow> server_loop handler listener rs w4;
                     Some (c1 # served, w5)
                   }))"

definition ten_http_server_run ::
    "ten_http_server option \<Rightarrow> http_round list \<Rightarrow> ten_world \<Rightarrow>
     (ten_error_code \<times> ten_socket list \<times> ten_world) option" where
  "ten_http_server_run server rounds w =
     (case server of
        None \<Rightarrow> Some (TEN_ERROR_NULL_ARGUMENT, [], ten__set_error TEN_ERROR_NULL_ARGUMENT w)
      | Some s \<Rightarrow> do {
          (served, w1) \<leftarrow> server_loop (sv_handler s) (sv_listener s) rounds w;
          Some (TEN_OK, served, ten__set_error TEN_OK w1)
        })"

definition ten_http_server_stop :: "ten_http_server option \<Rightarrow> ten_http_server option" where
  "ten_http_server_stop server = map_option (\<lambda>s. s\<lparr>sv_stopping := True\<rparr>) server"

definition ten_http_server_destroy :: "ten_http_server option \<Rightarrow> ten_world \<Rightarrow> ten_world option" where
  "ten_http_server_destroy server w =
     (case server of
        None \<Rightarrow> Some w
      | Some s \<Rightarrow> do {
          w1 \<leftarrow> ten_socket_close (sv_listener s) w;
          w2 \<leftarrow> ten_mutex_destroy (sv_lock s) w1;
          free_struct w2
        })"

section \<open>What a connection is answered\<close>

definition response_message :: "response_value \<Rightarrow> byte list" where
  "response_message v = message_bytes (status_lines (resp_status v)) (resp_headers v) (resp_body v)"

definition bad_request :: response_value where
  "bad_request = \<lparr>resp_status = 400, resp_headers = [], resp_body = None\<rparr>"

definition fresh_response :: response_value where
  "fresh_response = \<lparr>resp_status = 200, resp_headers = [], resp_body = None\<rparr>"

text \<open>
  A handler that answers with \<open>answer\<close>: it returns, it leaves a well-formed response that owns what
  was allocated, and without refusals this is the answer to the request.
\<close>

definition serves :: "ten_http_handler_t \<Rightarrow> (request_value \<Rightarrow> response_value) \<Rightarrow> bool" where
  "serves f answer \<longleftrightarrow>
     (\<forall>rq v r w. request_rep rq v \<longrightarrow> response_rep r fresh_response \<longrightarrow>
        (\<exists>r' rv w'. f rq r w = Some (r', w') \<and> response_rep r' rv \<and> length (response_message rv) < 2 ^ 63 \<and>
           live w' - response_owned r' = live w - response_owned r \<and> refusals w \<le> refusals w' \<and>
           (refusals w' = refusals w \<longrightarrow> rv = answer v)))"

text \<open>The reply to the bytes of a connection.\<close>

definition reply :: "(request_value \<Rightarrow> response_value) \<Rightarrow> byte list \<Rightarrow> byte list" where
  "reply answer data =
     (case ten__find_crlf_crlf data of
        None \<Rightarrow> []
      | Some i \<Rightarrow> response_message
          (case request_of (take i data) (drop (i + 4) data) of None \<Rightarrow> bad_request | Some v \<Rightarrow> answer v))"

text \<open>The numbers in the headers can be read, and the headers are within the bound, if they end at all.\<close>

definition within_bounds :: "byte list \<Rightarrow> bool" where
  "within_bounds data \<longleftrightarrow> (\<forall>i. ten__find_crlf_crlf data = Some i \<longrightarrow> i + 4 \<le> 65536)"

definition readable :: "byte list \<Rightarrow> bool" where
  "readable data \<longleftrightarrow> (\<forall>i. ten__find_crlf_crlf data = Some i \<longrightarrow> request_head_ok (take i data))"

lemma within_bounds_case [code]:
  "within_bounds data \<longleftrightarrow> (case ten__find_crlf_crlf data of None \<Rightarrow> True | Some i \<Rightarrow> i + 4 \<le> 65536)"
  by (simp add: within_bounds_def split: option.split)

lemma within_bounds_short: "length data \<le> 65536 \<Longrightarrow> within_bounds data"
  using find_crlf_Some [of data] by (fastforce simp: within_bounds_def)

lemma readable_case [code]:
  "readable data \<longleftrightarrow> (case ten__find_crlf_crlf data of None \<Rightarrow> True | Some i \<Rightarrow> request_head_ok (take i data))"
  by (simp add: readable_def split: option.split)

lemma send_response_spec:
  assumes "response_rep r v" "length (response_message v) < 2 ^ 63"
  shows "\<exists>rc s' w' e. ten__http_send_response s r w = Some (rc, s', w') \<and> sk_sent s' = sk_sent s @ e \<and>
    sk_incoming s' = sk_incoming s \<and> live w' = live w \<and> refusals w \<le> refusals w' \<and>
    (refusals w' = refusals w \<longrightarrow> sk_room s = [] \<longrightarrow> e = response_message v)"
proof -
  have rep: "headers_rep (rs_headers r) (resp_headers v)" "body_rep (rs_body r) (resp_body v)" "rs_status r = resp_status v"
    using assms(1) by (simp_all add: response_rep_def)
  from send_message_spec [OF rep(1,2), of "status_lines (resp_status v)" s w] assms(2) obtain rc s' w' e where
    "send_message (status_lines (resp_status v)) (rs_headers r) (rs_body r) s w = Some (rc, s', w')"
    "sk_sent s' = sk_sent s @ e" "sk_incoming s' = sk_incoming s" "live w' = live w" "refusals w \<le> refusals w'"
    "refusals w' = refusals w \<longrightarrow> rc \<in> {TEN_OK, TEN_ERROR_NETWORK} \<and>
       (rc = TEN_OK \<longrightarrow> e = response_message v) \<and> (sk_room s = [] \<longrightarrow> rc = TEN_OK)"
    unfolding response_message_def by blast
  then show ?thesis
    by (intro exI [of _ rc] exI [of _ s'] exI [of _ w'] exI [of _ e]) (simp add: ten__http_send_response_def rep(3))
qed

lemma bad_request_short: "length (response_message bad_request) < 2 ^ 63"
proof -
  have "length (response_message bad_request) < 100" by code_simp
  then show ?thesis by simp
qed

lemma respond_error_spec:
  "\<exists>c' w' e. respond_error c w = Some (c', w') \<and> sk_sent c' = sk_sent c @ e \<and> live w' = live w \<and> refusals w \<le> refusals w' \<and>
     (refusals w' = refusals w \<longrightarrow> sk_room c = [] \<longrightarrow> e = response_message bad_request)"
  using response_create_spec [of w]
proof (elim disjE exE conjE)
  fix w1
  assume "ten__http_response_create w = (None, w1)" "refusals w < refusals w1" "live w1 = live w"
  then show ?thesis by (simp add: respond_error_def)
next
  fix r w1
  assume r: "ten__http_response_create w = (Some r, w1)"
    "response_rep r \<lparr>resp_status = 200, resp_headers = [], resp_body = None\<rparr>"
    "refusals w1 = refusals w" "live w1 - response_owned r = live w"
  let ?r = "r\<lparr>rs_status := 400\<rparr>"
  have rep: "response_rep ?r bad_request" and owned: "response_owned ?r = response_owned r"
    using r(2) by (simp_all add: response_rep_def bad_request_def response_owned_def)
  from send_response_spec [OF rep bad_request_short, of c w1] obtain rc c' w2 e where
    send: "ten__http_send_response c ?r w1 = Some (rc, c', w2)" "sk_sent c' = sk_sent c @ e" "live w2 = live w1"
      "refusals w1 \<le> refusals w2" "refusals w2 = refusals w1 \<longrightarrow> sk_room c = [] \<longrightarrow> e = response_message bad_request"
    by blast
  obtain w3 where "ten_http_response_destroy (Some ?r) w2 = Some w3" "live w3 = live w2 - response_owned ?r"
      "refusals w3 = refusals w2"
    using response_destroy_spec [OF rep, of w2] by blast
  then show ?thesis
    using r send owned by (intro exI [of _ c'] exI [of _ w3] exI [of _ e]) (simp add: respond_error_def)
qed

lemma respond_spec:
  assumes "serves f answer" "request_rep rq v"
  shows "\<exists>c' w' e. respond f rq c w = Some (c', w') \<and> sk_sent c' = sk_sent c @ e \<and> live w' = live w \<and>
    refusals w \<le> refusals w' \<and>
    (refusals w' = refusals w \<longrightarrow> sk_room c = [] \<longrightarrow> e = response_message (answer v))"
  using response_create_spec [of w]
proof (elim disjE exE conjE)
  fix w1
  assume "ten__http_response_create w = (None, w1)" "refusals w < refusals w1" "live w1 = live w"
  then show ?thesis by (simp add: respond_def)
next
  fix r w1
  assume r: "ten__http_response_create w = (Some r, w1)"
    "response_rep r \<lparr>resp_status = 200, resp_headers = [], resp_body = None\<rparr>"
    "refusals w1 = refusals w" "live w1 - response_owned r = live w"
  obtain r' rv w2 where
    h: "f rq r w1 = Some (r', w2)" "response_rep r' rv" "length (response_message rv) < 2 ^ 63"
      "live w2 - response_owned r' = live w1 - response_owned r" "refusals w1 \<le> refusals w2"
      "refusals w2 = refusals w1 \<longrightarrow> rv = answer v"
    using assms r(2) unfolding serves_def fresh_response_def by blast
  from send_response_spec [OF h(2,3), of c w2] obtain rc c' w3 e where
    send: "ten__http_send_response c r' w2 = Some (rc, c', w3)" "sk_sent c' = sk_sent c @ e" "live w3 = live w2"
      "refusals w2 \<le> refusals w3" "refusals w3 = refusals w2 \<longrightarrow> sk_room c = [] \<longrightarrow> e = response_message rv"
    by blast
  obtain w4 where "ten_http_response_destroy (Some r') w3 = Some w4" "live w4 = live w3 - response_owned r'"
      "refusals w4 = refusals w3"
    using response_destroy_spec [OF h(2), of w3] by blast
  then show ?thesis
    using r h send by (intro exI [of _ c'] exI [of _ w4] exI [of _ e]) (auto simp: respond_def)
qed

lemma read_split:
  assumes "buffer_rep raw (take k data)" "ten__find_crlf_crlf (take k data) = Some i"
  shows "split_message raw = Some (take i data, drop (i + 4) (take k data)) \<and>
    ten__find_crlf_crlf data = Some i \<and> drop (i + 4) (take k data) @ drop k data = drop (i + 4) data"
proof -
  have i: "i + 4 \<le> k" "i + 4 \<le> length data"
    using find_crlf_Some [OF assms(2)] by (auto simp: min_def split: if_splits)
  have "ten__find_crlf_crlf (take k data @ drop k data) = Some i"
    using assms(2) by (rule find_crlf_append)
  moreover have "drop (i + 4) (take k data) @ drop k data = drop (i + 4) data"
    using i by (metis append_take_drop_id drop_append diff_is_0_eq drop0 length_take min.absorb4 min_def le_trans nat_le_linear)
  ultimately show ?thesis
    using buffer_bytes [OF assms(1)] assms(2) i by (simp add: split_message_def min_def)
qed

text \<open>Headers that have not ended in that many bytes do not end within the bound.\<close>

lemma no_end_within_bounds:
  assumes none: "ten__find_crlf_crlf (take k data) = None" and k: "65536 < k \<or> k = length data" and "within_bounds data"
  shows "ten__find_crlf_crlf data = None"
proof (rule ccontr)
  assume "ten__find_crlf_crlf data \<noteq> None"
  then obtain i where i: "ten__find_crlf_crlf data = Some i" by auto
  then have "i + 4 \<le> 65536" "i + 4 \<le> length data"
    using \<open>within_bounds data\<close> find_crlf_Some [OF i] by (auto simp: within_bounds_def)
  then have "i + 4 \<le> length (take k data)" using k by auto
  with find_crlf_take [of "take k data" "drop k data" i] i none show False by simp
qed

text \<open>
  Reading a message from a connection: either its headers never end, or they are found, with the
  part of the body that came with them.
\<close>

lemma read_message_cases [consumes 1, case_names incomplete complete]:
  assumes raw: "buffer_rep raw []"
  obtains (incomplete) s' raw' w' where
      "ten__http_read_until_headers_end s raw w = Some (False, s', raw', w')" "\<exists>xs. buffer_rep raw' xs"
      "sk_sent s' = sk_sent s" "sk_room s' = sk_room s" "refusals w \<le> refusals w'"
      "live w' - buffer_owned raw' = live w - buffer_owned raw"
      "refusals w' = refusals w \<longrightarrow> within_bounds (stream (sk_incoming s)) \<longrightarrow>
         ten__find_crlf_crlf (stream (sk_incoming s)) = None"
  | (complete) s' raw' w' i bp where
      "ten__http_read_until_headers_end s raw w = Some (True, s', raw', w')" "\<exists>xs. buffer_rep raw' xs"
      "sk_sent s' = sk_sent s" "sk_room s' = sk_room s" "refusals w \<le> refusals w'"
      "live w' - buffer_owned raw' = live w - buffer_owned raw"
      "ten__find_crlf_crlf (stream (sk_incoming s)) = Some i"
      "split_message raw' = Some (take i (stream (sk_incoming s)), bp)"
      "bp @ stream (sk_incoming s') = drop (i + 4) (stream (sk_incoming s))" "i < 2 ^ 62" "length bp < 2 ^ 62"
proof -
  let ?data = "stream (sk_incoming s)"
  obtain ok s' raw' w' k where
    r: "ten__http_read_until_headers_end s raw w = Some (ok, s', raw', w')" "buffer_rep raw' (take k ?data)"
      "k \<le> 65536 + 4096" "k \<le> length ?data" "sk_sent s' = sk_sent s" "sk_room s' = sk_room s"
      "refusals w \<le> refusals w'" "live w' - buffer_owned raw' = live w - buffer_owned raw"
      "ok \<Longrightarrow> stream (sk_incoming s') = drop k ?data" "ok \<Longrightarrow> ten__find_crlf_crlf (take k ?data) \<noteq> None"
      "\<not> ok \<Longrightarrow> refusals w < refusals w' \<or> ten__find_crlf_crlf (take k ?data) = None \<and>
         (65536 < k \<or> k = length ?data)"
    using read_headers_start [OF raw, of s w] by metis
  show thesis
  proof (cases ok)
    case False
    have "ten__find_crlf_crlf ?data = None" if "ten__find_crlf_crlf (take k ?data) = None"
      "65536 < k \<or> k = length ?data" "within_bounds ?data"
      using that by (rule no_end_within_bounds)
    with False r show thesis
      by (intro that(1) [of s' raw' w']) auto
  next
    case True
    then obtain i where i: "ten__find_crlf_crlf (take k ?data) = Some i" using r(10) by auto
    have "i + 4 \<le> k" using find_crlf_Some [OF i] by simp
    with read_split [OF r(2) i] r True show thesis
      by (intro that(2) [of s' raw' w' i "drop (i + 4) (take k ?data)"]) auto
  qed
qed

text \<open>What follows the reading of a connection: the request is parsed and answered, or refused.\<close>

lemma request_replied:
  assumes f: "serves f answer" and raw: "buffer_rep raw xs"
    and head: "length hb < 2 ^ 62" "request_head_ok hb" "length bp < 2 ^ 62"
  shows "\<exists>c' w' e. do {
        (req, c2, w3) \<leftarrow> ten__http_parse_request hb bp c w;
        w4 \<leftarrow> ten_buffer_destroy (Some raw) w3;
        (case req of
           None \<Rightarrow> respond_error c2 w4
         | Some r \<Rightarrow> do { (c3, w5) \<leftarrow> respond f r c2 w4; w6 \<leftarrow> ten_http_request_destroy (Some r) w5; Some (c3, w6) }) } =
      Some (c', w') \<and> sk_sent c' = sk_sent c @ e \<and> live w' = live w - buffer_owned raw \<and> refusals w \<le> refusals w' \<and>
    (refusals w' = refusals w \<longrightarrow> sk_room c = [] \<longrightarrow> e = response_message
       (case request_of hb (bp @ stream (sk_incoming c)) of None \<Rightarrow> bad_request | Some v \<Rightarrow> answer v))"
  using parse_request_spec [OF head, of c w]
proof (elim disjE exE conjE)
  fix r c2 w3 v
  assume p: "ten__http_parse_request hb bp c w = Some (Some r, c2, w3)" "request_rep r v"
    "live w3 - request_owned r = live w" "refusals w \<le> refusals w3" "sk_sent c2 = sk_sent c" "sk_room c2 = sk_room c"
    "refusals w3 = refusals w \<longrightarrow> request_of hb (bp @ stream (sk_incoming c)) = Some v"
  obtain w4 where w4: "ten_buffer_destroy (Some raw) w3 = Some w4" "live w4 = live w3 - buffer_owned raw"
      "refusals w4 = refusals w3"
    using buffer_destroy_spec [OF raw] by blast
  from respond_spec [OF f p(2), of c2 w4] obtain c3 w5 e where
    resp: "respond f r c2 w4 = Some (c3, w5)" "sk_sent c3 = sk_sent c2 @ e" "live w5 = live w4" "refusals w4 \<le> refusals w5"
      "refusals w5 = refusals w4 \<longrightarrow> sk_room c2 = [] \<longrightarrow> e = response_message (answer v)"
    by blast
  obtain w6 where "ten_http_request_destroy (Some r) w5 = Some w6" "live w6 = live w5 - request_owned r"
      "refusals w6 = refusals w5"
    using request_destroy_spec [OF p(2), of w5] by blast
  then show ?thesis
    using p w4 resp by (intro exI [of _ c3] exI [of _ w6] exI [of _ e]) auto
next
  fix c2 w3
  assume p: "ten__http_parse_request hb bp c w = Some (None, c2, w3)" "live w3 = live w"
    "refusals w \<le> refusals w3" "sk_sent c2 = sk_sent c" "sk_room c2 = sk_room c"
    "refusals w3 = refusals w \<longrightarrow> request_of hb (bp @ stream (sk_incoming c)) = None"
  obtain w4 where w4: "ten_buffer_destroy (Some raw) w3 = Some w4" "live w4 = live w3 - buffer_owned raw"
      "refusals w4 = refusals w3"
    using buffer_destroy_spec [OF raw] by blast
  from respond_error_spec [of c2 w4] obtain c3 w5 e where
    "respond_error c2 w4 = Some (c3, w5)" "sk_sent c3 = sk_sent c2 @ e" "live w5 = live w4" "refusals w4 \<le> refusals w5"
    "refusals w5 = refusals w4 \<longrightarrow> sk_room c2 = [] \<longrightarrow> e = response_message bad_request"
    by blast
  then show ?thesis
    using p w4 by (intro exI [of _ c3] exI [of _ w5] exI [of _ e]) auto
qed

text \<open>
  One connection: it is served to the end whatever it sends, no block is left behind, and without
  refusals the peer gets exactly the reply to its bytes, however they were cut into fragments.
\<close>

lemma handle_connection_spec:
  assumes f: "serves f answer" and ok: "readable (stream (sk_incoming c))"
  shows "\<exists>c' w' e. ten__http_handle_connection f c w = Some (c', w') \<and> sk_sent c' = sk_sent c @ e \<and>
    live w' = live w \<and> refusals w \<le> refusals w' \<and>
    (refusals w' = refusals w \<longrightarrow> sk_room c = [] \<longrightarrow> within_bounds (stream (sk_incoming c)) \<longrightarrow>
       e = reply answer (stream (sk_incoming c)))"
  using buffer_create_spec [of w]
proof (elim disjE exE conjE)
  fix w1
  assume "ten_buffer_create w = (None, w1)" "refusals w < refusals w1" "live w1 = live w"
  then show ?thesis by (simp add: ten__http_handle_connection_def)
next
  fix raw w1
  assume raw: "ten_buffer_create w = (Some raw, w1)" "buffer_rep raw []" "refusals w1 = refusals w"
    "live w1 - buffer_owned raw = live w"
  let ?data = "stream (sk_incoming c)"
  from raw(2) show ?thesis
  proof (cases rule: read_message_cases [where s = c and w = w1])
    case (incomplete c1 raw1 w2)
    then obtain xs where "buffer_rep raw1 xs" by blast
    then obtain w3 where "ten_buffer_destroy (Some raw1) w2 = Some w3" "live w3 = live w2 - buffer_owned raw1"
        "refusals w3 = refusals w2"
      using buffer_destroy_spec by blast
    then show ?thesis
      using raw incomplete
      by (intro exI [of _ c1] exI [of _ w3] exI [of _ "[]"]) (simp add: ten__http_handle_connection_def reply_def)
  next
    case (complete c1 raw1 w2 i bp)
    then obtain xs where xs: "buffer_rep raw1 xs" by blast
    have run: "ten__http_handle_connection f c w = do {
        (req, c2, w3) \<leftarrow> ten__http_parse_request (take i ?data) bp c1 w2;
        w4 \<leftarrow> ten_buffer_destroy (Some raw1) w3;
        (case req of
           None \<Rightarrow> respond_error c2 w4
         | Some r \<Rightarrow> do { (c3, w5) \<leftarrow> respond f r c2 w4; w6 \<leftarrow> ten_http_request_destroy (Some r) w5; Some (c3, w6) }) }"
      using raw(1) complete(1,8) by (simp add: ten__http_handle_connection_def)
    have rep: "reply answer ?data = response_message
        (case request_of (take i ?data) (bp @ stream (sk_incoming c1)) of None \<Rightarrow> bad_request | Some v \<Rightarrow> answer v)"
      using complete(7,9) by (simp add: reply_def)
    have "length (take i ?data) < 2 ^ 62" "request_head_ok (take i ?data)"
      using complete(10) ok complete(7) by (simp_all add: readable_def)
    from request_replied [OF f xs this complete(11), of c1 w2] show ?thesis
      unfolding run rep using raw complete(3-6) by auto
  qed
qed

section \<open>The server loop\<close>

text \<open>The connections accepted before the first round that finds the server stopping.\<close>

fun accepted :: "http_round list \<Rightarrow> ten_socket list" where
  "accepted [] = []"
| "accepted (r # rs) =
     (if rd_stopping r then []
      else (if rd_ready r > 0 then (case rd_accepted r of None \<Rightarrow> [] | Some c \<Rightarrow> [c]) else []) @ accepted rs)"

lemma poll_cases:
  obtains (ready) w' where "ten_socket_poll_readable (Some l) n w = (1, w')" "0 < n" "live w' = live w" "refusals w' = refusals w"
  | (idle) k w' where "ten_socket_poll_readable (Some l) n w = (k, w')" "n \<le> 0" "k \<le> 0" "live w' = live w" "refusals w' = refusals w"
  by (cases "0 < n"; cases "n < 0") (auto simp: ten_socket_poll_readable_def)

lemma accept_cases:
  obtains (connected) fd w' where "ten_tcp_accept (Some l) a w = (Some fd, w')" "a = Some fd" "live w' = live w + 1" "refusals w' = refusals w"
  | (refused) fd w' where "ten_tcp_accept (Some l) a w = (None, w')" "a = Some fd" "live w' = live w" "refusals w < refusals w'"
  | (failed) w' where "ten_tcp_accept (Some l) a w = (None, w')" "a = None" "live w' = live w" "refusals w' = refusals w"
proof (cases a)
  case None
  then show thesis using failed by (simp add: ten_tcp_accept_def)
next
  case (Some fd)
  show thesis
  proof (cases rule: ten_malloc_cases [where n = sizeof_ten_socket and w = "ten__set_error TEN_OK w"])
    case (granted w')
    then show thesis using Some connected [of fd w'] by (simp add: ten_tcp_accept_def ten__socket_wrap_def)
  next
    case (refused w')
    then show thesis using Some that(2) [of w' fd] by (simp add: ten_tcp_accept_def ten__socket_wrap_def)
  qed
qed

lemma server_loop_runs_on: "\<forall>r \<in> set rs. \<not> rd_stopping r \<Longrightarrow> server_loop f l rs w = None"
  by (induction rs arbitrary: w) (auto split: prod.split option.split Option.bind_split)

lemma server_loop_spec:
  assumes f: "serves f answer"
    and "\<exists>r \<in> set rs. rd_stopping r" "\<forall>c \<in> set (accepted rs). readable (stream (sk_incoming c))"
  shows "\<exists>served w'. server_loop f (Some l) rs w = Some (served, w') \<and> live w' = live w \<and> refusals w \<le> refusals w' \<and>
    (refusals w' = refusals w \<longrightarrow>
       (\<forall>c \<in> set (accepted rs). sk_room c = [] \<and> within_bounds (stream (sk_incoming c))) \<longrightarrow>
       map sk_sent served = map (\<lambda>c. sk_sent c @ reply answer (stream (sk_incoming c))) (accepted rs))"
  using assms(2,3)
proof (induction rs arbitrary: w)
  case (Cons r rs)
  show ?case
  proof (cases "rd_stopping r")
    case False
    then have stop: "\<exists>r \<in> set rs. rd_stopping r" using Cons.prems(1) by auto
    show ?thesis
    proof (cases rule: poll_cases [of l "rd_ready r" w])
      case (idle k w1)
      then show ?thesis using Cons.IH [OF stop, of w1] Cons.prems(2) False by simp
    next
      case (ready w1)
      note polled = ready
      show ?thesis
      proof (cases rule: accept_cases [of l "rd_accepted r" w1])
        case (failed w2)
        then show ?thesis using Cons.IH [OF stop, of w2] Cons.prems(2) False polled by simp
      next
        case (refused fd w2)
        then have "set (accepted rs) \<subseteq> set (accepted (r # rs))" using False polled by auto
        then have "\<forall>c \<in> set (accepted rs). readable (stream (sk_incoming c))"
          using Cons.prems(2) by blast
        from Cons.IH [OF stop this, of w2] obtain served w' where
          "server_loop f (Some l) rs w2 = Some (served, w')" "live w' = live w2" "refusals w2 \<le> refusals w'"
          by blast
        then show ?thesis
          using False polled refused by (intro exI [of _ served] exI [of _ w']) simp
      next
        case (connected fd w2)
        then have rest: "readable (stream (sk_incoming fd))" "\<forall>c \<in> set (accepted rs). readable (stream (sk_incoming c))"
          using Cons.prems(2) False polled by auto
        from handle_connection_spec [OF f rest(1), of w2] obtain c1 w3 e where
          h: "ten__http_handle_connection f fd w2 = Some (c1, w3)" "sk_sent c1 = sk_sent fd @ e" "live w3 = live w2"
            "refusals w2 \<le> refusals w3"
            "refusals w3 = refusals w2 \<longrightarrow> sk_room fd = [] \<longrightarrow> within_bounds (stream (sk_incoming fd)) \<longrightarrow>
               e = reply answer (stream (sk_incoming fd))"
          by blast
        from Cons.IH [OF stop rest(2), of "w3\<lparr>live := live w3 - 1\<rparr>"] obtain served w' where
          ih: "server_loop f (Some l) rs (w3\<lparr>live := live w3 - 1\<rparr>) = Some (served, w')" "live w' = live w3 - 1"
            "refusals w3 \<le> refusals w'"
            "refusals w' = refusals w3 \<longrightarrow>
               (\<forall>c \<in> set (accepted rs). sk_room c = [] \<and> within_bounds (stream (sk_incoming c))) \<longrightarrow>
               map sk_sent served = map (\<lambda>c. sk_sent c @ reply answer (stream (sk_incoming c))) (accepted rs)"
          by auto
        have "server_loop f (Some l) (r # rs) w = Some (c1 # served, w')"
          using False polled connected h(1) ih(1) by (simp add: ten_socket_close_def)
        then show ?thesis
          using False polled connected h ih by (intro exI [of _ "c1 # served"] exI [of _ w']) auto
      qed
    qed
  qed simp
qed simp

section \<open>The client\<close>

definition request_message :: "cstring \<Rightarrow> request_value \<Rightarrow> byte list" where
  "request_message host v = message_bytes (request_lines (req_method v) (req_path v) host) (req_headers v) (req_body v)"

text \<open>The response in the bytes of a connection, if there is one.\<close>

definition received :: "byte list \<Rightarrow> response_value option" where
  "received data = (case ten__find_crlf_crlf data of
     None \<Rightarrow> None | Some i \<Rightarrow> response_of (take i data) (drop (i + 4) data))"

definition status_readable :: "byte list \<Rightarrow> bool" where
  "status_readable data \<longleftrightarrow> (\<forall>i. ten__find_crlf_crlf data = Some i \<longrightarrow> response_head_ok (take i data))"

lemma status_readable_case [code]:
  "status_readable data \<longleftrightarrow>
   (case ten__find_crlf_crlf data of None \<Rightarrow> True | Some i \<Rightarrow> response_head_ok (take i data))"
  by (simp add: status_readable_def split: option.split)

lemma send_request_spec:
  assumes "request_rep r v" "length (request_message host v) < 2 ^ 63"
  shows "\<exists>rc s' w' e. ten__http_send_request s r host w = Some (rc, s', w') \<and> sk_sent s' = sk_sent s @ e \<and>
    sk_incoming s' = sk_incoming s \<and> live w' = live w \<and> refusals w \<le> refusals w' \<and>
    (refusals w' = refusals w \<longrightarrow> sk_room s = [] \<longrightarrow> rc = TEN_OK \<and> e = request_message host v)"
proof -
  have rep: "headers_rep (rq_headers r) (req_headers v)" "body_rep (rq_body r) (req_body v)"
    and path: "c_string (block_cells (rq_path r)) = Some (req_path v)" "rq_method r = req_method v"
    using assms(1) by (simp_all add: request_rep_def c_string_bytes cstr_ok_def)
  from send_message_spec [OF rep, of "request_lines (req_method v) (req_path v) host" s w] assms(2) obtain rc s' w' e where
    "send_message (request_lines (req_method v) (req_path v) host) (rq_headers r) (rq_body r) s w = Some (rc, s', w')"
    "sk_sent s' = sk_sent s @ e" "sk_incoming s' = sk_incoming s" "live w' = live w" "refusals w \<le> refusals w'"
    "refusals w' = refusals w \<longrightarrow> rc \<in> {TEN_OK, TEN_ERROR_NETWORK} \<and>
       (rc = TEN_OK \<longrightarrow> e = request_message host v) \<and> (sk_room s = [] \<longrightarrow> rc = TEN_OK)"
    unfolding request_message_def by blast
  then show ?thesis
    by (intro exI [of _ rc] exI [of _ s'] exI [of _ w'] exI [of _ e]) (simp add: ten__http_send_request_def path)
qed

definition awaited :: "ten_socket \<Rightarrow> ten_world \<Rightarrow> ten_http_response option \<Rightarrow> ten_socket option \<Rightarrow> ten_world \<Rightarrow> bool" where
  "awaited s w resp so w' \<longleftrightarrow>
     refusals w \<le> refusals w' \<and> (g_ten_last_error w' = TEN_OK \<longleftrightarrow> resp \<noteq> None) \<and>
     (\<exists>s'. so = Some s' \<and> sk_sent s' = sk_sent s) \<and>
     (case resp of
        None \<Rightarrow> live w' = live w - 1 \<and>
          (refusals w' = refusals w \<longrightarrow> within_bounds (stream (sk_incoming s)) \<longrightarrow> received (stream (sk_incoming s)) = None)
      | Some p \<Rightarrow> live w' - response_owned p = live w - 1 \<and>
          (\<exists>rv. response_rep p rv \<and> (refusals w' = refusals w \<longrightarrow> received (stream (sk_incoming s)) = Some rv)))"

lemma await_response_spec:
  assumes ok: "status_readable (stream (sk_incoming s))"
  shows "\<exists>resp so w'. await_response s w = Some (resp, so, w') \<and> awaited s w resp so w'"
  using buffer_create_spec [of w]
proof (elim disjE exE conjE)
  fix w1
  assume "ten_buffer_create w = (None, w1)" "g_ten_last_error w1 = TEN_ERROR_OUT_OF_MEMORY"
    "refusals w < refusals w1" "live w1 = live w"
  then show ?thesis by (simp add: await_response_def awaited_def ten_socket_close_def)
next
  fix raw w1
  assume raw: "ten_buffer_create w = (Some raw, w1)" "buffer_rep raw []" "refusals w1 = refusals w"
    "live w1 - buffer_owned raw = live w"
  let ?data = "stream (sk_incoming s)"
  from raw(2) show ?thesis
  proof (cases rule: read_message_cases [where s = s and w = w1])
    case (incomplete s1 raw1 w2)
    then obtain xs where "buffer_rep raw1 xs" by blast
    then obtain w3 where "ten_buffer_destroy (Some raw1) w2 = Some w3" "live w3 = live w2 - buffer_owned raw1"
        "refusals w3 = refusals w2"
      using buffer_destroy_spec by blast
    then show ?thesis
      using raw incomplete by (simp add: await_response_def awaited_def ten_socket_close_def received_def)
  next
    case (complete s1 raw1 w2 i bp)
    then obtain xs where xs: "buffer_rep raw1 xs" by blast
    have "length (take i ?data) < 2 ^ 62" "response_head_ok (take i ?data)"
      using complete(10) ok complete(7) by (simp_all add: status_readable_def)
    from parse_response_spec [OF this complete(11), of s1 w2] show ?thesis
    proof (elim disjE exE conjE)
      fix r s2 w3 v
      assume p: "ten__http_parse_response (take i ?data) bp s1 w2 = Some (Some r, s2, w3)" "response_rep r v"
        "live w3 - response_owned r = live w2" "refusals w2 \<le> refusals w3" "sk_sent s2 = sk_sent s1"
        "refusals w3 = refusals w2 \<longrightarrow> response_of (take i ?data) (bp @ stream (sk_incoming s1)) = Some v"
      obtain w4 where "ten_buffer_destroy (Some raw1) w3 = Some w4" "live w4 = live w3 - buffer_owned raw1"
          "refusals w4 = refusals w3"
        using buffer_destroy_spec [OF xs] by blast
      moreover have "refusals w3 = refusals w \<longrightarrow> received ?data = Some v"
        using p(4,6) complete(5,7,9) raw(3) by (simp add: received_def)
      ultimately show ?thesis
        using raw complete p by (auto simp: await_response_def awaited_def ten_socket_close_def)
    next
      fix s2 w3
      assume p: "ten__http_parse_response (take i ?data) bp s1 w2 = Some (None, s2, w3)" "live w3 = live w2"
        "refusals w2 \<le> refusals w3" "sk_sent s2 = sk_sent s1"
        "refusals w3 = refusals w2 \<longrightarrow> response_of (take i ?data) (bp @ stream (sk_incoming s1)) = None"
      obtain w4 where "ten_buffer_destroy (Some raw1) w3 = Some w4" "live w4 = live w3 - buffer_owned raw1"
          "refusals w4 = refusals w3"
        using buffer_destroy_spec [OF xs] by blast
      moreover have "refusals w3 = refusals w \<longrightarrow> received ?data = None"
        using p(3,5) complete(5,7,9) raw(3) by (simp add: received_def)
      ultimately show ?thesis
        using raw complete p by (auto simp: await_response_def awaited_def ten_socket_close_def)
    qed
  qed
qed

text \<open>
  The whole exchange of a client over the connection that the resolver finds.
\<close>

lemma client_send_spec:
  assumes r: "request_rep r v" "length (request_message h v) < 2 ^ 63"
    and conn: "resolve h port = Some addresses" "first_connected addresses = Some c"
    and ok: "status_readable (stream (sk_incoming c))"
  shows "\<exists>resp so w'. ten_http_client_send resolve (Some h) port (Some r) w = Some (resp, so, w') \<and>
    refusals w \<le> refusals w' \<and> (g_ten_last_error w' = TEN_OK \<longleftrightarrow> resp \<noteq> None) \<and>
    (case resp of
       None \<Rightarrow> live w' = live w
     | Some p \<Rightarrow> live w' - response_owned p = live w \<and> (\<exists>rv. response_rep p rv \<and>
         (refusals w' = refusals w \<longrightarrow> received (stream (sk_incoming c)) = Some rv))) \<and>
    (refusals w' = refusals w \<longrightarrow> sk_room c = [] \<longrightarrow>
       (\<exists>s'. so = Some s' \<and> sk_sent s' = sk_sent c @ request_message h v) \<and>
       (within_bounds (stream (sk_incoming c)) \<longrightarrow> (resp = None \<longleftrightarrow> received (stream (sk_incoming c)) = None)))"
proof (cases rule: ten_malloc_cases [where n = sizeof_ten_socket and w = "ten__set_error TEN_OK w"])
  case (refused w1)
  then show ?thesis
    using conn by (simp add: ten_http_client_send_def ten_tcp_connect_def ten__socket_wrap_def)
next
  case (granted w1)
  then have conn: "ten_tcp_connect resolve (Some h) port w = (Some c, w1)"
    using conn by (simp add: ten_tcp_connect_def ten__socket_wrap_def)
  from send_request_spec [OF r, of c w1] obtain rc s1 w2 e where
    send: "ten__http_send_request c r h w1 = Some (rc, s1, w2)" "sk_sent s1 = sk_sent c @ e" "sk_incoming s1 = sk_incoming c"
      "live w2 = live w1" "refusals w1 \<le> refusals w2"
      "refusals w2 = refusals w1 \<longrightarrow> sk_room c = [] \<longrightarrow> rc = TEN_OK \<and> e = request_message h v"
    by blast
  show ?thesis
  proof (cases "rc = TEN_OK")
    case False
    then have "ten_http_client_send resolve (Some h) port (Some r) w =
        Some (None, Some s1, ten__set_error TEN_ERROR_NETWORK (w2\<lparr>live := live w2 - 1\<rparr>))"
      using conn send(1) by (simp add: ten_http_client_send_def ten_socket_close_def)
    then show ?thesis using False send granted by auto
  next
    case True
    then have run: "ten_http_client_send resolve (Some h) port (Some r) w = await_response s1 w2"
      using conn send(1) by (simp add: ten_http_client_send_def)
    obtain resp so w' where "await_response s1 w2 = Some (resp, so, w')" "awaited s1 w2 resp so w'"
      using await_response_spec [of s1 w2] ok send(3) by auto
    then show ?thesis
      using run send granted unfolding awaited_def
      by (intro exI [of _ resp] exI [of _ so] exI [of _ w']) (cases resp; auto)
  qed
qed

section \<open>The life of a server\<close>

lemma listen_cases:
  obtains (listening) l w' where "ten_tcp_listen resolve listen_rc host port w = (Some l, w')" "host \<noteq> None"
      "live w' = live w + 1"
  | (failed) w' where "ten_tcp_listen resolve listen_rc host port w = (None, w')" "g_ten_last_error w' \<noteq> TEN_OK"
      "live w' = live w"
proof (cases "ten_tcp_listen resolve listen_rc host port w")
  case (Pair sock w')
  show thesis
  proof (cases sock)
    case (Some l)
    then show thesis
      using Pair listening [of l w']
      by (cases rule: ten_malloc_cases [where n = sizeof_ten_socket and w = "ten__set_error TEN_OK w"])
        (auto simp: ten_tcp_listen_def ten__socket_wrap_def split: option.splits if_splits)
  next
    case None
    then show thesis
      using Pair failed [of w']
      by (cases rule: ten_malloc_cases [where n = sizeof_ten_socket and w = "ten__set_error TEN_OK w"])
        (auto simp: ten_tcp_listen_def ten__socket_wrap_def split: option.splits if_splits)
  qed
qed

lemma server_create_spec:
  "\<exists>sv w1. ten_http_server_create resolve listen_rc init host port handler w = Some (sv, w1) \<and>
    (case sv of
       None \<Rightarrow> live w1 = live w \<and> g_ten_last_error w1 \<noteq> TEN_OK
     | Some s \<Rightarrow> g_ten_last_error w1 = TEN_OK \<and> \<not> sv_stopping s \<and> host \<noteq> None \<and> Some (sv_handler s) = handler \<and>
         (\<exists>w2. ten_http_server_destroy (ten_http_server_stop (Some s)) w1 = Some w2 \<and> live w2 = live w))"
proof (cases "host = None \<or> handler = None")
  case True
  then show ?thesis by (auto simp: ten_http_server_create_def split: option.split)
next
  case False
  then obtain h f where args: "host = Some h" "handler = Some f" by auto
  show ?thesis
  proof (cases rule: listen_cases [of resolve listen_rc host port w])
    case (failed w1)
    then show ?thesis using args by (simp add: ten_http_server_create_def)
  next
    case (listening l w1)
    note listener = listening
    show ?thesis
    proof (cases rule: ten_malloc_cases [where n = sizeof_ten_http_server and w = w1])
      case (refused w2)
      then show ?thesis using args listener by (simp add: ten_http_server_create_def ten_socket_close_def)
    next
      case (granted w2)
      then show ?thesis
        using args listener
        by (cases rule: created_cases [of sizeof_ten_mutex w2 "init False"])
          (auto simp: ten_http_server_create_def ten_socket_close_def ten_mutex_create_def ten__mutex_create_def
            ten_http_server_destroy_def ten_http_server_stop_def ten_mutex_destroy_def destroyed_def)
    qed
  qed
qed

end
