(* ===== verification/Ten_Http_Roundtrip.thy ===== *)
theory Ten_Http_Roundtrip
  imports Ten_Http_Server
begin

text \<open>
  The wire format of HTTP messages: what a client sends is read by a server as the request it was
  made from, with the headers that the client adds, provided that the lines fit their buffer and
  that path, host, names and values have no characters that mean something on the wire.
\<close>

section \<open>Lines on the wire\<close>

text \<open>A line that can be recognised again: not empty and without carriage returns.\<close>

definition wire_line :: "cstring \<Rightarrow> bool" where
  "wire_line l \<longleftrightarrow> l \<noteq> [] \<and> 0x0D \<notin> set l"

text \<open>Lines separated by CR LF.\<close>

fun block :: "cstring list \<Rightarrow> cstring" where
  "block [] = []"
| "block [l] = l"
| "block (l # ls) = l @ CRLF @ block ls"

lemma find_crlf_other: "a \<noteq> 0x0D \<Longrightarrow> ten__find_crlf_crlf (a # xs) = map_option Suc (ten__find_crlf_crlf xs)"
  by (cases "a # xs" rule: ten__find_crlf_crlf.cases) (auto simp: find_crlf_short)

lemma find_crlf_skip:
  "0x0D \<notin> set l \<Longrightarrow> ten__find_crlf_crlf (l @ xs) = map_option ((+) (length l)) (ten__find_crlf_crlf xs)"
  by (induction l; cases "ten__find_crlf_crlf xs") (auto simp: find_crlf_other)

lemma find_crlf_newline:
  "l \<noteq> [] \<Longrightarrow> hd l \<noteq> 0x0D \<Longrightarrow> ten__find_crlf_crlf (CRLF @ l @ xs) = map_option ((+) 2) (ten__find_crlf_crlf (l @ xs))"
proof -
  assume "l \<noteq> []" "hd l \<noteq> 0x0D"
  then obtain b k where l: "l = b # k" "b \<noteq> 0x0D" by (cases l) auto
  have "ten__find_crlf_crlf (0x0D # 0x0A # b # k @ xs) = map_option Suc (ten__find_crlf_crlf (0x0A # b # k @ xs))"
  proof (cases "k @ xs")
    case Nil
    then show ?thesis using find_crlf_short by simp
  qed (use l(2) in simp)
  then show ?thesis
    using l by (simp add: CRLF_def find_crlf_other option.map_comp o_def)
qed

lemma find_crlf_end: "ten__find_crlf_crlf (CRLF @ CRLF @ xs) = Some 0"
  by (simp add: CRLF_def)

lemma block_starts: "ls \<noteq> [] \<Longrightarrow> \<forall>l \<in> set ls. wire_line l \<Longrightarrow> block ls \<noteq> [] \<and> hd (block ls) \<noteq> 0x0D"
  by (cases ls rule: block.cases) (auto simp: wire_line_def hd_append dest: hd_in_set)

lemma find_crlf_block:
  "ls \<noteq> [] \<Longrightarrow> \<forall>l \<in> set ls. wire_line l \<Longrightarrow>
   ten__find_crlf_crlf (block ls @ CRLF @ CRLF @ xs) = Some (length (block ls))"
proof (induction ls rule: block.induct)
  case (2 l)
  then show ?case by (simp add: find_crlf_skip wire_line_def find_crlf_end)
next
  case (3 l l' ls)
  then have "ten__find_crlf_crlf (block (l' # ls) @ CRLF @ CRLF @ xs) = Some (length (block (l' # ls)))" by simp
  moreover have "0x0D \<notin> set l" using "3.prems" by (simp add: wire_line_def)
  ultimately show ?case
    using find_crlf_skip [of l] find_crlf_newline [of "block (l' # ls)" "CRLF @ CRLF @ xs"]
      block_starts [of "l' # ls"] "3.prems" by (simp add: CRLF_def)
qed simp

text \<open>The lines of a block are the lines it was made of.\<close>

lemma strstr_crlf_skip: "0x0D \<notin> set l \<Longrightarrow> strstr_crlf (l @ xs) = map_option ((+) (length l)) (strstr_crlf xs)"
proof (induction l)
  case (Cons a l)
  then have a: "a \<noteq> 0x0D" by auto
  have "strstr_crlf (a # t) = map_option Suc (strstr_crlf t)" for t
    using a by (cases t) auto
  then show ?case using Cons by (cases "strstr_crlf xs") simp_all
qed (cases "strstr_crlf xs"; simp)

lemma line_of_block: "0x0D \<notin> set l \<Longrightarrow> line_of (l @ CRLF @ r) = l" "0x0D \<notin> set l \<Longrightarrow> line_of l = l"
  "0x0D \<notin> set l \<Longrightarrow> next_cursor (l @ CRLF @ r) = Some r" "0x0D \<notin> set l \<Longrightarrow> next_cursor l = None"
  using strstr_crlf_skip [of l] strstr_crlf_skip [of l "[]"]
  by (simp_all add: line_of_def next_cursor_def CRLF_def)

lemma lines_block: "\<forall>l \<in> set ls. wire_line l \<Longrightarrow> lines (block ls) = ls"
proof (induction ls rule: block.induct)
  case 1
  then show ?case by (simp add: lines.simps)
next
  case (2 l)
  then have "l \<noteq> []" "0x0D \<notin> set l" by (auto simp: wire_line_def)
  then show ?case by (subst block.simps, subst lines.simps) (simp add: line_of_block)
next
  case (3 l l' ls)
  then have "lines (block (l' # ls)) = l' # ls" by simp
  moreover have "l \<noteq> []" "0x0D \<notin> set l" using "3.prems" by (auto simp: wire_line_def)
  ultimately show ?case by (subst block.simps, subst lines.simps) (simp add: line_of_block)
qed

section \<open>Headers on the wire\<close>

definition header_line :: "cstring \<times> cstring \<Rightarrow> cstring" where
  "header_line kv = fst kv @ ascii '': '' @ snd kv"

text \<open>A header that is read as it was written.\<close>

definition wire_header :: "cstring \<times> cstring \<Rightarrow> bool" where
  "wire_header kv \<longleftrightarrow> 0x3A \<notin> set (fst kv) \<and> 0x0D \<notin> set (fst kv) \<and> 0 \<notin> set (fst kv) \<and>
     0x0D \<notin> set (snd kv) \<and> 0 \<notin> set (snd kv) \<and> (snd kv \<noteq> [] \<longrightarrow> hd (snd kv) \<noteq> 0x20)"

definition distinct_names :: "(cstring \<times> cstring) list \<Rightarrow> bool" where
  "distinct_names kvs \<longleftrightarrow> distinct (map (map ci_fold \<circ> fst) kvs)"

lemma colon_space: "ascii '': '' = [0x3A, 0x20]"
  by (simp add: ascii_def)

lemma header_of_line: "wire_header kv \<Longrightarrow> header_of (header_line kv) = Some kv"
  using strchr_append [of "0x3A" "fst kv" "0x20 # snd kv"]
  by (cases "snd kv") (auto simp: header_of_def header_line_def wire_header_def colon_space prod_eq_iff)

lemma header_line_wire: "wire_header kv \<Longrightarrow> wire_line (header_line kv) \<and> 0 \<notin> set (header_line kv)"
  by (auto simp: wire_header_def wire_line_def header_line_def colon_space)

lemma header_update_new:
  "map ci_fold n \<notin> set (map (map ci_fold \<circ> fst) kvs) \<Longrightarrow> header_update n v kvs = kvs @ [(n, v)]"
  by (induction kvs) (auto simp: ci_equal_def)

lemma headers_of_lines:
  "\<forall>kv \<in> set hs. wire_header kv \<Longrightarrow> distinct_names (kvs @ hs) \<Longrightarrow> headers_of (map header_line hs) kvs = kvs @ hs"
proof (induction hs arbitrary: kvs)
  case (Cons kv hs)
  obtain n v where kv: "kv = (n, v)" by (cases kv)
  have "header_update n v kvs = kvs @ [kv]"
    using Cons.prems(2) kv by (intro header_update_new [of n kvs v, folded kv]) (auto simp: distinct_names_def)
  moreover have "headers_of (map header_line hs) (kvs @ [kv]) = (kvs @ [kv]) @ hs"
    using Cons.prems by (intro Cons.IH) (simp_all add: distinct_names_def)
  ultimately show ?case
    using Cons.prems(1) header_of_line [of kv] kv by (simp add: headers_of_def)
qed (simp add: headers_of_def)

lemma length_of_others:
  "\<forall>kv \<in> set hs. wire_header kv \<and> \<not> ci_equal (fst kv) content_length_name \<Longrightarrow> length_of (map header_line hs) c = c"
  by (induction hs arbitrary: c) (auto simp: length_of_def header_of_line)

lemma length_of_append: "length_of (ls @ ks) c = length_of ks (length_of ls c)"
  by (simp add: length_of_def)

section \<open>Numbers on the wire\<close>

lemma digits_wire: "0x0D \<notin> set (nat_digits n)" "0 \<notin> set (nat_digits n)" "hd (nat_digits n) \<noteq> 0x20"
  using nat_digits_digits [of _ n] nat_digits_Cons [of n] by (force simp: is_digit_def)+

section \<open>Heads on the wire\<close>

definition body_or_empty :: "byte list option \<Rightarrow> byte list" where
  "body_or_empty x = (case x of None \<Rightarrow> [] | Some d \<Rightarrow> d)"

text \<open>The headers that a reader sees: the sender adds two after its own.\<close>

definition sent_headers :: "(cstring \<times> cstring) list \<Rightarrow> nat \<Rightarrow> (cstring \<times> cstring) list" where
  "sent_headers kvs n = kvs @ [(content_length_name, nat_digits n), (ascii ''Connection'', ascii ''close'')]"

definition headers_on_wire :: "(cstring \<times> cstring) list \<Rightarrow> bool" where
  "headers_on_wire kvs \<longleftrightarrow> (\<forall>kv \<in> set (sent_headers kvs 0). wire_header kv) \<and> distinct_names (sent_headers kvs 0)"

definition head_lines :: "cstring \<Rightarrow> (cstring \<times> cstring) list \<Rightarrow> nat \<Rightarrow> cstring list" where
  "head_lines first kvs n = first # map header_line (sent_headers kvs n)"

lemma sent_headers_wire:
  assumes "headers_on_wire kvs"
  shows "\<forall>kv \<in> set (sent_headers kvs n). wire_header kv" "distinct_names (sent_headers kvs n)"
  using assms digits_wire [of n] by (auto simp: headers_on_wire_def sent_headers_def wire_header_def distinct_names_def)

lemma other_names:
  assumes "headers_on_wire kvs"
  shows "\<forall>kv \<in> set kvs. wire_header kv \<and> \<not> ci_equal (fst kv) content_length_name"
  using assms by (auto simp: headers_on_wire_def sent_headers_def distinct_names_def ci_equal_def image_iff)

lemma not_content_length: "\<not> ci_equal (ascii ''Connection'') content_length_name"
  by code_simp

lemma sent_length:
  assumes "headers_on_wire kvs"
  shows "length_of (map header_line (sent_headers kvs n)) c = int n"
proof -
  have "wire_header (content_length_name, nat_digits n)" "wire_header (ascii ''Connection'', ascii ''close'')"
    using sent_headers_wire(1) [OF assms, of n] by (simp_all add: sent_headers_def)
  then have "header_of (header_line (content_length_name, nat_digits n)) = Some (content_length_name, nat_digits n)"
      "header_of (header_line (ascii ''Connection'', ascii ''close'')) = Some (ascii ''Connection'', ascii ''close'')"
    by (simp_all add: header_of_line)
  then have "length_of (map header_line (sent_headers kvs n)) c = decimal (nat_digits n)"
    using length_of_others [OF other_names [OF assms]] not_content_length
    by (simp add: sent_headers_def length_of_append) (simp add: length_of_def ci_equal_def)
  then show ?thesis by (simp add: decimal_digits)
qed

lemma sent_lengths_ok:
  assumes "headers_on_wire kvs" "n < 2 ^ 63"
  shows "lengths_ok (map header_line (sent_headers kvs n))"
proof -
  have "int n < 2 ^ 63" using assms(2) by simp
  then have "atol (nat_digits n) \<noteq> None" by (simp add: atol_def decimal_digits)
  moreover have "ci_equal (fst kv) content_length_name \<Longrightarrow> kv \<in> set (sent_headers kvs n) \<Longrightarrow>
      kv = (content_length_name, nat_digits n)" for kv
    using other_names [OF assms(1)] not_content_length by (auto simp: sent_headers_def)
  ultimately show ?thesis
    using sent_headers_wire(1) [OF assms(1), of n] unfolding lengths_ok_def
    by (fastforce simp: header_of_line)
qed

lemma set_block: "set (block ls) \<subseteq> \<Union> (set ` set ls) \<union> {0x0D, 0x0A}"
  by (induction ls rule: block.induct) (auto simp: CRLF_def)

text \<open>What a reader makes of the head of a message.\<close>

lemma head_read:
  assumes hs: "headers_on_wire kvs" and first: "wire_line first" "0 \<notin> set first" and n: "n < 2 ^ 63"
  defines "t \<equiv> block (head_lines first kvs n)"
  shows "ten__find_crlf_crlf (t @ CRLF @ CRLF @ d) = Some (length t)"
    "takeWhile (\<lambda>b. b \<noteq> 0) t = t"
    "message_head reads t = map_option (\<lambda>v. (v, sent_headers kvs n, int n)) (reads first)"
    "line_ok first \<Longrightarrow> head_ok line_ok t"
proof -
  have wire: "\<forall>l \<in> set (head_lines first kvs n). wire_line l \<and> 0 \<notin> set l"
    using sent_headers_wire(1) [OF hs, of n] first header_line_wire by (auto simp: head_lines_def)
  then show "ten__find_crlf_crlf (t @ CRLF @ CRLF @ d) = Some (length t)"
    unfolding t_def by (intro find_crlf_block) (auto simp: head_lines_def)
  have "0 \<notin> set t" using set_block [of "head_lines first kvs n"] wire unfolding t_def by fastforce
  then show "takeWhile (\<lambda>b. b \<noteq> 0) t = t" by (auto simp: takeWhile_eq_all_conv)
  have "lines t = head_lines first kvs n" using wire unfolding t_def by (intro lines_block) blast
  moreover have "filter (\<lambda>l. l \<noteq> []) (head_lines first kvs n) = head_lines first kvs n"
    using wire by (auto simp: filter_id_conv wire_line_def)
  ultimately have lines: "filter (\<lambda>l. l \<noteq> []) (lines t) = first # map header_line (sent_headers kvs n)"
    by (simp add: head_lines_def)
  have "headers_of (map header_line (sent_headers kvs n)) [] = [] @ sent_headers kvs n"
    using sent_headers_wire [OF hs, of n] by (intro headers_of_lines) simp_all
  then show "message_head reads t = map_option (\<lambda>v. (v, sent_headers kvs n, int n)) (reads first)"
    unfolding message_head_def lines by (simp add: sent_length [OF hs])
  show "line_ok first \<Longrightarrow> head_ok line_ok t"
    unfolding head_ok_def lines using sent_lengths_ok [OF hs n] by simp
qed

lemma concat_lines: "ls \<noteq> [] \<Longrightarrow> concat (map (\<lambda>l. l @ CRLF) ls) = block ls @ CRLF"
  by (induction ls rule: block.induct) simp_all

lemma concat_header_pieces: "concat (header_pieces kvs) = concat (map (\<lambda>kv. header_line kv @ CRLF) kvs)"
  by (induction kvs) (auto simp: header_pieces_def header_line_def)

lemma snprintf_short: "length t \<le> 255 \<Longrightarrow> snprintf_line t = t"
  by (simp add: snprintf_line_def)

lemma length_lines_short:
  assumes "n < 2 ^ 63"
  shows "snprintf_line (length_lines n) = length_lines n"
proof -
  have "n < 10 ^ 19" using assms by (rule order.strict_trans2) simp
  then have "length (nat_digits n) \<le> 19" using length_nat_digits [of 19 n] by simp
  then show ?thesis by (intro snprintf_short) (simp add: length_lines_def CRLF_def ascii_def)
qed

lemma length_lines_block:
  "length_lines n = header_line (content_length_name, nat_digits n) @ CRLF @
     header_line (ascii ''Connection'', ascii ''close'') @ CRLF @ CRLF"
  by (simp add: length_lines_def header_line_def content_length_name_def ascii_def CRLF_def)

text \<open>A message whose lines fit their buffer is the block of its head, an empty line and the body.\<close>

lemma message_block:
  assumes "map snprintf_line ls = (first @ CRLF) # map (\<lambda>kv. header_line kv @ CRLF) hs"
    and n: "length (body_or_empty x) < 2 ^ 63"
  shows "message_bytes ls kvs x =
    block (head_lines first (hs @ kvs) (length (body_or_empty x))) @ CRLF @ CRLF @ body_or_empty x"
proof -
  let ?n = "length (body_or_empty x)"
  have "message_bytes ls kvs x = concat (map snprintf_line ls) @ concat (header_pieces kvs) @ length_lines ?n @ body_or_empty x"
    using length_lines_short [OF n]
    by (simp add: message_bytes_def message_pieces_def body_or_empty_def [symmetric] Let_def)
  also have "\<dots> = concat (map (\<lambda>l. l @ CRLF) (head_lines first (hs @ kvs) ?n)) @ CRLF @ body_or_empty x"
    using assms(1) by (simp add: head_lines_def sent_headers_def concat_header_pieces length_lines_block comp_def)
  also have "concat (map (\<lambda>l. l @ CRLF) (head_lines first (hs @ kvs) ?n)) = block (head_lines first (hs @ kvs) ?n) @ CRLF"
    by (rule concat_lines) (simp add: head_lines_def)
  finally show ?thesis by simp
qed

section \<open>Requests on the wire\<close>

definition host_header :: "cstring \<Rightarrow> cstring \<times> cstring" where
  "host_header host = (ascii ''Host'', host)"

definition request_on_wire :: "cstring \<Rightarrow> request_value \<Rightarrow> bool" where
  "request_on_wire host v \<longleftrightarrow>
     0x20 \<notin> set (req_path v) \<and> 0x0D \<notin> set (req_path v) \<and> 0 \<notin> set (req_path v) \<and>
     length (ten__http_method_name (req_method v)) + length (req_path v) \<le> 243 \<and> length host \<le> 247 \<and>
     headers_on_wire (host_header host # req_headers v) \<and> length (body_or_empty (req_body v)) < 2 ^ 63"

text \<open>The request that a server sees.\<close>

definition request_seen :: "cstring \<Rightarrow> request_value \<Rightarrow> request_value" where
  "request_seen host v =
     (let d = body_or_empty (req_body v)
      in v\<lparr>req_headers := sent_headers (host_header host # req_headers v) (length d), req_body := Some d\<rparr>)"

definition first_request_line :: "request_value \<Rightarrow> cstring" where
  "first_request_line v = ten__http_method_name (req_method v) @ [0x20] @ req_path v @ ascii '' HTTP/1.1''"

lemma method_name_wire: "length (ten__http_method_name m) \<le> 7" "0x20 \<notin> set (ten__http_method_name m)"
    "0x0D \<notin> set (ten__http_method_name m)" "0 \<notin> set (ten__http_method_name m)" "ten__http_method_name m \<noteq> []"
  by (cases m; simp add: ascii_def)+

lemma request_line_read:
  assumes "request_on_wire host v"
  shows "wire_line (first_request_line v)" "0 \<notin> set (first_request_line v)"
    "request_line (first_request_line v) = Some (req_method v, req_path v)"
proof -
  show "wire_line (first_request_line v)" "0 \<notin> set (first_request_line v)"
    using assms method_name_wire [of "req_method v"]
    by (auto simp: wire_line_def first_request_line_def request_on_wire_def ascii_def)
  have "strchr (first_request_line v) 0x20 = Some (length (ten__http_method_name (req_method v)))"
    using method_name_wire(2) by (simp add: first_request_line_def strchr_append)
  moreover have "strchr (req_path v @ ascii '' HTTP/1.1'') 0x20 = Some (length (req_path v))"
    using assms strchr_append [of "0x20" "req_path v"] by (simp add: request_on_wire_def ascii_def)
  ultimately show "request_line (first_request_line v) = Some (req_method v, req_path v)"
    by (simp add: request_line_def first_request_line_def word_before_space_def method_parse_name)
qed

lemma request_message_block:
  assumes "request_on_wire host v"
  shows "request_message host v =
    block (head_lines (first_request_line v) (host_header host # req_headers v) (length (body_or_empty (req_body v)))) @
    CRLF @ CRLF @ body_or_empty (req_body v)"
proof -
  have lens: "length (ten__http_method_name (req_method v)) + length (req_path v) \<le> 243" "length host \<le> 247"
      "length (body_or_empty (req_body v)) < 2 ^ 63"
    using assms by (simp_all add: request_on_wire_def)
  have "map snprintf_line (request_lines (req_method v) (req_path v) host) =
      (first_request_line v @ CRLF) # map (\<lambda>kv. header_line kv @ CRLF) [host_header host]"
    using lens
    by (simp add: request_lines_def snprintf_short CRLF_def ascii_def first_request_line_def header_line_def host_header_def)
  from message_block [OF this lens(3), of "req_headers v"] show ?thesis by (simp add: request_message_def)
qed

text \<open>What the client sends is read as the request that it was made from.\<close>

lemma request_wire:
  assumes "request_on_wire host v"
  shows "\<exists>i. ten__find_crlf_crlf (request_message host v) = Some i \<and> request_head_ok (take i (request_message host v)) \<and>
    request_of (take i (request_message host v)) (drop (i + 4) (request_message host v)) = Some (request_seen host v)"
proof -
  let ?n = "length (body_or_empty (req_body v))"
  let ?t = "block (head_lines (first_request_line v) (host_header host # req_headers v) ?n)"
  have pre: "headers_on_wire (host_header host # req_headers v)" "?n < 2 ^ 63"
    using assms by (simp_all add: request_on_wire_def)
  note read = head_read [OF pre(1) request_line_read(1,2) [OF assms] pre(2)]
  have "take (length ?t) (request_message host v) = ?t" "drop (length ?t + 4) (request_message host v) = body_or_empty (req_body v)"
    unfolding request_message_block [OF assms] by (simp_all add: CRLF_def)
  moreover have "request_head_ok ?t" unfolding request_head_ok_def read(2) by (rule read(4)) simp
  moreover have "request_of ?t (body_or_empty (req_body v)) = Some (request_seen host v)"
    unfolding request_of_def read(2) read(3) request_line_read(3) [OF assms]
    by (simp add: request_seen_def Let_def)
  ultimately show ?thesis
    using read(1) [of "body_or_empty (req_body v)"] unfolding request_message_block [OF assms] by auto
qed

section \<open>Responses on the wire\<close>

definition response_on_wire :: "response_value \<Rightarrow> bool" where
  "response_on_wire v \<longleftrightarrow>
     0 < resp_status v \<and> resp_status v < 2 ^ 31 \<and>
     headers_on_wire (resp_headers v) \<and> length (body_or_empty (resp_body v)) < 2 ^ 63"

definition response_seen :: "response_value \<Rightarrow> response_value" where
  "response_seen v =
     (let d = body_or_empty (resp_body v)
      in v\<lparr>resp_headers := sent_headers (resp_headers v) (length d), resp_body := Some d\<rparr>)"

definition first_status_line :: "response_value \<Rightarrow> cstring" where
  "first_status_line v = ascii ''HTTP/1.1 '' @ nat_digits (nat (resp_status v)) @ [0x20] @ ten__http_status_text (resp_status v)"

lemma status_text_wire: "length (ten__http_status_text c) \<le> 21" "0x0D \<notin> set (ten__http_status_text c)"
    "0 \<notin> set (ten__http_status_text c)"
  by (simp_all add: ten__http_status_text_def ascii_def)

lemma status_line_read:
  assumes "response_on_wire v"
  shows "wire_line (first_status_line v)" "0 \<notin> set (first_status_line v)"
    "status_line (first_status_line v) = Some (resp_status v)" "status_ok (first_status_line v)"
    "status_lines (resp_status v) = [first_status_line v @ CRLF]" "length (first_status_line v) \<le> 50"
proof -
  let ?d = "nat_digits (nat (resp_status v))"
  have status: "0 < resp_status v" "resp_status v < 2 ^ 31" using assms by (simp_all add: response_on_wire_def)
  show "wire_line (first_status_line v)" "0 \<notin> set (first_status_line v)"
    using status_text_wire [of "resp_status v"] digits_wire(1,2) [of "nat (resp_status v)"]
    by (auto simp: wire_line_def first_status_line_def ascii_def)
  have line: "first_status_line v = ascii ''HTTP/1.1'' @ 0x20 # ?d @ 0x20 # ten__http_status_text (resp_status v)"
    by (simp add: first_status_line_def ascii_def)
  have "0x20 \<notin> set ?d" using nat_digits_digits [of _ "nat (resp_status v)"] by (force simp: is_digit_def)
  then have "strchr (?d @ 0x20 # ten__http_status_text (resp_status v)) 0x20 = Some (length ?d)"
    by (rule strchr_append)
  moreover have "strchr (first_status_line v) 0x20 = Some (length (ascii ''HTTP/1.1''))"
    unfolding line by (rule strchr_append) (simp add: ascii_def)
  ultimately have word: "word_before_space (drop (Suc (length (ascii ''HTTP/1.1''))) (first_status_line v)) = ?d"
      "strchr (first_status_line v) 0x20 = Some (length (ascii ''HTTP/1.1''))"
    by (simp_all add: word_before_space_def line)
  have "decimal ?d = resp_status v" using status by (simp add: decimal_digits)
  then show "status_line (first_status_line v) = Some (resp_status v)" "status_ok (first_status_line v)"
    unfolding status_line_def status_ok_def word using status by (simp_all add: word atoi_def)
  show "status_lines (resp_status v) = [first_status_line v @ CRLF]"
    using status by (simp add: status_lines_def first_status_line_def format_lld_def)
  have "nat (resp_status v) < 10 ^ 10" using status by simp
  then have "length ?d \<le> 10" by (intro length_nat_digits) simp_all
  then show "length (first_status_line v) \<le> 50"
    using status_text_wire(1) [of "resp_status v"] by (simp add: first_status_line_def ascii_def)
qed

lemma response_message_block:
  assumes "response_on_wire v"
  shows "response_message v =
    block (head_lines (first_status_line v) (resp_headers v) (length (body_or_empty (resp_body v)))) @
    CRLF @ CRLF @ body_or_empty (resp_body v)"
proof -
  have "map snprintf_line (status_lines (resp_status v)) =
      (first_status_line v @ CRLF) # map (\<lambda>kv. header_line kv @ CRLF) []"
    using status_line_read(5,6) [OF assms] by (simp add: snprintf_short CRLF_def)
  from message_block [OF this, of "resp_body v" "resp_headers v"] assms show ?thesis
    by (simp add: response_message_def response_on_wire_def)
qed

text \<open>What the server sends is read as the response that it was made from.\<close>

lemma response_wire:
  assumes "response_on_wire v"
  shows "status_readable (response_message v) \<and> received (response_message v) = Some (response_seen v)"
proof -
  let ?n = "length (body_or_empty (resp_body v))"
  let ?t = "block (head_lines (first_status_line v) (resp_headers v) ?n)"
  have pre: "headers_on_wire (resp_headers v)" "?n < 2 ^ 63"
    using assms by (simp_all add: response_on_wire_def)
  note read = head_read [OF pre(1) status_line_read(1,2) [OF assms] pre(2)]
  have "take (length ?t) (response_message v) = ?t" "drop (length ?t + 4) (response_message v) = body_or_empty (resp_body v)"
    unfolding response_message_block [OF assms] by (simp_all add: CRLF_def)
  moreover have "response_head_ok ?t"
    unfolding response_head_ok_def read(2) by (rule read(4)) (rule status_line_read(4) [OF assms])
  moreover have "response_of ?t (body_or_empty (resp_body v)) = Some (response_seen v)"
    unfolding response_of_def read(2) read(3) status_line_read(3) [OF assms]
    by (simp add: response_seen_def Let_def)
  moreover have "ten__find_crlf_crlf (response_message v) = Some (length ?t)"
    unfolding response_message_block [OF assms] by (rule read(1))
  ultimately show ?thesis
    by (simp add: status_readable_def received_def)
qed

text \<open>
  A client and a server: the server answers the bytes of a request with the bytes of its answer to
  the request that it has seen.
\<close>

lemma reply_to_request:
  assumes "request_on_wire host v"
  shows "readable (request_message host v)"
    "reply answer (request_message host v) = response_message (answer (request_seen host v))"
  using request_wire [OF assms] by (auto simp: readable_def reply_def)

end
