(* ===== verification/Ten_Udp.thy ===== *)
theory Ten_Udp
  imports Ten_Socket Ten_Stdlib
begin

text \<open>
  Datagram sockets (\<open>include/ten/socket.h\<close>, \<open>src/platform/posix/socket_posix.c\<close>). As for stream
  sockets, what a call of the operating system gives is an argument: the socket that was made or
  bound, how many bytes \<open>sendto\<close> takes, the datagram \<open>recvfrom\<close> finds, with the texts of its
  sender's host and port as \<open>getnameinfo\<close> writes them.
\<close>

section \<open>Definitions\<close>

definition ten_udp_socket :: "ten_socket option \<Rightarrow> ten_world \<Rightarrow> ten_socket option \<times> ten_world" where
  "ten_udp_socket made w =
     (case made of
        None \<Rightarrow> (None, ten__set_error TEN_ERROR_NETWORK w)
      | Some fd \<Rightarrow> ten__socket_wrap fd (ten__set_error TEN_OK w))"

definition ten_udp_bind ::
    "resolver \<Rightarrow> cstring option \<Rightarrow> u16 \<Rightarrow> ten_world \<Rightarrow> ten_socket option \<times> ten_world" where
  "ten_udp_bind resolve host port w =
     (case host of
        None \<Rightarrow> (None, ten__set_error TEN_ERROR_NULL_ARGUMENT w)
      | Some h \<Rightarrow>
          (case resolve h port of
             None \<Rightarrow> (None, ten__set_error TEN_ERROR_NETWORK w)
           | Some addresses \<Rightarrow>
               (case first_connected addresses of
                  None \<Rightarrow> (None, ten__set_error TEN_ERROR_NETWORK w)
                | Some fd \<Rightarrow> ten__socket_wrap fd (ten__set_error TEN_OK w))))"

text \<open>
  \<open>resolved\<close> says whether the host was found; \<open>sendto\<close> answers for the bytes of the datagram,
  negative for a failure.
\<close>

definition ten_udp_send_to ::
    "ten_socket option \<Rightarrow> (cstring \<Rightarrow> u16 \<Rightarrow> bool) \<Rightarrow> (byte list \<Rightarrow> int) \<Rightarrow> cstring option \<Rightarrow> u16 \<Rightarrow>
     byte list option \<Rightarrow> size_t \<Rightarrow> ten_world \<Rightarrow> (int \<times> ten_world) option" where
  "ten_udp_send_to sock resolved sendto host port data sz w =
     (case (sock, host) of
        (Some s, Some h) \<Rightarrow>
          if data = None \<and> sz > 0 then Some (-1, ten__set_error TEN_ERROR_NULL_ARGUMENT w)
          else if \<not> resolved h port then Some (-1, ten__set_error TEN_ERROR_NETWORK w)
          else do {
            bytes \<leftarrow> c_object data sz;
            let n = sendto bytes;
            Some (if n < 0 then (-1, ten__set_error TEN_ERROR_NETWORK w) else (n, ten__set_error TEN_OK w))
          }
      | _ \<Rightarrow> Some (-1, ten__set_error TEN_ERROR_NULL_ARGUMENT w))"

text \<open>
  A datagram: its bytes, and the texts of the sender's host and port. There are no texts when
  \<open>getnameinfo\<close> fails; the code does not look at its answer, and reads buffers that were never
  written.
\<close>

record datagram =
  dg_bytes :: "byte list"
  dg_sender :: "(cstring \<times> cstring) option"

text \<open>The text of the host copied to a buffer, cut to its size and ended by a NUL.\<close>

definition copy_host :: "cstring \<Rightarrow> size_t \<Rightarrow> byte list" where
  "copy_host host_buf out_host_size =
     (let copy_len = strlen host_buf;
          copy_len = (if copy_len \<ge> out_host_size then out_host_size - 1 else copy_len)
      in take (unat copy_len) host_buf @ [0])"

text \<open>
  \<open>out_host\<close> says whether there is a buffer for the host, \<open>out_port\<close> whether there is one for the
  port. The answer: the number of bytes, the bytes stored, what is written to the two buffers.
\<close>

definition ten_udp_receive_from ::
    "ten_socket option \<Rightarrow> datagram option \<Rightarrow> bool \<Rightarrow> size_t \<Rightarrow> bool \<Rightarrow> size_t \<Rightarrow> bool \<Rightarrow> ten_world \<Rightarrow>
     (int \<times> byte list \<times> byte list option \<times> u16 option \<times> ten_world) option" where
  "ten_udp_receive_from sock recvfrom buffer sz out_host out_host_size out_port w =
     (if sock = None \<or> \<not> buffer \<and> sz > 0
      then Some (-1, [], None, None, ten__set_error TEN_ERROR_NULL_ARGUMENT w)
      else (case recvfrom of
              None \<Rightarrow> Some (-1, [], None, None, ten__set_error TEN_ERROR_NETWORK w)
            | Some d \<Rightarrow> do {
                let bytes = take (unat sz) (dg_bytes d);
                host \<leftarrow> (if out_host \<and> out_host_size > 0
                        then do { (h, p) \<leftarrow> dg_sender d; Some (Some (copy_host h out_host_size)) }
                        else Some None);
                port \<leftarrow> (if out_port then do { (h, p) \<leftarrow> dg_sender d; n \<leftarrow> atoi p; Some (Some (word_of_int n)) }
                        else Some None);
                Some (int (length bytes), bytes, host, port, ten__set_error TEN_OK w)
              }))"

section \<open>Facts\<close>

text \<open>
  What is written for the host fits the buffer, is ended by its first NUL, and is the whole text
  when the buffer has room for it.
\<close>

lemma copy_host_spec:
  assumes "cstr_ok host" "0 < n"
  shows "length (copy_host host n) \<le> unat n \<and> copy_host host n = take (unat n - 1) host @ [0] \<and>
    0 \<notin> set (butlast (copy_host host n)) \<and> (length host < unat n \<longrightarrow> copy_host host n = host @ [0])"
proof -
  have len: "unat (strlen host) = length host" using assms(1) by (simp add: cstr_ok_def strlen_def unat_of_nat_size)
  have n: "0 < unat n" using assms(2) by (simp add: unat_gt_0 word_gt_0)
  have "1 \<le> n" using n by (simp add: word_le_nat_alt)
  then have pred: "unat (n - 1) = unat n - 1" by (subst unat_diff_size) simp_all
  have copy: "copy_host host n = take (unat n - 1) host @ [0]"
    using len pred n by (simp add: copy_host_def Let_def size_nat not_le)
  have "0 \<notin> set (take (unat n - 1) host)"
    using assms(1) by (auto simp: cstr_ok_def dest: in_set_takeD)
  then show ?thesis using copy n by auto
qed

text \<open>The port of a sender is read as it was printed.\<close>

lemma atoi_digits: "n < 65536 \<Longrightarrow> atoi (nat_digits n) = Some (int n)"
  by (simp add: atoi_def decimal_digits)

lemma port_read: "atoi (nat_digits (unat (p :: u16))) = Some (uint p)"
  using atoi_digits [of "unat p"] unsigned_less [of p] by simp

text \<open>
  Receiving a datagram whose sender could be named: the bytes are those of the datagram up to
  the size of the buffer; what is written for the host fits its buffer, is ended by its only NUL, and
  is the whole text when there is room; the port is the number that was printed.
\<close>

lemma sender_copied:
  assumes "cstr_ok host" "0 < host_size"
    and "recvfrom = Some \<lparr>dg_bytes = bs, dg_sender = Some (host, nat_digits (unat (port :: u16)))\<rparr>"
  shows "\<exists>h. ten_udp_receive_from (Some s) recvfrom True n True host_size True w =
      Some (int (length (take (unat n) bs)), take (unat n) bs, Some h, Some port, ten__set_error TEN_OK w) \<and>
    length h \<le> unat host_size \<and> h \<noteq> [] \<and> last h = 0 \<and> 0 \<notin> set (butlast h) \<and> butlast h = take (unat host_size - 1) host \<and>
    (length host < unat host_size \<longrightarrow> butlast h = host)"
proof -
  have copy: "copy_host host host_size = take (unat host_size - 1) host @ [0]"
    using copy_host_spec [OF assms(1,2)] by blast
  have "length (copy_host host host_size) \<le> unat host_size" "0 \<notin> set (butlast (copy_host host host_size))"
    using copy_host_spec [OF assms(1,2)] by blast+
  then show ?thesis
    using assms(2) by (simp add: copy assms(3) ten_udp_receive_from_def port_read)
qed

end
