(* ===== verification/Ten_Transition.thy ===== *)
theory Ten_Transition
  imports Main
begin

text \<open>
  Transition systems: a step function that says for an event and a state whether the event is
  possible and what the state is after it, the states that can be reached, and the contracts of an
  invariant and of a measure.
\<close>

primrec trace :: "('e \<Rightarrow> 's \<Rightarrow> 's option) \<Rightarrow> 'e list \<Rightarrow> 's \<Rightarrow> 's option" where
  "trace step [] s = Some s"
| "trace step (e # es) s = Option.bind (step e s) (trace step es)"

inductive reachable :: "('e \<Rightarrow> 's \<Rightarrow> 's option) \<Rightarrow> 's \<Rightarrow> 's \<Rightarrow> bool" for step start where
  start: "reachable step start start"
| step: "reachable step start s \<Longrightarrow> step e s = Some t \<Longrightarrow> reachable step start t"

lemma trace_reachable: "reachable step start s \<Longrightarrow> trace step es s = Some t \<Longrightarrow> reachable step start t"
  by (induction es arbitrary: s) (auto split: Option.bind_splits intro: reachable.step)

locale kept_system =
  fixes step :: "'e \<Rightarrow> 's \<Rightarrow> 's option"
    and inv :: "'s \<Rightarrow> bool"
  assumes step_law: "inv s \<Longrightarrow> step e s = Some t \<Longrightarrow> inv t"

locale invariant_system = kept_system +
  fixes start :: "'b"
  assumes start_law: "inv start"
begin

lemma reachable_inv: "reachable step start s \<Longrightarrow> inv s"
  by (induction rule: reachable.induct) (blast intro: start_law step_law)+

end

text \<open>A measure that no step increases and some steps decrease bounds how often those happen.\<close>

locale bounded_system = kept_system +
  fixes counted :: "'a \<Rightarrow> bool"
    and size_of :: "'b \<Rightarrow> nat"
  assumes decrease_law: "inv s \<Longrightarrow> step e s = Some t \<Longrightarrow> size_of t + (if counted e then 1 else 0) \<le> size_of s"
begin

lemma trace_bound: "inv s \<Longrightarrow> trace step es s = Some t \<Longrightarrow> length (filter counted es) + size_of t \<le> size_of s"
proof (induction es arbitrary: s)
  case (Cons e es)
  then obtain u where u: "step e s = Some u" "trace step es u = Some t" by (auto split: Option.bind_splits)
  have "length (filter counted es) + size_of t \<le> size_of u"
    using Cons.IH [OF step_law [OF Cons.prems(1) u(1)] u(2)] .
  then show ?case using decrease_law [OF Cons.prems(1) u(1)] by (cases "counted e") simp_all
qed simp

end

end
