(* ===== verification/Ten_Thread_Pool.thy ===== *)
theory Ten_Thread_Pool
  imports Ten_Transition
begin

text \<open>
  The thread pool at work (\<open>src/thread_pool/thread_pool.c\<close>): the queue of tasks, a list of nodes
  linked through the heap, and the threads that use it: the workers, the clients that submit tasks,
  and the thread that destroys the pool. The threads interleave at the calls of the mutex and of
  the condition variable; an event is one thread's step from one such call to the next. A mutex
  has one owner at a time, a wait gives the mutex back and ends when it is signalled or at any
  other time, as POSIX allows. A client uses the pool only until it has been destroyed.
\<close>

section \<open>The queue\<close>

type_synonym task_addr = nat

record ('f, 'u) ten_task =
  task_function :: 'f
  task_userdata :: 'u
  task_next :: "task_addr option"

record ('f, 'u) ten_thread_pool =
  heap_tasks :: "task_addr \<Rightarrow> ('f, 'u) ten_task option"
  queue_head :: "task_addr option"
  queue_tail :: "task_addr option"
  shutting_down :: bool

text \<open>The two updates of the queue; \<open>None\<close> is a node that has been freed.\<close>

definition enqueue :: "task_addr \<Rightarrow> ('f, 'u) ten_thread_pool \<Rightarrow> ('f, 'u) ten_thread_pool option" where
  "enqueue task p =
     (case queue_tail p of
        None \<Rightarrow> Some (p\<lparr>queue_head := Some task, queue_tail := Some task\<rparr>)
      | Some q \<Rightarrow> map_option (\<lambda>node. p\<lparr>heap_tasks := (heap_tasks p)(q \<mapsto> node\<lparr>task_next := Some task\<rparr>), queue_tail := Some task\<rparr>)
                    (heap_tasks p q))"

definition dequeue :: "task_addr \<Rightarrow> ('f, 'u) ten_thread_pool \<Rightarrow> ('f, 'u) ten_thread_pool option" where
  "dequeue task p =
     map_option (\<lambda>node.
         let p1 = p\<lparr>queue_head := task_next node\<rparr>
         in if queue_head p1 = None then p1\<lparr>queue_tail := None\<rparr> else p1)
       (heap_tasks p task)"

section \<open>The threads\<close>

text \<open>Where a thread stands: what it is about to do, or what it has.\<close>

datatype worker_pc = At_Lock | Has_Lock | Waiting | Woken | Running task_addr | Exited

datatype client_pc = Outside | Allocated task_addr | In_Lock task_addr | Signalling

datatype destroyer_pc = Not_Called | Called | Marking | Broadcasting | Joining nat | Destroyed

datatype thread = Worker nat | Client nat | Destroyer

record ('f, 'u) pool_state =
  pool :: "('f, 'u) ten_thread_pool"
  lock_owner :: "thread option"
  workers :: "worker_pc list"
  clients :: "client_pc list"
  destroyer :: destroyer_pc
  tasks_accepted :: "('f \<times> 'u) list"
  tasks_started :: "('f \<times> 'u) list"
  tasks_finished :: "('f \<times> 'u) list"

text \<open>
  The last three fields are the history: the tasks in the order they were queued, in the order
  they were taken, and in the order their functions returned.
\<close>

datatype ('f, 'u) pool_event =
    Worker_Locks nat | Worker_Waits nat | Worker_Wakes nat | Worker_Relocks nat | Worker_Exits nat
  | Worker_Takes nat | Worker_Finishes nat
  | Client_Allocates nat 'f 'u task_addr | Client_Locks nat | Client_Queues nat | Client_Rejected nat
  | Client_Signals nat "nat option"
  | Destroy_Called | Destroy_Locks | Destroy_Marks | Destroy_Broadcasts | Destroy_Joins | Destroy_Frees

definition job_of :: "('f, 'u) ten_task \<Rightarrow> 'f \<times> 'u" where
  "job_of node = (task_function node, task_userdata node)"

definition worker_at :: "nat \<Rightarrow> worker_pc \<Rightarrow> ('f, 'u) pool_state \<Rightarrow> bool" where
  "worker_at i pc s \<longleftrightarrow> i < length (workers s) \<and> workers s ! i = pc"

definition client_at :: "nat \<Rightarrow> client_pc \<Rightarrow> ('f, 'u) pool_state \<Rightarrow> bool" where
  "client_at c pc s \<longleftrightarrow> c < length (clients s) \<and> clients s ! c = pc"

definition worker_to :: "nat \<Rightarrow> worker_pc \<Rightarrow> ('f, 'u) pool_state \<Rightarrow> ('f, 'u) pool_state" where
  "worker_to i pc s = s\<lparr>workers := (workers s)[i := pc]\<rparr>"

definition client_to :: "nat \<Rightarrow> client_pc \<Rightarrow> ('f, 'u) pool_state \<Rightarrow> ('f, 'u) pool_state" where
  "client_to c pc s = s\<lparr>clients := (clients s)[c := pc]\<rparr>"

definition release_task :: "task_addr \<Rightarrow> ('f, 'u) pool_state \<Rightarrow> ('f, 'u) pool_state" where
  "release_task t s = s\<lparr>pool := (pool s)\<lparr>heap_tasks := (heap_tasks (pool s))(t := None)\<rparr>\<rparr>"

text \<open>The worker: the loop of \<open>ten__thread_pool_worker\<close>, one event for each part of it.\<close>

fun worker_next :: "nat \<Rightarrow> ('f, 'u) pool_event \<Rightarrow> ('f, 'u) pool_state \<Rightarrow> ('f, 'u) pool_state option" where
  "worker_next i (Worker_Locks _) s =
     (if worker_at i At_Lock s \<and> lock_owner s = None
      then Some (worker_to i Has_Lock (s\<lparr>lock_owner := Some (Worker i)\<rparr>)) else None)"
| "worker_next i (Worker_Waits _) s =
     (if worker_at i Has_Lock s \<and> queue_head (pool s) = None \<and> \<not> shutting_down (pool s)
      then Some (worker_to i Waiting (s\<lparr>lock_owner := None\<rparr>)) else None)"
| "worker_next i (Worker_Wakes _) s =
     (if worker_at i Waiting s then Some (worker_to i Woken s) else None)"
| "worker_next i (Worker_Relocks _) s =
     (if worker_at i Woken s \<and> lock_owner s = None
      then Some (worker_to i Has_Lock (s\<lparr>lock_owner := Some (Worker i)\<rparr>)) else None)"
| "worker_next i (Worker_Exits _) s =
     (if worker_at i Has_Lock s \<and> queue_head (pool s) = None \<and> shutting_down (pool s)
      then Some (worker_to i Exited (s\<lparr>lock_owner := None\<rparr>)) else None)"
| "worker_next i (Worker_Takes _) s =
     (case queue_head (pool s) of
        Some t \<Rightarrow>
          if worker_at i Has_Lock s
          then (case (heap_tasks (pool s) t, dequeue t (pool s)) of
                  (Some node, Some p) \<Rightarrow>
                    Some (worker_to i (Running t) (s\<lparr>pool := p, lock_owner := None, tasks_started := tasks_started s @ [job_of node]\<rparr>))
                | _ \<Rightarrow> None)
          else None
      | None \<Rightarrow> None)"
| "worker_next i (Worker_Finishes _) s =
     (if i < length (workers s)
      then (case workers s ! i of
              Running t \<Rightarrow>
                map_option (\<lambda>node. worker_to i At_Lock (release_task t (s\<lparr>tasks_finished := tasks_finished s @ [job_of node]\<rparr>)))
                  (heap_tasks (pool s) t)
            | _ \<Rightarrow> None)
      else None)"
| "worker_next i _ s = None"

text \<open>
  The client: \<open>ten_thread_pool_submit\<close> with arguments that are not null and a task node that was
  allocated. A signal wakes one of the waiting workers, any of them, if there is one.
\<close>

fun client_next :: "nat \<Rightarrow> ('f, 'u) pool_event \<Rightarrow> ('f, 'u) pool_state \<Rightarrow> ('f, 'u) pool_state option" where
  "client_next c (Client_Allocates _ f u t) s =
     (if client_at c Outside s \<and> destroyer s \<noteq> Destroyed \<and> heap_tasks (pool s) t = None
      then Some (client_to c (Allocated t)
             (s\<lparr>pool := (pool s)\<lparr>heap_tasks :=
                (heap_tasks (pool s))(t \<mapsto> \<lparr>task_function = f, task_userdata = u, task_next = None\<rparr>)\<rparr>\<rparr>))
      else None)"
| "client_next c (Client_Locks _) s =
     (if c < length (clients s) \<and> lock_owner s = None
      then (case clients s ! c of
              Allocated t \<Rightarrow> Some (client_to c (In_Lock t) (s\<lparr>lock_owner := Some (Client c)\<rparr>))
            | _ \<Rightarrow> None)
      else None)"
| "client_next c (Client_Queues _) s =
     (if c < length (clients s) \<and> \<not> shutting_down (pool s)
      then (case clients s ! c of
              In_Lock t \<Rightarrow>
                (case (heap_tasks (pool s) t, enqueue t (pool s)) of
                   (Some node, Some p) \<Rightarrow>
                     Some (client_to c Signalling (s\<lparr>pool := p, lock_owner := None, tasks_accepted := tasks_accepted s @ [job_of node]\<rparr>))
                 | _ \<Rightarrow> None)
            | _ \<Rightarrow> None)
      else None)"
| "client_next c (Client_Rejected _) s =
     (if c < length (clients s) \<and> shutting_down (pool s)
      then (case clients s ! c of
              In_Lock t \<Rightarrow> Some (client_to c Outside (release_task t (s\<lparr>lock_owner := None\<rparr>)))
            | _ \<Rightarrow> None)
      else None)"
| "client_next c (Client_Signals _ (Some i)) s =
     (if client_at c Signalling s \<and> worker_at i Waiting s
      then Some (client_to c Outside (worker_to i Woken s)) else None)"
| "client_next c (Client_Signals _ None) s =
     (if client_at c Signalling s \<and> Waiting \<notin> set (workers s)
      then Some (client_to c Outside s) else None)"
| "client_next c _ s = None"

text \<open>
  \<open>ten_thread_pool_destroy\<close>: it marks the pool, wakes every worker, joins them in order and frees
  the pool with the tasks that are left, which the caller must not use any more.
\<close>

definition wake :: "worker_pc \<Rightarrow> worker_pc" where
  "wake pc = (if pc = Waiting then Woken else pc)"

primrec free_tasks :: "nat \<Rightarrow> task_addr option \<Rightarrow> (task_addr \<Rightarrow> ('f, 'u) ten_task option) \<Rightarrow>
    (task_addr \<Rightarrow> ('f, 'u) ten_task option) option" where
  "free_tasks 0 task h = (case task of None \<Rightarrow> Some h | Some _ \<Rightarrow> None)"
| "free_tasks (Suc fuel) task h =
     (case task of
        None \<Rightarrow> Some h
      | Some t \<Rightarrow> (case h t of None \<Rightarrow> None | Some node \<Rightarrow> free_tasks fuel (task_next node) (h(t := None))))"

fun destroyer_next :: "('f, 'u) pool_event \<Rightarrow> ('f, 'u) pool_state \<Rightarrow> ('f, 'u) pool_state option" where
  "destroyer_next Destroy_Called s = (if destroyer s = Not_Called then Some (s\<lparr>destroyer := Called\<rparr>) else None)"
| "destroyer_next Destroy_Locks s =
     (if destroyer s = Called \<and> lock_owner s = None
      then Some (s\<lparr>destroyer := Marking, lock_owner := Some Destroyer\<rparr>) else None)"
| "destroyer_next Destroy_Marks s =
     (if destroyer s = Marking
      then Some (s\<lparr>destroyer := Broadcasting, lock_owner := None, pool := (pool s)\<lparr>shutting_down := True\<rparr>\<rparr>) else None)"
| "destroyer_next Destroy_Broadcasts s =
     (if destroyer s = Broadcasting then Some (s\<lparr>destroyer := Joining 0, workers := map wake (workers s)\<rparr>) else None)"
| "destroyer_next Destroy_Joins s =
     (case destroyer s of
        Joining i \<Rightarrow> if worker_at i Exited s then Some (s\<lparr>destroyer := Joining (Suc i)\<rparr>) else None
      | _ \<Rightarrow> None)"
| "destroyer_next Destroy_Frees s =
     (if destroyer s = Joining (length (workers s)) \<and> (\<forall>pc \<in> set (clients s). pc = Outside)
      then map_option (\<lambda>h. s\<lparr>destroyer := Destroyed, pool := (pool s)\<lparr>heap_tasks := h\<rparr>\<rparr>)
             (free_tasks (length (tasks_accepted s)) (queue_head (pool s)) (heap_tasks (pool s)))
      else None)"
| "destroyer_next _ s = None"

fun actor :: "('f, 'u) pool_event \<Rightarrow> thread" where
  "actor (Worker_Locks i) = Worker i" | "actor (Worker_Waits i) = Worker i" | "actor (Worker_Wakes i) = Worker i"
| "actor (Worker_Relocks i) = Worker i" | "actor (Worker_Exits i) = Worker i" | "actor (Worker_Takes i) = Worker i"
| "actor (Worker_Finishes i) = Worker i"
| "actor (Client_Allocates c f u t) = Client c" | "actor (Client_Locks c) = Client c" | "actor (Client_Queues c) = Client c"
| "actor (Client_Rejected c) = Client c" | "actor (Client_Signals c i) = Client c"
| "actor _ = Destroyer"

definition pool_next :: "('f, 'u) pool_event \<Rightarrow> ('f, 'u) pool_state \<Rightarrow> ('f, 'u) pool_state option" where
  "pool_next e s =
     (case actor e of
        Worker i \<Rightarrow> worker_next i e s
      | Client c \<Rightarrow> client_next c e s
      | Destroyer \<Rightarrow> destroyer_next e s)"

text \<open>A pool that has just been created, with some workers and some clients.\<close>

definition fresh_pool :: "('f, 'u) ten_thread_pool" where
  "fresh_pool = \<lparr>heap_tasks = Map.empty, queue_head = None, queue_tail = None, shutting_down = False\<rparr>"

definition pool_start :: "nat \<Rightarrow> nat \<Rightarrow> ('f, 'u) pool_state" where
  "pool_start n m =
     \<lparr>pool = fresh_pool, lock_owner = None, workers = replicate n At_Lock, clients = replicate m Outside,
      destroyer = Not_Called, tasks_accepted = [], tasks_started = [], tasks_finished = []\<rparr>"

section \<open>The steps as a relation\<close>

text \<open>The same events as rules, one for each kind of step; proofs go by cases of these rules.\<close>

inductive pool_step :: "('f, 'u) pool_event \<Rightarrow> ('f, 'u) pool_state \<Rightarrow> ('f, 'u) pool_state \<Rightarrow> bool" where
  locks: "worker_at i At_Lock s \<Longrightarrow> lock_owner s = None \<Longrightarrow>
    pool_step (Worker_Locks i) s (worker_to i Has_Lock (s\<lparr>lock_owner := Some (Worker i)\<rparr>))"
| waits: "worker_at i Has_Lock s \<Longrightarrow> queue_head (pool s) = None \<Longrightarrow> \<not> shutting_down (pool s) \<Longrightarrow>
    pool_step (Worker_Waits i) s (worker_to i Waiting (s\<lparr>lock_owner := None\<rparr>))"
| wakes: "worker_at i Waiting s \<Longrightarrow> pool_step (Worker_Wakes i) s (worker_to i Woken s)"
| relocks: "worker_at i Woken s \<Longrightarrow> lock_owner s = None \<Longrightarrow>
    pool_step (Worker_Relocks i) s (worker_to i Has_Lock (s\<lparr>lock_owner := Some (Worker i)\<rparr>))"
| exits: "worker_at i Has_Lock s \<Longrightarrow> queue_head (pool s) = None \<Longrightarrow> shutting_down (pool s) \<Longrightarrow>
    pool_step (Worker_Exits i) s (worker_to i Exited (s\<lparr>lock_owner := None\<rparr>))"
| takes: "worker_at i Has_Lock s \<Longrightarrow> queue_head (pool s) = Some t \<Longrightarrow> heap_tasks (pool s) t = Some node \<Longrightarrow>
    dequeue t (pool s) = Some p \<Longrightarrow>
    pool_step (Worker_Takes i) s
      (worker_to i (Running t) (s\<lparr>pool := p, lock_owner := None, tasks_started := tasks_started s @ [job_of node]\<rparr>))"
| finishes: "worker_at i (Running t) s \<Longrightarrow> heap_tasks (pool s) t = Some node \<Longrightarrow>
    pool_step (Worker_Finishes i) s
      (worker_to i At_Lock (release_task t (s\<lparr>tasks_finished := tasks_finished s @ [job_of node]\<rparr>)))"
| allocates: "client_at c Outside s \<Longrightarrow> destroyer s \<noteq> Destroyed \<Longrightarrow> heap_tasks (pool s) t = None \<Longrightarrow>
    pool_step (Client_Allocates c f u t) s
      (client_to c (Allocated t) (s\<lparr>pool := (pool s)\<lparr>heap_tasks :=
         (heap_tasks (pool s))(t \<mapsto> \<lparr>task_function = f, task_userdata = u, task_next = None\<rparr>)\<rparr>\<rparr>))"
| client_locks: "client_at c (Allocated t) s \<Longrightarrow> lock_owner s = None \<Longrightarrow>
    pool_step (Client_Locks c) s (client_to c (In_Lock t) (s\<lparr>lock_owner := Some (Client c)\<rparr>))"
| queues: "client_at c (In_Lock t) s \<Longrightarrow> \<not> shutting_down (pool s) \<Longrightarrow> heap_tasks (pool s) t = Some node \<Longrightarrow>
    enqueue t (pool s) = Some p \<Longrightarrow>
    pool_step (Client_Queues c) s
      (client_to c Signalling (s\<lparr>pool := p, lock_owner := None, tasks_accepted := tasks_accepted s @ [job_of node]\<rparr>))"
| rejected: "client_at c (In_Lock t) s \<Longrightarrow> shutting_down (pool s) \<Longrightarrow>
    pool_step (Client_Rejected c) s (client_to c Outside (release_task t (s\<lparr>lock_owner := None\<rparr>)))"
| signals_one: "client_at c Signalling s \<Longrightarrow> worker_at i Waiting s \<Longrightarrow>
    pool_step (Client_Signals c (Some i)) s (client_to c Outside (worker_to i Woken s))"
| signals_none: "client_at c Signalling s \<Longrightarrow> Waiting \<notin> set (workers s) \<Longrightarrow>
    pool_step (Client_Signals c None) s (client_to c Outside s)"
| destroy_called: "destroyer s = Not_Called \<Longrightarrow> pool_step Destroy_Called s (s\<lparr>destroyer := Called\<rparr>)"
| destroy_locks: "destroyer s = Called \<Longrightarrow> lock_owner s = None \<Longrightarrow>
    pool_step Destroy_Locks s (s\<lparr>destroyer := Marking, lock_owner := Some Destroyer\<rparr>)"
| destroy_marks: "destroyer s = Marking \<Longrightarrow>
    pool_step Destroy_Marks s
      (s\<lparr>destroyer := Broadcasting, lock_owner := None, pool := (pool s)\<lparr>shutting_down := True\<rparr>\<rparr>)"
| destroy_broadcasts: "destroyer s = Broadcasting \<Longrightarrow>
    pool_step Destroy_Broadcasts s (s\<lparr>destroyer := Joining 0, workers := map wake (workers s)\<rparr>)"
| destroy_joins: "destroyer s = Joining k \<Longrightarrow> worker_at k Exited s \<Longrightarrow>
    pool_step Destroy_Joins s (s\<lparr>destroyer := Joining (Suc k)\<rparr>)"
| destroy_frees: "destroyer s = Joining (length (workers s)) \<Longrightarrow> \<forall>pc \<in> set (clients s). pc = Outside \<Longrightarrow>
    free_tasks (length (tasks_accepted s)) (queue_head (pool s)) (heap_tasks (pool s)) = Some h \<Longrightarrow>
    pool_step Destroy_Frees s (s\<lparr>destroyer := Destroyed, pool := (pool s)\<lparr>heap_tasks := h\<rparr>\<rparr>)"

lemma pool_next_step: "pool_next e s = Some t \<Longrightarrow> pool_step e s t"
proof (cases e)
  case (Client_Signals c i)
  then show "pool_next e s = Some t \<Longrightarrow> pool_step e s t"
    by (cases i) (auto simp: pool_next_def intro: pool_step.intros split: if_splits)
qed (auto simp: pool_next_def worker_at_def client_at_def intro!: pool_step.intros
      split: if_splits option.splits worker_pc.splits client_pc.splits destroyer_pc.splits)

lemma pool_step_next: "pool_step e s t \<Longrightarrow> pool_next e s = Some t"
  by (induction rule: pool_step.induct) (auto simp: pool_next_def worker_at_def client_at_def)

theorem pool_step_iff: "pool_step e s t \<longleftrightarrow> pool_next e s = Some t"
  using pool_next_step pool_step_next by blast

lemma moved_sel [simp]:
  "pool (worker_to i pc s) = pool s" "lock_owner (worker_to i pc s) = lock_owner s"
  "workers (worker_to i pc s) = (workers s)[i := pc]" "clients (worker_to i pc s) = clients s"
  "destroyer (worker_to i pc s) = destroyer s" "tasks_accepted (worker_to i pc s) = tasks_accepted s"
  "tasks_started (worker_to i pc s) = tasks_started s" "tasks_finished (worker_to i pc s) = tasks_finished s"
  "pool (client_to c cpc s) = pool s" "lock_owner (client_to c cpc s) = lock_owner s"
  "workers (client_to c cpc s) = workers s" "clients (client_to c cpc s) = (clients s)[c := cpc]"
  "destroyer (client_to c cpc s) = destroyer s" "tasks_accepted (client_to c cpc s) = tasks_accepted s"
  "tasks_started (client_to c cpc s) = tasks_started s" "tasks_finished (client_to c cpc s) = tasks_finished s"
  "client_at d cr (worker_to i pc s) \<longleftrightarrow> client_at d cr s" "worker_at j q (client_to c cpc s) \<longleftrightarrow> worker_at j q s"
  by (simp_all add: worker_to_def client_to_def worker_at_def client_at_def)

lemma release_sel [simp]:
  "lock_owner (release_task t s) = lock_owner s" "workers (release_task t s) = workers s"
  "clients (release_task t s) = clients s" "destroyer (release_task t s) = destroyer s"
  "tasks_accepted (release_task t s) = tasks_accepted s" "tasks_started (release_task t s) = tasks_started s"
  "tasks_finished (release_task t s) = tasks_finished s" "queue_head (pool (release_task t s)) = queue_head (pool s)"
  "queue_tail (pool (release_task t s)) = queue_tail (pool s)"
  "shutting_down (pool (release_task t s)) = shutting_down (pool s)"
  "heap_tasks (pool (release_task t s)) = (heap_tasks (pool s))(t := None)"
  by (simp_all add: release_task_def)

lemma queue_shutting:
  "enqueue t p = Some q \<Longrightarrow> shutting_down q = shutting_down p"
  "dequeue t p = Some q \<Longrightarrow> shutting_down q = shutting_down p"
  by (auto simp: enqueue_def dequeue_def Let_def split: option.splits if_splits)

end
