(* ===== verification/Ten_Thread_Pool_Safety.thy ===== *)
theory Ten_Thread_Pool_Safety
  imports Ten_Thread_Pool "HOL-Library.Multiset"
begin

text \<open>
  What every interleaving of the threads of a pool keeps: who owns the mutex, where every task
  node is, in which order the tasks start, that no wake-up is lost; and from it, that a busy pool
  can always go on and that the workers of a pool that shuts down come to an end.
\<close>

section \<open>Mutual exclusion\<close>

fun in_lock :: "client_pc \<Rightarrow> bool" where
  "in_lock (In_Lock t) = True"
| "in_lock _ = False"

text \<open>The owner of the mutex is the thread that stands in its critical section.\<close>

fun in_section :: "thread \<Rightarrow> ('f, 'u) pool_state \<Rightarrow> bool" where
  "in_section (Worker i) s = worker_at i Has_Lock s"
| "in_section (Client c) s = (c < length (clients s) \<and> in_lock (clients s ! c))"
| "in_section Destroyer s = (destroyer s = Marking)"

definition lock_ok :: "('f, 'u) pool_state \<Rightarrow> bool" where
  "lock_ok s \<longleftrightarrow> (\<forall>a. lock_owner s = Some a \<longleftrightarrow> in_section a s)"

lemma wake_eq: "wake pc = Waiting \<longleftrightarrow> False" "wake pc = Has_Lock \<longleftrightarrow> pc = Has_Lock"
    "wake pc = Exited \<longleftrightarrow> pc = Exited" "wake pc = Running t \<longleftrightarrow> pc = Running t"
  by (simp_all add: wake_def)

lemma lock_acquired:
  "lock_ok s \<Longrightarrow> lock_owner s = None \<Longrightarrow> lock_owner t = Some a \<Longrightarrow> (\<And>b. in_section b t \<longleftrightarrow> in_section b s \<or> b = a) \<Longrightarrow>
   lock_ok t"
  by (auto simp: lock_ok_def)

lemma lock_released:
  "lock_ok s \<Longrightarrow> in_section a s \<Longrightarrow> lock_owner t = None \<Longrightarrow> (\<And>b. in_section b t \<longleftrightarrow> in_section b s \<and> b \<noteq> a) \<Longrightarrow>
   lock_ok t"
  unfolding lock_ok_def by (metis option.distinct(1) option.inject)

lemma lock_kept:
  "lock_ok s \<Longrightarrow> lock_owner t = lock_owner s \<Longrightarrow> (\<And>b. in_section b t \<longleftrightarrow> in_section b s) \<Longrightarrow> lock_ok t"
  by (simp add: lock_ok_def)

lemma in_section_moved [simp]:
  "in_section b (worker_to i pc s) \<longleftrightarrow> (if b = Worker i \<and> i < length (workers s) then pc = Has_Lock else in_section b s)"
  "in_section b (client_to c cpc s) \<longleftrightarrow> (if b = Client c \<and> c < length (clients s) then in_lock cpc else in_section b s)"
  "in_section b (s\<lparr>destroyer := d\<rparr>) \<longleftrightarrow> (if b = Destroyer then d = Marking else in_section b s)"
  "in_section b (s\<lparr>workers := map wake (workers s)\<rparr>) \<longleftrightarrow> in_section b s"
  "in_section b (s\<lparr>destroyer := d, workers := map wake (workers s)\<rparr>) \<longleftrightarrow> (if b = Destroyer then d = Marking else in_section b s)"
  "in_section b (s\<lparr>lock_owner := lo\<rparr>) \<longleftrightarrow> in_section b s" "in_section b (s\<lparr>pool := p\<rparr>) \<longleftrightarrow> in_section b s"
  "in_section b (s\<lparr>tasks_accepted := js\<rparr>) \<longleftrightarrow> in_section b s" "in_section b (s\<lparr>tasks_started := js\<rparr>) \<longleftrightarrow> in_section b s"
  "in_section b (s\<lparr>tasks_finished := js\<rparr>) \<longleftrightarrow> in_section b s" "in_section b (release_task t s) \<longleftrightarrow> in_section b s"
  by (cases b; auto simp: worker_at_def nth_list_update wake_eq worker_to_def client_to_def release_task_def)+

lemma in_section_at:
  "worker_at i q s \<Longrightarrow> i < length (workers s)"
  "worker_at i q s \<Longrightarrow> in_section (Worker i) s \<longleftrightarrow> q = Has_Lock"
  "client_at c r s \<Longrightarrow> in_section (Client c) s \<longleftrightarrow> in_lock r"
  "worker_at i q s \<Longrightarrow> worker_at i q' s \<longleftrightarrow> q = q'"
  "client_at c r s \<Longrightarrow> clients s ! c = r" "client_at c r s \<Longrightarrow> c < length (clients s)"
  by (auto simp: worker_at_def client_at_def)

lemma lock_step: "pool_step e s t \<Longrightarrow> lock_ok s \<Longrightarrow> lock_ok t"
proof (induction rule: pool_step.induct)
  case (locks i s)
  show ?case by (rule lock_acquired [where s = s and a = "Worker i"]) (use locks in \<open>auto simp: in_section_at\<close>)
next
  case (waits i s)
  show ?case by (rule lock_released [where s = s and a = "Worker i"]) (use waits in \<open>auto simp: in_section_at\<close>)
next
  case (wakes i s)
  show ?case by (rule lock_kept [where s = s]) (use wakes in \<open>auto simp: in_section_at\<close>)
next
  case (relocks i s)
  show ?case by (rule lock_acquired [where s = s and a = "Worker i"]) (use relocks in \<open>auto simp: in_section_at\<close>)
next
  case (exits i s)
  show ?case by (rule lock_released [where s = s and a = "Worker i"]) (use exits in \<open>auto simp: in_section_at\<close>)
next
  case (takes i s t node p)
  show ?case by (rule lock_released [where s = s and a = "Worker i"]) (use takes in \<open>auto simp: in_section_at\<close>)
next
  case (finishes i t s node)
  show ?case by (rule lock_kept [where s = s]) (use finishes in \<open>auto simp: in_section_at\<close>)
next
  case (allocates c s t f u)
  show ?case by (rule lock_kept [where s = s]) (use allocates in \<open>auto simp: in_section_at\<close>)
next
  case (client_locks c t s)
  show ?case by (rule lock_acquired [where s = s and a = "Client c"]) (use client_locks in \<open>auto simp: in_section_at\<close>)
next
  case (queues c t s node p)
  show ?case by (rule lock_released [where s = s and a = "Client c"]) (use queues in \<open>auto simp: in_section_at\<close>)
next
  case (rejected c t s)
  show ?case by (rule lock_released [where s = s and a = "Client c"]) (use rejected in \<open>auto simp: in_section_at\<close>)
next
  case (signals_one c s i)
  show ?case by (rule lock_kept [where s = s]) (use signals_one in \<open>auto simp: in_section_at\<close>)
next
  case (signals_none c s)
  show ?case by (rule lock_kept [where s = s]) (use signals_none in \<open>auto simp: in_section_at\<close>)
next
  case (destroy_locks s)
  show ?case by (rule lock_acquired [where s = s and a = Destroyer]) (use destroy_locks in \<open>auto\<close>)
next
  case (destroy_marks s)
  show ?case by (rule lock_released [where s = s and a = Destroyer]) (use destroy_marks in \<open>auto\<close>)
next
  case (destroy_called s)
  show ?case by (rule lock_kept [where s = s]) (use destroy_called in auto)
next
  case (destroy_broadcasts s)
  show ?case by (rule lock_kept [where s = s]) (use destroy_broadcasts in auto)
next
  case (destroy_joins s k)
  show ?case by (rule lock_kept [where s = s]) (use destroy_joins in auto)
next
  case (destroy_frees s h)
  show ?case by (rule lock_kept [where s = s]) (use destroy_frees in auto)
qed

section \<open>Shutting down and waking up\<close>

fun marked :: "destroyer_pc \<Rightarrow> bool" where
  "marked Broadcasting = True"
| "marked (Joining k) = True"
| "marked Destroyed = True"
| "marked _ = False"

definition mark_ok :: "('f, 'u) pool_state \<Rightarrow> bool" where
  "mark_ok s \<longleftrightarrow> (shutting_down (pool s) \<longleftrightarrow> marked (destroyer s))"

text \<open>A worker leaves only when the pool shuts down and nothing is queued any more.\<close>

definition exit_ok :: "('f, 'u) pool_state \<Rightarrow> bool" where
  "exit_ok s \<longleftrightarrow> (Exited \<in> set (workers s) \<longrightarrow> shutting_down (pool s) \<and> queue_head (pool s) = None)"

text \<open>After the broadcast no worker waits, and the workers that have been joined have left.\<close>

definition join_ok :: "('f, 'u) pool_state \<Rightarrow> bool" where
  "join_ok s \<longleftrightarrow>
     (case destroyer s of
        Joining k \<Rightarrow> Waiting \<notin> set (workers s) \<and> k \<le> length (workers s) \<and> (\<forall>i < k. workers s ! i = Exited)
      | Destroyed \<Rightarrow>
          (\<forall>i < length (workers s). workers s ! i = Exited) \<and> (\<forall>c < length (clients s). clients s ! c = Outside)
      | _ \<Rightarrow> True)"

text \<open>
  No wake-up is lost: while there is a task in the queue, a worker is awake, or a signal is still
  to come.
\<close>

definition wake_ok :: "('f, 'u) pool_state \<Rightarrow> bool" where
  "wake_ok s \<longleftrightarrow> workers s \<noteq> [] \<and>
     (queue_head (pool s) \<noteq> None \<and> \<not> shutting_down (pool s) \<longrightarrow>
        (\<exists>pc \<in> set (workers s). pc \<noteq> Waiting \<and> pc \<noteq> Exited) \<or> Signalling \<in> set (clients s))"

lemma set_update_old: "x \<in> set xs \<Longrightarrow> xs ! i \<noteq> x \<Longrightarrow> x \<in> set (xs[i := y])"
  by (metis in_set_conv_nth length_list_update nth_list_update_neq)

lemma set_updateD: "x \<in> set (xs[i := y]) \<Longrightarrow> x = y \<or> x \<in> set xs"
  using set_update_subset_insert by fastforce

lemma mark_step: "pool_step e s t \<Longrightarrow> mark_ok s \<Longrightarrow> mark_ok t"
  by (induction rule: pool_step.induct) (auto simp: mark_ok_def queue_shutting)

lemma exit_step: "pool_step e s t \<Longrightarrow> exit_ok s \<Longrightarrow> exit_ok t"
  by (induction rule: pool_step.induct)
    (auto simp: exit_ok_def queue_shutting worker_at_def wake_eq image_iff wake_def dest!: set_updateD split: if_splits)

lemma join_step: "pool_step e s t \<Longrightarrow> mark_ok s \<Longrightarrow> join_ok s \<Longrightarrow> join_ok t"
proof (induction rule: pool_step.induct)
  case (destroy_joins s k)
  then show ?case by (auto simp: join_ok_def worker_at_def less_Suc_eq)
next
  case (destroy_frees s h)
  then show ?case using nth_mem [of _ "clients s"] by (auto simp: join_ok_def)
qed (auto simp: join_ok_def mark_ok_def worker_at_def client_at_def nth_list_update wake_eq wake_def
      dest!: set_updateD split: destroyer_pc.splits)

lemma wake_step: "pool_step e s t \<Longrightarrow> mark_ok s \<Longrightarrow> exit_ok s \<Longrightarrow> wake_ok s \<Longrightarrow> wake_ok t"
proof (induction rule: pool_step.induct)
  case (signals_none c s)
  have "\<exists>pc \<in> set (workers s). pc \<noteq> Waiting \<and> pc \<noteq> Exited" if "\<not> shutting_down (pool s)"
    using signals_none that by (cases "workers s") (auto simp: wake_ok_def exit_ok_def)
  then show ?case using signals_none by (auto simp: wake_ok_def)
next
  case (allocates c s t f u)
  then show ?case by (auto simp: wake_ok_def client_at_def intro: set_update_old)
next
  case (client_locks c t s)
  then show ?case by (auto simp: wake_ok_def client_at_def intro: set_update_old)
next
  case (rejected c t s)
  then show ?case by (auto simp: wake_ok_def)
next
  case (queues c t s node p)
  then show ?case by (auto simp: wake_ok_def client_at_def intro: set_update_memI)
next
  case (destroy_broadcasts s)
  then show ?case by (auto simp: wake_ok_def mark_ok_def)
qed (auto simp: wake_ok_def worker_at_def intro: set_update_memI)

section \<open>The tasks\<close>

text \<open>The nodes of the queue, from the head to the tail.\<close>

primrec chain :: "(task_addr \<Rightarrow> ('f, 'u) ten_task option) \<Rightarrow> task_addr option \<Rightarrow> task_addr list \<Rightarrow> bool" where
  "chain h p [] \<longleftrightarrow> p = None"
| "chain h p (t # ts) \<longleftrightarrow> p = Some t \<and> (\<exists>node. h t = Some node \<and> chain h (task_next node) ts)"

definition queue_rep :: "('f, 'u) ten_thread_pool \<Rightarrow> task_addr list \<Rightarrow> bool" where
  "queue_rep p ts \<longleftrightarrow> chain (heap_tasks p) (queue_head p) ts \<and> queue_tail p = (if ts = [] then None else Some (last ts))"

primrec held :: "worker_pc \<Rightarrow> task_addr list" where
  "held (Running t) = [t]"
| "held At_Lock = []"
| "held Has_Lock = []"
| "held Waiting = []"
| "held Woken = []"
| "held Exited = []"

primrec pending :: "client_pc \<Rightarrow> task_addr list" where
  "pending (Allocated t) = [t]"
| "pending (In_Lock t) = [t]"
| "pending Outside = []"
| "pending Signalling = []"

abbreviation running_tasks :: "('f, 'u) pool_state \<Rightarrow> task_addr list" where
  "running_tasks s \<equiv> concat (map held (workers s))"

abbreviation pending_tasks :: "('f, 'u) pool_state \<Rightarrow> task_addr list" where
  "pending_tasks s \<equiv> concat (map pending (clients s))"

definition job_at :: "(task_addr \<Rightarrow> ('f, 'u) ten_task option) \<Rightarrow> task_addr \<Rightarrow> 'f \<times> 'u" where
  "job_at h t = job_of (the (h t))"

text \<open>
  Every task node that is allocated is in exactly one place: in the queue, with a worker that runs
  it, or with a client that submits it.
\<close>

definition tasks_ok :: "('f, 'u) pool_state \<Rightarrow> task_addr list \<Rightarrow> bool" where
  "tasks_ok s ts \<longleftrightarrow>
     finite (dom (heap_tasks (pool s))) \<and>
     mset_set (dom (heap_tasks (pool s))) = mset ts + mset (running_tasks s) + mset (pending_tasks s) \<and>
     (\<forall>t \<in> set (pending_tasks s). \<forall>node. heap_tasks (pool s) t = Some node \<longrightarrow> task_next node = None)"

text \<open>The tasks are started in the order in which they were accepted, and those not finished are running.\<close>

definition history_ok :: "('f, 'u) pool_state \<Rightarrow> task_addr list \<Rightarrow> bool" where
  "history_ok s ts \<longleftrightarrow>
     tasks_accepted s = tasks_started s @ map (job_at (heap_tasks (pool s))) ts \<and>
     mset (tasks_started s) = mset (tasks_finished s) + image_mset (job_at (heap_tasks (pool s))) (mset (running_tasks s))"

lemma mset_concat_update:
  "i < length xs \<Longrightarrow> mset (concat (map f (xs[i := y]))) + mset (f (xs ! i)) = mset (concat (map f xs)) + mset (f y)"
  by (induction xs arbitrary: i) (auto split: nat.split)

lemma chain_other: "t \<notin> set ts \<Longrightarrow> chain (h(t := x)) p ts = chain h p ts"
  by (induction ts arbitrary: p) auto

lemma chain_append:
  "chain h p ts \<Longrightarrow> ts \<noteq> [] \<Longrightarrow> distinct ts \<Longrightarrow> t \<notin> set ts \<Longrightarrow> h t = Some node \<Longrightarrow> task_next node = None \<Longrightarrow>
   h (last ts) = Some l \<Longrightarrow> chain (h(last ts \<mapsto> l\<lparr>task_next := Some t\<rparr>)) p (ts @ [t])"
proof (induction ts arbitrary: p)
  case (Cons a ts)
  then show ?case
    by (cases "ts = []") (auto simp: chain_other)
qed simp

lemma chain_last: "chain h p ts \<Longrightarrow> ts \<noteq> [] \<Longrightarrow> \<exists>node. h (last ts) = Some node"
  by (induction ts arbitrary: p) auto

lemma chain_head: "chain h p ts \<Longrightarrow> p = None \<longleftrightarrow> ts = []"
  by (cases ts) auto

definition queue_inv :: "('f, 'u) pool_state \<Rightarrow> bool" where
  "queue_inv s \<longleftrightarrow> (\<exists>ts. queue_rep (pool s) ts \<and> tasks_ok s ts \<and> history_ok s ts)"

lemma mset_set_list: "finite A \<Longrightarrow> mset_set A = mset xs \<longleftrightarrow> distinct xs \<and> set xs = A"
  by (metis finite_set_mset_mset_set mset_set_set set_mset_mset distinct_count_atmost_1 count_mset_set(1,3) finite_set)

lemma tasks_distinct:
  assumes "tasks_ok s ts"
  shows "distinct ts" "set ts \<union> set (running_tasks s) \<union> set (pending_tasks s) = dom (heap_tasks (pool s))"
    "set ts \<inter> set (running_tasks s) = {}" "set ts \<inter> set (pending_tasks s) = {}"
    "set (running_tasks s) \<inter> set (pending_tasks s) = {}" "distinct (running_tasks s)" "distinct (pending_tasks s)"
proof -
  have "distinct (ts @ running_tasks s @ pending_tasks s) \<and>
      set (ts @ running_tasks s @ pending_tasks s) = dom (heap_tasks (pool s))"
    using assms by (subst mset_set_list [symmetric]) (simp_all add: tasks_ok_def add.assoc)
  then show "distinct ts" "set ts \<union> set (running_tasks s) \<union> set (pending_tasks s) = dom (heap_tasks (pool s))"
      "set ts \<inter> set (running_tasks s) = {}" "set ts \<inter> set (pending_tasks s) = {}"
      "set (running_tasks s) \<inter> set (pending_tasks s) = {}" "distinct (running_tasks s)" "distinct (pending_tasks s)"
    by auto
qed

lemma running_moved:
  "worker_at i q s \<Longrightarrow> workers t = (workers s)[i := pc] \<Longrightarrow>
   mset (running_tasks t) + mset (held q) = mset (running_tasks s) + mset (held pc)"
  using mset_concat_update [of i "workers s" held pc] by (auto simp: worker_at_def)

lemma pending_moved:
  "client_at c q s \<Longrightarrow> clients t = (clients s)[c := pc] \<Longrightarrow>
   mset (pending_tasks t) + mset (pending q) = mset (pending_tasks s) + mset (pending pc)"
  using mset_concat_update [of c "clients s" pending pc] by (auto simp: client_at_def)

lemma queue_kept:
  assumes "queue_inv s" "heap_tasks (pool t) = heap_tasks (pool s)" "queue_head (pool t) = queue_head (pool s)"
    "queue_tail (pool t) = queue_tail (pool s)" "mset (running_tasks t) = mset (running_tasks s)"
    "mset (pending_tasks t) = mset (pending_tasks s)" "tasks_accepted t = tasks_accepted s" "tasks_started t = tasks_started s" "tasks_finished t = tasks_finished s"
  shows "queue_inv t"
proof -
  have "set (pending_tasks t) = set (pending_tasks s)" using assms(6) by (rule mset_eq_setD)
  then show ?thesis
    using assms unfolding queue_inv_def queue_rep_def tasks_ok_def history_ok_def by metis
qed

lemma queue_takes:
  assumes "queue_inv s" "worker_at i Has_Lock s" "queue_head (pool s) = Some t" "heap_tasks (pool s) t = Some node"
    "dequeue t (pool s) = Some p"
  shows "queue_inv (worker_to i (Running t) (s\<lparr>pool := p, lock_owner := None, tasks_started := tasks_started s @ [job_of node]\<rparr>))"
    (is "queue_inv ?u")
proof -
  obtain ts where ts: "queue_rep (pool s) ts" "tasks_ok s ts" "history_ok s ts" using assms(1) by (auto simp: queue_inv_def)
  then obtain ts' where t: "ts = t # ts'" "chain (heap_tasks (pool s)) (task_next node) ts'"
    using assms(3,4) by (cases ts) (auto simp: queue_rep_def)
  have p: "heap_tasks p = heap_tasks (pool s)" "queue_head p = task_next node"
      "queue_tail p = (if ts' = [] then None else queue_tail (pool s))"
    using assms(4,5) chain_head [OF t(2)] by (auto simp: dequeue_def Let_def split: if_splits)
  have run: "mset (running_tasks ?u) = add_mset t (mset (running_tasks s))"
    using running_moved [OF assms(2), of ?u "Running t"] by simp
  have "queue_rep (pool ?u) ts'"
    using ts(1) t p by (auto simp: queue_rep_def)
  moreover have "tasks_ok ?u ts'"
    using ts(2) run unfolding tasks_ok_def by (simp add: p t(1))
  moreover have "history_ok ?u ts'"
    using ts(3) run assms(4) unfolding history_ok_def by (simp add: p t(1) job_at_def)
  ultimately show ?thesis by (auto simp: queue_inv_def)
qed

lemma job_at_other: "x \<noteq> t \<Longrightarrow> job_at (h(t := y)) x = job_at h x"
  by (simp add: job_at_def)

lemma mset_set_dom_remove:
  "finite (dom h) \<Longrightarrow> t \<in> dom h \<Longrightarrow> mset_set (dom h) = M + {#t#} \<Longrightarrow> mset_set (dom (h(t := None))) = M"
  by (simp add: mset_set_Diff)

lemma queue_finishes:
  assumes "queue_inv s" "worker_at i (Running t) s" "heap_tasks (pool s) t = Some node"
  shows "queue_inv (worker_to i At_Lock (release_task t (s\<lparr>tasks_finished := tasks_finished s @ [job_of node]\<rparr>)))"
    (is "queue_inv ?u")
proof -
  obtain ts where ts: "queue_rep (pool s) ts" "tasks_ok s ts" "history_ok s ts" using assms(1) by (auto simp: queue_inv_def)
  have run: "mset (running_tasks s) = add_mset t (mset (running_tasks ?u))"
    using running_moved [OF assms(2), of ?u At_Lock] by simp
  then have t: "t \<in> set (running_tasks s)" by (metis set_mset_mset union_single_eq_member)
  note d = tasks_distinct [OF ts(2)]
  have out: "t \<notin> set ts" "t \<notin> set (pending_tasks s)" using t d(3,5) by auto
  have "count (mset (running_tasks s)) t = 1" using d(6) t by (simp add: distinct_count_atmost_1)
  then have "count (mset (running_tasks ?u)) t = 0" unfolding run by simp
  then have "t \<notin># mset (running_tasks ?u)" by (simp only: not_in_iff)
  then have jobs: "image_mset (job_at ((heap_tasks (pool s))(t := None))) (mset (running_tasks ?u)) =
      image_mset (job_at (heap_tasks (pool s))) (mset (running_tasks ?u))"
    by (intro image_mset_cong job_at_other) auto
  have "mset_set (dom (heap_tasks (pool s))) = (mset ts + mset (running_tasks ?u) + mset (pending_tasks s)) + {#t#}"
    using ts(2) run unfolding tasks_ok_def by simp
  with ts(2) assms(3) have "mset_set (dom ((heap_tasks (pool s))(t := None))) =
      mset ts + mset (running_tasks ?u) + mset (pending_tasks s)"
    by (intro mset_set_dom_remove) (auto simp: tasks_ok_def)
  then have "tasks_ok ?u ts"
    using ts(2) unfolding tasks_ok_def by auto
  moreover have "queue_rep (pool ?u) ts"
    using ts(1) out(1) by (simp add: queue_rep_def chain_other)
  moreover have "map (job_at ((heap_tasks (pool s))(t := None))) ts = map (job_at (heap_tasks (pool s))) ts"
    using out(1) by (intro map_cong) (auto simp: job_at_def)
  then have "history_ok ?u ts"
    using ts(3) run jobs assms(3) unfolding history_ok_def by (simp add: job_at_def [of _ t])
  ultimately show ?thesis by (auto simp: queue_inv_def)
qed

lemma queue_allocates:
  assumes "queue_inv s" "client_at c Outside s" "heap_tasks (pool s) t = None"
  shows "queue_inv (client_to c (Allocated t) (s\<lparr>pool := (pool s)\<lparr>heap_tasks :=
         (heap_tasks (pool s))(t \<mapsto> \<lparr>task_function = f, task_userdata = u, task_next = None\<rparr>)\<rparr>\<rparr>))"
    (is "queue_inv ?u")
proof -
  obtain ts where ts: "queue_rep (pool s) ts" "tasks_ok s ts" "history_ok s ts" using assms(1) by (auto simp: queue_inv_def)
  have pend: "mset (pending_tasks ?u) = add_mset t (mset (pending_tasks s))"
    using pending_moved [OF assms(2), of ?u "Allocated t"] by simp
  then have "set (pending_tasks ?u) = insert t (set (pending_tasks s))" by (metis set_mset_add_mset_insert set_mset_mset)
  note pend = pend this
  have out: "t \<notin> set ts" "t \<notin> set (running_tasks s)"
    using tasks_distinct(2) [OF ts(2)] assms(3) by auto
  have "queue_rep (pool ?u) ts" using ts(1) out(1) by (simp add: queue_rep_def chain_other)
  moreover have "tasks_ok ?u ts"
    using ts(2) pend assms(3) unfolding tasks_ok_def by (auto simp: domIff)
  moreover have "image_mset (job_at (heap_tasks (pool ?u))) (mset (running_tasks s)) =
      image_mset (job_at (heap_tasks (pool s))) (mset (running_tasks s))"
    using out(2) by (intro image_mset_cong) (auto simp: job_at_def)
  then have "history_ok ?u ts"
    using ts(3) out(1) unfolding history_ok_def by (auto intro!: map_cong simp: job_at_def)
  ultimately show ?thesis by (auto simp: queue_inv_def)
qed

lemma queue_rejected:
  assumes "queue_inv s" "client_at c (In_Lock t) s"
  shows "queue_inv (client_to c Outside (release_task t (s\<lparr>lock_owner := None\<rparr>)))" (is "queue_inv ?u")
proof -
  obtain ts where ts: "queue_rep (pool s) ts" "tasks_ok s ts" "history_ok s ts" using assms(1) by (auto simp: queue_inv_def)
  have pend: "mset (pending_tasks s) = add_mset t (mset (pending_tasks ?u))"
    using pending_moved [OF assms(2), of ?u Outside] by simp
  then have sub: "set (pending_tasks s) = insert t (set (pending_tasks ?u))" by (metis set_mset_add_mset_insert set_mset_mset)
  note d = tasks_distinct [OF ts(2)]
  have out: "t \<notin> set ts" "t \<notin> set (running_tasks s)" "t \<in> dom (heap_tasks (pool s))"
    using sub d(2,4,5) by auto
  have "mset_set (dom (heap_tasks (pool s))) = (mset ts + mset (running_tasks s) + mset (pending_tasks ?u)) + {#t#}"
    using ts(2) pend unfolding tasks_ok_def by simp
  with ts(2) out(3) have "mset_set (dom ((heap_tasks (pool s))(t := None))) =
      mset ts + mset (running_tasks s) + mset (pending_tasks ?u)"
    by (intro mset_set_dom_remove) (auto simp: tasks_ok_def)
  then have "tasks_ok ?u ts"
    using ts(2) sub unfolding tasks_ok_def by auto
  moreover have "queue_rep (pool ?u) ts" using ts(1) out(1) by (simp add: queue_rep_def chain_other)
  moreover have "image_mset (job_at (heap_tasks (pool ?u))) (mset (running_tasks s)) =
      image_mset (job_at (heap_tasks (pool s))) (mset (running_tasks s))"
    using out(2) by (intro image_mset_cong) (auto simp: job_at_def)
  then have "history_ok ?u ts"
    using ts(3) out(1) unfolding history_ok_def by (auto intro!: map_cong simp: job_at_def)
  ultimately show ?thesis by (auto simp: queue_inv_def)
qed

text \<open>Queueing changes only the link of the last node.\<close>

lemma enqueue_rep:
  assumes "queue_rep p ts" "distinct ts" "t \<notin> set ts" "heap_tasks p t = Some node" "task_next node = None"
  shows "\<exists>q. enqueue t p = Some q \<and> queue_rep q (ts @ [t]) \<and> dom (heap_tasks q) = dom (heap_tasks p) \<and>
    job_at (heap_tasks q) = job_at (heap_tasks p) \<and> (\<forall>x. x \<notin> set ts \<longrightarrow> heap_tasks q x = heap_tasks p x)"
proof (cases "ts = []")
  case True
  then show ?thesis
    using assms by (auto simp: enqueue_def queue_rep_def)
next
  case False
  then obtain l where l: "heap_tasks p (last ts) = Some l"
    using chain_last [of "heap_tasks p" "queue_head p" ts] assms(1) by (auto simp: queue_rep_def)
  let ?h = "(heap_tasks p)(last ts \<mapsto> l\<lparr>task_next := Some t\<rparr>)"
  have "chain ?h (queue_head p) (ts @ [t])"
    using assms l False by (intro chain_append) (auto simp: queue_rep_def)
  moreover have "dom ?h = dom (heap_tasks p)" using l by auto
  moreover have "job_at ?h = job_at (heap_tasks p)"
    using l by (auto simp: job_at_def job_of_def fun_eq_iff)
  moreover have "\<forall>x. x \<notin> set ts \<longrightarrow> ?h x = heap_tasks p x" using False by auto
  ultimately show ?thesis
    using assms(1) l False by (auto simp: enqueue_def queue_rep_def)
qed

lemma queue_queues:
  assumes "queue_inv s" "client_at c (In_Lock t) s" "heap_tasks (pool s) t = Some node" "enqueue t (pool s) = Some p"
  shows "queue_inv (client_to c Signalling (s\<lparr>pool := p, lock_owner := None, tasks_accepted := tasks_accepted s @ [job_of node]\<rparr>))"
    (is "queue_inv ?u")
proof -
  obtain ts where ts: "queue_rep (pool s) ts" "tasks_ok s ts" "history_ok s ts" using assms(1) by (auto simp: queue_inv_def)
  have pend: "mset (pending_tasks s) = add_mset t (mset (pending_tasks ?u))"
    using pending_moved [OF assms(2), of ?u Signalling] by simp
  then have sub: "set (pending_tasks s) = insert t (set (pending_tasks ?u))" by (metis set_mset_add_mset_insert set_mset_mset)
  note d = tasks_distinct [OF ts(2)]
  have "t \<notin> set ts" "task_next node = None"
    using sub d(4) ts(2) assms(3) by (auto simp: tasks_ok_def)
  from enqueue_rep [OF ts(1) d(1) this(1) assms(3) this(2)] assms(4)
  have p: "queue_rep p (ts @ [t])" "dom (heap_tasks p) = dom (heap_tasks (pool s))"
      "job_at (heap_tasks p) = job_at (heap_tasks (pool s))" "\<forall>x. x \<notin> set ts \<longrightarrow> heap_tasks p x = heap_tasks (pool s) x"
    by auto
  have "task_next n = None" if x: "x \<in> set (pending_tasks ?u)" and n: "heap_tasks p x = Some n" for x n
  proof -
    have "x \<in> set (pending_tasks s)" using x unfolding sub by blast
    moreover from this have "x \<notin> set ts" using d(4) by blast
    then have "heap_tasks (pool s) x = Some n" using p(4) n by simp
    ultimately show ?thesis using ts(2) unfolding tasks_ok_def by blast
  qed
  then have "tasks_ok ?u (ts @ [t])"
    using ts(2) pend p(2) unfolding tasks_ok_def by simp
  moreover have "history_ok ?u (ts @ [t])"
    using ts(3) assms(3) unfolding history_ok_def by (simp add: p(3)) (simp add: job_at_def)
  ultimately show ?thesis using p(1) by (auto simp: queue_inv_def)
qed

section \<open>The invariant\<close>

definition pool_inv :: "('f, 'u) pool_state \<Rightarrow> bool" where
  "pool_inv s \<longleftrightarrow> lock_ok s \<and> mark_ok s \<and> exit_ok s \<and> join_ok s \<and> wake_ok s \<and> queue_inv s"

lemma held_wake: "held (wake pc) = held pc"
  by (simp add: wake_def)

lemma queue_step:
  assumes "pool_step e s t" "exit_ok s" "join_ok s" "wake_ok s" "queue_inv s"
  shows "queue_inv t"
  using assms
proof (induction rule: pool_step.induct)
  case (takes i s t node p)
  then show ?case by (intro queue_takes)
next
  case (finishes i t s node)
  then show ?case by (intro queue_finishes)
next
  case (allocates c s t f u)
  then show ?case by (intro queue_allocates)
next
  case (queues c t s node p)
  then show ?case by (intro queue_queues)
next
  case (rejected c t s)
  then show ?case by (intro queue_rejected)
next
  case (signals_one c s i)
  show ?case
    by (rule queue_kept [OF signals_one(6)])
      (use running_moved [OF signals_one(2), of "client_to c Outside (worker_to i Woken s)" Woken]
         pending_moved [OF signals_one(1), of "client_to c Outside (worker_to i Woken s)" Outside] in simp_all)
next
  case (client_locks c t s)
  show ?case
    by (rule queue_kept [OF client_locks(6)])
      (use pending_moved [OF client_locks(1), of "client_to c (In_Lock t) s" "In_Lock t"] in simp_all)
next
  case (signals_none c s)
  show ?case
    by (rule queue_kept [OF signals_none(6)])
      (use pending_moved [OF signals_none(1), of "client_to c Outside s" Outside] in simp_all)
next
  case (destroy_frees s h)
  have "workers s \<noteq> []" using destroy_frees(6) by (simp add: wake_ok_def)
  moreover have "\<forall>i < length (workers s). workers s ! i = Exited"
    using destroy_frees(1,5) by (simp add: join_ok_def)
  ultimately have "Exited \<in> set (workers s)" by (metis length_greater_0_conv nth_mem)
  then have "queue_head (pool s) = None" using destroy_frees(4) by (simp add: exit_ok_def)
  then have "h = heap_tasks (pool s)" using destroy_frees(3) by (cases "length (tasks_accepted s)") simp_all
  then show ?case by (intro queue_kept [OF destroy_frees(7)]) simp_all
next
  case (locks i s)
  show ?case
    by (rule queue_kept [OF locks(6)])
      (use running_moved [OF locks(1), of "worker_to i Has_Lock s" Has_Lock] in simp_all)
next
  case (waits i s)
  show ?case
    by (rule queue_kept [OF waits(7)])
      (use running_moved [OF waits(1), of "worker_to i Waiting s" Waiting] in simp_all)
next
  case (wakes i s)
  show ?case
    by (rule queue_kept [OF wakes(5)])
      (use running_moved [OF wakes(1), of "worker_to i Woken s" Woken] in simp_all)
next
  case (relocks i s)
  show ?case
    by (rule queue_kept [OF relocks(6)])
      (use running_moved [OF relocks(1), of "worker_to i Has_Lock s" Has_Lock] in simp_all)
next
  case (exits i s)
  show ?case
    by (rule queue_kept [OF exits(7)])
      (use running_moved [OF exits(1), of "worker_to i Exited s" Exited] in simp_all)
next
  case (destroy_broadcasts s)
  show ?case by (rule queue_kept [OF destroy_broadcasts(5)]) (simp_all add: comp_def held_wake)
qed (erule queue_kept; simp)+

lemma pool_step_inv: "pool_step e s t \<Longrightarrow> pool_inv s \<Longrightarrow> pool_inv t"
  using lock_step mark_step exit_step join_step wake_step queue_step unfolding pool_inv_def by metis

lemma pool_start_inv: "0 < n \<Longrightarrow> pool_inv (pool_start n m)"
proof -
  assume n: "0 < n"
  have none: "concat (map held (replicate n At_Lock)) = []" "concat (map pending (replicate m Outside)) = []"
    by (auto simp: concat_eq_Nil_conv)
  have "lock_ok (pool_start n m)"
    unfolding lock_ok_def
  proof
    fix a
    show "lock_owner (pool_start n m) = Some a \<longleftrightarrow> in_section a (pool_start n m)"
      by (cases a) (auto simp: pool_start_def worker_at_def)
  qed
  moreover have "queue_inv (pool_start n m)"
    unfolding queue_inv_def
    by (rule exI [of _ "[]"])
      (simp add: pool_start_def fresh_pool_def queue_rep_def tasks_ok_def history_ok_def none)
  ultimately show ?thesis
    using n by (simp add: pool_inv_def pool_start_def fresh_pool_def mark_ok_def exit_ok_def join_ok_def wake_ok_def)
qed

interpretation pool_system: invariant_system pool_next pool_inv "pool_start (Suc n) m" for n m
  by unfold_locales (blast dest: pool_next_step intro: pool_step_inv, simp add: pool_start_inv)

section \<open>Progress\<close>

text \<open>
  The events that do not depend on a new call of a client, on the call of destroy, or on a wake-up
  that nobody caused.
\<close>

fun internal :: "('f, 'u) pool_event \<Rightarrow> bool" where
  "internal (Worker_Wakes i) = False"
| "internal (Client_Allocates c f u t) = False"
| "internal Destroy_Called = False"
| "internal _ = True"

definition busy :: "('f, 'u) pool_state \<Rightarrow> bool" where
  "busy s \<longleftrightarrow> queue_head (pool s) \<noteq> None \<or> destroyer s \<noteq> Not_Called \<and> destroyer s \<noteq> Destroyed"

definition can_move :: "('f, 'u) pool_state \<Rightarrow> bool" where
  "can_move s \<longleftrightarrow> (\<exists>e t. internal e \<and> pool_step e s t)"

lemma can_moveI: "pool_step e s t \<Longrightarrow> internal e \<Longrightarrow> can_move s"
  by (auto simp: can_move_def)

lemma task_present:
  assumes "queue_inv s"
  shows "worker_at i (Running t) s \<Longrightarrow> \<exists>node. heap_tasks (pool s) t = Some node"
    "client_at c pc s \<Longrightarrow> t \<in> set (pending pc) \<Longrightarrow> \<exists>node. heap_tasks (pool s) t = Some node"
    "queue_head (pool s) = Some t \<Longrightarrow> \<exists>node p. heap_tasks (pool s) t = Some node \<and> dequeue t (pool s) = Some p"
    "client_at c (In_Lock t) s \<Longrightarrow> \<exists>node p. heap_tasks (pool s) t = Some node \<and> enqueue t (pool s) = Some p"
proof -
  obtain ts where ts: "queue_rep (pool s) ts" "tasks_ok s ts" using assms by (auto simp: queue_inv_def)
  note d = tasks_distinct [OF ts(2)]
  show "\<exists>node. heap_tasks (pool s) t = Some node" if "worker_at i (Running t) s"
  proof -
    have "t \<in> set (running_tasks s)"
      using that nth_mem [of i "workers s"] by (force simp: worker_at_def)
    then show ?thesis using d(2) by blast
  qed
  show present: "\<exists>node. heap_tasks (pool s) t = Some node" if "client_at c pc s" "t \<in> set (pending pc)" for c pc
  proof -
    have "t \<in> set (pending_tasks s)"
      using that nth_mem [of c "clients s"] by (force simp: client_at_def)
    then show ?thesis using d(2) by blast
  qed
  show "\<exists>node p. heap_tasks (pool s) t = Some node \<and> dequeue t (pool s) = Some p" if "queue_head (pool s) = Some t"
    using that ts(1) by (cases ts) (auto simp: queue_rep_def dequeue_def)
  show "\<exists>node p. heap_tasks (pool s) t = Some node \<and> enqueue t (pool s) = Some p" if c: "client_at c (In_Lock t) s"
  proof -
    obtain node where node: "heap_tasks (pool s) t = Some node" using present [OF c] by auto
    have p: "t \<in> set (pending_tasks s)" using c nth_mem [of c "clients s"] by (force simp: client_at_def)
    then have "t \<notin> set ts" "task_next node = None" using d(4) ts(2) node unfolding tasks_ok_def by blast+
    with enqueue_rep [OF ts(1) d(1) _ node] node show ?thesis by blast
  qed
qed

text \<open>Whoever owns the mutex can go on.\<close>

lemma owner_moves:
  assumes inv: "lock_ok s" "queue_inv s" and owner: "lock_owner s = Some a"
  shows "can_move s"
proof -
  have a: "in_section a s" using inv(1) owner unfolding lock_ok_def by blast
  show ?thesis
  proof (cases a)
    case (Worker i)
    then have i: "worker_at i Has_Lock s" using a by simp
    show ?thesis
    proof (cases "queue_head (pool s)")
      case None
      then show ?thesis
        using i by (cases "shutting_down (pool s)") (auto intro: can_moveI [OF exits] can_moveI [OF waits])
    next
      case (Some t)
      then obtain node p where "heap_tasks (pool s) t = Some node" "dequeue t (pool s) = Some p"
        using task_present(3) [OF inv(2)] by blast
      then show ?thesis by (intro can_moveI [OF takes [OF i Some]]) simp_all
    qed
  next
    case (Client c)
    then obtain t where c: "client_at c (In_Lock t) s"
      using a by (cases "clients s ! c") (auto simp: client_at_def)
    then obtain node p where "heap_tasks (pool s) t = Some node" "enqueue t (pool s) = Some p"
      using task_present(4) [OF inv(2)] by blast
    then show ?thesis
      using c by (cases "shutting_down (pool s)") (auto intro: can_moveI [OF rejected] can_moveI [OF queues])
  next
    case Destroyer
    then have "destroyer s = Marking" using a by simp
    then show ?thesis by (intro can_moveI [OF destroy_marks]) simp_all
  qed
qed

text \<open>When nobody owns it, a worker that is awake or a client that is inside can go on.\<close>

lemma worker_moves:
  assumes inv: "lock_ok s" "queue_inv s" and free: "lock_owner s = None" and pc: "pc \<in> set (workers s)" "pc \<noteq> Waiting" "pc \<noteq> Exited"
  shows "can_move s"
proof -
  obtain i where i: "worker_at i pc s" using pc(1) by (auto simp: in_set_conv_nth worker_at_def)
  have "pc \<noteq> Has_Lock"
    using inv(1) free i unfolding lock_ok_def by (metis in_section.simps(1) option.distinct(1))
  moreover have "can_move s" if "pc = Running t" for t
  proof -
    have r: "worker_at i (Running t) s" using i that by simp
    then obtain node where "heap_tasks (pool s) t = Some node" using task_present(1) [OF inv(2)] by blast
    with r show ?thesis by (intro can_moveI [OF finishes]) simp_all
  qed
  ultimately show ?thesis
    using pc(2,3) i free by (cases pc) (auto intro: can_moveI [OF locks] can_moveI [OF relocks])
qed

lemma client_moves:
  assumes inv: "lock_ok s" and free: "lock_owner s = None" and pc: "pc \<in> set (clients s)" "pc \<noteq> Outside"
  shows "can_move s"
proof -
  obtain c where c: "client_at c pc s" using pc(1) by (auto simp: in_set_conv_nth client_at_def)
  have "\<not> in_lock pc"
    using inv free c unfolding lock_ok_def client_at_def by (metis in_section.simps(2) option.distinct(1))
  moreover have "can_move s" if "pc = Signalling"
  proof (cases "Waiting \<in> set (workers s)")
    case True
    then obtain i where "worker_at i Waiting s" by (auto simp: in_set_conv_nth worker_at_def)
    then show ?thesis using c that by (auto intro: can_moveI [OF signals_one])
  next
    case False
    then show ?thesis using c that by (auto intro: can_moveI [OF signals_none])
  qed
  ultimately show ?thesis
    using pc(2) c free by (cases pc) (auto intro: can_moveI [OF client_locks])
qed

lemma busy_moves:
  assumes inv: "pool_inv s" and "busy s"
  shows "can_move s"
proof (cases "lock_owner s")
  case (Some a)
  then show ?thesis using inv owner_moves by (auto simp: pool_inv_def)
next
  case None
  note parts = inv [unfolded pool_inv_def]
  show ?thesis
  proof (rule ccontr)
    assume stuck: "\<not> can_move s"
    have w: "\<forall>pc \<in> set (workers s). pc = Waiting \<or> pc = Exited"
      using worker_moves parts None stuck by blast
    have c: "\<forall>pc \<in> set (clients s). pc = Outside"
      using client_moves parts None stuck by blast
    show False
    proof (cases "destroyer s")
      case Not_Called
      then have "queue_head (pool s) \<noteq> None" "\<not> shutting_down (pool s)"
        using assms(2) parts by (simp_all add: busy_def mark_ok_def)
      then show False using parts w c by (auto simp: wake_ok_def)
    next
      case Called
      then show False using None stuck by (auto intro: can_moveI [OF destroy_locks])
    next
      case Marking
      then show False using stuck by (auto intro: can_moveI [OF destroy_marks])
    next
      case Broadcasting
      then show False using stuck by (auto intro: can_moveI [OF destroy_broadcasts])
    next
      case (Joining k)
      then have k: "k \<le> length (workers s)" "\<forall>pc \<in> set (workers s). pc = Exited"
        using parts w by (auto simp: join_ok_def)
      show False
      proof (cases "k = length (workers s)")
        case True
        have "Exited \<in> set (workers s)" using parts k(2) by (cases "workers s") (auto simp: wake_ok_def)
        then have "queue_head (pool s) = None" using parts by (simp add: exit_ok_def)
        then have "free_tasks (length (tasks_accepted s)) (queue_head (pool s)) (heap_tasks (pool s)) = Some (heap_tasks (pool s))"
          by (cases "length (tasks_accepted s)") simp_all
        then show False using Joining True c stuck by (auto intro: can_moveI [OF destroy_frees])
      next
        case False
        then have "worker_at k Exited s" using k by (simp add: worker_at_def)
        then show False using Joining stuck by (auto intro: can_moveI [OF destroy_joins])
      qed
    next
      case Destroyed
      then have "Exited \<in> set (workers s)"
        using parts by (cases "workers s") (auto simp: wake_ok_def join_ok_def)
      then have "queue_head (pool s) = None" using parts by (simp add: exit_ok_def)
      then show False using Destroyed assms(2) by (simp add: busy_def)
    qed
  qed
qed

text \<open>What is left when the pool has been destroyed.\<close>

lemma destroyed_done:
  assumes inv: "pool_inv s" and "destroyer s = Destroyed"
  shows "tasks_started s = tasks_accepted s \<and> mset (tasks_finished s) = mset (tasks_accepted s) \<and>
    (\<forall>pc \<in> set (workers s). pc = Exited) \<and> heap_tasks (pool s) = Map.empty"
proof -
  note parts = inv [unfolded pool_inv_def]
  have "\<forall>i < length (workers s). workers s ! i = Exited" "\<forall>c < length (clients s). clients s ! c = Outside"
    using parts assms(2) by (simp_all add: join_ok_def)
  then have gone: "\<forall>pc \<in> set (workers s). pc = Exited" "\<forall>pc \<in> set (clients s). pc = Outside"
    by (metis in_set_conv_nth)+
  then have places: "running_tasks s = []" "pending_tasks s = []" by auto
  have "workers s \<noteq> []" using parts by (simp add: wake_ok_def)
  then have "Exited \<in> set (workers s)" using gone(1) by (metis list.set_sel(1))
  then have none: "queue_head (pool s) = None" using parts by (simp add: exit_ok_def)
  obtain ts where ts: "queue_rep (pool s) ts" "tasks_ok s ts" "history_ok s ts"
    using parts by (auto simp: queue_inv_def)
  have "ts = []" using ts(1) none by (cases ts) (auto simp: queue_rep_def)
  then have "finite (dom (heap_tasks (pool s)))" "mset_set (dom (heap_tasks (pool s))) = {#}"
    using ts(2) places by (simp_all add: tasks_ok_def)
  then have "heap_tasks (pool s) = Map.empty" by (simp add: mset_set_empty_iff)
  then show ?thesis using ts(3) gone(1) places \<open>ts = []\<close> by (simp add: history_ok_def)
qed

section \<open>Shutting down ends\<close>

fun by_worker :: "('f, 'u) pool_event \<Rightarrow> bool" where
  "by_worker e = (case actor e of Worker i \<Rightarrow> True | _ \<Rightarrow> False)"

primrec weight :: "worker_pc \<Rightarrow> nat" where
  "weight Exited = 0"
| "weight Has_Lock = 1"
| "weight At_Lock = 2"
| "weight Woken = 2"
| "weight Waiting = 3"
| "weight (Running t) = 3"

definition shutdown_size :: "('f, 'u) pool_state \<Rightarrow> nat" where
  "shutdown_size s = 4 * (length (tasks_accepted s) - length (tasks_started s)) + sum_list (map weight (workers s))"

lemma shutdown_size_bound: "shutdown_size s \<le> 4 * (length (tasks_accepted s) - length (tasks_started s)) + 3 * length (workers s)"
proof -
  have "weight pc \<le> 3" for pc by (cases pc) simp_all
  then have "sum_list (map weight ws) \<le> 3 * length ws" for ws
    by (induction ws) (simp_all add: add_mono)
  then show ?thesis by (simp add: shutdown_size_def)
qed

lemma weight_moved:
  "worker_at i q s \<Longrightarrow> sum_list (map weight ((workers s)[i := pc])) + weight q = sum_list (map weight (workers s)) + weight pc"
  using elem_le_sum_list [of i "map weight (workers s)"]
  by (simp add: worker_at_def map_update sum_list_update)

lemma weight_wake: "sum_list (map weight (map wake ws)) \<le> sum_list (map weight ws)"
  by (induction ws) (auto simp: wake_def)

lemma queued_more:
  assumes "queue_inv s" "queue_head (pool s) = Some t"
  shows "length (tasks_started s) < length (tasks_accepted s)"
proof -
  obtain ts where ts: "queue_rep (pool s) ts" "history_ok s ts" using assms(1) by (auto simp: queue_inv_def)
  then have "ts \<noteq> []" using assms(2) by (auto simp: queue_rep_def)
  then show ?thesis using ts(2) by (simp add: history_ok_def)
qed

lemma shutdown_step:
  "pool_step e s t \<Longrightarrow> queue_inv s \<Longrightarrow> shutting_down (pool s) \<Longrightarrow>
   shutting_down (pool t) \<and> shutdown_size t + (if by_worker e then 1 else 0) \<le> shutdown_size s"
proof (induction rule: pool_step.induct)
  case (locks i s)
  then show ?case using weight_moved [OF locks(1), of Has_Lock] by (simp add: shutdown_size_def)
next
  case (wakes i s)
  then show ?case using weight_moved [OF wakes(1), of Woken] by (simp add: shutdown_size_def)
next
  case (relocks i s)
  then show ?case using weight_moved [OF relocks(1), of Has_Lock] by (simp add: shutdown_size_def)
next
  case (exits i s)
  then show ?case using weight_moved [OF exits(1), of Exited] by (simp add: shutdown_size_def)
next
  case (takes i s t node p)
  then show ?case
    using weight_moved [OF takes(1), of "Running t"] queued_more [OF takes(5,2)] queue_shutting(2) [OF takes(4)]
    by (simp add: shutdown_size_def)
next
  case (finishes i t s node)
  then show ?case using weight_moved [OF finishes(1), of At_Lock] by (simp add: shutdown_size_def)
next
  case (signals_one c s i)
  then show ?case using weight_moved [OF signals_one(2), of Woken] by (simp add: shutdown_size_def)
next
  case (destroy_broadcasts s)
  then show ?case using weight_wake [of "workers s"] by (simp add: shutdown_size_def)
qed (auto simp: shutdown_size_def)

interpretation shutdown_system:
  bounded_system pool_next "\<lambda>s. pool_inv s \<and> shutting_down (pool s)" by_worker shutdown_size
proof unfold_locales
  fix e :: "('f, 'u) pool_event" and s t
  assume s: "pool_inv s \<and> shutting_down (pool s)" and "pool_next e s = Some t"
  then have step: "pool_step e s t" by (simp add: pool_next_step)
  have "queue_inv s" using s by (simp add: pool_inv_def)
  with step s shutdown_step [OF step] pool_step_inv [OF step]
  show "pool_inv t \<and> shutting_down (pool t)" "shutdown_size t + (if by_worker e then 1 else 0) \<le> shutdown_size s"
    by simp_all
qed

end
