(* ===== verification/Ten_Thread_Pool_Life.thy ===== *)
theory Ten_Thread_Pool_Life
  imports Ten_Sync
begin

text \<open>
  Making, using and taking apart a thread pool (\<open>src/thread_pool/thread_pool.c\<close>), as the one thread
  that calls it sees it: memory, error codes and what the operating system answers. What the workers
  do meanwhile is the subject of \<open>Ten_Thread_Pool\<close>.
\<close>

section \<open>The operations\<close>

text \<open>The answers of the operating system; threads are numbered in the order of their creation.\<close>

record pool_os =
  os_mutex_init :: "bool \<Rightarrow> int"
  os_cond_init :: int
  os_lock :: int
  os_unlock :: int
  os_signal :: int
  os_broadcast :: int
  os_thread :: "nat \<Rightarrow> int"
  os_join :: "nat \<Rightarrow> int"

text \<open>The fields of the pool that its owner handles; the queue is in \<open>Ten_Thread_Pool\<close>.\<close>

record pool_object =
  pl_workers :: "handle option ptr"
  pl_worker_count :: size_t
  pl_lock :: "handle option"
  pl_cond :: "handle option"
  pl_shutting_down :: bool

definition sizeof_ten_thread_pool :: size_t where
  "sizeof_ten_thread_pool = 56"

definition sizeof_ten_task :: size_t where
  "sizeof_ten_task = 24"

primrec join_workers :: "pool_os \<Rightarrow> pool_object \<Rightarrow> nat \<Rightarrow> ten_world \<Rightarrow> ten_world option" where
  "join_workers os p 0 w = Some w"
| "join_workers os p (Suc i) w = do {
     w1 \<leftarrow> join_workers os p i w;
     cell \<leftarrow> block_values i 1 (pl_workers p);
     (rc, ret, w2) \<leftarrow> ten_thread_join (hd cell) (os_join os i) () w1;
     Some w2
   }"

definition mark_and_wake :: "pool_os \<Rightarrow> pool_object \<Rightarrow> ten_world \<Rightarrow> pool_object \<times> ten_world" where
  "mark_and_wake os p w =
     (let (r1, w1) = ten_mutex_lock (pl_lock p) (os_lock os) w;
          p1 = p\<lparr>pl_shutting_down := True\<rparr>;
          (r2, w2) = ten_mutex_unlock (pl_lock p1) (os_unlock os) w1;
          (r3, w3) = ten_cond_broadcast (pl_cond p1) (os_broadcast os) w2
      in (p1, w3))"

definition free_pool :: "pool_object \<Rightarrow> ten_world \<Rightarrow> ten_world option" where
  "free_pool p w = do {
     w1 \<leftarrow> ten_free (pl_workers p) w;
     w2 \<leftarrow> ten_mutex_destroy (pl_lock p) w1;
     w3 \<leftarrow> ten_cond_destroy (pl_cond p) w2;
     free_struct w3
   }"

definition ten__thread_pool_cleanup_partial ::
    "pool_os \<Rightarrow> pool_object option \<Rightarrow> nat \<Rightarrow> ten_world \<Rightarrow> ten_world option" where
  "ten__thread_pool_cleanup_partial os pool created_workers w =
     (case pool of
        None \<Rightarrow> Some w
      | Some p \<Rightarrow>
          if pl_lock p \<noteq> None \<and> pl_cond p \<noteq> None \<and> created_workers > 0
          then do {
            let (p1, w1) = mark_and_wake os p w;
            w2 \<leftarrow> join_workers os p1 created_workers w1;
            free_pool p1 w2
          }
          else free_pool p w)"

text \<open>The loop that starts the workers: \<open>n\<close> are still to come, \<open>i\<close> have been made.\<close>

primrec start_workers ::
    "pool_os \<Rightarrow> nat \<Rightarrow> nat \<Rightarrow> pool_object \<Rightarrow> ten_world \<Rightarrow> (pool_object option \<times> ten_world) option" where
  "start_workers os 0 i p w = Some (Some p, ten__set_error TEN_OK w)"
| "start_workers os (Suc n) i p w = do {
     (worker, w1) \<leftarrow> ten_thread_create True (os_thread os i) w;
     ws \<leftarrow> block_write i [Some worker] (pl_workers p);
     let p1 = p\<lparr>pl_workers := ws\<rparr>;
     if worker = None
     then do {
       let err = ten_last_error w1;
       w2 \<leftarrow> ten__thread_pool_cleanup_partial os (Some p1) i w1;
       Some (None, ten__set_error err w2)
     }
     else start_workers os n (Suc i) p1 w1
   }"

definition ten_thread_pool_create :: "pool_os \<Rightarrow> size_t \<Rightarrow> ten_world \<Rightarrow> (pool_object option \<times> ten_world) option" where
  "ten_thread_pool_create os worker_count w =
     (if worker_count = 0 then Some (None, ten__set_error TEN_ERROR_INVALID_ARGUMENT w)
      else
        let (block, w1) = ten_malloc sizeof_ten_thread_pool w
        in if is_Null block then Some (None, w1)
           else do {
             (lock, w2) \<leftarrow> ten_mutex_create (os_mutex_init os) w1;
             (cond, w3) \<leftarrow> ten_cond_create (os_cond_init os) w2;
             let p = \<lparr>pl_workers = Null, pl_worker_count = worker_count, pl_lock = lock, pl_cond = cond,
                      pl_shutting_down = False\<rparr>;
             if lock = None \<or> cond = None
             then do { w4 \<leftarrow> ten__thread_pool_cleanup_partial os (Some p) 0 w3; Some (None, w4) }
             else
               let (arr, w4) = ten_malloc (8 * worker_count) w3
               in if is_Null arr
                  then do { w5 \<leftarrow> ten__thread_pool_cleanup_partial os (Some p) 0 w4; Some (None, w5) }
                  else start_workers os (unat worker_count) 0
                         (p\<lparr>pl_workers := Block (replicate (unat (8 * worker_count) div 8) None)\<rparr>) w4
           })"

text \<open>
  Submitting a task: the code, whether the task was queued, and the state. A task that was queued
  is a block that the worker which runs it will free.
\<close>

definition ten_thread_pool_submit ::
    "pool_os \<Rightarrow> pool_object option \<Rightarrow> bool \<Rightarrow> ten_world \<Rightarrow> (ten_error_code \<times> bool \<times> ten_world) option" where
  "ten_thread_pool_submit os pool has_function w =
     (case pool of
        Some p \<Rightarrow>
          if \<not> has_function then Some (TEN_ERROR_NULL_ARGUMENT, False, ten__set_error TEN_ERROR_NULL_ARGUMENT w)
          else
            let (task, w1) = ten_malloc sizeof_ten_task w
            in if is_Null task then Some (TEN_ERROR_OUT_OF_MEMORY, False, w1)
               else
                 let (r1, w2) = ten_mutex_lock (pl_lock p) (os_lock os) w1
                 in if pl_shutting_down p
                    then do {
                      let (r2, w3) = ten_mutex_unlock (pl_lock p) (os_unlock os) w2;
                      w4 \<leftarrow> ten_free task w3;
                      Some (TEN_ERROR_INVALID_STATE, False, ten__set_error TEN_ERROR_INVALID_STATE w4)
                    }
                    else
                      let (r2, w3) = ten_mutex_unlock (pl_lock p) (os_unlock os) w2;
                          (r3, w4) = ten_cond_signal (pl_cond p) (os_signal os) w3
                      in Some (TEN_OK, True, ten__set_error TEN_OK w4)
      | None \<Rightarrow> Some (TEN_ERROR_NULL_ARGUMENT, False, ten__set_error TEN_ERROR_NULL_ARGUMENT w))"

text \<open>Destroying a pool; \<open>left\<close> tasks are still queued when the workers have been joined.\<close>

primrec free_left :: "nat \<Rightarrow> ten_world \<Rightarrow> ten_world option" where
  "free_left 0 w = Some w"
| "free_left (Suc n) w = do { w1 \<leftarrow> free_struct w; free_left n w1 }"

definition ten_thread_pool_destroy :: "pool_os \<Rightarrow> pool_object option \<Rightarrow> nat \<Rightarrow> ten_world \<Rightarrow> ten_world option" where
  "ten_thread_pool_destroy os pool left w =
     (case pool of
        None \<Rightarrow> Some w
      | Some p \<Rightarrow> do {
          let (p1, w1) = mark_and_wake os p w;
          w2 \<leftarrow> join_workers os p1 (unat (pl_worker_count p1)) w1;
          w3 \<leftarrow> free_left left w2;
          free_pool p1 w3
        })"

section \<open>Every block is given back\<close>

text \<open>The first \<open>n\<close> cells hold workers.\<close>

definition workers_made :: "nat \<Rightarrow> pool_object \<Rightarrow> bool" where
  "workers_made n p \<longleftrightarrow> (\<exists>cells. pl_workers p = Block cells \<and> n \<le> length cells \<and> (\<forall>i < n. cells ! i = Some (Some ())))"

definition pool_blocks :: "pool_object \<Rightarrow> int" where
  "pool_blocks p = 1 + owned (pl_workers p) + (if pl_lock p = None then 0 else 1) + (if pl_cond p = None then 0 else 1)"

lemma checked_live [simp]: "live (snd (checked b rc w)) = live w" "refusals (snd (checked b rc w)) = refusals w"
  by (simp_all add: checked_def)

lemma mark_and_wake_spec:
  "\<exists>w1. mark_and_wake os p w = (p\<lparr>pl_shutting_down := True\<rparr>, w1) \<and> live w1 = live w \<and> refusals w1 = refusals w"
  by (auto simp: mark_and_wake_def ten_mutex_lock_def ten_mutex_unlock_def ten_cond_broadcast_def
      checked_def Let_def)

lemma join_workers_spec:
  "workers_made n p \<Longrightarrow> \<exists>w1. join_workers os p n w = Some w1 \<and> live w1 = live w - int n \<and> refusals w1 = refusals w"
proof (induction n)
  case (Suc n)
  then have "workers_made n p" by (auto simp: workers_made_def)
  with Suc.IH obtain w1 where w1: "join_workers os p n w = Some w1" "live w1 = live w - int n" "refusals w1 = refusals w"
    by blast
  obtain cells where cells: "pl_workers p = Block cells" "n < length cells" "cells ! n = Some (Some ())"
    using Suc.prems by (auto simp: workers_made_def)
  then have "block_values n 1 (pl_workers p) = Some [Some ()]" by (simp add: block_values_def cell_values_def take_Suc_conv_app_nth)
  with w1 show ?case by (auto simp: ten_thread_join_def)
qed simp

lemma free_pool_spec:
  assumes "\<not> is_Dangling (pl_workers p)"
  shows "\<exists>w1. free_pool p w = Some w1 \<and> live w1 = live w - pool_blocks p \<and> refusals w1 = refusals w \<and>
    g_ten_last_error w1 = g_ten_last_error w"
proof -
  obtain w1 where w1: "ten_free (pl_workers p) w = Some w1" "live w1 = live w - owned (pl_workers p)"
      "g_ten_last_error w1 = g_ten_last_error w" "refusals w1 = refusals w"
    using ten_free_live [OF assms] by blast
  obtain w2 where w2: "ten_mutex_destroy (pl_lock p) w1 = Some w2" "live w2 = live w1 - (if pl_lock p = None then 0 else 1)"
      "refusals w2 = refusals w1" "g_ten_last_error w2 = g_ten_last_error w1"
    using destroyed_spec unfolding ten_mutex_destroy_def by blast
  obtain w3 where w3: "ten_cond_destroy (pl_cond p) w2 = Some w3" "live w3 = live w2 - (if pl_cond p = None then 0 else 1)"
      "refusals w3 = refusals w2" "g_ten_last_error w3 = g_ten_last_error w2"
    using destroyed_spec unfolding ten_cond_destroy_def by blast
  show ?thesis using w1 w2 w3 by (simp add: free_pool_def pool_blocks_def)
qed

lemma pool_blocks_marked [simp]: "pool_blocks (p\<lparr>pl_shutting_down := b\<rparr>) = pool_blocks p"
  by (simp add: pool_blocks_def)

lemma workers_made_marked [simp]: "workers_made n (p\<lparr>pl_shutting_down := b\<rparr>) = workers_made n p"
  by (simp add: workers_made_def)

lemma workers_made_live: "workers_made n p \<Longrightarrow> \<not> is_Dangling (pl_workers p)"
  by (auto simp: workers_made_def)

lemma cleanup_none:
  assumes "\<not> is_Dangling (pl_workers p)"
  shows "\<exists>w1. ten__thread_pool_cleanup_partial os (Some p) 0 w = Some w1 \<and> live w1 = live w - pool_blocks p \<and>
    refusals w1 = refusals w \<and> g_ten_last_error w1 = g_ten_last_error w"
  using free_pool_spec [OF assms] by (simp add: ten__thread_pool_cleanup_partial_def)

lemma joined_and_freed:
  assumes "workers_made n p"
  shows "\<exists>w1 w2 w3. mark_and_wake os p w = (p\<lparr>pl_shutting_down := True\<rparr>, w1) \<and>
    join_workers os (p\<lparr>pl_shutting_down := True\<rparr>) n w1 = Some w2 \<and> free_pool (p\<lparr>pl_shutting_down := True\<rparr>) w2 = Some w3 \<and>
    live w3 = live w - int n - pool_blocks p \<and> refusals w3 = refusals w"
proof -
  let ?p = "p\<lparr>pl_shutting_down := True\<rparr>"
  obtain w1 where w1: "mark_and_wake os p w = (?p, w1)" "live w1 = live w" "refusals w1 = refusals w"
    using mark_and_wake_spec by blast
  obtain w2 where w2: "join_workers os ?p n w1 = Some w2" "live w2 = live w1 - int n" "refusals w2 = refusals w1"
    using join_workers_spec [of n ?p] assms by auto
  obtain w3 where "free_pool ?p w2 = Some w3" "live w3 = live w2 - pool_blocks ?p" "refusals w3 = refusals w2"
    using free_pool_spec [of ?p w2] workers_made_live [OF assms] by auto
  with w1 w2 show ?thesis by simp
qed

lemma cleanup_spec:
  assumes "workers_made n p" "pl_lock p \<noteq> None" "pl_cond p \<noteq> None"
  shows "\<exists>w1. ten__thread_pool_cleanup_partial os (Some p) n w = Some w1 \<and> live w1 = live w - int n - pool_blocks p \<and>
    refusals w1 = refusals w"
proof (cases "n = 0")
  case True
  then show ?thesis using cleanup_none [OF workers_made_live [OF assms(1)]] by auto
next
  case False
  then show ?thesis
    using joined_and_freed [OF assms(1), of os w] assms(2,3)
    by (auto simp: ten__thread_pool_cleanup_partial_def)
qed

text \<open>Starting the workers: all of them, or none is left.\<close>

definition started_with :: "nat \<Rightarrow> pool_object \<Rightarrow> pool_object \<Rightarrow> bool" where
  "started_with n p q \<longleftrightarrow> workers_made n q \<and> pl_worker_count q = pl_worker_count p \<and> pl_lock q = pl_lock p \<and>
     pl_cond q = pl_cond p \<and> pl_shutting_down q = pl_shutting_down p"

lemma start_workers_spec:
  assumes "workers_made i p" "pl_workers p = Block cs" "i + n \<le> length cs" "pl_lock p \<noteq> None" "pl_cond p \<noteq> None"
  shows "\<exists>r w1. start_workers os n i p w = Some (r, w1) \<and>
    (case r of
       Some q \<Rightarrow> started_with (i + n) p q \<and> g_ten_last_error w1 = TEN_OK \<and> refusals w1 = refusals w \<and> live w1 = live w + int n
     | None \<Rightarrow> g_ten_last_error w1 \<noteq> TEN_OK \<and> live w1 = live w - int i - pool_blocks p)"
  using assms
proof (induction n arbitrary: i p cs w)
  case 0
  then show ?case by (simp add: started_with_def)
next
  case (Suc n)
  define ws where "ws h = Block (cs[i := Some h])" for h :: "handle option"
  have wrote: "block_write i [Some h] (pl_workers p) = Some (ws h)" for h
    using Suc.prems(2,3) by (simp add: ws_def upd_conv_take_nth_drop)
  have made: "workers_made i (p\<lparr>pl_workers := ws h\<rparr>)" for h
    using Suc.prems(1,2) by (auto simp: workers_made_def ws_def)
  have blocks: "pool_blocks (p\<lparr>pl_workers := ws h\<rparr>) = pool_blocks p" for h
    using Suc.prems(2) by (simp add: pool_blocks_def ws_def)
  show ?case
  proof (cases rule: created_cases [of sizeof_ten_thread w "os_thread os i"])
    case (made w1)
    let ?p = "p\<lparr>pl_workers := ws (Some ())\<rparr>"
    have "workers_made (Suc i) ?p"
      using Suc.prems(1,2,3) by (auto simp: workers_made_def ws_def less_Suc_eq nth_list_update)
    then obtain r w2 where r: "start_workers os n (Suc i) ?p w1 = Some (r, w2)"
        "case r of
           Some q \<Rightarrow> started_with (Suc i + n) ?p q \<and> g_ten_last_error w2 = TEN_OK \<and> refusals w2 = refusals w1 \<and>
             live w2 = live w1 + int n
         | None \<Rightarrow> g_ten_last_error w2 \<noteq> TEN_OK \<and> live w2 = live w1 - int (Suc i) - pool_blocks ?p"
      using Suc.IH [of "Suc i" ?p "cs[i := Some (Some ())]" w1] Suc.prems(3,4,5) unfolding ws_def by auto
    then show ?thesis
      using made wrote blocks by (auto simp: ten_thread_create_def started_with_def split: option.splits)
  next
    case (refused w1)
    obtain w2 where "ten__thread_pool_cleanup_partial os (Some (p\<lparr>pl_workers := ws None\<rparr>)) i w1 = Some w2"
        "live w2 = live w1 - int i - pool_blocks p"
      using cleanup_spec [OF made [of None], of os w1] Suc.prems(4,5) blocks by auto
    then show ?thesis using refused wrote by (simp add: ten_thread_create_def ten_last_error_def)
  next
    case (failed w1)
    obtain w2 where "ten__thread_pool_cleanup_partial os (Some (p\<lparr>pl_workers := ws None\<rparr>)) i w1 = Some w2"
        "live w2 = live w1 - int i - pool_blocks p"
      using cleanup_spec [OF made [of None], of os w1] Suc.prems(4,5) blocks by auto
    then show ?thesis using failed wrote by (simp add: ten_thread_create_def ten_last_error_def)
  qed
qed

text \<open>
  Creating a pool of fewer than \<open>2 ^ 61\<close> workers: all of it, or nothing. The one failure without an
  error code is that of the mutex alone: creating the condition variable then sets \<open>TEN_OK\<close> over it.
\<close>

definition pool_made :: "size_t \<Rightarrow> pool_object \<Rightarrow> bool" where
  "pool_made n p \<longleftrightarrow> workers_made (unat n) p \<and> pl_worker_count p = n \<and> pl_lock p \<noteq> None \<and> pl_cond p \<noteq> None \<and>
     \<not> pl_shutting_down p"

lemma made_blocks: "workers_made n p \<Longrightarrow> pl_lock p \<noteq> None \<Longrightarrow> pl_cond p \<noteq> None \<Longrightarrow> pool_blocks p = 4"
  by (auto simp: pool_blocks_def workers_made_def)

lemma handle_cases [simp]: "(h :: handle option) \<noteq> None \<longleftrightarrow> h = Some ()"
  by auto

lemma worker_array: "unat n < 2 ^ 61 \<Longrightarrow> unat (8 * n) div 8 = unat (n :: size_t)"
  by (subst unat_mult_size) simp_all

lemma create_workers:
  assumes "unat n < 2 ^ 61" "n \<noteq> 0" and p: "p = \<lparr>pl_workers = Null, pl_worker_count = n, pl_lock = Some (),
    pl_cond = Some (), pl_shutting_down = False\<rparr>"
  shows "\<exists>r w'. start_workers os (unat n) 0 (p\<lparr>pl_workers := Block (replicate (unat (8 * n) div 8) None)\<rparr>) w = Some (r, w') \<and>
    (case r of
       Some q \<Rightarrow> pool_made n q \<and> g_ten_last_error w' = TEN_OK \<and> refusals w' = refusals w \<and> live w' = live w + int (unat n)
     | None \<Rightarrow> g_ten_last_error w' \<noteq> TEN_OK \<and> live w' = live w - 4)"
proof -
  let ?p = "p\<lparr>pl_workers := Block (replicate (unat (8 * n) div 8) None)\<rparr>"
  have made: "workers_made 0 ?p" by (simp add: workers_made_def)
  have blocks: "pool_blocks ?p = 4" by (rule made_blocks [OF made]) (simp_all add: p)
  have "0 + unat n \<le> length (replicate (unat (8 * n) div 8) (None :: handle option option))"
    using worker_array [OF assms(1)] by simp
  then obtain r w' where r: "start_workers os (unat n) 0 ?p w = Some (r, w')"
    "case r of
       Some q \<Rightarrow> started_with (0 + unat n) ?p q \<and> g_ten_last_error w' = TEN_OK \<and> refusals w' = refusals w \<and> live w' = live w + int (unat n)
     | None \<Rightarrow> g_ten_last_error w' \<noteq> TEN_OK \<and> live w' = live w - int 0 - pool_blocks ?p"
    using start_workers_spec [OF made, of "replicate (unat (8 * n) div 8) None" "unat n" os w] by (auto simp only: p pool_object.simps)
  then show ?thesis
    using blocks by (cases r) (auto simp: p pool_made_def started_with_def)
qed

lemma create_spec:
  assumes "unat n < 2 ^ 61"
  shows "\<exists>r w'. ten_thread_pool_create os n w = Some (r, w') \<and>
    (case r of
       Some p \<Rightarrow> n \<noteq> 0 \<and> pool_made n p \<and> g_ten_last_error w' = TEN_OK \<and> refusals w' = refusals w \<and> live w' = live w + 4 + int (unat n)
     | None \<Rightarrow> live w' = live w \<and>
         (g_ten_last_error w' = TEN_OK \<longrightarrow> os_cond_init os = 0 \<and> (os_mutex_init os False \<noteq> 0 \<or> refusals w < refusals w')))"
proof (cases "n = 0")
  case True
  then show ?thesis by (simp add: ten_thread_pool_create_def)
next
  case n: False
  show ?thesis
  proof (cases rule: ten_malloc_cases [where n = sizeof_ten_thread_pool and w = w])
    case (refused w1)
    then show ?thesis using n by (simp add: ten_thread_pool_create_def)
  next
    case (granted w1)
    obtain lock w2 where lock: "ten_mutex_create (os_mutex_init os) w1 = Some (lock, w2)" "refusals w1 \<le> refusals w2"
        "live w2 = live w1 + (if lock = None then 0 else 1)" "lock = None \<longrightarrow> os_mutex_init os False \<noteq> 0 \<or> refusals w1 < refusals w2"
        "lock \<noteq> None \<longrightarrow> refusals w2 = refusals w1"
      unfolding ten_mutex_create_def ten__mutex_create_def
      by (cases rule: created_cases [of sizeof_ten_mutex w1 "os_mutex_init os False"]) auto
    obtain cond w3 where cond: "ten_cond_create (os_cond_init os) w2 = Some (cond, w3)" "refusals w2 \<le> refusals w3"
        "live w3 = live w2 + (if cond = None then 0 else 1)" "cond = None \<longrightarrow> g_ten_last_error w3 \<noteq> TEN_OK"
        "cond \<noteq> None \<longrightarrow> refusals w3 = refusals w2 \<and> os_cond_init os = 0"
      unfolding ten_cond_create_def
      by (cases rule: created_cases [of sizeof_ten_cond w2 "os_cond_init os"]) auto
    let ?p = "\<lparr>pl_workers = Null, pl_worker_count = n, pl_lock = lock, pl_cond = cond, pl_shutting_down = False\<rparr>"
    have clean: "\<exists>w4. ten__thread_pool_cleanup_partial os (Some ?p) 0 v = Some w4 \<and> live w4 = live v - pool_blocks ?p \<and>
        refusals w4 = refusals v \<and> g_ten_last_error w4 = g_ten_last_error v" for v
      by (rule cleanup_none) simp
    show ?thesis
    proof (cases "lock = None \<or> cond = None")
      case True
      then show ?thesis
        using clean [of w3] granted lock cond n by (auto simp: ten_thread_pool_create_def pool_blocks_def)
    next
      case False
      then have both: "lock = Some ()" "cond = Some ()" by auto
      show ?thesis
      proof (cases rule: ten_malloc_cases [where n = "8 * n" and w = w3])
        case r: (refused w4)
        then show ?thesis
          using clean [of w4] granted lock cond both n by (auto simp: ten_thread_pool_create_def pool_blocks_def)
      next
        case g: (granted w4)
        obtain r w' where r: "start_workers os (unat n) 0 (?p\<lparr>pl_workers := Block (replicate (unat (8 * n) div 8) None)\<rparr>) w4 = Some (r, w')"
            "case r of
               Some q \<Rightarrow> pool_made n q \<and> g_ten_last_error w' = TEN_OK \<and> refusals w' = refusals w4 \<and> live w' = live w4 + int (unat n)
             | None \<Rightarrow> g_ten_last_error w' \<noteq> TEN_OK \<and> live w' = live w4 - 4"
          using create_workers [OF assms n refl, of os w4] unfolding both by blast
        then have "ten_thread_pool_create os n w = Some (r, w')"
          using granted g lock cond both n by (simp add: ten_thread_pool_create_def)
        with r show ?thesis
          using granted g lock cond both n by (cases r) auto
      qed
    qed
  qed
qed

lemma destroy_spec:
  assumes "pool_made n p"
  shows "\<exists>w'. ten_thread_pool_destroy os (Some p) left w = Some w' \<and> live w' = live w - 4 - int (unat n) - int left \<and>
    refusals w' = refusals w"
proof -
  have made: "workers_made (unat n) p" "pool_blocks p = 4" "pl_worker_count p = n"
    using assms made_blocks by (auto simp: pool_made_def)
  have freed: "free_left left v = Some (v\<lparr>live := live v - int left\<rparr>)" for v
    by (induction left arbitrary: v) auto
  obtain w1 where w1: "mark_and_wake os p w = (p\<lparr>pl_shutting_down := True\<rparr>, w1)" "live w1 = live w" "refusals w1 = refusals w"
    using mark_and_wake_spec by blast
  let ?p = "p\<lparr>pl_shutting_down := True\<rparr>"
  obtain w2 where w2: "join_workers os ?p (unat n) w1 = Some w2" "live w2 = live w1 - int (unat n)" "refusals w2 = refusals w1"
    using join_workers_spec [of "unat n" ?p] made by auto
  let ?w = "w2\<lparr>live := live w2 - int left\<rparr>"
  obtain w3 where "free_pool ?p ?w = Some w3" "live w3 = live ?w - pool_blocks ?p" "refusals w3 = refusals ?w"
    using free_pool_spec [of ?p ?w] workers_made_live [OF made(1)] by auto
  then show ?thesis using w1 w2 made freed by (auto simp: ten_thread_pool_destroy_def)
qed

text \<open>A task is queued, or it is refused and leaves no block.\<close>

lemma submit_spec:
  "\<exists>rc queued w'. ten_thread_pool_submit os (Some p) True w = Some (rc, queued, w') \<and>
    g_ten_last_error w' = rc \<and> (queued \<longleftrightarrow> rc = TEN_OK) \<and> live w' = live w + (if queued then 1 else 0) \<and>
    (rc = TEN_OK \<and> \<not> pl_shutting_down p \<and> refusals w' = refusals w \<or>
     rc = TEN_ERROR_INVALID_STATE \<and> pl_shutting_down p \<and> refusals w' = refusals w \<or>
     rc = TEN_ERROR_OUT_OF_MEMORY \<and> refusals w < refusals w')"
  by (cases rule: ten_malloc_cases [where n = sizeof_ten_task and w = w])
    (auto simp: ten_thread_pool_submit_def ten_free_def ten_mutex_lock_def ten_mutex_unlock_def ten_cond_signal_def
      checked_def Let_def)

text \<open>The silent failure: no mutex, and the last error says that all is well.\<close>

definition no_mutex :: pool_os where
  "no_mutex = \<lparr>os_mutex_init = (\<lambda>_. 11), os_cond_init = 0, os_lock = 0, os_unlock = 0, os_signal = 0, os_broadcast = 0,
     os_thread = (\<lambda>_. 0), os_join = (\<lambda>_. 0)\<rparr>"

lemma create_silent:
  "map_option (\<lambda>(p, w). (p = None, g_ten_last_error w)) (ten_thread_pool_create no_mutex 4 (start_world ample)) =
     Some (True, TEN_OK)"
  by (simp add: ten_thread_pool_create_def no_mutex_def ten_malloc_def grants_malloc_def start_world_def ample_def
      default_allocator_def sizeof_ten_thread_pool_def sizeof_ten_mutex_def sizeof_ten_cond_def ten_mutex_create_def
      ten__mutex_create_def ten_cond_create_def created_def ten__thread_pool_cleanup_partial_def free_pool_def
      ten_mutex_destroy_def ten_cond_destroy_def destroyed_def ten_free_def Let_def ptrdiff_max_def)

end
