(* ===== verification/Ten_File_Spec.thy ===== *)
theory Ten_File_Spec
  imports Ten_Path
begin

text \<open>
  What the two versions of the file module have in common: what can be seen of the files of an
  operating system, the specification of an open file as bytes and a position, and, as a locale, what
  it takes for a version to implement it. The operating system may fail any call and move fewer
  bytes than asked, so the specification is a relation between a command, its answer with the last
  error, and the bytes and position before and after.
\<close>

section \<open>Files\<close>

datatype whence = SEEK_SET | SEEK_CUR | SEEK_END

text \<open>What can be seen of the files: which file a path names, their bytes, and the open descriptors.\<close>

record open_file =
  of_inode :: nat
  of_offset :: nat
  of_appending :: bool

record file_view =
  fv_names :: "cstring \<Rightarrow> nat option"
  fv_data :: "nat \<Rightarrow> byte list"
  fv_opened :: "nat \<Rightarrow> open_file option"

definition unused :: "file_view \<Rightarrow> nat \<Rightarrow> bool" where
  "unused v i \<longleftrightarrow> i \<notin> ran (fv_names v) \<and> (\<forall>d f. fv_opened v d = Some f \<longrightarrow> of_inode f \<noteq> i)"

text \<open>Bytes written at a position; a gap before it is filled with zeros.\<close>

definition write_at :: "nat \<Rightarrow> byte list \<Rightarrow> byte list \<Rightarrow> byte list" where
  "write_at p bs old = take p old @ replicate (p - length old) 0 @ bs @ drop (p + length bs) old"

definition write_offset :: "open_file \<Rightarrow> byte list \<Rightarrow> nat" where
  "write_offset f old = (if of_appending f then length old else of_offset f)"

text \<open>
  Opening: the file a path names, or a new one if it may be created, seen through a descriptor that
  was closed; \<open>creat\<close> allows a new file, \<open>trunc\<close> empties an old one.
\<close>

definition opens :: "cstring \<Rightarrow> bool \<Rightarrow> bool \<Rightarrow> bool \<Rightarrow> nat \<Rightarrow> nat \<Rightarrow> file_view \<Rightarrow> file_view \<Rightarrow> bool" where
  "opens p creat trunc appending d i v v' \<longleftrightarrow>
     (case fv_names v p of Some j \<Rightarrow> i = j | None \<Rightarrow> creat \<and> unused v i) \<and>
     fv_opened v d = None \<and> fv_names v' p = Some i \<and>
     (\<forall>q. fv_names v' q = fv_names v q \<or> fv_names v p = None \<and> fv_names v q = None \<and> fv_names v' q = Some i) \<and>
     fv_data v' = (fv_data v)(i := if fv_names v p = None \<or> trunc then [] else fv_data v i) \<and>
     fv_opened v' = (fv_opened v)(d \<mapsto> \<lparr>of_inode = i, of_offset = 0, of_appending = appending\<rparr>)"

definition reads :: "open_file \<Rightarrow> nat \<Rightarrow> byte list \<Rightarrow> nat \<Rightarrow> file_view \<Rightarrow> file_view \<Rightarrow> bool" where
  "reads f d bs n v v' \<longleftrightarrow>
     length bs \<le> n \<and> bs = take (length bs) (drop (of_offset f) (fv_data v (of_inode f))) \<and>
     (bs = [] \<longrightarrow> n = 0 \<or> length (fv_data v (of_inode f)) \<le> of_offset f) \<and>
     v' = v\<lparr>fv_opened := (fv_opened v)(d \<mapsto> f\<lparr>of_offset := of_offset f + length bs\<rparr>)\<rparr>"

definition writes :: "open_file \<Rightarrow> nat \<Rightarrow> byte list \<Rightarrow> nat \<Rightarrow> file_view \<Rightarrow> file_view \<Rightarrow> bool" where
  "writes f d bs k v v' \<longleftrightarrow>
     k \<le> length bs \<and>
     (let p = write_offset f (fv_data v (of_inode f))
      in v' = v\<lparr>fv_data := (fv_data v)(of_inode f := write_at p (take k bs) (fv_data v (of_inode f))),
              fv_opened := (fv_opened v)(d \<mapsto> f\<lparr>of_offset := p + k\<rparr>)\<rparr>)"

fun seek_base :: "whence \<Rightarrow> open_file \<Rightarrow> byte list \<Rightarrow> int" where
  "seek_base SEEK_SET f bs = 0"
| "seek_base SEEK_CUR f bs = int (of_offset f)"
| "seek_base SEEK_END f bs = int (length bs)"

text \<open>Opening in a mode that was parsed.\<close>

definition mode_opens :: "cstring \<Rightarrow> cstring \<Rightarrow> nat \<Rightarrow> nat \<Rightarrow> file_view \<Rightarrow> file_view \<Rightarrow> bool" where
  "mode_opens md p =
     (let m = ten__parse_file_mode md in opens p (fm_create m) (fm_truncate m) (fm_append m))"

lemma mode_opens_simps:
  "mode_opens (ascii ''rb'') p = opens p False False False" "mode_opens (ascii ''wb'') p = opens p True True False"
  by (simp_all add: mode_opens_def ten__parse_file_mode_def ascii_def Let_def)

lemma opens_fresh: "opens p creat trunc appending d i v v' \<Longrightarrow> (fv_opened v')(d := None) = fv_opened v"
  by (auto simp: opens_def fun_eq_iff)

lemma opens_emptied:
  assumes "opens q creat True appending d j v v'" "fv_names v p = Some i"
  shows "fv_names v' q = Some j" "j = i \<longleftrightarrow> fv_names v q = Some i" "fv_data v' = (fv_data v)(j := [])"
    "\<forall>p n. fv_names v p = Some n \<longrightarrow> fv_names v' p = Some n"
    "fv_opened v' = (fv_opened v)(d \<mapsto> \<lparr>of_inode = j, of_offset = 0, of_appending = appending\<rparr>)" "fv_opened v d = None"
proof -
  show "j = i \<longleftrightarrow> fv_names v q = Some i"
    using assms(1,2) by (auto simp: opens_def unused_def ran_def split: option.splits)
  show "\<forall>p n. fv_names v p = Some n \<longrightarrow> fv_names v' p = Some n"
    using assms(1) unfolding opens_def by (metis option.distinct(1))
qed (use assms(1) in \<open>auto simp: opens_def\<close>)

section \<open>Commands\<close>

datatype file_command = File_Read size_t | File_Write "byte list" | File_Seek int int | File_Size

datatype file_answer = Bytes_Read size_t "byte list" | Bytes_Written size_t | Seek_Code ten_error_code | Size_Is int

section \<open>The specification\<close>

type_synonym file_state = "byte list \<times> nat"

definition seek_target :: "int \<Rightarrow> int \<Rightarrow> file_state \<Rightarrow> int option" where
  "seek_target offset origin s =
     (if origin = 0 then Some offset
      else if origin = 1 then Some (int (snd s) + offset)
      else if origin = 2 then Some (int (length (fst s)) + offset)
      else None)"

fun file_allows :: "bool \<Rightarrow> file_command \<Rightarrow> file_answer \<times> ten_error_code \<Rightarrow> file_state \<Rightarrow> file_state \<Rightarrow> bool" where
  "file_allows appending (File_Read n) (Bytes_Read m got, err) (bs, p) s' \<longleftrightarrow>
     unat m = length got \<and> length got \<le> unat n \<and> got = take (length got) (drop p bs) \<and> s' = (bs, p + length got) \<and>
     (err = TEN_OK \<and> (got = [] \<longrightarrow> n = 0 \<or> length bs \<le> p) \<or> err = TEN_ERROR_IO \<and> got = [])"
| "file_allows appending (File_Write new) (Bytes_Written m, err) (bs, p) s' \<longleftrightarrow>
     unat m \<le> length new \<and>
     (err = TEN_OK \<and>
        (if new = [] then s' = (bs, p)
         else let q = (if appending then length bs else p)
              in s' = (write_at q (take (unat m) new) bs, q + unat m)) \<or>
      err = TEN_ERROR_IO \<and> m = 0 \<and> s' = (bs, p))"
| "file_allows appending (File_Seek offset origin) (Seek_Code rc, err) s s' \<longleftrightarrow>
     err = rc \<and> fst s' = fst s \<and>
     (case seek_target offset origin s of
        None \<Rightarrow> rc = TEN_ERROR_INVALID_ARGUMENT \<and> s' = s
      | Some q \<Rightarrow> rc = TEN_OK \<and> 0 \<le> q \<and> snd s' = nat q \<or> rc = TEN_ERROR_IO \<and> s' = s)"
| "file_allows appending File_Size (Size_Is n, err) s s' \<longleftrightarrow>
     s' = s \<and> (err = TEN_OK \<and> n = int (length (fst s)) \<or> err = TEN_ERROR_IO \<and> n = -1)"
| "file_allows appending _ _ s s' \<longleftrightarrow> False"

fun file_allows_run ::
    "bool \<Rightarrow> file_command list \<Rightarrow> (file_answer \<times> ten_error_code) list \<Rightarrow> file_state \<Rightarrow> file_state \<Rightarrow> bool" where
  "file_allows_run appending [] [] s s' \<longleftrightarrow> s' = s"
| "file_allows_run appending (c # cs) (r # rs) s s' \<longleftrightarrow>
     (\<exists>s1. file_allows appending c r s s1 \<and> file_allows_run appending cs rs s1 s')"
| "file_allows_run appending _ _ s s' \<longleftrightarrow> False"

section \<open>Implementations\<close>

text \<open>The descriptor \<open>d\<close> stands for a state of the file \<open>i\<close>.\<close>

definition stands_for :: "nat \<Rightarrow> nat \<Rightarrow> bool \<Rightarrow> file_view \<Rightarrow> file_state \<Rightarrow> bool" where
  "stands_for d i appending v s \<longleftrightarrow>
     fv_data v i = fst s \<and>
     (\<exists>f. fv_opened v d = Some f \<and> of_inode f = i \<and> of_offset f = snd s \<and> of_appending f = appending)"

text \<open>Nothing but the file \<open>i\<close> and the descriptor \<open>d\<close> has changed.\<close>

definition else_same :: "nat \<Rightarrow> nat \<Rightarrow> file_view \<Rightarrow> file_view \<Rightarrow> bool" where
  "else_same d i v v' \<longleftrightarrow>
     fv_names v' = fv_names v \<and> (\<forall>j. j \<noteq> i \<longrightarrow> fv_data v' j = fv_data v j) \<and> (\<forall>e. e \<noteq> d \<longrightarrow> fv_opened v' e = fv_opened v e)"

definition writes_small :: "file_command \<Rightarrow> bool" where
  "writes_small c \<longleftrightarrow> (case c of File_Write bs \<Rightarrow> length bs < 2 ^ 63 | _ \<Rightarrow> True)"

lemma reads_allowed:
  assumes "stands_for d i appending v (bs, p)" "fv_opened v d = Some f" "reads f d got n v v'"
  shows "stands_for d i appending v' (bs, p + length got)" "else_same d i v v'" "length got \<le> n"
    "got = take (length got) (drop p bs)" "got = [] \<Longrightarrow> n = 0 \<or> length bs \<le> p"
  using assms by (auto simp: stands_for_def reads_def else_same_def)

lemma writes_allowed:
  assumes "stands_for d i appending v (bs, p)" "fv_opened v d = Some f" "writes f d new m v v'"
  shows "let q = (if appending then length bs else p)
    in stands_for d i appending v' (write_at q (take m new) bs, q + m)" "else_same d i v v'" "m \<le> length new"
  using assms by (auto simp: stands_for_def writes_def else_same_def write_offset_def Let_def)

lemma else_same_trans: "else_same d i u v \<Longrightarrow> else_same d i v w \<Longrightarrow> else_same d i u w"
  by (simp add: else_same_def)

lemma else_same_refl [simp]: "else_same d i v v"
  by (simp add: else_same_def)

text \<open>Running a list of commands, each a step on a state of any type.\<close>

type_synonym 's file_stepper = "file_command \<Rightarrow> 's \<Rightarrow> ((file_answer \<times> ten_error_code) \<times> 's) option"

primrec file_run :: "'s file_stepper \<Rightarrow> file_command list \<Rightarrow> 's \<Rightarrow> ((file_answer \<times> ten_error_code) list \<times> 's) option" where
  "file_run step [] st = Some ([], st)"
| "file_run step (c # cs) st =
     (case step c st of
        None \<Rightarrow> None
      | Some (r, st1) \<Rightarrow> (case file_run step cs st1 of None \<Rightarrow> None | Some (rs, st2) \<Rightarrow> Some (r # rs, st2)))"

text \<open>
  An implementation: a step, and a relation between its states and those of the specification that
  every allowed command keeps.
\<close>

locale file_backend =
  fixes step :: "'s file_stepper"
    and appending :: bool
    and shows_file :: "'s \<Rightarrow> file_state \<Rightarrow> bool"
    and allowed :: "file_command \<Rightarrow> bool"
  assumes step_law: "shows_file st s \<Longrightarrow> allowed c \<Longrightarrow>
    \<exists>r st1 s1. step c st = Some (r, st1) \<and> file_allows appending c r s s1 \<and> shows_file st1 s1"
begin

lemma run_law:
  "shows_file st s \<Longrightarrow> \<forall>c \<in> set cs. allowed c \<Longrightarrow>
   \<exists>rs st1 s1. file_run step cs st = Some (rs, st1) \<and> file_allows_run appending cs rs s s1 \<and> shows_file st1 s1"
proof (induction cs arbitrary: st s)
  case (Cons c cs)
  then obtain r st1 s1 where step: "step c st = Some (r, st1)" "file_allows appending c r s s1" "shows_file st1 s1"
    using step_law [of st s c] by auto
  then obtain rs st2 s2 where run: "file_run step cs st1 = Some (rs, st2)" "file_allows_run appending cs rs s1 s2" "shows_file st2 s2"
    using Cons.IH [of st1 s1] Cons.prems(2) by auto
  have "file_run step (c # cs) st = Some (r # rs, st2)" using step(1) run(1) by simp
  moreover have "file_allows_run appending (c # cs) (r # rs) s s2"
    using step(2) run(2) unfolding file_allows_run.simps by blast
  ultimately show ?case using run(3) by blast
qed (simp del: split_paired_Ex)

end

end
