(* ===== verification/Ten_Posix.thy ===== *)
theory Ten_Posix
  imports Ten_File_Spec
begin

text \<open>
  The calls of POSIX that the file module makes (\<open>open\<close>, \<open>close\<close>, \<open>read\<close>, \<open>write\<close>, \<open>lseek\<close>, \<open>fstat\<close>,
  \<open>stat\<close>, \<open>unlink\<close>, \<open>rename\<close>): a record of functions on the state of an operating system, of any
  type, and as a locale what POSIX documents of them for regular files. Any call may fail and then
  changes nothing, reads and writes may move fewer bytes than they were asked for. The last
  section is a disk that keeps the contract.
\<close>

section \<open>The calls\<close>

datatype open_flag = O_RDONLY | O_WRONLY | O_RDWR | O_CREAT | O_TRUNC | O_APPEND

text \<open>An answer of \<open>Inl\<close> or \<open>None\<close> is a failure, \<open>Inl\<close> with its \<open>errno\<close>; flags are combined as lists.\<close>

record 'os posix =
  px_open :: "cstring \<Rightarrow> open_flag list \<Rightarrow> 'os \<Rightarrow> (int + nat) \<times> 'os"
  px_close :: "nat \<Rightarrow> 'os \<Rightarrow> 'os"
  px_read :: "nat \<Rightarrow> nat \<Rightarrow> 'os \<Rightarrow> byte list option \<times> 'os"
  px_write :: "nat \<Rightarrow> byte list \<Rightarrow> 'os \<Rightarrow> nat option \<times> 'os"
  px_lseek :: "nat \<Rightarrow> int \<Rightarrow> whence \<Rightarrow> 'os \<Rightarrow> int \<times> 'os"
  px_fstat :: "nat \<Rightarrow> 'os \<Rightarrow> int option"
  px_stat :: "cstring \<Rightarrow> 'os \<Rightarrow> bool"
  px_unlink :: "cstring \<Rightarrow> 'os \<Rightarrow> int option \<times> 'os"
  px_rename :: "cstring \<Rightarrow> cstring \<Rightarrow> 'os \<Rightarrow> bool \<times> 'os"

definition ENOENT :: int where "ENOENT = 2"

section \<open>What they do\<close>

text \<open>The contract. \<open>valid\<close> holds of the states an operating system can be in.\<close>

locale posix_files =
  fixes px :: "'os posix"
    and view :: "'os \<Rightarrow> file_view"
    and valid :: "'os \<Rightarrow> bool"
  assumes open_law: "valid os \<Longrightarrow> px_open px p flags os = (fd, os') \<Longrightarrow> valid os' \<and>
      (case fd of Inl e \<Rightarrow> view os' = view os | Inr d \<Rightarrow> \<exists>i. opens p (O_CREAT \<in> set flags) (O_TRUNC \<in> set flags) (O_APPEND \<in> set flags) d i (view os) (view os'))"
    and close_law: "valid os \<Longrightarrow> valid (px_close px d os) \<and>
      view (px_close px d os) = (view os)\<lparr>fv_opened := (fv_opened (view os))(d := None)\<rparr>"
    and read_law: "valid os \<Longrightarrow> fv_opened (view os) d = Some f \<Longrightarrow> px_read px d n os = (got, os') \<Longrightarrow> valid os' \<and>
      (case got of None \<Rightarrow> view os' = view os | Some bs \<Rightarrow> reads f d bs n (view os) (view os'))"
    and write_law: "valid os \<Longrightarrow> fv_opened (view os) d = Some f \<Longrightarrow> px_write px d bs os = (put, os') \<Longrightarrow> valid os' \<and>
      (case put of None \<Rightarrow> view os' = view os | Some k \<Rightarrow> writes f d bs k (view os) (view os'))"
    and lseek_law: "valid os \<Longrightarrow> fv_opened (view os) d = Some f \<Longrightarrow> px_lseek px d off wh os = (pos, os') \<Longrightarrow> valid os' \<and>
      (pos = -1 \<and> view os' = view os \<or>
       pos = seek_base wh f (fv_data (view os) (of_inode f)) + off \<and> 0 \<le> pos \<and>
       view os' = (view os)\<lparr>fv_opened := (fv_opened (view os))(d \<mapsto> f\<lparr>of_offset := nat pos\<rparr>)\<rparr>)"
    and fstat_law: "valid os \<Longrightarrow> fv_opened (view os) d = Some f \<Longrightarrow> px_fstat px d os = Some sz \<Longrightarrow>
      sz = int (length (fv_data (view os) (of_inode f)))"
    and stat_law: "valid os \<Longrightarrow> px_stat px p os \<Longrightarrow> fv_names (view os) p \<noteq> None"
    and unlink_law: "valid os \<Longrightarrow> px_unlink px p os = (err, os') \<Longrightarrow> valid os' \<and>
      fv_data (view os') = fv_data (view os) \<and> fv_opened (view os') = fv_opened (view os) \<and>
      (case err of Some e \<Rightarrow> fv_names (view os') = fv_names (view os)
       | None \<Rightarrow> fv_names (view os) p \<noteq> None \<and> fv_names (view os') p = None)"
    and rename_law: "valid os \<Longrightarrow> px_rename px p q os = (done_it, os') \<Longrightarrow> valid os' \<and>
      fv_data (view os') = fv_data (view os) \<and> fv_opened (view os') = fv_opened (view os) \<and>
      (if done_it then fv_names (view os) p \<noteq> None \<and> fv_names (view os') q = fv_names (view os) p \<and>
              (fv_names (view os) p \<noteq> fv_names (view os) q \<longrightarrow> fv_names (view os') p = None)
       else fv_names (view os') = fv_names (view os))"

section \<open>A disk\<close>

text \<open>
  A disk with numbered files and descriptors. The decision for each call is an argument: \<open>None\<close> to
  fail, or how many bytes to move beyond the first.
\<close>

record disk =
  dk_view :: file_view
  dk_next_inode :: nat
  dk_next_fd :: nat
  dk_calls :: nat

definition empty_disk :: disk where
  "empty_disk =
     \<lparr>dk_view = \<lparr>fv_names = Map.empty, fv_data = (\<lambda>_. []), fv_opened = Map.empty\<rparr>, dk_next_inode = 0, dk_next_fd = 3, dk_calls = 0\<rparr>"

definition disk_ok :: "disk \<Rightarrow> bool" where
  "disk_ok k \<longleftrightarrow>
     (\<forall>p i. fv_names (dk_view k) p = Some i \<longrightarrow> i < dk_next_inode k) \<and>
     (\<forall>d f. fv_opened (dk_view k) d = Some f \<longrightarrow> d < dk_next_fd k \<and> of_inode f < dk_next_inode k)"

definition tick :: "disk \<Rightarrow> disk" where
  "tick k = k\<lparr>dk_calls := Suc (dk_calls k)\<rparr>"

definition disk_open :: "(nat \<Rightarrow> nat option) \<Rightarrow> cstring \<Rightarrow> open_flag list \<Rightarrow> disk \<Rightarrow> (int + nat) \<times> disk" where
  "disk_open decide p flags k =
     (let v = dk_view k; d = dk_next_fd k in
      if decide (dk_calls k) = None then (Inl 5, tick k)
      else case fv_names v p of
        None \<Rightarrow>
          if O_CREAT \<in> set flags
          then let i = dk_next_inode k
               in (Inr d, tick (k\<lparr>dk_view := v\<lparr>fv_names := (fv_names v)(p \<mapsto> i), fv_data := (fv_data v)(i := []),
                      fv_opened := (fv_opened v)(d \<mapsto> \<lparr>of_inode = i, of_offset = 0, of_appending = (O_APPEND \<in> set flags)\<rparr>)\<rparr>,
                    dk_next_inode := Suc i, dk_next_fd := Suc d\<rparr>))
          else (Inl ENOENT, tick k)
      | Some i \<Rightarrow>
          (Inr d, tick (k\<lparr>dk_view := v\<lparr>fv_data := (fv_data v)(i := if O_TRUNC \<in> set flags then [] else fv_data v i),
                 fv_opened := (fv_opened v)(d \<mapsto> \<lparr>of_inode = i, of_offset = 0, of_appending = (O_APPEND \<in> set flags)\<rparr>)\<rparr>,
               dk_next_fd := Suc d\<rparr>)))"

definition disk_read :: "(nat \<Rightarrow> nat option) \<Rightarrow> nat \<Rightarrow> nat \<Rightarrow> disk \<Rightarrow> byte list option \<times> disk" where
  "disk_read decide d n k =
     (let v = dk_view k in
      case (fv_opened v d, decide (dk_calls k)) of
        (Some f, Some m) \<Rightarrow>
          let bs = take (min n (Suc m)) (drop (of_offset f) (fv_data v (of_inode f)))
          in (Some bs, tick (k\<lparr>dk_view := v\<lparr>fv_opened := (fv_opened v)(d \<mapsto> f\<lparr>of_offset := of_offset f + length bs\<rparr>)\<rparr>\<rparr>))
      | _ \<Rightarrow> (None, tick k))"

definition disk_write :: "(nat \<Rightarrow> nat option) \<Rightarrow> nat \<Rightarrow> byte list \<Rightarrow> disk \<Rightarrow> nat option \<times> disk" where
  "disk_write decide d bs k =
     (let v = dk_view k in
      case (fv_opened v d, decide (dk_calls k)) of
        (Some f, Some m) \<Rightarrow>
          let i = of_inode f; c = min (length bs) (Suc m); p = write_offset f (fv_data v i)
          in (Some c, tick (k\<lparr>dk_view := v\<lparr>fv_data := (fv_data v)(i := write_at p (take c bs) (fv_data v i)),
                fv_opened := (fv_opened v)(d \<mapsto> f\<lparr>of_offset := p + c\<rparr>)\<rparr>\<rparr>))
      | _ \<Rightarrow> (None, tick k))"

definition disk_lseek :: "(nat \<Rightarrow> nat option) \<Rightarrow> nat \<Rightarrow> int \<Rightarrow> whence \<Rightarrow> disk \<Rightarrow> int \<times> disk" where
  "disk_lseek decide d off wh k =
     (let v = dk_view k in
      case (fv_opened v d, decide (dk_calls k)) of
        (Some f, Some m) \<Rightarrow>
          let r = seek_base wh f (fv_data v (of_inode f)) + off
          in if r < 0 then (-1, tick k)
             else (r, tick (k\<lparr>dk_view := v\<lparr>fv_opened := (fv_opened v)(d \<mapsto> f\<lparr>of_offset := nat r\<rparr>)\<rparr>\<rparr>))
      | _ \<Rightarrow> (-1, tick k))"

definition disk_unlink :: "(nat \<Rightarrow> nat option) \<Rightarrow> cstring \<Rightarrow> disk \<Rightarrow> int option \<times> disk" where
  "disk_unlink decide p k =
     (let v = dk_view k in
      if decide (dk_calls k) = None then (Some 5, tick k)
      else if fv_names v p = None then (Some ENOENT, tick k)
      else (None, tick (k\<lparr>dk_view := v\<lparr>fv_names := (fv_names v)(p := None)\<rparr>\<rparr>)))"

definition disk_rename :: "(nat \<Rightarrow> nat option) \<Rightarrow> cstring \<Rightarrow> cstring \<Rightarrow> disk \<Rightarrow> bool \<times> disk" where
  "disk_rename decide p q k =
     (let v = dk_view k in
      if decide (dk_calls k) = None \<or> fv_names v p = None then (False, tick k)
      else if fv_names v p = fv_names v q then (True, tick k)
      else (True, tick (k\<lparr>dk_view := v\<lparr>fv_names := (fv_names v)(p := None, q := fv_names v p)\<rparr>\<rparr>)))"

definition disk_system :: "(nat \<Rightarrow> nat option) \<Rightarrow> disk posix" where
  "disk_system decide =
     \<lparr>px_open = disk_open decide,
      px_close = (\<lambda>d k. tick (k\<lparr>dk_view := (dk_view k)\<lparr>fv_opened := (fv_opened (dk_view k))(d := None)\<rparr>\<rparr>)),
      px_read = disk_read decide, px_write = disk_write decide, px_lseek = disk_lseek decide,
      px_fstat = (\<lambda>d k. map_option (\<lambda>f. int (length (fv_data (dk_view k) (of_inode f)))) (fv_opened (dk_view k) d)),
      px_stat = (\<lambda>p k. fv_names (dk_view k) p \<noteq> None),
      px_unlink = disk_unlink decide, px_rename = disk_rename decide\<rparr>"

lemma tick_sel [simp]: "dk_view (tick k) = dk_view k" "disk_ok (tick k) = disk_ok k"
  "dk_next_inode (tick k) = dk_next_inode k" "dk_next_fd (tick k) = dk_next_fd k"
  by (simp_all add: tick_def disk_ok_def)

lemma disk_unused: "disk_ok k \<Longrightarrow> unused (dk_view k) (dk_next_inode k)"
  unfolding disk_ok_def unused_def ran_def by (force simp: less_irrefl)

lemma disk_fresh: "disk_ok k \<Longrightarrow> fv_opened (dk_view k) (dk_next_fd k) = None"
  by (cases "fv_opened (dk_view k) (dk_next_fd k)") (auto simp: disk_ok_def)

text \<open>Moving a descriptor and changing bytes keeps the disk in order.\<close>

lemma disk_moved:
  assumes "disk_ok k" "fv_opened (dk_view k) d = Some f" "of_inode g = of_inode f"
  shows "disk_ok (k\<lparr>dk_view := (dk_view k)\<lparr>fv_opened := (fv_opened (dk_view k))(d \<mapsto> g)\<rparr>\<rparr>)"
    "disk_ok (k\<lparr>dk_view := (dk_view k)\<lparr>fv_data := dt, fv_opened := (fv_opened (dk_view k))(d \<mapsto> g)\<rparr>\<rparr>)"
  using assms by (auto simp: disk_ok_def split: if_splits)

lemma read_taken:
  "0 < m \<Longrightarrow> reads f d (take (min n m) (drop (of_offset f) (fv_data v (of_inode f)))) n v
     (v\<lparr>fv_opened := (fv_opened v)(d \<mapsto> f\<lparr>of_offset := of_offset f + length (take (min n m) (drop (of_offset f) (fv_data v (of_inode f))))\<rparr>)\<rparr>)"
  by (auto simp: reads_def min_def)

lemma disk_files: "posix_files (disk_system decide) dk_view disk_ok"
proof
  fix k k' :: disk and p flags r
  assume k: "disk_ok k" and s: "px_open (disk_system decide) p flags k = (r, k')"
  show "disk_ok k' \<and> (case r of Inl e \<Rightarrow> dk_view k' = dk_view k | Inr d \<Rightarrow> \<exists>i. opens p (O_CREAT \<in> set flags) (O_TRUNC \<in> set flags) (O_APPEND \<in> set flags) d i (dk_view k) (dk_view k'))"
    using s k disk_unused [OF k] disk_fresh [OF k]
    by (auto simp: disk_system_def disk_open_def Let_def opens_def disk_ok_def less_Suc_eq split: option.splits if_splits)
next
  fix k :: disk and d
  assume "disk_ok k"
  then show "disk_ok (px_close (disk_system decide) d k) \<and>
      dk_view (px_close (disk_system decide) d k) = (dk_view k)\<lparr>fv_opened := (fv_opened (dk_view k))(d := None)\<rparr>"
    by (auto simp: disk_system_def disk_ok_def)
next
  fix k k' :: disk and d f n r
  assume "disk_ok k" "fv_opened (dk_view k) d = Some f" "px_read (disk_system decide) d n k = (r, k')"
  then show "disk_ok k' \<and> (case r of None \<Rightarrow> dk_view k' = dk_view k | Some bs \<Rightarrow> reads f d bs n (dk_view k) (dk_view k'))"
    using read_taken [of "Suc m" for m]
    by (auto simp: disk_system_def disk_read_def Let_def disk_moved simp del: length_take split: option.splits)
next
  fix k k' :: disk and d f bs r
  assume "disk_ok k" "fv_opened (dk_view k) d = Some f" "px_write (disk_system decide) d bs k = (r, k')"
  then show "disk_ok k' \<and> (case r of None \<Rightarrow> dk_view k' = dk_view k | Some c \<Rightarrow> writes f d bs c (dk_view k) (dk_view k'))"
    by (auto simp: disk_system_def disk_write_def Let_def writes_def disk_moved split: option.splits)
next
  fix k k' :: disk and d f off wh r
  assume "disk_ok k" "fv_opened (dk_view k) d = Some f" "px_lseek (disk_system decide) d off wh k = (r, k')"
  then show "disk_ok k' \<and>
      (r = -1 \<and> dk_view k' = dk_view k \<or>
       r = seek_base wh f (fv_data (dk_view k) (of_inode f)) + off \<and> 0 \<le> r \<and>
       dk_view k' = (dk_view k)\<lparr>fv_opened := (fv_opened (dk_view k))(d \<mapsto> f\<lparr>of_offset := nat r\<rparr>)\<rparr>)"
    by (auto simp: disk_system_def disk_lseek_def Let_def disk_moved split: option.splits if_splits)
next
  fix k k' :: disk and p r
  assume "disk_ok k" "px_unlink (disk_system decide) p k = (r, k')"
  then show "disk_ok k' \<and> fv_data (dk_view k') = fv_data (dk_view k) \<and> fv_opened (dk_view k') = fv_opened (dk_view k) \<and>
      (case r of Some e \<Rightarrow> fv_names (dk_view k') = fv_names (dk_view k)
       | None \<Rightarrow> fv_names (dk_view k) p \<noteq> None \<and> fv_names (dk_view k') p = None)"
    by (auto simp: disk_system_def disk_unlink_def Let_def disk_ok_def split: if_splits)
next
  fix k k' :: disk and p q r
  assume "disk_ok k" "px_rename (disk_system decide) p q k = (r, k')"
  then show "disk_ok k' \<and> fv_data (dk_view k') = fv_data (dk_view k) \<and> fv_opened (dk_view k') = fv_opened (dk_view k) \<and>
      (if r then fv_names (dk_view k) p \<noteq> None \<and> fv_names (dk_view k') q = fv_names (dk_view k) p \<and>
              (fv_names (dk_view k) p \<noteq> fv_names (dk_view k) q \<longrightarrow> fv_names (dk_view k') p = None)
       else fv_names (dk_view k') = fv_names (dk_view k))"
    by (auto simp: disk_system_def disk_rename_def Let_def disk_ok_def split: if_splits)
qed (auto simp: disk_system_def)

interpretation disk_files: posix_files "disk_system decide" dk_view disk_ok for decide
  by (rule disk_files)

end
