(* ===== verification/Ten_File.thy ===== *)
theory Ten_File
  imports Ten_Posix Ten_Path Ten_Memory
begin

text \<open>
  The file module (\<open>include/ten/file.h\<close>, \<open>src/platform/posix/file_posix.c\<close>) over the calls of
  \<open>Ten_Posix\<close>. An operation takes and returns the state of the operating system and that of the
  library. The bytes that a read puts at the start of the caller's buffer are its result; writing
  more bytes than the caller's buffer has is undefined.
\<close>

section \<open>Operations\<close>

record ten_file =
  tf_fd :: nat

definition sizeof_ten_file :: size_t where
  "sizeof_ten_file = 4"

definition file_flags :: "ten__file_mode_t \<Rightarrow> open_flag list" where
  "file_flags m =
     (let flags = (if fm_read m \<and> fm_write m then [O_RDWR] else if fm_write m then [O_WRONLY] else [O_RDONLY]);
          flags = (if fm_create m then O_CREAT # flags else flags);
          flags = (if fm_truncate m then O_TRUNC # flags else flags)
      in if fm_append m then O_APPEND # flags else flags)"

definition ten_file_open ::
    "'os posix \<Rightarrow> cstring option \<Rightarrow> cstring option \<Rightarrow> 'os \<Rightarrow> ten_world \<Rightarrow> ten_file option \<times> 'os \<times> ten_world" where
  "ten_file_open px path mode os w =
     (case (path, mode) of
        (Some p, Some md) \<Rightarrow>
          let m = ten__parse_file_mode md
          in if \<not> fm_read m \<and> \<not> fm_write m then (None, os, ten__set_error TEN_ERROR_INVALID_ARGUMENT w)
             else
               (case px_open px p (file_flags m) os of
                  (Inl e, os1) \<Rightarrow> (None, os1, ten__set_error (if e = ENOENT then TEN_ERROR_NOT_FOUND else TEN_ERROR_IO) w)
                | (Inr fd, os1) \<Rightarrow>
                    let (file, w1) = ten_malloc sizeof_ten_file w
                    in if is_Null file then (None, px_close px fd os1, w1)
                       else (Some \<lparr>tf_fd = fd\<rparr>, os1, ten__set_error TEN_OK w1))
      | _ \<Rightarrow> (None, os, ten__set_error TEN_ERROR_NULL_ARGUMENT w))"

definition ten_file_close :: "'os posix \<Rightarrow> ten_file option \<Rightarrow> 'os \<Rightarrow> ten_world \<Rightarrow> ('os \<times> ten_world) option" where
  "ten_file_close px file os w =
     (case file of
        None \<Rightarrow> Some (os, w)
      | Some f \<Rightarrow> do { let os1 = px_close px (tf_fd f) os; w1 \<leftarrow> free_struct w; Some (os1, w1) })"

definition ten_file_read ::
    "'os posix \<Rightarrow> ten_file option \<Rightarrow> bool \<Rightarrow> size_t \<Rightarrow> 'os \<Rightarrow> ten_world \<Rightarrow> size_t \<times> byte list \<times> 'os \<times> ten_world" where
  "ten_file_read px file buffer size1 os w =
     (case file of
        None \<Rightarrow> (0, [], os, ten__set_error TEN_ERROR_NULL_ARGUMENT w)
      | Some f \<Rightarrow>
          if \<not> buffer \<and> size1 > 0 then (0, [], os, ten__set_error TEN_ERROR_NULL_ARGUMENT w)
          else if size1 = 0 then (0, [], os, ten__set_error TEN_OK w)
          else
            (case px_read px (tf_fd f) (unat size1) os of
               (None, os1) \<Rightarrow> (0, [], os1, ten__set_error TEN_ERROR_IO w)
             | (Some bs, os1) \<Rightarrow> (of_nat (length bs), bs, os1, ten__set_error TEN_OK w)))"

definition ten_file_write ::
    "'os posix \<Rightarrow> ten_file option \<Rightarrow> byte list option \<Rightarrow> size_t \<Rightarrow> 'os \<Rightarrow> ten_world \<Rightarrow> (size_t \<times> 'os \<times> ten_world) option" where
  "ten_file_write px file buffer size1 os w =
     (case file of
        None \<Rightarrow> Some (0, os, ten__set_error TEN_ERROR_NULL_ARGUMENT w)
      | Some f \<Rightarrow>
          if buffer = None \<and> size1 > 0 then Some (0, os, ten__set_error TEN_ERROR_NULL_ARGUMENT w)
          else if size1 = 0 then Some (0, os, ten__set_error TEN_OK w)
          else do {
            bs \<leftarrow> buffer;
            if unat size1 \<le> length bs
            then (case px_write px (tf_fd f) (take (unat size1) bs) os of
                    (None, os1) \<Rightarrow> Some (0, os1, ten__set_error TEN_ERROR_IO w)
                  | (Some n, os1) \<Rightarrow> Some (of_nat n, os1, ten__set_error TEN_OK w))
            else None
          })"

definition seek_whence :: "int \<Rightarrow> whence option" where
  "seek_whence origin =
     (if origin = 0 then Some SEEK_SET else if origin = 1 then Some SEEK_CUR else if origin = 2 then Some SEEK_END else None)"

definition ten_file_seek ::
    "'os posix \<Rightarrow> ten_file option \<Rightarrow> int \<Rightarrow> int \<Rightarrow> 'os \<Rightarrow> ten_world \<Rightarrow> ten_error_code \<times> 'os \<times> ten_world" where
  "ten_file_seek px file offset origin os w =
     (case file of
        None \<Rightarrow> (TEN_ERROR_NULL_ARGUMENT, os, ten__set_error TEN_ERROR_NULL_ARGUMENT w)
      | Some f \<Rightarrow>
          (case seek_whence origin of
             None \<Rightarrow> (TEN_ERROR_INVALID_ARGUMENT, os, ten__set_error TEN_ERROR_INVALID_ARGUMENT w)
           | Some whence \<Rightarrow>
               let (res, os1) = px_lseek px (tf_fd f) offset whence os
               in if res = -1 then (TEN_ERROR_IO, os1, ten__set_error TEN_ERROR_IO w)
                  else (TEN_OK, os1, ten__set_error TEN_OK w)))"

definition ten_file_size :: "'os posix \<Rightarrow> ten_file option \<Rightarrow> 'os \<Rightarrow> ten_world \<Rightarrow> int \<times> ten_world" where
  "ten_file_size px file os w =
     (case file of
        None \<Rightarrow> (-1, ten__set_error TEN_ERROR_NULL_ARGUMENT w)
      | Some f \<Rightarrow>
          (case px_fstat px (tf_fd f) os of
             None \<Rightarrow> (-1, ten__set_error TEN_ERROR_IO w)
           | Some size1 \<Rightarrow> (size1, ten__set_error TEN_OK w)))"

definition ten_file_exists :: "'os posix \<Rightarrow> cstring option \<Rightarrow> 'os \<Rightarrow> ten_world \<Rightarrow> bool \<times> ten_world" where
  "ten_file_exists px path os w =
     (case path of
        None \<Rightarrow> (False, ten__set_error TEN_ERROR_NULL_ARGUMENT w)
      | Some p \<Rightarrow> (px_stat px p os, ten__set_error TEN_OK w))"

definition ten_file_delete ::
    "'os posix \<Rightarrow> cstring option \<Rightarrow> 'os \<Rightarrow> ten_world \<Rightarrow> ten_error_code \<times> 'os \<times> ten_world" where
  "ten_file_delete px path os w =
     (case path of
        None \<Rightarrow> (TEN_ERROR_NULL_ARGUMENT, os, ten__set_error TEN_ERROR_NULL_ARGUMENT w)
      | Some p \<Rightarrow>
          (case px_unlink px p os of
             (Some e, os1) \<Rightarrow>
               let code = (if e = ENOENT then TEN_ERROR_NOT_FOUND else TEN_ERROR_IO)
               in (code, os1, ten__set_error code w)
           | (None, os1) \<Rightarrow> (TEN_OK, os1, ten__set_error TEN_OK w)))"

text \<open>The copying loop, with its buffer of 8192 bytes.\<close>

partial_function (option) copy_loop ::
    "'os posix \<Rightarrow> ten_file \<Rightarrow> ten_file \<Rightarrow> 'os \<Rightarrow> ten_world \<Rightarrow> (ten_error_code \<times> 'os \<times> ten_world) option" where
  "copy_loop px src dst os w =
     (case ten_file_read px (Some src) True 8192 os w of
        (n, buf, os1, w1) \<Rightarrow>
          if n = 0 then Some (if ten_last_error w1 \<noteq> TEN_OK then TEN_ERROR_IO else TEN_OK, os1, w1)
          else Option.bind (ten_file_write px (Some dst) (Some buf) n os1 w1) (\<lambda>(m, os2, w2).
            if m \<noteq> n then Some (TEN_ERROR_IO, os2, w2) else copy_loop px src dst os2 w2))"

definition ten_file_copy ::
    "'os posix \<Rightarrow> cstring option \<Rightarrow> cstring option \<Rightarrow> 'os \<Rightarrow> ten_world \<Rightarrow> (ten_error_code \<times> 'os \<times> ten_world) option" where
  "ten_file_copy px source destination os w =
     (if source = None \<or> destination = None
      then Some (TEN_ERROR_NULL_ARGUMENT, os, ten__set_error TEN_ERROR_NULL_ARGUMENT w)
      else
        case ten_file_open px source (Some (ascii ''rb'')) os w of
          (None, os1, w1) \<Rightarrow> Some (ten_last_error w1, os1, w1)
        | (Some src, os1, w1) \<Rightarrow>
            (case ten_file_open px destination (Some (ascii ''wb'')) os1 w1 of
               (None, os2, w2) \<Rightarrow> do {
                 let rc = ten_last_error w2;
                 (os3, w3) \<leftarrow> ten_file_close px (Some src) os2 w2;
                 Some (rc, os3, w3)
               }
             | (Some dst, os2, w2) \<Rightarrow> do {
                 (rc, os3, w3) \<leftarrow> copy_loop px src dst os2 w2;
                 (os4, w4) \<leftarrow> ten_file_close px (Some src) os3 w3;
                 (os5, w5) \<leftarrow> ten_file_close px (Some dst) os4 w4;
                 Some (rc, os5, ten__set_error rc w5)
               }))"

definition ten_file_move ::
    "'os posix \<Rightarrow> cstring option \<Rightarrow> cstring option \<Rightarrow> 'os \<Rightarrow> ten_world \<Rightarrow> ten_error_code \<times> 'os \<times> ten_world" where
  "ten_file_move px source destination os w =
     (case (source, destination) of
        (Some p, Some q) \<Rightarrow>
          (case px_rename px p q os of
             (False, os1) \<Rightarrow> (TEN_ERROR_IO, os1, ten__set_error TEN_ERROR_IO w)
           | (True, os1) \<Rightarrow> (TEN_OK, os1, ten__set_error TEN_OK w))
      | _ \<Rightarrow> (TEN_ERROR_NULL_ARGUMENT, os, ten__set_error TEN_ERROR_NULL_ARGUMENT w))"

section \<open>Opening and copying\<close>

lemma flags_of_mode:
  "O_CREAT \<in> set (file_flags m) \<longleftrightarrow> fm_create m" "O_TRUNC \<in> set (file_flags m) \<longleftrightarrow> fm_truncate m"
  "O_APPEND \<in> set (file_flags m) \<longleftrightarrow> fm_append m"
  by (simp_all add: file_flags_def Let_def)

lemma write_at_append:
  assumes "k \<le> length xs" "bs = take (length bs) (drop k xs)" "m \<le> length bs"
  shows "write_at k (take m bs) (take k xs) = take (k + m) xs"
proof -
  have "take m bs = take m (drop k xs)" using assms(2,3) by (metis min.absorb1 take_take)
  then show ?thesis using assms(1) by (simp add: write_at_def take_add)
qed

text \<open>A position that a read took bytes from is not beyond the end of the file.\<close>

lemma taken_bound: "bs = take (length bs) (drop k xs) \<Longrightarrow> bs \<noteq> [] \<Longrightarrow> k + length bs \<le> length xs"
proof -
  assume a: "bs = take (length bs) (drop k xs)" "bs \<noteq> []"
  have "length bs = min (length bs) (length xs - k)" using arg_cong [OF a(1), of length] by simp
  then show ?thesis using a(2) by (cases bs) auto
qed

text \<open>The copying loop returns; what it has written at any time is the start of the source.\<close>

definition copying :: "nat \<Rightarrow> nat \<Rightarrow> nat \<Rightarrow> nat \<Rightarrow> nat \<Rightarrow> file_view \<Rightarrow> bool" where
  "copying ds dd i j k v \<longleftrightarrow>
     ds \<noteq> dd \<and> i \<noteq> j \<and> k \<le> length (fv_data v i) \<and> fv_data v j = take k (fv_data v i) \<and>
     (\<exists>f. fv_opened v ds = Some f \<and> of_inode f = i \<and> of_offset f = k) \<and>
     (\<exists>f. fv_opened v dd = Some f \<and> of_inode f = j \<and> of_offset f = k \<and> \<not> of_appending f)"

text \<open>The destination has the first \<open>m\<close> bytes of the source, and nothing else has changed.\<close>

definition copied_part :: "nat \<Rightarrow> nat \<Rightarrow> nat \<Rightarrow> nat \<Rightarrow> nat \<Rightarrow> file_view \<Rightarrow> file_view \<Rightarrow> bool" where
  "copied_part ds dd i j m v v' \<longleftrightarrow> fv_names v' = fv_names v \<and> fv_data v' = (fv_data v)(j := take m (fv_data v i)) \<and>
     (\<forall>d. d \<noteq> ds \<longrightarrow> d \<noteq> dd \<longrightarrow> fv_opened v' d = fv_opened v d)"

text \<open>
  What a copy has done when it returns \<open>rc\<close>, for a source that is file \<open>i\<close> with the bytes \<open>bs\<close>:
  nothing, or it has fv_opened the destination and written a part of the bytes to it, all of them
  when it succeeds; unless the destination is the source, which is then emptied.
\<close>

definition copied :: "cstring \<Rightarrow> nat \<Rightarrow> byte list \<Rightarrow> ten_error_code \<Rightarrow> file_view \<Rightarrow> file_view \<Rightarrow> bool" where
  "copied q i bs rc v v' \<longleftrightarrow>
     rc \<noteq> TEN_OK \<and> fv_data v' = fv_data v \<and> fv_names v' = fv_names v \<or>
     (\<exists>j m. fv_names v' q = Some j \<and> (\<forall>p n. fv_names v p = Some n \<longrightarrow> fv_names v' p = Some n) \<and>
        (j = i \<longleftrightarrow> fv_names v q = Some i) \<and>
        fv_data v' = (fv_data v)(j := if j = i then [] else take m bs) \<and> (rc = TEN_OK \<longrightarrow> m = length bs))"

lemma copied_other:
  assumes "copied q i bs rc v v'" "fv_names v q \<noteq> Some i"
  shows "rc \<noteq> TEN_OK \<and> fv_data v' = fv_data v \<or>
    (\<exists>j m. j \<noteq> i \<and> fv_names v' q = Some j \<and> fv_data v' = (fv_data v)(j := take m bs) \<and> (rc = TEN_OK \<longrightarrow> take m bs = bs))"
  using assms(1)
proof (cases "rc \<noteq> TEN_OK \<and> fv_data v' = fv_data v \<and> fv_names v' = fv_names v")
  case False
  then obtain j m where j: "fv_names v' q = Some j" "j = i \<longleftrightarrow> fv_names v q = Some i"
      "fv_data v' = (fv_data v)(j := if j = i then [] else take m bs)" "rc = TEN_OK \<longrightarrow> m = length bs"
    using assms(1) unfolding copied_def by blast
  then show ?thesis using assms(2) by (intro disjI2 exI [of _ j] exI [of _ m]) simp
qed blast

lemma copied_self:
  assumes "copied q i bs rc v v'" "fv_names v q = Some i" "rc = TEN_OK"
  shows "fv_data v' = (fv_data v)(i := [])" "fv_names v' q = Some i"
  using assms unfolding copied_def by auto

text \<open>The source is open, and nothing else has changed.\<close>

definition source_open :: "nat \<Rightarrow> nat \<Rightarrow> file_view \<Rightarrow> file_view \<Rightarrow> bool" where
  "source_open ds i v v1 \<longleftrightarrow>
     fv_data v1 = fv_data v \<and> fv_names v1 = fv_names v \<and> fv_opened v ds = None \<and>
     fv_opened v1 = (fv_opened v)(ds \<mapsto> \<lparr>of_inode = i, of_offset = 0, of_appending = False\<rparr>)"

context posix_files
begin

text \<open>Opening: a new descriptor, or an error; and then a file may have been created or emptied.\<close>

lemma open_spec:
  assumes "valid os" "ten_file_open px (Some p) (Some md) os w = (r, os1, w1)"
  shows "valid os1 \<and>
    (case r of
       Some f \<Rightarrow> (\<exists>i. mode_opens md p (tf_fd f) i (view os) (view os1)) \<and>
         g_ten_last_error w1 = TEN_OK \<and> live w1 = live w + 1
     | None \<Rightarrow> g_ten_last_error w1 \<noteq> TEN_OK \<and> live w1 = live w \<and>
         (view os1 = view os \<or>
          (\<exists>d i v. mode_opens md p d i (view os) v \<and>
             view os1 = v\<lparr>fv_opened := fv_opened (view os)\<rparr>)))"
proof (cases "fm_read (ten__parse_file_mode md) \<or> fm_write (ten__parse_file_mode md)")
  case False
  then show ?thesis using assms by (auto simp: ten_file_open_def Let_def)
next
  case True
  let ?flags = "file_flags (ten__parse_file_mode md)"
  obtain fd os2 where call: "px_open px p ?flags os = (fd, os2)" by (cases "px_open px p ?flags os")
  note law = open_law [OF assms(1) call]
  show ?thesis
  proof (cases fd)
    case (Inl e)
    then show ?thesis using True call law assms(2) by (auto simp: ten_file_open_def Let_def split: if_splits)
  next
    case (Inr d)
    obtain i where i: "mode_opens md p d i (view os) (view os2)" using law Inr by (auto simp: flags_of_mode mode_opens_def Let_def)
    have restored: "(fv_opened (view os2))(d := None) = fv_opened (view os)"
      using i by (auto simp: mode_opens_def Let_def dest: opens_fresh)
    show ?thesis
    proof (cases rule: ten_malloc_cases [where n = sizeof_ten_file and w = w])
      case (granted w2)
      then have "r = Some \<lparr>tf_fd = d\<rparr>" "os1 = os2" "w1 = ten__set_error TEN_OK w2"
        using True call Inr assms(2) by (auto simp: ten_file_open_def Let_def)
      then show ?thesis using granted law i by auto
    next
      case (refused w2)
      then have "r = None" "os1 = px_close px d os2" "w1 = w2"
        using True call Inr assms(2) by (auto simp: ten_file_open_def Let_def)
      then show ?thesis
        using refused law i restored close_law [of os2 d] by auto
    qed
  qed
qed

lemma copying_reads:
  assumes "copying ds dd i j k v" "fv_opened v ds = Some f" "reads f ds bs n v v'"
  shows "(bs = [] \<longrightarrow> n = 0 \<or> k = length (fv_data v i)) \<and> bs = take (length bs) (drop k (fv_data v i)) \<and> fv_data v' = fv_data v \<and>
    fv_names v' = fv_names v \<and> (\<forall>d. d \<noteq> ds \<longrightarrow> fv_opened v' d = fv_opened v d) \<and>
    (\<exists>f'. fv_opened v' ds = Some f' \<and> of_inode f' = i \<and> of_offset f' = k + length bs)"
  using assms by (auto simp: copying_def reads_def)

lemma copied_part_trans:
  "copied_part ds dd i j k v v1 \<Longrightarrow> i \<noteq> j \<Longrightarrow> copied_part ds dd i j m v1 v2 \<Longrightarrow> copied_part ds dd i j m v v2"
  by (simp add: copied_part_def)

lemma copied_part_read:
  assumes "copying ds dd i j k v" "fv_opened v ds = Some f" "reads f ds bs n v v'"
  shows "copied_part ds dd i j k v v'"
  using assms by (auto simp: copied_part_def copying_def reads_def)

lemma copying_writes:
  assumes "copying ds dd i j k v" "fv_opened v ds = Some fs" "reads fs ds bs n v v1" "bs \<noteq> []"
    and "fv_opened v1 dd = Some f" "writes f dd bs m v1 v2"
  shows "copied_part ds dd i j (k + m) v v2 \<and> m \<le> length bs \<and> k + m \<le> length (fv_data v i) \<and>
    (m = length bs \<longrightarrow> copying ds dd i j (k + m) v2)"
proof -
  note r = copying_reads [OF assms(1-3)]
  have f: "ds \<noteq> dd" "i \<noteq> j" "k \<le> length (fv_data v i)" "fv_data v j = take k (fv_data v i)" "of_inode f = j" "of_offset f = k"
      "\<not> of_appending f"
    using assms(1,5) r by (auto simp: copying_def)
  have m: "m \<le> length bs" and v2: "v2 = v1\<lparr>fv_data := (fv_data v1)(j := write_at k (take m bs) (fv_data v1 j)),
      fv_opened := (fv_opened v1)(dd \<mapsto> f\<lparr>of_offset := k + m\<rparr>)\<rparr>"
    using assms(6) f by (simp_all add: writes_def write_offset_def Let_def)
  have bs: "bs = take (length bs) (drop k (fv_data v i))" using r by blast
  have "write_at k (take m bs) (fv_data v j) = take (k + m) (fv_data v i)"
    unfolding f(4) using f(3) bs m by (rule write_at_append)
  moreover have "k + length bs \<le> length (fv_data v i)" using bs assms(4) by (rule taken_bound)
  ultimately show ?thesis using m v2 r f by (auto simp: copying_def copied_part_def)
qed

text \<open>One round: the source is read, and what came is written, or the loop ends.\<close>

lemma copy_round:
  assumes "valid os" "copying (tf_fd src) (tf_fd dst) i j k (view os)"
  obtains (ended) rc os1 w1 m where "copy_loop px src dst os w = Some (rc, os1, w1)" "valid os1" "rc = TEN_OK \<or> rc = TEN_ERROR_IO"
      "live w1 = live w" "refusals w1 = refusals w" "copied_part (tf_fd src) (tf_fd dst) i j m (view os) (view os1)"
      "rc = TEN_OK \<Longrightarrow> m = length (fv_data (view os) i)"
  | (goes_on) os1 w1 m where "copy_loop px src dst os w = copy_loop px src dst os1 w1" "valid os1"
      "live w1 = live w" "refusals w1 = refusals w" "copied_part (tf_fd src) (tf_fd dst) i j (k + m) (view os) (view os1)"
      "0 < m" "k + m \<le> length (fv_data (view os) i)" "copying (tf_fd src) (tf_fd dst) i j (k + m) (view os1)"
proof -
  obtain f where f: "fv_opened (view os) (tf_fd src) = Some f" using assms(2) by (auto simp: copying_def)
  obtain got os1 where call: "px_read px (tf_fd src) 8192 os = (got, os1)" by (cases "px_read px (tf_fd src) 8192 os")
  note law = read_law [OF assms(1) f call]
  note loop = copy_loop.simps [of px src dst os w] ten_file_read_def ten_file_write_def call
  have start: "copied_part (tf_fd src) (tf_fd dst) i j k (view os) (view os)"
    using assms(2) by (auto simp: copying_def copied_part_def)
  show thesis
  proof (cases got)
    case None
    then show thesis using law start by (intro ended [of TEN_ERROR_IO os1 "ten__set_error TEN_ERROR_IO w" k]) (simp_all add: loop)
  next
    case (Some bs)
    have r: "reads f (tf_fd src) bs 8192 (view os) (view os1)" using law Some by simp
    note r1 = copying_reads [OF assms(2) f r] and read = copied_part_read [OF assms(2) f r]
    have small: "unat (of_nat (length bs) :: size_t) = length bs"
      using r by (intro unat_of_nat_size) (simp add: reads_def)
    obtain g where g: "fv_opened (view os1) (tf_fd dst) = Some g"
      using r1 assms(2) by (auto simp: copying_def)
    obtain put os2 where call2: "px_write px (tf_fd dst) bs os1 = (put, os2)" by (cases "px_write px (tf_fd dst) bs os1")
    have law2: "valid os2 \<and> (case put of None \<Rightarrow> view os2 = view os1 | Some m \<Rightarrow> writes g (tf_fd dst) bs m (view os1) (view os2))"
      using write_law [OF _ g call2] law by blast
    show thesis
    proof (cases "bs = []")
      case True
      then show thesis using Some law r1 read by (intro ended [of TEN_OK os1 "ten__set_error TEN_OK w" k]) (simp_all add: loop)
    next
      case False
      then have n: "(of_nat (length bs) :: size_t) \<noteq> 0" using small by (metis length_0_conv unat_0)
      show thesis
      proof (cases put)
        case None
        then show thesis using Some law2 read n small call2 by (intro ended [of TEN_ERROR_IO os2 "ten__set_error TEN_ERROR_IO w" k]) (simp_all add: loop)
      next
        case (Some m)
        have "writes g (tf_fd dst) bs m (view os1) (view os2)" using law2 Some by simp
        note w2 = copying_writes [OF assms(2) f r False g this]
        have same: "(of_nat m :: size_t) = of_nat (length bs) \<longleftrightarrow> m = length bs"
          using w2 small by (metis le_less_trans unat_of_nat_size unat_size_less)
        show thesis
        proof (cases "m = length bs")
          case False
          then show thesis using \<open>got = Some bs\<close> Some law2 w2 n small call2 same
            by (intro ended [of TEN_ERROR_IO os2 "ten__set_error TEN_OK w" "k + m"]) (simp_all add: loop)
        next
          case True
          then show thesis using \<open>got = Some bs\<close> Some law2 w2 n small call2 \<open>bs \<noteq> []\<close>
            by (intro goes_on [of os2 "ten__set_error TEN_OK w" m]) (simp_all add: loop)
        qed
      qed
    qed
  qed
qed

lemma copy_loop_spec:
  assumes "valid os" "copying (tf_fd src) (tf_fd dst) i j k (view os)"
  shows "\<exists>rc os1 w1 m. copy_loop px src dst os w = Some (rc, os1, w1) \<and> valid os1 \<and> (rc = TEN_OK \<or> rc = TEN_ERROR_IO) \<and>
    live w1 = live w \<and> refusals w1 = refusals w \<and> copied_part (tf_fd src) (tf_fd dst) i j m (view os) (view os1) \<and>
    (rc = TEN_OK \<longrightarrow> m = length (fv_data (view os) i))"
  using assms
proof (induction "length (fv_data (view os) i) - k" arbitrary: os w k rule: less_induct)
  case less
  from less.prems show ?case
  proof (cases rule: copy_round [where w = w])
    case (goes_on os1 w1 m)
    have other: "i \<noteq> j" using less.prems(2) by (simp add: copying_def)
    then have same: "fv_data (view os1) i = fv_data (view os) i" using goes_on(5) by (simp add: copied_part_def)
    have "length (fv_data (view os1) i) - (k + m) < length (fv_data (view os) i) - k" using goes_on(6,7) same by simp
    from less.hyps [OF this goes_on(2,8), of w1] obtain rc os2 w2 l where
      "copy_loop px src dst os1 w1 = Some (rc, os2, w2)" "valid os2" "rc = TEN_OK \<or> rc = TEN_ERROR_IO" "live w2 = live w"
      "refusals w2 = refusals w" "copied_part (tf_fd src) (tf_fd dst) i j l (view os1) (view os2)"
      "rc = TEN_OK \<longrightarrow> l = length (fv_data (view os) i)"
      using goes_on(3,4) same by auto
    then show ?thesis using goes_on(1) copied_part_trans [OF goes_on(5) other] by auto
  qed blast
qed

lemma close_spec:
  assumes "valid os"
  shows "\<exists>os1 w1. ten_file_close px (Some f) os w = Some (os1, w1) \<and> valid os1 \<and>
    view os1 = (view os)\<lparr>fv_opened := (fv_opened (view os))(tf_fd f := None)\<rparr> \<and>
    live w1 = live w - 1 \<and> g_ten_last_error w1 = g_ten_last_error w"
  using close_law [OF assms, of "tf_fd f"] by (auto simp: ten_file_close_def)

lemma copy_emptied:
  assumes "valid os" "fv_opened (view os) (tf_fd src) = Some f" "fv_data (view os) (of_inode f) = []"
  shows "\<exists>rc os1 w1. copy_loop px src dst os w = Some (rc, os1, w1) \<and> valid os1 \<and> live w1 = live w \<and>
    fv_data (view os1) = fv_data (view os) \<and> fv_names (view os1) = fv_names (view os) \<and>
    (\<forall>d. d \<noteq> tf_fd src \<longrightarrow> fv_opened (view os1) d = fv_opened (view os) d)"
proof -
  obtain got os1 where call: "px_read px (tf_fd src) 8192 os = (got, os1)" by (cases "px_read px (tf_fd src) 8192 os")
  note law = read_law [OF assms(1,2) call]
  show ?thesis
  proof (cases got)
    case None
    then have "copy_loop px src dst os w = Some (TEN_ERROR_IO, os1, ten__set_error TEN_ERROR_IO w)"
      using call by (subst copy_loop.simps) (simp add: ten_file_read_def)
    then show ?thesis using law None by auto
  next
    case (Some bs)
    then have r: "reads f (tf_fd src) bs 8192 (view os) (view os1)" using law by simp
    then have "bs = []" using assms(3) by (auto simp: reads_def)
    then have "copy_loop px src dst os w = Some (TEN_OK, os1, ten__set_error TEN_OK w)"
      using call Some by (subst copy_loop.simps) (simp add: ten_file_read_def)
    then show ?thesis using law r by (auto simp: reads_def)
  qed
qed

lemma copy_without_destination:
  assumes src: "source_open (tf_fd src) i v (view os1)" and name: "fv_names v p = Some i" and "valid os1"
    and open2: "ten_file_open px (Some q) (Some (ascii ''wb'')) os1 w1 = (None, os2, w2)"
  shows "\<exists>os3 w3. ten_file_close px (Some src) os2 w2 = Some (os3, w3) \<and> valid os3 \<and> live w3 = live w1 - 1 \<and>
    g_ten_last_error w3 = g_ten_last_error w2 \<and> fv_opened (view os3) = fv_opened v \<and>
    copied q i (fv_data v i) (g_ten_last_error w2) v (view os3)"
proof -
  let ?ds = "tf_fd src"
  have v1: "fv_data (view os1) = fv_data v" "fv_names (view os1) = fv_names v" "fv_opened v ?ds = None"
      "fv_opened (view os1) = (fv_opened v)(?ds \<mapsto> \<lparr>of_inode = i, of_offset = 0, of_appending = False\<rparr>)"
    using src by (simp_all add: source_open_def)
  have name1: "fv_names (view os1) p = Some i" using v1(2) name by simp
  note s2 = open_spec [OF assms(3) open2]
  then have bad: "g_ten_last_error w2 \<noteq> TEN_OK" and valid2: "valid os2" and live2: "live w2 = live w1" by auto
  have second_open: "view os2 = view os1 \<or> (\<exists>d j v. opens q True True False d j (view os1) v \<and>
      view os2 = v\<lparr>fv_opened := fv_opened (view os1)\<rparr>)"
    using s2 by (simp add: mode_opens_simps)
  obtain os3 w3 where closed: "ten_file_close px (Some src) os2 w2 = Some (os3, w3)" "valid os3"
      "view os3 = (view os2)\<lparr>fv_opened := (fv_opened (view os2))(?ds := None)\<rparr>" "live w3 = live w2 - 1"
      "g_ten_last_error w3 = g_ten_last_error w2"
    using close_spec [OF valid2] by blast
  have "copied q i (fv_data v i) (g_ten_last_error w2) v (view os3)"
  proof (cases "view os2 = view os1")
    case True
    then show ?thesis using bad closed(3) v1(1,2) by (simp add: copied_def)
  next
    case False
    then obtain d j u where j: "opens q True True False d j (view os1) u"
        "view os2 = u\<lparr>fv_opened := fv_opened (view os1)\<rparr>"
      using second_open by blast
    note e = opens_emptied [OF j(1) name1]
    have "fv_data (view os3) = (fv_data v)(j := if j = i then [] else take 0 (fv_data v i))" "fv_names (view os3) = fv_names u"
      using closed(3) j(2) e(3) v1(1) by simp_all
    then show ?thesis
      unfolding copied_def by (intro disjI2 exI [of _ j] exI [of _ 0]) (use bad e(1,2,4) v1(2) in auto)
  qed
  moreover have "fv_opened (view os2) = fv_opened (view os1)" using second_open by auto
  then have "fv_opened (view os3) = fv_opened v" using closed(3) v1(3,4) by (auto simp: fun_eq_iff)
  ultimately show ?thesis using closed live2 by auto
qed

lemma copy_with_destination:
  assumes src: "source_open (tf_fd src) i v (view os1)" and name: "fv_names v p = Some i" and "valid os1"
    and open2: "ten_file_open px (Some q) (Some (ascii ''wb'')) os1 w1 = (Some dst, os2, w2)"
  shows "\<exists>rc os3 w3 os4 w4 os5 w5. copy_loop px src dst os2 w2 = Some (rc, os3, w3) \<and>
    ten_file_close px (Some src) os3 w3 = Some (os4, w4) \<and> ten_file_close px (Some dst) os4 w4 = Some (os5, w5) \<and>
    valid os5 \<and> live w5 = live w1 - 1 \<and> fv_opened (view os5) = fv_opened v \<and> copied q i (fv_data v i) rc v (view os5)"
proof -
  let ?ds = "tf_fd src" and ?dd = "tf_fd dst"
  have v1: "fv_data (view os1) = fv_data v" "fv_names (view os1) = fv_names v" "fv_opened v ?ds = None"
      "fv_opened (view os1) = (fv_opened v)(?ds \<mapsto> \<lparr>of_inode = i, of_offset = 0, of_appending = False\<rparr>)"
    using src by (simp_all add: source_open_def)
  have name1: "fv_names (view os1) p = Some i" using v1(2) name by simp
  obtain j where j: "opens q True True False ?dd j (view os1) (view os2)"
      and valid2: "valid os2" and live2: "live w2 = live w1 + 1"
    using open_spec [OF assms(3) open2] by (auto simp: mode_opens_simps)
  note e = opens_emptied [OF j name1]
  have fds: "?ds \<noteq> ?dd" using e(6) v1(4) by auto
  have "\<exists>rc os3 w3 m. copy_loop px src dst os2 w2 = Some (rc, os3, w3) \<and> valid os3 \<and> live w3 = live w1 + 1 \<and>
      fv_names (view os3) = fv_names (view os2) \<and> (rc = TEN_OK \<longrightarrow> m = length (fv_data v i)) \<and>
      fv_data (view os3) = (fv_data v)(j := if j = i then [] else take m (fv_data v i)) \<and>
      (\<forall>d. d \<noteq> ?ds \<longrightarrow> d \<noteq> ?dd \<longrightarrow> fv_opened (view os3) d = fv_opened (view os2) d)"
  proof (cases "j = i")
    case True
    have "fv_opened (view os2) ?ds = Some \<lparr>of_inode = i, of_offset = 0, of_appending = False\<rparr>"
      using e(5) v1(4) fds by simp
    then show ?thesis
      using copy_emptied [OF valid2, of src _ dst w2] e(3) v1(1) True live2 by auto
  next
    case False
    have "copying ?ds ?dd i j 0 (view os2)"
      using e(3,5) v1(1,4) fds False by (auto simp: copying_def)
    from copy_loop_spec [OF valid2 this, of w2] show ?thesis
      using e(3) v1(1) False live2 by (auto simp: copied_part_def)
  qed
  then obtain rc os3 w3 m where loop: "copy_loop px src dst os2 w2 = Some (rc, os3, w3)" "valid os3" "live w3 = live w1 + 1"
      "fv_names (view os3) = fv_names (view os2)" "rc = TEN_OK \<longrightarrow> m = length (fv_data v i)"
      "fv_data (view os3) = (fv_data v)(j := if j = i then [] else take m (fv_data v i))"
      "\<forall>d. d \<noteq> ?ds \<longrightarrow> d \<noteq> ?dd \<longrightarrow> fv_opened (view os3) d = fv_opened (view os2) d"
    by blast
  obtain os4 w4 where c1: "ten_file_close px (Some src) os3 w3 = Some (os4, w4)" "valid os4"
      "view os4 = (view os3)\<lparr>fv_opened := (fv_opened (view os3))(?ds := None)\<rparr>" "live w4 = live w3 - 1"
    using close_spec [OF loop(2)] by blast
  obtain os5 w5 where c2: "ten_file_close px (Some dst) os4 w4 = Some (os5, w5)" "valid os5"
      "view os5 = (view os4)\<lparr>fv_opened := (fv_opened (view os4))(?dd := None)\<rparr>" "live w5 = live w4 - 1"
    using close_spec [OF c1(2)] by blast
  have "fv_opened (view os5) = fv_opened v"
  proof
    fix d
    show "fv_opened (view os5) d = fv_opened v d"
      using c1(3) c2(3) loop(7) e(5,6) v1(3,4) by (cases "d = ?ds"; cases "d = ?dd") auto
  qed
  moreover have "copied q i (fv_data v i) rc v (view os5)"
  proof -
    have "fv_data (view os5) = fv_data (view os3)" "fv_names (view os5) = fv_names (view os2)"
      using c1(3) c2(3) loop(4) by simp_all
    moreover have "fv_names (view os2) q = Some j" "j = i \<longleftrightarrow> fv_names v q = Some i"
        "\<forall>p n. fv_names v p = Some n \<longrightarrow> fv_names (view os2) p = Some n"
      using e(1,2,4) v1(2) by simp_all
    ultimately show ?thesis unfolding copied_def using loop(5,6) by auto
  qed
  ultimately show ?thesis using loop(1,3) c1(1,4) c2(1,2,4) by (intro exI conjI) auto
qed

lemma copy_spec:
  assumes "valid os" "fv_names (view os) p = Some i"
  shows "\<exists>rc os1 w1. ten_file_copy px (Some p) (Some q) os w = Some (rc, os1, w1) \<and> valid os1 \<and> g_ten_last_error w1 = rc \<and>
    live w1 = live w \<and> fv_opened (view os1) = fv_opened (view os) \<and> copied q i (fv_data (view os) i) rc (view os) (view os1)"
proof -
  obtain r os1 w1 where open1: "ten_file_open px (Some p) (Some (ascii ''rb'')) os w = (r, os1, w1)"
    by (metis prod_cases3)
  note s1 = open_spec [OF assms(1) open1]
  show ?thesis
  proof (cases r)
    case None
    then have "fv_data (view os1) = fv_data (view os)" "fv_names (view os1) = fv_names (view os)" "fv_opened (view os1) = fv_opened (view os)"
      using s1 assms(2) by (auto simp: opens_def mode_opens_simps fun_eq_iff)
    then show ?thesis using s1 open1 None by (auto simp: ten_file_copy_def copied_def ten_last_error_def)
  next
    case (Some src)
    obtain i' where "opens p False False False (tf_fd src) i' (view os) (view os1)" using s1 Some by (auto simp: mode_opens_simps)
    then have src: "source_open (tf_fd src) i (view os) (view os1)"
      using assms(2) by (auto simp: opens_def source_open_def)
    have valid1: "valid os1" and live1: "live w1 = live w + 1" using s1 Some by auto
    obtain r2 os2 w2 where open2: "ten_file_open px (Some q) (Some (ascii ''wb'')) os1 w1 = (r2, os2, w2)"
      by (metis prod_cases3)
    show ?thesis
    proof (cases r2)
      case None
      then show ?thesis
        using copy_without_destination [OF src assms(2) valid1, of q w1 os2 w2] open1 open2 Some live1
        by (auto simp: ten_file_copy_def ten_last_error_def)
    next
      case dst: (Some dst)
      then show ?thesis
        using copy_with_destination [OF src assms(2) valid1, of q w1 dst os2 w2] open1 open2 Some live1
        by (auto simp: ten_file_copy_def)
    qed
  qed
qed

end

end
