(* ===== verification/Ten_File_Life.thy ===== *)
theory Ten_File_Life
  imports Ten_File
begin

text \<open>
  The POSIX version of the file module implements the specification of an open file, on every
  operating system that keeps the contract of \<open>Ten_Posix\<close>.
\<close>

fun file_step ::
    "'os posix \<Rightarrow> ten_file \<Rightarrow> ('os \<times> ten_world) file_stepper" where
  "file_step px f (File_Read n) (os, w) =
     (case ten_file_read px (Some f) True n os w of
        (m, bs, os1, w1) \<Rightarrow> Some ((Bytes_Read m bs, ten_last_error w1), os1, w1))"
| "file_step px f (File_Write bs) (os, w) =
     (case ten_file_write px (Some f) (Some bs) (of_nat (length bs)) os w of
        None \<Rightarrow> None
      | Some (m, os1, w1) \<Rightarrow> Some ((Bytes_Written m, ten_last_error w1), os1, w1))"
| "file_step px f (File_Seek offset origin) (os, w) =
     (case ten_file_seek px (Some f) offset origin os w of
        (rc, os1, w1) \<Rightarrow> Some ((Seek_Code rc, ten_last_error w1), os1, w1))"
| "file_step px f File_Size (os, w) =
     (case ten_file_size px (Some f) os w of (n, w1) \<Rightarrow> Some ((Size_Is n, ten_last_error w1), os, w1))"

context posix_files
begin

definition step_ok :: "ten_file \<Rightarrow> nat \<Rightarrow> bool \<Rightarrow> file_command \<Rightarrow> 'os \<Rightarrow> ten_world \<Rightarrow> file_state \<Rightarrow> bool" where
  "step_ok f i appending c os w s \<longleftrightarrow>
     (\<exists>r os1 w1 s1. file_step px f c (os, w) = Some (r, os1, w1) \<and> valid os1 \<and> file_allows appending c r s s1 \<and>
        stands_for (tf_fd f) i appending (view os1) s1 \<and> else_same (tf_fd f) i (view os) (view os1) \<and> live w1 = live w)"

lemma read_ok:
  assumes "valid os" "stands_for (tf_fd f) i appending (view os) s"
  shows "step_ok f i appending (File_Read n) os w s"
proof (cases "n = 0")
  case True
  then show ?thesis
    using assms by (cases s) (simp add: step_ok_def ten_file_read_def)
next
  case False
  obtain bs p where s: "s = (bs, p)" by (cases s)
  obtain g where g: "fv_opened (view os) (tf_fd f) = Some g" using assms(2) by (auto simp: stands_for_def)
  obtain got os1 where call: "px_read px (tf_fd f) (unat n) os = (got, os1)" by (cases "px_read px (tf_fd f) (unat n) os")
  note law = read_law [OF assms(1) g call]
  show ?thesis
  proof (cases got)
    case None
    then show ?thesis using assms s call law False by (auto simp: step_ok_def ten_file_read_def)
  next
    case (Some bs')
    then have r: "reads g (tf_fd f) bs' (unat n) (view os) (view os1)" using law by simp
    note a = reads_allowed [OF assms(2) [unfolded s] g r]
    have "unat (of_nat (length bs') :: size_t) = length bs'"
      using a(3) unat_size_less [of n] by (intro unat_of_nat_size) simp
    then have "file_allows appending (File_Read n) (Bytes_Read (of_nat (length bs')) bs', TEN_OK) s (bs, p + length bs')"
      using a(3,4,5) s False by (auto simp: unat_eq_zero)
    then show ?thesis using Some call law a(1,2) s False by (auto simp: step_ok_def ten_file_read_def)
  qed
qed

lemma write_ok:
  assumes "valid os" "stands_for (tf_fd f) i appending (view os) s" "length new < 2 ^ 63"
  shows "step_ok f i appending (File_Write new) os w s"
proof (cases "new = []")
  case True
  then show ?thesis
    using assms by (cases s) (simp add: step_ok_def ten_file_write_def)
next
  case False
  obtain bs p where s: "s = (bs, p)" by (cases s)
  have small: "unat (of_nat (length new) :: size_t) = length new" using assms(3) by (intro unat_of_nat_size) simp
  then have n: "(of_nat (length new) :: size_t) \<noteq> 0" using False by (metis length_0_conv unat_0)
  obtain g where g: "fv_opened (view os) (tf_fd f) = Some g" using assms(2) by (auto simp: stands_for_def)
  obtain put os1 where call: "px_write px (tf_fd f) new os = (put, os1)" by (cases "px_write px (tf_fd f) new os")
  note law = write_law [OF assms(1) g call]
  have wrote: "ten_file_write px (Some f) (Some new) (of_nat (length new)) os w =
      Some (case put of None \<Rightarrow> (0, os1, ten__set_error TEN_ERROR_IO w) | Some m \<Rightarrow> (of_nat m, os1, ten__set_error TEN_OK w))"
    using n small call by (simp add: ten_file_write_def split: option.split)
  show ?thesis
  proof (cases put)
    case None
    then show ?thesis using assms s wrote law by (auto simp: step_ok_def)
  next
    case (Some m)
    then have r: "writes g (tf_fd f) new m (view os) (view os1)" using law by simp
    note a = writes_allowed [OF assms(2) [unfolded s] g r]
    have m: "unat (of_nat m :: size_t) = m" using a(3) assms(3) by (intro unat_of_nat_size) simp
    define q where "q = (if appending then length bs else p)"
    have "file_allows appending (File_Write new) (Bytes_Written (of_nat m), TEN_OK) s (write_at q (take m new) bs, q + m)"
      using m a(3) s False by (simp add: q_def Let_def)
    moreover have "stands_for (tf_fd f) i appending (view os1) (write_at q (take m new) bs, q + m)"
      using a(1) unfolding q_def Let_def .
    ultimately show ?thesis using Some wrote law a(2) unfolding step_ok_def by (simp, blast)
  qed
qed

lemma seek_ok:
  assumes "valid os" "stands_for (tf_fd f) i appending (view os) s"
  shows "step_ok f i appending (File_Seek offset origin) os w s"
proof (cases "seek_whence origin")
  case None
  then have "seek_target offset origin s = None" by (auto simp: seek_whence_def seek_target_def split: if_splits)
  then show ?thesis using assms None by (cases s) (auto simp: step_ok_def ten_file_seek_def)
next
  case (Some wh)
  obtain bs p where s: "s = (bs, p)" by (cases s)
  obtain g where g: "fv_opened (view os) (tf_fd f) = Some g" "of_inode g = i" "of_offset g = p" "fv_data (view os) i = bs"
      "of_appending g = appending"
    using assms(2) s by (auto simp: stands_for_def)
  obtain r os1 where call: "px_lseek px (tf_fd f) offset wh os = (r, os1)" by (cases "px_lseek px (tf_fd f) offset wh os")
  note law = lseek_law [OF assms(1) g(1) call]
  have target: "seek_target offset origin s = Some (seek_base wh g bs + offset)"
    using Some s g(3) by (auto simp: seek_whence_def seek_target_def split: if_splits)
  show ?thesis
  proof (cases "r = -1")
    case True
    then have "view os1 = view os" using law by auto
    then show ?thesis using True assms(2) Some call law target s by (auto simp: step_ok_def ten_file_seek_def)
  next
    case False
    then have r: "r = seek_base wh g bs + offset" "0 \<le> r"
        "view os1 = (view os)\<lparr>fv_opened := (fv_opened (view os))(tf_fd f \<mapsto> g\<lparr>of_offset := nat r\<rparr>)\<rparr>"
      using law g(2,4) by auto
    have "stands_for (tf_fd f) i appending (view os1) (bs, nat r)" "else_same (tf_fd f) i (view os) (view os1)"
      using r(3) g by (auto simp: stands_for_def else_same_def)
    moreover have "file_allows appending (File_Seek offset origin) (Seek_Code TEN_OK, TEN_OK) s (bs, nat r)"
      using target r(1,2) s by simp
    ultimately show ?thesis using False Some call law by (auto simp: step_ok_def ten_file_seek_def)
  qed
qed

lemma size_ok:
  assumes "valid os" "stands_for (tf_fd f) i appending (view os) s"
  shows "step_ok f i appending File_Size os w s"
proof -
  obtain g where g: "fv_opened (view os) (tf_fd f) = Some g" "fv_data (view os) (of_inode g) = fst s"
    using assms(2) by (auto simp: stands_for_def)
  show ?thesis
    using assms fstat_law [OF assms(1) g(1)] g(2)
    by (cases s; cases "px_fstat px (tf_fd f) os") (auto simp: step_ok_def ten_file_size_def)
qed

lemma file_step_ok:
  "valid os \<Longrightarrow> stands_for (tf_fd f) i appending (view os) s \<Longrightarrow> writes_small c \<Longrightarrow> step_ok f i appending c os w s"
  by (cases c) (simp_all add: read_ok write_ok seek_ok size_ok writes_small_def)

end

text \<open>The implementation: nothing but the file has changed since the state \<open>v\<close>, nor has the number of blocks.\<close>

definition file_shown ::
    "('os \<Rightarrow> file_view) \<Rightarrow> ('os \<Rightarrow> bool) \<Rightarrow> nat \<Rightarrow> nat \<Rightarrow> bool \<Rightarrow> file_view \<Rightarrow> int \<Rightarrow> 'os \<times> ten_world \<Rightarrow> file_state \<Rightarrow> bool" where
  "file_shown view valid d i appending v n st s \<longleftrightarrow>
     valid (fst st) \<and> stands_for d i appending (view (fst st)) s \<and> else_same d i v (view (fst st)) \<and> live (snd st) = n"

sublocale posix_files \<subseteq> open_file:
  file_backend "file_step px f" appending "file_shown view valid (tf_fd f) i appending v n" writes_small for f i appending v n
proof
  fix st s c
  assume st: "file_shown view valid (tf_fd f) i appending v n st s" and c: "writes_small c"
  obtain os w where st_eq: "st = (os, w)" by (cases st)
  then have "step_ok f i appending c os w s" using st c by (intro file_step_ok) (simp_all add: file_shown_def)
  then show "\<exists>r st1 s1. file_step px f c st = Some (r, st1) \<and> file_allows appending c r s s1 \<and>
      file_shown view valid (tf_fd f) i appending v n st1 s1"
    using st else_same_trans unfolding step_ok_def st_eq file_shown_def by fastforce
qed

context posix_files
begin

text \<open>The whole life of a file: opened, driven by commands, closed.\<close>

lemma file_life_law:
  assumes "valid os" "ten_file_open px (Some p) (Some md) os w = (Some f, os1, w1)" "\<forall>c \<in> set cs. writes_small c"
  shows "\<exists>i rs os2 w2 os3 w3 s.
    file_run (file_step px f) cs (os1, w1) = Some (rs, os2, w2) \<and> ten_file_close px (Some f) os2 w2 = Some (os3, w3) \<and>
    file_allows_run (fm_append (ten__parse_file_mode md)) cs rs
      (if fv_names (view os) p = None \<or> fm_truncate (ten__parse_file_mode md) then [] else fv_data (view os) i, 0) s \<and>
    fv_names (view os3) p = Some i \<and> fv_data (view os3) = (fv_data (view os))(i := fst s) \<and>
    fv_opened (view os3) = fv_opened (view os) \<and> live w3 = live w"
proof -
  let ?m = "ten__parse_file_mode md" and ?d = "tf_fd f"
  obtain i where i: "mode_opens md p ?d i (view os) (view os1)" and valid1: "valid os1" and live1: "live w1 = live w + 1"
    using open_spec [OF assms(1,2)] by auto
  define bs where "bs = (if fv_names (view os) p = None \<or> fm_truncate ?m then [] else fv_data (view os) i)"
  have o: "fv_opened (view os) ?d = None" "fv_names (view os1) p = Some i" "fv_data (view os1) = (fv_data (view os))(i := bs)"
      "fv_opened (view os1) = (fv_opened (view os))(?d \<mapsto> \<lparr>of_inode = i, of_offset = 0, of_appending = fm_append ?m\<rparr>)"
    using i by (auto simp: mode_opens_def opens_def bs_def Let_def)
  then have "file_shown view valid ?d i (fm_append ?m) (view os1) (live w1) (os1, w1) (bs, 0)"
    using valid1 by (simp add: file_shown_def stands_for_def)
  from open_file.run_law [OF this assms(3)]
  obtain rs os2 w2 s where r: "file_run (file_step px f) cs (os1, w1) = Some (rs, os2, w2)"
      "file_allows_run (fm_append ?m) cs rs (bs, 0) s"
      "file_shown view valid ?d i (fm_append ?m) (view os1) (live w1) (os2, w2) s"
    by auto
  then have shown: "valid os2" "stands_for ?d i (fm_append ?m) (view os2) s" "else_same ?d i (view os1) (view os2)" "live w2 = live w1"
    by (simp_all add: file_shown_def)
  obtain os3 w3 where c: "ten_file_close px (Some f) os2 w2 = Some (os3, w3)"
      "view os3 = (view os2)\<lparr>fv_opened := (fv_opened (view os2))(?d := None)\<rparr>" "live w3 = live w2 - 1"
    using close_spec [OF shown(1)] by blast
  have "fv_data (view os3) = (fv_data (view os))(i := fst s)"
    using c(2) shown(2,3) o(3) by (auto simp: stands_for_def else_same_def fun_eq_iff)
  moreover have "fv_opened (view os3) = fv_opened (view os)"
    using c(2) shown(3) o(1,4) by (auto simp: else_same_def fun_eq_iff)
  moreover have "fv_names (view os3) p = Some i" using c(2) shown(3) o(2) by (simp add: else_same_def)
  moreover have "live w3 = live w" using shown(4) c(3) live1 by simp
  ultimately show ?thesis using r(1,2) c(1) unfolding bs_def by blast
qed

end

end
