(* ===== verification/Ten_Win32.thy ===== *)
theory Ten_Win32
  imports Ten_File_Spec
begin

text \<open>
  The calls of Windows that the file module makes (\<open>CreateFileA\<close>, \<open>CloseHandle\<close>, \<open>ReadFile\<close>, \<open>WriteFile\<close>,
  \<open>SetFilePointerEx\<close>, \<open>GetFileSizeEx\<close>, \<open>GetFileAttributesA\<close>, \<open>DeleteFileA\<close>, \<open>CopyFileA\<close>, \<open>MoveFileExA\<close>):
  a record of functions on the state of an operating system, and as a locale what is documented of
  them. A call that fails changes nothing. The last section is a volume that keeps the contract.
\<close>

section \<open>The calls\<close>

datatype file_access = GENERIC_READ | GENERIC_WRITE

datatype disposition = CREATE_ALWAYS | OPEN_ALWAYS | OPEN_EXISTING

text \<open>An answer of \<open>Inl\<close>, \<open>None\<close> or \<open>False\<close> is a failure, \<open>Inl\<close> with the code of \<open>GetLastError\<close>.\<close>

record 'os win32 =
  wn_create :: "cstring \<Rightarrow> file_access list \<Rightarrow> disposition \<Rightarrow> 'os \<Rightarrow> (u32 + nat) \<times> 'os"
  wn_close :: "nat \<Rightarrow> 'os \<Rightarrow> 'os"
  wn_read :: "nat \<Rightarrow> u32 \<Rightarrow> 'os \<Rightarrow> byte list option \<times> 'os"
  wn_write :: "nat \<Rightarrow> byte list \<Rightarrow> 'os \<Rightarrow> u32 option \<times> 'os"
  wn_seek :: "nat \<Rightarrow> int \<Rightarrow> whence \<Rightarrow> 'os \<Rightarrow> bool \<times> 'os"
  wn_size :: "nat \<Rightarrow> 'os \<Rightarrow> int option"
  wn_attributes :: "cstring \<Rightarrow> 'os \<Rightarrow> bool"
  wn_delete :: "cstring \<Rightarrow> 'os \<Rightarrow> u32 option \<times> 'os"
  wn_copy :: "cstring \<Rightarrow> cstring \<Rightarrow> 'os \<Rightarrow> bool \<times> 'os"
  wn_move :: "cstring \<Rightarrow> cstring \<Rightarrow> 'os \<Rightarrow> bool \<times> 'os"

definition ERROR_FILE_NOT_FOUND :: u32 where "ERROR_FILE_NOT_FOUND = 2"

section \<open>What they do\<close>

locale win32_files =
  fixes wn :: "'os win32"
    and view :: "'os \<Rightarrow> file_view"
    and valid :: "'os \<Rightarrow> bool"
  assumes create_law: "valid os \<Longrightarrow> wn_create wn p access disp os = (fd, os') \<Longrightarrow> valid os' \<and>
      (case fd of Inl e \<Rightarrow> view os' = view os
       | Inr d \<Rightarrow> \<exists>i. opens p (disp \<noteq> OPEN_EXISTING) (disp = CREATE_ALWAYS) False d i (view os) (view os'))"
    and close_law: "valid os \<Longrightarrow> valid (wn_close wn d os) \<and>
      view (wn_close wn d os) = (view os)\<lparr>fv_opened := (fv_opened (view os))(d := None)\<rparr>"
    and read_law: "valid os \<Longrightarrow> fv_opened (view os) d = Some f \<Longrightarrow> wn_read wn d n os = (got, os') \<Longrightarrow> valid os' \<and>
      (case got of None \<Rightarrow> view os' = view os | Some bs \<Rightarrow> reads f d bs (unat n) (view os) (view os'))"
    and write_law: "valid os \<Longrightarrow> fv_opened (view os) d = Some f \<Longrightarrow> length bs < 2 ^ 32 \<Longrightarrow> wn_write wn d bs os = (put, os') \<Longrightarrow>
      valid os' \<and> (case put of None \<Rightarrow> view os' = view os | Some k \<Rightarrow> writes f d bs (unat k) (view os) (view os'))"
    and seek_law: "valid os \<Longrightarrow> fv_opened (view os) d = Some f \<Longrightarrow> wn_seek wn d off wh os = (moved, os') \<Longrightarrow> valid os' \<and>
      (if moved
       then 0 \<le> seek_base wh f (fv_data (view os) (of_inode f)) + off \<and>
         view os' = (view os)\<lparr>fv_opened := (fv_opened (view os))(d \<mapsto>
           f\<lparr>of_offset := nat (seek_base wh f (fv_data (view os) (of_inode f)) + off)\<rparr>)\<rparr>
       else view os' = view os)"
    and size_law: "valid os \<Longrightarrow> fv_opened (view os) d = Some f \<Longrightarrow> wn_size wn d os = Some sz \<Longrightarrow>
      sz = int (length (fv_data (view os) (of_inode f)))"
    and attributes_law: "valid os \<Longrightarrow> wn_attributes wn p os \<Longrightarrow> fv_names (view os) p \<noteq> None"
    and delete_law: "valid os \<Longrightarrow> wn_delete wn p os = (err, os') \<Longrightarrow> valid os' \<and>
      fv_data (view os') = fv_data (view os) \<and> fv_opened (view os') = fv_opened (view os) \<and>
      (case err of Some e \<Rightarrow> fv_names (view os') = fv_names (view os)
       | None \<Rightarrow> fv_names (view os) p \<noteq> None \<and> fv_names (view os') p = None)"
    and copy_law: "valid os \<Longrightarrow> wn_copy wn p q os = (copied, os') \<Longrightarrow> valid os' \<and>
      (if copied
       then \<exists>i j. fv_names (view os) p = Some i \<and> fv_names (view os') q = Some j \<and>
         fv_data (view os') = (fv_data (view os))(j := fv_data (view os) i) \<and> fv_opened (view os') = fv_opened (view os)
       else view os' = view os)"
    and move_law: "valid os \<Longrightarrow> wn_move wn p q os = (moved, os') \<Longrightarrow> valid os' \<and>
      fv_data (view os') = fv_data (view os) \<and> fv_opened (view os') = fv_opened (view os) \<and>
      (if moved then fv_names (view os) p \<noteq> None \<and> fv_names (view os') q = fv_names (view os) p
       else fv_names (view os') = fv_names (view os))"

section \<open>A volume\<close>

record volume =
  vl_view :: file_view
  vl_next_file :: nat
  vl_next_handle :: nat

definition volume_ok :: "volume \<Rightarrow> bool" where
  "volume_ok k \<longleftrightarrow>
     (\<forall>p i. fv_names (vl_view k) p = Some i \<longrightarrow> i < vl_next_file k) \<and>
     (\<forall>d f. fv_opened (vl_view k) d = Some f \<longrightarrow> d < vl_next_handle k \<and> of_inode f < vl_next_file k)"

definition volume_create :: "cstring \<Rightarrow> file_access list \<Rightarrow> disposition \<Rightarrow> volume \<Rightarrow> (u32 + nat) \<times> volume" where
  "volume_create p access disp k =
     (let v = vl_view k; d = vl_next_handle k in
      case fv_names v p of
        None \<Rightarrow>
          if disp = OPEN_EXISTING then (Inl ERROR_FILE_NOT_FOUND, k)
          else let i = vl_next_file k
               in (Inr d, k\<lparr>vl_view := v\<lparr>fv_names := (fv_names v)(p \<mapsto> i), fv_data := (fv_data v)(i := []),
                      fv_opened := (fv_opened v)(d \<mapsto> \<lparr>of_inode = i, of_offset = 0, of_appending = False\<rparr>)\<rparr>,
                    vl_next_file := Suc i, vl_next_handle := Suc d\<rparr>)
      | Some i \<Rightarrow>
          (Inr d, k\<lparr>vl_view := v\<lparr>fv_data := (fv_data v)(i := if disp = CREATE_ALWAYS then [] else fv_data v i),
                 fv_opened := (fv_opened v)(d \<mapsto> \<lparr>of_inode = i, of_offset = 0, of_appending = False\<rparr>)\<rparr>,
               vl_next_handle := Suc d\<rparr>))"

definition volume_read :: "nat \<Rightarrow> u32 \<Rightarrow> volume \<Rightarrow> byte list option \<times> volume" where
  "volume_read d n k =
     (let v = vl_view k in
      case fv_opened v d of
        None \<Rightarrow> (None, k)
      | Some f \<Rightarrow>
          let bs = take (unat n) (drop (of_offset f) (fv_data v (of_inode f)))
          in (Some bs, k\<lparr>vl_view := v\<lparr>fv_opened := (fv_opened v)(d \<mapsto> f\<lparr>of_offset := of_offset f + length bs\<rparr>)\<rparr>\<rparr>))"

definition volume_write :: "nat \<Rightarrow> byte list \<Rightarrow> volume \<Rightarrow> u32 option \<times> volume" where
  "volume_write d bs k =
     (let v = vl_view k in
      case fv_opened v d of
        None \<Rightarrow> (None, k)
      | Some f \<Rightarrow>
          let i = of_inode f; p = write_offset f (fv_data v i)
          in (Some (of_nat (length bs)), k\<lparr>vl_view := v\<lparr>fv_data := (fv_data v)(i := write_at p bs (fv_data v i)),
                fv_opened := (fv_opened v)(d \<mapsto> f\<lparr>of_offset := p + length bs\<rparr>)\<rparr>\<rparr>))"

definition volume_seek :: "nat \<Rightarrow> int \<Rightarrow> whence \<Rightarrow> volume \<Rightarrow> bool \<times> volume" where
  "volume_seek d off wh k =
     (let v = vl_view k in
      case fv_opened v d of
        None \<Rightarrow> (False, k)
      | Some f \<Rightarrow>
          let r = seek_base wh f (fv_data v (of_inode f)) + off
          in if r < 0 then (False, k)
             else (True, k\<lparr>vl_view := v\<lparr>fv_opened := (fv_opened v)(d \<mapsto> f\<lparr>of_offset := nat r\<rparr>)\<rparr>\<rparr>))"

definition volume_delete :: "cstring \<Rightarrow> volume \<Rightarrow> u32 option \<times> volume" where
  "volume_delete p k =
     (let v = vl_view k in
      if fv_names v p = None then (Some ERROR_FILE_NOT_FOUND, k)
      else (None, k\<lparr>vl_view := v\<lparr>fv_names := (fv_names v)(p := None)\<rparr>\<rparr>))"

definition volume_copy :: "cstring \<Rightarrow> cstring \<Rightarrow> volume \<Rightarrow> bool \<times> volume" where
  "volume_copy p q k =
     (let v = vl_view k in
      case (fv_names v p, fv_names v q) of
        (Some i, Some j) \<Rightarrow>
          if i = j then (False, k) else (True, k\<lparr>vl_view := v\<lparr>fv_data := (fv_data v)(j := fv_data v i)\<rparr>\<rparr>)
      | (Some i, None) \<Rightarrow>
          let j = vl_next_file k
          in (True, k\<lparr>vl_view := v\<lparr>fv_names := (fv_names v)(q \<mapsto> j), fv_data := (fv_data v)(j := fv_data v i)\<rparr>, vl_next_file := Suc j\<rparr>)
      | _ \<Rightarrow> (False, k))"

definition volume_move :: "cstring \<Rightarrow> cstring \<Rightarrow> volume \<Rightarrow> bool \<times> volume" where
  "volume_move p q k =
     (let v = vl_view k in
      if fv_names v p = None then (False, k)
      else (True, k\<lparr>vl_view := v\<lparr>fv_names := (fv_names v)(p := None, q := fv_names v p)\<rparr>\<rparr>))"

definition volume_system :: "volume win32" where
  "volume_system =
     \<lparr>wn_create = volume_create,
      wn_close = (\<lambda>d k. k\<lparr>vl_view := (vl_view k)\<lparr>fv_opened := (fv_opened (vl_view k))(d := None)\<rparr>\<rparr>),
      wn_read = volume_read, wn_write = volume_write, wn_seek = volume_seek,
      wn_size = (\<lambda>d k. map_option (\<lambda>f. int (length (fv_data (vl_view k) (of_inode f)))) (fv_opened (vl_view k) d)),
      wn_attributes = (\<lambda>p k. fv_names (vl_view k) p \<noteq> None),
      wn_delete = volume_delete, wn_copy = volume_copy, wn_move = volume_move\<rparr>"

lemma volume_unused: "volume_ok k \<Longrightarrow> unused (vl_view k) (vl_next_file k)"
  unfolding volume_ok_def unused_def ran_def by (force simp: less_irrefl)

lemma volume_fresh: "volume_ok k \<Longrightarrow> fv_opened (vl_view k) (vl_next_handle k) = None"
  by (cases "fv_opened (vl_view k) (vl_next_handle k)") (auto simp: volume_ok_def)

lemma volume_moved:
  assumes "volume_ok k" "fv_opened (vl_view k) d = Some f" "of_inode g = of_inode f"
  shows "volume_ok (k\<lparr>vl_view := (vl_view k)\<lparr>fv_opened := (fv_opened (vl_view k))(d \<mapsto> g)\<rparr>\<rparr>)"
    "volume_ok (k\<lparr>vl_view := (vl_view k)\<lparr>fv_data := dt, fv_opened := (fv_opened (vl_view k))(d \<mapsto> g)\<rparr>\<rparr>)"
  using assms by (auto simp: volume_ok_def split: if_splits)

lemma read_whole:
  "reads f d (take n (drop (of_offset f) (fv_data v (of_inode f)))) n v
     (v\<lparr>fv_opened := (fv_opened v)(d \<mapsto> f\<lparr>of_offset := of_offset f + length (take n (drop (of_offset f) (fv_data v (of_inode f))))\<rparr>)\<rparr>)"
  by (auto simp: reads_def min_def)

lemma volume_files: "win32_files volume_system vl_view volume_ok"
proof
  fix k k' :: volume and p access disp r
  assume k: "volume_ok k" and s: "wn_create volume_system p access disp k = (r, k')"
  show "volume_ok k' \<and> (case r of Inl e \<Rightarrow> vl_view k' = vl_view k
      | Inr d \<Rightarrow> \<exists>i. opens p (disp \<noteq> OPEN_EXISTING) (disp = CREATE_ALWAYS) False d i (vl_view k) (vl_view k'))"
    using s k volume_unused [OF k] volume_fresh [OF k]
    by (auto simp: volume_system_def volume_create_def Let_def opens_def volume_ok_def less_Suc_eq split: option.splits if_splits)
next
  fix k :: volume and d
  assume "volume_ok k"
  then show "volume_ok (wn_close volume_system d k) \<and>
      vl_view (wn_close volume_system d k) = (vl_view k)\<lparr>fv_opened := (fv_opened (vl_view k))(d := None)\<rparr>"
    by (auto simp: volume_system_def volume_ok_def)
next
  fix k k' :: volume and d f n r
  assume "volume_ok k" "fv_opened (vl_view k) d = Some f" "wn_read volume_system d n k = (r, k')"
  then show "volume_ok k' \<and> (case r of None \<Rightarrow> vl_view k' = vl_view k | Some bs \<Rightarrow> reads f d bs (unat n) (vl_view k) (vl_view k'))"
    using read_whole by (auto simp: volume_system_def volume_read_def Let_def volume_moved simp del: length_take)
next
  fix k k' :: volume and d f r and bs :: "byte list"
  assume a: "volume_ok k" "fv_opened (vl_view k) d = Some f" "length bs < 2 ^ 32" "wn_write volume_system d bs k = (r, k')"
  have "unat (of_nat (length bs) :: u32) = length bs"
    using a(3) by (simp add: unat_of_nat take_bit_nat_eq_self)
  with a show "volume_ok k' \<and> (case r of None \<Rightarrow> vl_view k' = vl_view k | Some c \<Rightarrow> writes f d bs (unat c) (vl_view k) (vl_view k'))"
    by (auto simp: volume_system_def volume_write_def Let_def writes_def volume_moved)
next
  fix k k' :: volume and d f off wh r
  assume "volume_ok k" "fv_opened (vl_view k) d = Some f" "wn_seek volume_system d off wh k = (r, k')"
  then show "volume_ok k' \<and>
      (if r
       then 0 \<le> seek_base wh f (fv_data (vl_view k) (of_inode f)) + off \<and>
         vl_view k' = (vl_view k)\<lparr>fv_opened := (fv_opened (vl_view k))(d \<mapsto>
           f\<lparr>of_offset := nat (seek_base wh f (fv_data (vl_view k) (of_inode f)) + off)\<rparr>)\<rparr>
       else vl_view k' = vl_view k)"
    by (auto simp: volume_system_def volume_seek_def Let_def volume_moved split: if_splits)
next
  fix k k' :: volume and p r
  assume "volume_ok k" "wn_delete volume_system p k = (r, k')"
  then show "volume_ok k' \<and> fv_data (vl_view k') = fv_data (vl_view k) \<and> fv_opened (vl_view k') = fv_opened (vl_view k) \<and>
      (case r of Some e \<Rightarrow> fv_names (vl_view k') = fv_names (vl_view k)
       | None \<Rightarrow> fv_names (vl_view k) p \<noteq> None \<and> fv_names (vl_view k') p = None)"
    by (auto simp: volume_system_def volume_delete_def Let_def volume_ok_def split: if_splits)
next
  fix k k' :: volume and p q r
  assume "volume_ok k" "wn_copy volume_system p q k = (r, k')"
  then show "volume_ok k' \<and>
      (if r
       then \<exists>i j. fv_names (vl_view k) p = Some i \<and> fv_names (vl_view k') q = Some j \<and>
         fv_data (vl_view k') = (fv_data (vl_view k))(j := fv_data (vl_view k) i) \<and> fv_opened (vl_view k') = fv_opened (vl_view k)
       else vl_view k' = vl_view k)"
    by (auto simp: volume_system_def volume_copy_def Let_def volume_ok_def less_Suc_eq split: if_splits option.splits)
next
  fix k k' :: volume and p q r
  assume "volume_ok k" "wn_move volume_system p q k = (r, k')"
  then show "volume_ok k' \<and> fv_data (vl_view k') = fv_data (vl_view k) \<and> fv_opened (vl_view k') = fv_opened (vl_view k) \<and>
      (if r then fv_names (vl_view k) p \<noteq> None \<and> fv_names (vl_view k') q = fv_names (vl_view k) p
       else fv_names (vl_view k') = fv_names (vl_view k))"
    by (auto simp: volume_system_def volume_move_def Let_def volume_ok_def split: if_splits)
qed (auto simp: volume_system_def)

interpretation volume_files: win32_files volume_system vl_view volume_ok
  by (rule volume_files)

end
