(* ===== verification/Ten_File_Windows.thy ===== *)
theory Ten_File_Windows
  imports Ten_Win32 Ten_Memory
begin

text \<open>
  The Windows version of the file module (\<open>src/platform/windows/file_windows.c\<close>) over the calls of
  \<open>Ten_Win32\<close>. It implements the same specification of an open file as the POSIX version, except
  that appending is a matter of the first position only; and only as long as no read or write is of
  \<open>2 ^ 32\<close> bytes or more, because sizes are cut to 32 bits.
\<close>

section \<open>Operations\<close>

record windows_file =
  wf_handle :: nat

definition sizeof_windows_file :: size_t where
  "sizeof_windows_file = 8"

definition file_access_of :: "ten__file_mode_t \<Rightarrow> file_access list" where
  "file_access_of m =
     (let access = (if fm_read m then [GENERIC_READ] else [])
      in if fm_write m then GENERIC_WRITE # access else access)"

definition file_disposition :: "ten__file_mode_t \<Rightarrow> disposition" where
  "file_disposition m =
     (if fm_create m \<and> fm_truncate m then CREATE_ALWAYS else if fm_create m then OPEN_ALWAYS else OPEN_EXISTING)"

definition windows_file_open ::
    "'os win32 \<Rightarrow> cstring option \<Rightarrow> cstring option \<Rightarrow> 'os \<Rightarrow> ten_world \<Rightarrow> windows_file option \<times> 'os \<times> ten_world" where
  "windows_file_open wn path mode os w =
     (case (path, mode) of
        (Some p, Some md) \<Rightarrow>
          let m = ten__parse_file_mode md
          in if \<not> fm_read m \<and> \<not> fm_write m then (None, os, ten__set_error TEN_ERROR_INVALID_ARGUMENT w)
             else
               (case wn_create wn p (file_access_of m) (file_disposition m) os of
                  (Inl e, os1) \<Rightarrow>
                    (None, os1, ten__set_error (if e = ERROR_FILE_NOT_FOUND then TEN_ERROR_NOT_FOUND else TEN_ERROR_IO) w)
                | (Inr h, os1) \<Rightarrow>
                    let os2 = (if fm_append m then snd (wn_seek wn h 0 SEEK_END os1) else os1);
                        (file, w1) = ten_malloc sizeof_windows_file w
                    in if is_Null file then (None, wn_close wn h os2, w1)
                       else (Some \<lparr>wf_handle = h\<rparr>, os2, ten__set_error TEN_OK w1))
      | _ \<Rightarrow> (None, os, ten__set_error TEN_ERROR_NULL_ARGUMENT w))"

definition windows_file_close ::
    "'os win32 \<Rightarrow> windows_file option \<Rightarrow> 'os \<Rightarrow> ten_world \<Rightarrow> ('os \<times> ten_world) option" where
  "windows_file_close wn file os w =
     (case file of
        None \<Rightarrow> Some (os, w)
      | Some f \<Rightarrow> do { let os1 = wn_close wn (wf_handle f) os; w1 \<leftarrow> free_struct w; Some (os1, w1) })"

definition windows_file_read ::
    "'os win32 \<Rightarrow> windows_file option \<Rightarrow> bool \<Rightarrow> size_t \<Rightarrow> 'os \<Rightarrow> ten_world \<Rightarrow> size_t \<times> byte list \<times> 'os \<times> ten_world" where
  "windows_file_read wn file buffer size1 os w =
     (case file of
        None \<Rightarrow> (0, [], os, ten__set_error TEN_ERROR_NULL_ARGUMENT w)
      | Some f \<Rightarrow>
          if \<not> buffer \<and> size1 > 0 then (0, [], os, ten__set_error TEN_ERROR_NULL_ARGUMENT w)
          else if size1 = 0 then (0, [], os, ten__set_error TEN_OK w)
          else
            (case wn_read wn (wf_handle f) (ucast size1) os of
               (None, os1) \<Rightarrow> (0, [], os1, ten__set_error TEN_ERROR_IO w)
             | (Some bs, os1) \<Rightarrow> (of_nat (length bs), bs, os1, ten__set_error TEN_OK w)))"

definition windows_file_write ::
    "'os win32 \<Rightarrow> windows_file option \<Rightarrow> byte list option \<Rightarrow> size_t \<Rightarrow> 'os \<Rightarrow> ten_world \<Rightarrow>
     (size_t \<times> 'os \<times> ten_world) option" where
  "windows_file_write wn file buffer size1 os w =
     (case file of
        None \<Rightarrow> Some (0, os, ten__set_error TEN_ERROR_NULL_ARGUMENT w)
      | Some f \<Rightarrow>
          if buffer = None \<and> size1 > 0 then Some (0, os, ten__set_error TEN_ERROR_NULL_ARGUMENT w)
          else if size1 = 0 then Some (0, os, ten__set_error TEN_OK w)
          else do {
            bs \<leftarrow> buffer;
            let dword = (ucast size1 :: u32);
            if unat dword \<le> length bs
            then (case wn_write wn (wf_handle f) (take (unat dword) bs) os of
                    (None, os1) \<Rightarrow> Some (0, os1, ten__set_error TEN_ERROR_IO w)
                  | (Some n, os1) \<Rightarrow> Some (ucast n, os1, ten__set_error TEN_OK w))
            else None
          })"

definition seek_method :: "int \<Rightarrow> whence option" where
  "seek_method origin =
     (if origin = 0 then Some SEEK_SET else if origin = 1 then Some SEEK_CUR else if origin = 2 then Some SEEK_END else None)"

definition windows_file_seek ::
    "'os win32 \<Rightarrow> windows_file option \<Rightarrow> int \<Rightarrow> int \<Rightarrow> 'os \<Rightarrow> ten_world \<Rightarrow> ten_error_code \<times> 'os \<times> ten_world" where
  "windows_file_seek wn file offset origin os w =
     (case file of
        None \<Rightarrow> (TEN_ERROR_NULL_ARGUMENT, os, ten__set_error TEN_ERROR_NULL_ARGUMENT w)
      | Some f \<Rightarrow>
          (case seek_method origin of
             None \<Rightarrow> (TEN_ERROR_INVALID_ARGUMENT, os, ten__set_error TEN_ERROR_INVALID_ARGUMENT w)
           | Some m \<Rightarrow>
               let (moved, os1) = wn_seek wn (wf_handle f) offset m os
               in if \<not> moved then (TEN_ERROR_IO, os1, ten__set_error TEN_ERROR_IO w)
                  else (TEN_OK, os1, ten__set_error TEN_OK w)))"

definition windows_file_size :: "'os win32 \<Rightarrow> windows_file option \<Rightarrow> 'os \<Rightarrow> ten_world \<Rightarrow> int \<times> ten_world" where
  "windows_file_size wn file os w =
     (case file of
        None \<Rightarrow> (-1, ten__set_error TEN_ERROR_NULL_ARGUMENT w)
      | Some f \<Rightarrow>
          (case wn_size wn (wf_handle f) os of
             None \<Rightarrow> (-1, ten__set_error TEN_ERROR_IO w)
           | Some size1 \<Rightarrow> (size1, ten__set_error TEN_OK w)))"

definition windows_file_exists :: "'os win32 \<Rightarrow> cstring option \<Rightarrow> 'os \<Rightarrow> ten_world \<Rightarrow> bool \<times> ten_world" where
  "windows_file_exists wn path os w =
     (case path of
        None \<Rightarrow> (False, ten__set_error TEN_ERROR_NULL_ARGUMENT w)
      | Some p \<Rightarrow> (wn_attributes wn p os, ten__set_error TEN_OK w))"

definition windows_file_delete ::
    "'os win32 \<Rightarrow> cstring option \<Rightarrow> 'os \<Rightarrow> ten_world \<Rightarrow> ten_error_code \<times> 'os \<times> ten_world" where
  "windows_file_delete wn path os w =
     (case path of
        None \<Rightarrow> (TEN_ERROR_NULL_ARGUMENT, os, ten__set_error TEN_ERROR_NULL_ARGUMENT w)
      | Some p \<Rightarrow>
          (case wn_delete wn p os of
             (Some e, os1) \<Rightarrow>
               let code = (if e = ERROR_FILE_NOT_FOUND then TEN_ERROR_NOT_FOUND else TEN_ERROR_IO)
               in (code, os1, ten__set_error code w)
           | (None, os1) \<Rightarrow> (TEN_OK, os1, ten__set_error TEN_OK w)))"

definition windows_file_copy ::
    "'os win32 \<Rightarrow> cstring option \<Rightarrow> cstring option \<Rightarrow> 'os \<Rightarrow> ten_world \<Rightarrow> ten_error_code \<times> 'os \<times> ten_world" where
  "windows_file_copy wn source destination os w =
     (case (source, destination) of
        (Some p, Some q) \<Rightarrow>
          (case wn_copy wn p q os of
             (False, os1) \<Rightarrow> (TEN_ERROR_IO, os1, ten__set_error TEN_ERROR_IO w)
           | (True, os1) \<Rightarrow> (TEN_OK, os1, ten__set_error TEN_OK w))
      | _ \<Rightarrow> (TEN_ERROR_NULL_ARGUMENT, os, ten__set_error TEN_ERROR_NULL_ARGUMENT w))"

definition windows_file_move ::
    "'os win32 \<Rightarrow> cstring option \<Rightarrow> cstring option \<Rightarrow> 'os \<Rightarrow> ten_world \<Rightarrow> ten_error_code \<times> 'os \<times> ten_world" where
  "windows_file_move wn source destination os w =
     (case (source, destination) of
        (Some p, Some q) \<Rightarrow>
          (case wn_move wn p q os of
             (False, os1) \<Rightarrow> (TEN_ERROR_IO, os1, ten__set_error TEN_ERROR_IO w)
           | (True, os1) \<Rightarrow> (TEN_OK, os1, ten__set_error TEN_OK w))
      | _ \<Rightarrow> (TEN_ERROR_NULL_ARGUMENT, os, ten__set_error TEN_ERROR_NULL_ARGUMENT w))"

section \<open>The refinement\<close>

fun windows_step :: "'os win32 \<Rightarrow> windows_file \<Rightarrow> ('os \<times> ten_world) file_stepper" where
  "windows_step wn f (File_Read n) (os, w) =
     (case windows_file_read wn (Some f) True n os w of
        (m, bs, os1, w1) \<Rightarrow> Some ((Bytes_Read m bs, ten_last_error w1), os1, w1))"
| "windows_step wn f (File_Write bs) (os, w) =
     (case windows_file_write wn (Some f) (Some bs) (of_nat (length bs)) os w of
        None \<Rightarrow> None
      | Some (m, os1, w1) \<Rightarrow> Some ((Bytes_Written m, ten_last_error w1), os1, w1))"
| "windows_step wn f (File_Seek offset origin) (os, w) =
     (case windows_file_seek wn (Some f) offset origin os w of
        (rc, os1, w1) \<Rightarrow> Some ((Seek_Code rc, ten_last_error w1), os1, w1))"
| "windows_step wn f File_Size (os, w) =
     (case windows_file_size wn (Some f) os w of (n, w1) \<Rightarrow> Some ((Size_Is n, ten_last_error w1), os, w1))"

text \<open>Sizes that fit 32 bits.\<close>

definition dword_sized :: "file_command \<Rightarrow> bool" where
  "dword_sized c \<longleftrightarrow> (case c of File_Read n \<Rightarrow> unat n < 2 ^ 32 | File_Write bs \<Rightarrow> length bs < 2 ^ 32 | _ \<Rightarrow> True)"

lemma unat_dword: "unat (n :: size_t) < 2 ^ 32 \<Longrightarrow> unat (ucast n :: u32) = unat n"
  by (simp add: unsigned_ucast_eq take_bit_nat_eq_self)

lemma unat_widened_dword: "unat (ucast (n :: u32) :: size_t) = unat n"
proof -
  have "unat n < 2 ^ LENGTH(32)" by (rule unsigned_less)
  then show ?thesis by (simp add: unsigned_ucast_eq take_bit_nat_eq_self)
qed

context win32_files
begin

definition windows_ok :: "windows_file \<Rightarrow> nat \<Rightarrow> file_command \<Rightarrow> 'os \<Rightarrow> ten_world \<Rightarrow> file_state \<Rightarrow> bool" where
  "windows_ok f i c os w s \<longleftrightarrow>
     (\<exists>r os1 w1 s1. windows_step wn f c (os, w) = Some (r, os1, w1) \<and> valid os1 \<and> file_allows False c r s s1 \<and>
        stands_for (wf_handle f) i False (view os1) s1 \<and> else_same (wf_handle f) i (view os) (view os1) \<and> live w1 = live w)"

lemma read_ok:
  assumes "valid os" "stands_for (wf_handle f) i False (view os) s" "unat n < 2 ^ 32"
  shows "windows_ok f i (File_Read n) os w s"
proof (cases "n = 0")
  case True
  then show ?thesis
    using assms by (cases s) (simp add: windows_ok_def windows_file_read_def)
next
  case False
  obtain bs p where s: "s = (bs, p)" by (cases s)
  obtain g where g: "fv_opened (view os) (wf_handle f) = Some g" using assms(2) by (auto simp: stands_for_def)
  obtain got os1 where call: "wn_read wn (wf_handle f) (ucast n) os = (got, os1)"
    by (cases "wn_read wn (wf_handle f) (ucast n) os")
  note law = read_law [OF assms(1) g call]
  show ?thesis
  proof (cases got)
    case None
    then show ?thesis using assms s call law False by (auto simp: windows_ok_def windows_file_read_def)
  next
    case (Some bs')
    then have r: "reads g (wf_handle f) bs' (unat n) (view os) (view os1)" using law unat_dword [OF assms(3)] by simp
    note a = reads_allowed [OF assms(2) [unfolded s] g r]
    have "unat (of_nat (length bs') :: size_t) = length bs'"
      using a(3) unat_size_less [of n] by (intro unat_of_nat_size) simp
    then have "file_allows False (File_Read n) (Bytes_Read (of_nat (length bs')) bs', TEN_OK) s (bs, p + length bs')"
      using a(3,4,5) s False by (auto simp: unat_eq_zero)
    then show ?thesis using Some call law a(1,2) s False by (auto simp: windows_ok_def windows_file_read_def)
  qed
qed

lemma write_ok:
  assumes "valid os" "stands_for (wf_handle f) i False (view os) s" "length new < 2 ^ 32"
  shows "windows_ok f i (File_Write new) os w s"
proof (cases "new = []")
  case True
  then show ?thesis
    using assms by (cases s) (simp add: windows_ok_def windows_file_write_def)
next
  case False
  obtain bs p where s: "s = (bs, p)" by (cases s)
  have small: "unat (of_nat (length new) :: size_t) = length new" using assms(3) by (intro unat_of_nat_size) simp
  then have n: "(of_nat (length new) :: size_t) \<noteq> 0" using False by (metis length_0_conv unat_0)
  have dword: "unat (ucast (of_nat (length new) :: size_t) :: u32) = length new"
    using unat_dword [of "of_nat (length new)"] small assms(3) by simp
  obtain g where g: "fv_opened (view os) (wf_handle f) = Some g" using assms(2) by (auto simp: stands_for_def)
  obtain put os1 where call: "wn_write wn (wf_handle f) new os = (put, os1)" by (cases "wn_write wn (wf_handle f) new os")
  note law = write_law [OF assms(1) g assms(3) call]
  have wrote: "windows_file_write wn (Some f) (Some new) (of_nat (length new)) os w =
      Some (case put of None \<Rightarrow> (0, os1, ten__set_error TEN_ERROR_IO w) | Some m \<Rightarrow> (ucast m, os1, ten__set_error TEN_OK w))"
    using n dword call unfolding windows_file_write_def by (simp add: Let_def split: option.split)
  show ?thesis
  proof (cases put)
    case None
    then show ?thesis using assms s wrote law by (auto simp: windows_ok_def)
  next
    case (Some m)
    then have r: "writes g (wf_handle f) new (unat m) (view os) (view os1)" using law by simp
    note a = writes_allowed [OF assms(2) [unfolded s] g r]
    have "file_allows False (File_Write new) (Bytes_Written (ucast m), TEN_OK) s (write_at p (take (unat m) new) bs, p + unat m)"
      using a(3) s False by (simp add: Let_def unat_widened_dword)
    moreover have "stands_for (wf_handle f) i False (view os1) (write_at p (take (unat m) new) bs, p + unat m)"
      using a(1) by (simp add: Let_def)
    ultimately show ?thesis using Some wrote law a(2) unfolding windows_ok_def by (simp, blast)
  qed
qed

lemma seek_ok:
  assumes "valid os" "stands_for (wf_handle f) i False (view os) s"
  shows "windows_ok f i (File_Seek offset origin) os w s"
proof (cases "seek_method origin")
  case None
  then have "seek_target offset origin s = None" by (auto simp: seek_method_def seek_target_def split: if_splits)
  then show ?thesis using assms None by (cases s) (auto simp: windows_ok_def windows_file_seek_def)
next
  case (Some wh)
  obtain bs p where s: "s = (bs, p)" by (cases s)
  obtain g where g: "fv_opened (view os) (wf_handle f) = Some g" "of_inode g = i" "of_offset g = p" "fv_data (view os) i = bs"
      "\<not> of_appending g"
    using assms(2) s by (auto simp: stands_for_def)
  obtain moved os1 where call: "wn_seek wn (wf_handle f) offset wh os = (moved, os1)"
    by (cases "wn_seek wn (wf_handle f) offset wh os")
  note law = seek_law [OF assms(1) g(1) call]
  have target: "seek_target offset origin s = Some (seek_base wh g bs + offset)"
    using Some s g(3) by (auto simp: seek_method_def seek_target_def split: if_splits)
  show ?thesis
  proof (cases moved)
    case False
    then have "view os1 = view os" using law by auto
    then show ?thesis using False assms(2) Some call law target s by (auto simp: windows_ok_def windows_file_seek_def)
  next
    case True
    then have r: "0 \<le> seek_base wh g bs + offset"
        "view os1 = (view os)\<lparr>fv_opened := (fv_opened (view os))(wf_handle f \<mapsto> g\<lparr>of_offset := nat (seek_base wh g bs + offset)\<rparr>)\<rparr>"
      using law g(2,4) by auto
    have "stands_for (wf_handle f) i False (view os1) (bs, nat (seek_base wh g bs + offset))"
        "else_same (wf_handle f) i (view os) (view os1)"
      using r(2) g by (auto simp: stands_for_def else_same_def)
    moreover have "file_allows False (File_Seek offset origin) (Seek_Code TEN_OK, TEN_OK) s (bs, nat (seek_base wh g bs + offset))"
      using target r(1) s by simp
    ultimately show ?thesis using True Some call law by (auto simp: windows_ok_def windows_file_seek_def)
  qed
qed

lemma size_ok:
  assumes "valid os" "stands_for (wf_handle f) i False (view os) s"
  shows "windows_ok f i File_Size os w s"
proof -
  obtain g where g: "fv_opened (view os) (wf_handle f) = Some g" "fv_data (view os) (of_inode g) = fst s"
    using assms(2) by (auto simp: stands_for_def)
  show ?thesis
    using assms size_law [OF assms(1) g(1)] g(2)
    by (cases s; cases "wn_size wn (wf_handle f) os") (auto simp: windows_ok_def windows_file_size_def)
qed

lemma windows_step_ok:
  "valid os \<Longrightarrow> stands_for (wf_handle f) i False (view os) s \<Longrightarrow> dword_sized c \<Longrightarrow> windows_ok f i c os w s"
  by (cases c) (simp_all add: read_ok write_ok seek_ok size_ok dword_sized_def)

end

definition windows_shown ::
    "('os \<Rightarrow> file_view) \<Rightarrow> ('os \<Rightarrow> bool) \<Rightarrow> nat \<Rightarrow> nat \<Rightarrow> file_view \<Rightarrow> int \<Rightarrow> 'os \<times> ten_world \<Rightarrow> file_state \<Rightarrow> bool" where
  "windows_shown view valid d i v n st s \<longleftrightarrow>
     valid (fst st) \<and> stands_for d i False (view (fst st)) s \<and> else_same d i v (view (fst st)) \<and> live (snd st) = n"

sublocale win32_files \<subseteq> open_file:
  file_backend "windows_step wn f" False "windows_shown view valid (wf_handle f) i v n" dword_sized for f i v n
proof
  fix st s c
  assume st: "windows_shown view valid (wf_handle f) i v n st s" and c: "dword_sized c"
  obtain os w where st_eq: "st = (os, w)" by (cases st)
  then have "windows_ok f i c os w s" using st c by (intro windows_step_ok) (simp_all add: windows_shown_def)
  then show "\<exists>r st1 s1. windows_step wn f c st = Some (r, st1) \<and> file_allows False c r s s1 \<and>
      windows_shown view valid (wf_handle f) i v n st1 s1"
    using st else_same_trans unfolding windows_ok_def st_eq windows_shown_def by fastforce
qed

section \<open>The life of a file\<close>

lemma truncate_creates: "fm_truncate (ten__parse_file_mode md) \<Longrightarrow> fm_create (ten__parse_file_mode md)"
  by (simp add: ten__parse_file_mode_def Let_def split: if_splits)

lemma disposition_of_mode:
  "file_disposition (ten__parse_file_mode md) \<noteq> OPEN_EXISTING \<longleftrightarrow> fm_create (ten__parse_file_mode md)"
  "file_disposition (ten__parse_file_mode md) = CREATE_ALWAYS \<longleftrightarrow> fm_truncate (ten__parse_file_mode md)"
  using truncate_creates by (auto simp: file_disposition_def)

context win32_files
begin

lemma windows_open_spec:
  assumes "valid os" "windows_file_open wn (Some p) (Some md) os w = (Some f, os1, w1)"
  shows "\<exists>i v pos. opens p (fm_create (ten__parse_file_mode md)) (fm_truncate (ten__parse_file_mode md)) False (wf_handle f) i (view os) v \<and>
    (pos = 0 \<or> fm_append (ten__parse_file_mode md) \<and> pos = length (fv_data v i)) \<and>
    view os1 = v\<lparr>fv_opened := (fv_opened v)(wf_handle f \<mapsto> \<lparr>of_inode = i, of_offset = pos, of_appending = False\<rparr>)\<rparr> \<and>
    valid os1 \<and> live w1 = live w + 1"
proof -
  let ?m = "ten__parse_file_mode md"
  have mode: "fm_read ?m \<or> fm_write ?m" using assms(2) by (auto simp: windows_file_open_def Let_def split: if_splits)
  obtain fd os2 where call: "wn_create wn p (file_access_of ?m) (file_disposition ?m) os = (fd, os2)"
    by (cases "wn_create wn p (file_access_of ?m) (file_disposition ?m) os")
  note law = create_law [OF assms(1) call]
  obtain h where h: "fd = Inr h" using assms(2) call mode by (cases fd) (auto simp: windows_file_open_def Let_def)
  obtain i where i: "opens p (fm_create ?m) (fm_truncate ?m) False h i (view os) (view os2)" and valid2: "valid os2"
    using law h by (auto simp: disposition_of_mode)
  have o: "fv_opened (view os2) h = Some \<lparr>of_inode = i, of_offset = 0, of_appending = False\<rparr>"
    using i by (simp add: opens_def)
  obtain moved os3 where call3: "wn_seek wn h 0 SEEK_END os2 = (moved, os3)" by (cases "wn_seek wn h 0 SEEK_END os2")
  note law3 = seek_law [OF valid2 o call3]
  define pos where "pos = (if fm_append ?m \<and> moved then length (fv_data (view os2) i) else 0)"
  have f: "f = \<lparr>wf_handle = h\<rparr>" and os1: "os1 = (if fm_append ?m then os3 else os2)" and live1: "live w1 = live w + 1"
    using assms(2) call call3 h mode
    by (cases rule: ten_malloc_cases [where n = sizeof_windows_file and w = w];
        auto simp: windows_file_open_def Let_def split: if_splits)+
  have "view os1 = (view os2)\<lparr>fv_opened := (fv_opened (view os2))(h \<mapsto> \<lparr>of_inode = i, of_offset = pos, of_appending = False\<rparr>)\<rparr>"
      "valid os1"
    using law3 os1 o valid2 by (auto simp: pos_def fun_upd_idem split: if_splits)
  then show ?thesis using i f live1 by (auto simp: pos_def)
qed

lemma windows_close_spec:
  assumes "valid os"
  shows "\<exists>os1 w1. windows_file_close wn (Some f) os w = Some (os1, w1) \<and> valid os1 \<and>
    view os1 = (view os)\<lparr>fv_opened := (fv_opened (view os))(wf_handle f := None)\<rparr> \<and> live w1 = live w - 1"
  using close_law [OF assms, of "wf_handle f"] by (auto simp: windows_file_close_def)

lemma windows_life_law:
  assumes "valid os" "windows_file_open wn (Some p) (Some md) os w = (Some f, os1, w1)" "\<forall>c \<in> set cs. dword_sized c"
  shows "\<exists>i rs os2 w2 os3 w3 s bs pos.
    file_run (windows_step wn f) cs (os1, w1) = Some (rs, os2, w2) \<and> windows_file_close wn (Some f) os2 w2 = Some (os3, w3) \<and>
    bs = (if fv_names (view os) p = None \<or> fm_truncate (ten__parse_file_mode md) then [] else fv_data (view os) i) \<and>
    (pos = 0 \<or> fm_append (ten__parse_file_mode md) \<and> pos = length bs) \<and> file_allows_run False cs rs (bs, pos) s \<and>
    fv_names (view os3) p = Some i \<and> fv_data (view os3) = (fv_data (view os))(i := fst s) \<and>
    fv_opened (view os3) = fv_opened (view os) \<and> live w3 = live w"
proof -
  let ?m = "ten__parse_file_mode md" and ?d = "wf_handle f"
  obtain i v pos where i: "opens p (fm_create ?m) (fm_truncate ?m) False ?d i (view os) v"
      and pos: "pos = 0 \<or> fm_append ?m \<and> pos = length (fv_data v i)"
      and v: "view os1 = v\<lparr>fv_opened := (fv_opened v)(?d \<mapsto> \<lparr>of_inode = i, of_offset = pos, of_appending = False\<rparr>)\<rparr>"
      and valid1: "valid os1" and live1: "live w1 = live w + 1"
    using windows_open_spec [OF assms(1,2)] by blast
  define bs where "bs = (if fv_names (view os) p = None \<or> fm_truncate ?m then [] else fv_data (view os) i)"
  have o: "fv_opened (view os) ?d = None" "fv_names (view os1) p = Some i" "fv_data (view os1) = (fv_data (view os))(i := bs)"
      "fv_opened (view os1) = (fv_opened (view os))(?d \<mapsto> \<lparr>of_inode = i, of_offset = pos, of_appending = False\<rparr>)"
      "fv_data v i = bs"
    using i v by (auto simp: opens_def bs_def)
  then have "windows_shown view valid ?d i (view os1) (live w1) (os1, w1) (bs, pos)"
    using valid1 by (simp add: windows_shown_def stands_for_def)
  from open_file.run_law [OF this assms(3)]
  obtain rs os2 w2 s where r: "file_run (windows_step wn f) cs (os1, w1) = Some (rs, os2, w2)"
      "file_allows_run False cs rs (bs, pos) s"
      "windows_shown view valid ?d i (view os1) (live w1) (os2, w2) s"
    by auto
  then have shown: "valid os2" "stands_for ?d i False (view os2) s" "else_same ?d i (view os1) (view os2)" "live w2 = live w1"
    by (simp_all add: windows_shown_def)
  obtain os3 w3 where c: "windows_file_close wn (Some f) os2 w2 = Some (os3, w3)"
      "view os3 = (view os2)\<lparr>fv_opened := (fv_opened (view os2))(?d := None)\<rparr>" "live w3 = live w2 - 1"
    using windows_close_spec [OF shown(1)] by blast
  have "fv_data (view os3) = (fv_data (view os))(i := fst s)"
    using c(2) shown(2,3) o(3) by (auto simp: stands_for_def else_same_def fun_eq_iff)
  moreover have "fv_opened (view os3) = fv_opened (view os)"
    using c(2) shown(3) o(1,4) by (auto simp: else_same_def fun_eq_iff)
  moreover have "fv_names (view os3) p = Some i" using c(2) shown(3) o(2) by (simp add: else_same_def)
  moreover have "live w3 = live w" using shown(4) c(3) live1 by simp
  ultimately show ?thesis using r(1,2) c(1) pos o(5) bs_def by blast
qed

end

text \<open>
  A read of \<open>2 ^ 32\<close> bytes asks the system for none: it answers that there are no more bytes, whatever
  the file holds.
\<close>

lemma read_cut_to_nothing:
  assumes "win32_files wn view valid" "valid os" "fv_opened (view os) (wf_handle f) = Some g"
    and "wn_read wn (wf_handle f) 0 os = (Some bs, os1)"
  shows "windows_file_read wn (Some f) True (2 ^ 32) os w = (0, [], os1, ten__set_error TEN_OK w)"
proof -
  have "bs = []" using win32_files.read_law [OF assms] by (auto simp: reads_def)
  moreover have z: "(4294967296 :: u32) = 0" by (rule word_uint_eqI) simp
  have "wn_read wn (wf_handle f) 4294967296 os = (Some bs, os1)" unfolding z by (rule assms(4))
  ultimately show ?thesis using assms(4) by (simp add: windows_file_read_def)
qed

end
