(* ===== verification/Ten_Log.thy ===== *)
theory Ten_Log
  imports Ten_Error
begin

text \<open>
  The log (\<open>include/ten/log.h\<close>, \<open>src/log/log.c\<close>) and the clock (\<open>src/time/time.c\<close>). The static variables of
  the log are a record, and so is what has come out: the bytes of each stream, of each file, and the
  calls of callbacks. The text that \<open>vsnprintf\<close> makes of the format and its arguments is an
  argument, \<open>None\<close> when it fails; the buffer, which the code then prints all the same, has no
  contents. Streams are taken to accept what is printed, and a callback not to call the log itself.
\<close>

section \<open>Levels\<close>

datatype ten_log_level_t =
    TEN_LOG_TRACE | TEN_LOG_DEBUG | TEN_LOG_INFO | TEN_LOG_WARN | TEN_LOG_ERROR | TEN_LOG_FATAL

text \<open>The numbers of the levels; a parameter of type \<open>ten_log_level_t\<close> can hold any number.\<close>

primrec level_number :: "ten_log_level_t \<Rightarrow> u32" where
  "level_number TEN_LOG_TRACE = 0"
| "level_number TEN_LOG_DEBUG = 1"
| "level_number TEN_LOG_INFO = 2"
| "level_number TEN_LOG_WARN = 3"
| "level_number TEN_LOG_ERROR = 4"
| "level_number TEN_LOG_FATAL = 5"

definition ten__log_level_name :: "u32 \<Rightarrow> cstring" where
  "ten__log_level_name level =
     ascii (if level = level_number TEN_LOG_TRACE then ''TRACE''
            else if level = level_number TEN_LOG_DEBUG then ''DEBUG''
            else if level = level_number TEN_LOG_INFO then ''INFO''
            else if level = level_number TEN_LOG_WARN then ''WARN''
            else if level = level_number TEN_LOG_ERROR then ''ERROR''
            else if level = level_number TEN_LOG_FATAL then ''FATAL''
            else ''UNKNOWN'')"

instantiation ten_log_level_t :: linorder
begin

definition less_eq_ten_log_level_t :: "ten_log_level_t \<Rightarrow> ten_log_level_t \<Rightarrow> bool" where
  "less_eq_ten_log_level_t a b \<longleftrightarrow> level_number a \<le> level_number b"

definition less_ten_log_level_t :: "ten_log_level_t \<Rightarrow> ten_log_level_t \<Rightarrow> bool" where
  "less_ten_log_level_t a b \<longleftrightarrow> level_number a < level_number b"

instance
proof
  fix a b c :: ten_log_level_t
  have "level_number a = level_number b \<Longrightarrow> a = b"
    by (cases a; cases b) simp_all
  then show "a \<le> b \<Longrightarrow> b \<le> a \<Longrightarrow> a = b"
    unfolding less_eq_ten_log_level_t_def by (meson order.antisym)
  show "a < b \<longleftrightarrow> a \<le> b \<and> \<not> b \<le> a"
    unfolding less_eq_ten_log_level_t_def less_ten_log_level_t_def by (rule less_le_not_le)
  show "a \<le> a" "a \<le> b \<or> b \<le> a"
    unfolding less_eq_ten_log_level_t_def by (rule order.refl, rule linear)
  show "a \<le> b \<Longrightarrow> b \<le> c \<Longrightarrow> a \<le> c"
    unfolding less_eq_ten_log_level_t_def by (rule order.trans)
qed

end

section \<open>The state\<close>

record ('k, 'u) ten_log_state =
  g_ten_log_min_level :: u32
  g_ten_log_console_enabled :: int
  g_ten_log_file :: "cstring option"
  g_ten_log_callback :: "'k option"
  g_ten_log_callback_userdata :: 'u

definition log_initially :: "'u \<Rightarrow> ('k, 'u) ten_log_state" where
  "log_initially null =
     \<lparr>g_ten_log_min_level = level_number TEN_LOG_TRACE, g_ten_log_console_enabled = 1, g_ten_log_file = None,
      g_ten_log_callback = None, g_ten_log_callback_userdata = null\<rparr>"

record ('k, 'u) log_sinks =
  on_stdout :: "byte list"
  on_stderr :: "byte list"
  in_file :: "cstring \<Rightarrow> byte list"
  called_back :: "('k \<times> u32 \<times> cstring \<times> 'u) list"

definition TEN_LOG_MESSAGE_BUF_SIZE :: nat where
  "TEN_LOG_MESSAGE_BUF_SIZE = 4096"

section \<open>Operations\<close>

text \<open>What is in the message buffer, and the line that is printed of it.\<close>

definition log_message :: "cstring \<Rightarrow> cstring" where
  "log_message formatted = take (TEN_LOG_MESSAGE_BUF_SIZE - 1) formatted"

definition log_line :: "u32 \<Rightarrow> cstring \<Rightarrow> cstring" where
  "log_line level message = [0x5B] @ ten__log_level_name level @ [0x5D, 0x20] @ message @ [0x0A]"

definition ten__log_write ::
    "u32 \<Rightarrow> cstring option \<Rightarrow> ('k, 'u) ten_log_state \<Rightarrow> ('k, 'u) log_sinks \<Rightarrow> ('k, 'u) log_sinks option" where
  "ten__log_write level formatted g o1 =
     (if formatted = None \<and> g_ten_log_console_enabled g = 0 \<and> g_ten_log_file g = None \<and> g_ten_log_callback g = None
      then Some o1
      else do {
        f \<leftarrow> formatted;
        let message = log_message f;
        let o2 = (if g_ten_log_console_enabled g \<noteq> 0
                  then (if level_number TEN_LOG_WARN \<le> level
                        then o1\<lparr>on_stderr := on_stderr o1 @ log_line level message\<rparr>
                        else o1\<lparr>on_stdout := on_stdout o1 @ log_line level message\<rparr>)
                  else o1);
        let o3 = (case g_ten_log_file g of
                    None \<Rightarrow> o2
                  | Some file \<Rightarrow> o2\<lparr>in_file := (in_file o2)(file := in_file o2 file @ log_line level message)\<rparr>);
        let o4 = (case g_ten_log_callback g of
                    None \<Rightarrow> o3
                  | Some callback \<Rightarrow>
                      o3\<lparr>called_back := called_back o3 @ [(callback, level, message, g_ten_log_callback_userdata g)]\<rparr>);
        Some o4
      })"

text \<open>\<open>format\<close> says whether a format was given; \<open>formatted\<close> is what \<open>vsnprintf\<close> makes of it.\<close>

definition ten_log ::
    "u32 \<Rightarrow> bool \<Rightarrow> cstring option \<Rightarrow> ('k, 'u) ten_log_state \<Rightarrow> ('k, 'u) log_sinks \<Rightarrow> ten_world \<Rightarrow>
     (('k, 'u) log_sinks \<times> ten_world) option" where
  "ten_log level format formatted g o1 w =
     (if \<not> format then Some (o1, ten__set_error TEN_ERROR_NULL_ARGUMENT w)
      else if level < g_ten_log_min_level g then Some (o1, ten__set_error TEN_OK w)
      else do { o2 \<leftarrow> ten__log_write level formatted g o1; Some (o2, ten__set_error TEN_OK w) })"

text \<open>The functions that the macro \<open>TEN_DEFINE_LOG_LEVEL_FN\<close> defines: the macro, and its six uses.\<close>

definition log_level_fn ::
    "ten_log_level_t \<Rightarrow> bool \<Rightarrow> cstring option \<Rightarrow> ('k, 'u) ten_log_state \<Rightarrow> ('k, 'u) log_sinks \<Rightarrow> ten_world \<Rightarrow>
     (('k, 'u) log_sinks \<times> ten_world) option" where
  "log_level_fn level_value format formatted g o1 w =
     (if \<not> format then Some (o1, ten__set_error TEN_ERROR_NULL_ARGUMENT w)
      else if level_number level_value < g_ten_log_min_level g then Some (o1, ten__set_error TEN_OK w)
      else do { o2 \<leftarrow> ten__log_write (level_number level_value) formatted g o1; Some (o2, ten__set_error TEN_OK w) })"

type_synonym ('k, 'u) log_function =
  "bool \<Rightarrow> cstring option \<Rightarrow> ('k, 'u) ten_log_state \<Rightarrow> ('k, 'u) log_sinks \<Rightarrow> ten_world \<Rightarrow>
   (('k, 'u) log_sinks \<times> ten_world) option"

definition ten_log_trace :: "('k, 'u) log_function" where "ten_log_trace = log_level_fn TEN_LOG_TRACE"
definition ten_log_debug :: "('k, 'u) log_function" where "ten_log_debug = log_level_fn TEN_LOG_DEBUG"
definition ten_log_info :: "('k, 'u) log_function" where "ten_log_info = log_level_fn TEN_LOG_INFO"
definition ten_log_warn :: "('k, 'u) log_function" where "ten_log_warn = log_level_fn TEN_LOG_WARN"
definition ten_log_error :: "('k, 'u) log_function" where "ten_log_error = log_level_fn TEN_LOG_ERROR"
definition ten_log_fatal :: "('k, 'u) log_function" where "ten_log_fatal = log_level_fn TEN_LOG_FATAL"

definition ten_log_set_level :: "u32 \<Rightarrow> ('k, 'u) ten_log_state \<Rightarrow> ('k, 'u) ten_log_state" where
  "ten_log_set_level level g = g\<lparr>g_ten_log_min_level := level\<rparr>"

definition ten_log_set_console :: "int \<Rightarrow> ('k, 'u) ten_log_state \<Rightarrow> ('k, 'u) ten_log_state" where
  "ten_log_set_console enabled g = g\<lparr>g_ten_log_console_enabled := enabled\<rparr>"

text \<open>\<open>fopen\<close> says which files can be opened for appending.\<close>

definition ten_log_set_file ::
    "(cstring \<Rightarrow> bool) \<Rightarrow> cstring option \<Rightarrow> ('k, 'u) ten_log_state \<Rightarrow> ten_world \<Rightarrow>
     ten_error_code \<times> ('k, 'u) ten_log_state \<times> ten_world" where
  "ten_log_set_file fopen path g w =
     (let g1 = (if g_ten_log_file g \<noteq> None then g\<lparr>g_ten_log_file := None\<rparr> else g)
      in case path of
           None \<Rightarrow> (TEN_OK, g1, ten__set_error TEN_OK w)
         | Some p \<Rightarrow>
             let g2 = g1\<lparr>g_ten_log_file := (if fopen p then Some p else None)\<rparr>
             in if g_ten_log_file g2 = None then (TEN_ERROR_IO, g2, ten__set_error TEN_ERROR_IO w)
                else (TEN_OK, g2, ten__set_error TEN_OK w))"

definition ten_log_set_callback :: "'k option \<Rightarrow> 'u \<Rightarrow> ('k, 'u) ten_log_state \<Rightarrow> ('k, 'u) ten_log_state" where
  "ten_log_set_callback callback userdata g =
     g\<lparr>g_ten_log_callback := callback, g_ten_log_callback_userdata := userdata\<rparr>"

section \<open>What is logged\<close>

text \<open>
  The calls of a program: entries, through \<open>ten_log\<close> or the function of a level, and the
  settings between them.
\<close>

datatype ('k, 'u) log_call =
    Log u32 cstring
  | Log_At ten_log_level_t cstring
  | Set_Level u32
  | Set_Console int
  | Set_File "cstring option"
  | Set_Callback "'k option" 'u

fun log_step ::
    "(cstring \<Rightarrow> bool) \<Rightarrow> ('k, 'u) log_call \<Rightarrow> ('k, 'u) ten_log_state \<times> ('k, 'u) log_sinks \<times> ten_world \<Rightarrow>
     (('k, 'u) ten_log_state \<times> ('k, 'u) log_sinks \<times> ten_world) option" where
  "log_step fopen (Log level msg) (g, o1, w) = map_option (Pair g) (ten_log level True (Some msg) g o1 w)"
| "log_step fopen (Log_At level msg) (g, o1, w) = map_option (Pair g) (log_level_fn level True (Some msg) g o1 w)"
| "log_step fopen (Set_Level level) (g, o1, w) = Some (ten_log_set_level level g, o1, w)"
| "log_step fopen (Set_Console enabled) (g, o1, w) = Some (ten_log_set_console enabled g, o1, w)"
| "log_step fopen (Set_File path) (g, o1, w) = (case ten_log_set_file fopen path g w of (rc, g1, w1) \<Rightarrow> Some (g1, o1, w1))"
| "log_step fopen (Set_Callback callback userdata) (g, o1, w) = Some (ten_log_set_callback callback userdata g, o1, w)"

primrec log_run ::
    "(cstring \<Rightarrow> bool) \<Rightarrow> ('k, 'u) log_call list \<Rightarrow> ('k, 'u) ten_log_state \<times> ('k, 'u) log_sinks \<times> ten_world \<Rightarrow>
     (('k, 'u) ten_log_state \<times> ('k, 'u) log_sinks \<times> ten_world) option" where
  "log_run fopen [] s = Some s"
| "log_run fopen (c # cs) s = do { s1 \<leftarrow> log_step fopen c s; log_run fopen cs s1 }"

text \<open>The settings after a call, and the entries of a run that pass the level set at the time.\<close>

fun settings_after :: "(cstring \<Rightarrow> bool) \<Rightarrow> ('k, 'u) log_call \<Rightarrow> ('k, 'u) ten_log_state \<Rightarrow> ('k, 'u) ten_log_state" where
  "settings_after fopen (Set_Level level) g = g\<lparr>g_ten_log_min_level := level\<rparr>"
| "settings_after fopen (Set_Console enabled) g = g\<lparr>g_ten_log_console_enabled := enabled\<rparr>"
| "settings_after fopen (Set_File path) g =
     g\<lparr>g_ten_log_file := (case path of None \<Rightarrow> None | Some p \<Rightarrow> if fopen p then Some p else None)\<rparr>"
| "settings_after fopen (Set_Callback callback userdata) g =
     g\<lparr>g_ten_log_callback := callback, g_ten_log_callback_userdata := userdata\<rparr>"
| "settings_after fopen _ g = g"

fun entry_of :: "('k, 'u) log_call \<Rightarrow> (u32 \<times> cstring) option" where
  "entry_of (Log level msg) = Some (level, msg)"
| "entry_of (Log_At level msg) = Some (level_number level, msg)"
| "entry_of _ = None"

definition passed :: "('k, 'u) ten_log_state \<Rightarrow> ('k, 'u) log_call \<Rightarrow> (('k, 'u) ten_log_state \<times> u32 \<times> cstring) list" where
  "passed g c =
     (case entry_of c of
        Some (level, msg) \<Rightarrow> if g_ten_log_min_level g \<le> level then [(g, level, log_message msg)] else []
      | None \<Rightarrow> [])"

primrec log_entries ::
    "(cstring \<Rightarrow> bool) \<Rightarrow> ('k, 'u) log_call list \<Rightarrow> ('k, 'u) ten_log_state \<Rightarrow>
     (('k, 'u) ten_log_state \<times> u32 \<times> cstring) list" where
  "log_entries fopen [] g = []"
| "log_entries fopen (c # cs) g = passed g c @ log_entries fopen cs (settings_after fopen c g)"

text \<open>What the entries that satisfy a condition print.\<close>

definition printed ::
    "(('k, 'u) ten_log_state \<Rightarrow> u32 \<Rightarrow> bool) \<Rightarrow> (('k, 'u) ten_log_state \<times> u32 \<times> cstring) list \<Rightarrow> byte list" where
  "printed P es = concat (map (\<lambda>(g, level, msg). if P g level then log_line level msg else []) es)"

definition calls_of ::
    "(('k, 'u) ten_log_state \<times> u32 \<times> cstring) list \<Rightarrow> ('k \<times> u32 \<times> cstring \<times> 'u) list" where
  "calls_of es =
     concat (map (\<lambda>(g, level, msg).
       case g_ten_log_callback g of
         None \<Rightarrow> []
       | Some callback \<Rightarrow> [(callback, level, msg, g_ten_log_callback_userdata g)]) es)"

definition sinks_after ::
    "(('k, 'u) ten_log_state \<times> u32 \<times> cstring) list \<Rightarrow> ('k, 'u) log_sinks \<Rightarrow> ('k, 'u) log_sinks" where
  "sinks_after es o1 =
     o1\<lparr>on_stdout := on_stdout o1 @ printed (\<lambda>g level. g_ten_log_console_enabled g \<noteq> 0 \<and> level < level_number TEN_LOG_WARN) es,
        on_stderr := on_stderr o1 @ printed (\<lambda>g level. g_ten_log_console_enabled g \<noteq> 0 \<and> level_number TEN_LOG_WARN \<le> level) es,
        in_file := (\<lambda>file. in_file o1 file @ printed (\<lambda>g level. g_ten_log_file g = Some file) es),
        called_back := called_back o1 @ calls_of es\<rparr>"

lemma printed_append [simp]: "printed P (es @ fs) = printed P es @ printed P fs" "printed P [] = []"
  by (simp_all add: printed_def)

lemma calls_append [simp]: "calls_of (es @ fs) = calls_of es @ calls_of fs" "calls_of [] = []"
  by (simp_all add: calls_of_def)

lemma sinks_append: "sinks_after (es @ fs) o1 = sinks_after fs (sinks_after es o1)" "sinks_after [] o1 = o1"
  by (simp_all add: sinks_after_def)

lemma write_entry:
  "ten__log_write level (Some msg) g o1 = Some (sinks_after [(g, level, log_message msg)] o1)"
  by (auto simp: ten__log_write_def Let_def sinks_after_def printed_def calls_of_def not_le fun_eq_iff split: option.split)

lemma log_entry:
  "ten_log level True (Some msg) g o1 w = Some (sinks_after (passed g (Log level msg)) o1, ten__set_error TEN_OK w)"
  "log_level_fn l True (Some msg) g o1 w = Some (sinks_after (passed g (Log_At l msg)) o1, ten__set_error TEN_OK w)"
  by (simp_all add: ten_log_def log_level_fn_def write_entry passed_def sinks_append not_less)

lemma log_step_spec:
  "\<exists>w1. log_step fopen c (g, o1, w) = Some (settings_after fopen c g, sinks_after (passed g c) o1, w1) \<and>
     live w1 = live w \<and> requests w1 = requests w"
  by (cases c)
    (auto simp: log_entry passed_def sinks_append ten_log_set_level_def ten_log_set_console_def ten_log_set_file_def
      ten_log_set_callback_def Let_def split: option.split)

lemma log_run_spec:
  "\<exists>w1. log_run fopen cs (g, o1, w) =
      Some (fold (settings_after fopen) cs g, sinks_after (log_entries fopen cs g) o1, w1) \<and>
     live w1 = live w \<and> requests w1 = requests w"
proof (induction cs arbitrary: g o1 w)
  case (Cons c cs)
  obtain w1 where w1: "log_step fopen c (g, o1, w) = Some (settings_after fopen c g, sinks_after (passed g c) o1, w1)"
      "live w1 = live w" "requests w1 = requests w"
    using log_step_spec by blast
  with Cons.IH [of "settings_after fopen c g" "sinks_after (passed g c) o1" w1] show ?case
    by (auto simp: sinks_append)
qed (simp add: sinks_append)

lemma level_order: "level_number a \<le> level_number b \<longleftrightarrow> a \<le> b"
  by (simp add: less_eq_ten_log_level_t_def)

lemma log_message_bound: "length (log_message msg) \<le> 4095" "length msg \<le> 4095 \<Longrightarrow> log_message msg = msg"
  by (simp_all add: log_message_def TEN_LOG_MESSAGE_BUF_SIZE_def)

end
