(* ===== verification/Ten_Time.thy ===== *)
theory Ten_Time
  imports Ten_Sync Ten_Stdlib
begin

text \<open>
  The clock (\<open>include/ten/time.h\<close>, \<open>src/time/time.c\<close>) and the version (\<open>src/core/version.c\<close>). What the
  clocks of the operating system read is an argument: a \<open>timespec\<close> on POSIX, a \<open>FILETIME\<close> of two
  halves on Windows. The arithmetic is that of \<open>uint64_t\<close>.
\<close>

section \<open>POSIX\<close>

definition ten_time_now_ms :: "timespec \<Rightarrow> 64 word" where
  "ten_time_now_ms ts = tv_sec ts * 1000 + tv_nsec ts div 1000000"

definition ten_time_now_us :: "timespec \<Rightarrow> 64 word" where
  "ten_time_now_us ts = tv_sec ts * 1000000 + tv_nsec ts div 1000"

definition ten_time_monotonic_ms :: "timespec \<Rightarrow> 64 word" where
  "ten_time_monotonic_ms ts = tv_sec ts * 1000 + tv_nsec ts div 1000000"

definition ten_time_unix :: "64 word \<Rightarrow> 64 word" where
  "ten_time_unix time = time"

section \<open>Windows\<close>

definition TEN_FILETIME_EPOCH_DIFF_100NS :: "64 word" where
  "TEN_FILETIME_EPOCH_DIFF_100NS = 116444736000000000"

record filetime =
  dwLowDateTime :: u32
  dwHighDateTime :: u32

definition ten__filetime_to_unix_100ns :: "filetime \<Rightarrow> 64 word" where
  "ten__filetime_to_unix_100ns ft =
     ucast (dwLowDateTime ft) + 2 ^ 32 * ucast (dwHighDateTime ft) - TEN_FILETIME_EPOCH_DIFF_100NS"

definition windows_time_now_ms :: "filetime \<Rightarrow> 64 word" where
  "windows_time_now_ms ft = ten__filetime_to_unix_100ns ft div 10000"

definition windows_time_now_us :: "filetime \<Rightarrow> 64 word" where
  "windows_time_now_us ft = ten__filetime_to_unix_100ns ft div 10"

definition windows_time_monotonic_ms :: "64 word \<Rightarrow> 64 word" where
  "windows_time_monotonic_ms tick_count = tick_count"

section \<open>Exactness\<close>

definition normal_time :: "timespec \<Rightarrow> bool" where
  "normal_time ts \<longleftrightarrow> unat (tv_nsec ts) < 10 ^ 9 \<and> unat (tv_sec ts) < 2 ^ 43"

text \<open>The nanoseconds of a reading since the epoch.\<close>

definition nanoseconds :: "timespec \<Rightarrow> nat" where
  "nanoseconds ts = unat (tv_sec ts) * 10 ^ 9 + unat (tv_nsec ts)"

lemma time_fits: "s < 2 ^ 43 \<Longrightarrow> n < 10 ^ 9 \<Longrightarrow> k \<le> 1000000 \<Longrightarrow> s * k + n div d < (2 :: nat) ^ 64"
proof -
  assume a: "s < 2 ^ 43" "n < 10 ^ 9" "k \<le> 1000000"
  have "n div d \<le> n" by (rule div_le_dividend)
  moreover have "s * k \<le> s * 1000000" using a(3) by (rule mult_le_mono2)
  moreover have "s * 1000000 + n < 2 ^ 64" using a(1,2) by simp
  ultimately show ?thesis by linarith
qed

lemma unat_widened: "unat (ucast (x :: u32) :: 64 word) = unat x"
proof -
  have "unat x < 2 ^ LENGTH(32)" by (rule unsigned_less)
  then show ?thesis by (simp add: unsigned_ucast_eq take_bit_nat_eq_self)
qed

lemma now_us_exact: "normal_time ts \<Longrightarrow> unat (ten_time_now_us ts) = nanoseconds ts div 1000"
proof -
  assume ts: "normal_time ts"
  have s: "unat (tv_sec ts * 1000000) = unat (tv_sec ts) * 1000000"
    using ts by (subst unat_mult_size) (simp_all add: normal_time_def)
  have n: "unat (tv_nsec ts div 1000) = unat (tv_nsec ts) div 1000" by (simp add: unat_div)
  have "unat (tv_sec ts) * 1000000 + unat (tv_nsec ts) div 1000 < 2 ^ 64"
    using ts by (intro time_fits) (simp_all add: normal_time_def)
  with n s have "unat (ten_time_now_us ts) = unat (tv_sec ts) * 1000000 + unat (tv_nsec ts) div 1000"
    unfolding ten_time_now_us_def by (subst unat_add_size) simp_all
  then show ?thesis by (simp add: nanoseconds_def)
qed

lemma now_ms_exact: "normal_time ts \<Longrightarrow> unat (ten_time_now_ms ts) = nanoseconds ts div 1000000"
proof -
  assume ts: "normal_time ts"
  have s: "unat (tv_sec ts * 1000) = unat (tv_sec ts) * 1000"
    using ts by (subst unat_mult_size) (simp_all add: normal_time_def)
  have n: "unat (tv_nsec ts div 1000000) = unat (tv_nsec ts) div 1000000" by (simp add: unat_div)
  have "unat (tv_sec ts) * 1000 + unat (tv_nsec ts) div 1000000 < 2 ^ 64"
    using ts by (intro time_fits) (simp_all add: normal_time_def)
  with n s have "unat (ten_time_now_ms ts) = unat (tv_sec ts) * 1000 + unat (tv_nsec ts) div 1000000"
    unfolding ten_time_now_ms_def by (subst unat_add_size) simp_all
  then show ?thesis by (simp add: nanoseconds_def)
qed

text \<open>The two clocks agree, and neither runs backwards between two readings in order.\<close>

lemma clocks_agree: "normal_time ts \<Longrightarrow> unat (ten_time_now_ms ts) = unat (ten_time_now_us ts) div 1000"
  by (simp add: now_us_exact now_ms_exact div_mult2_eq [symmetric])

lemma clock_monotonic:
  "normal_time a \<Longrightarrow> normal_time b \<Longrightarrow> nanoseconds a \<le> nanoseconds b \<Longrightarrow> ten_time_monotonic_ms a \<le> ten_time_monotonic_ms b"
  using now_ms_exact [of a] now_ms_exact [of b]
  by (simp add: ten_time_monotonic_ms_def ten_time_now_ms_def size_le_iff div_le_mono)

lemma filetime_exact:
  assumes "116444736000000000 \<le> unat (dwLowDateTime ft) + 2 ^ 32 * unat (dwHighDateTime ft)"
  shows "unat (ten__filetime_to_unix_100ns ft) =
    unat (dwLowDateTime ft) + 2 ^ 32 * unat (dwHighDateTime ft) - 116444736000000000"
proof -
  have lo: "unat (dwLowDateTime ft) < 2 ^ 32" and hi: "unat (dwHighDateTime ft) < 2 ^ 32"
    using unsigned_less [of "dwLowDateTime ft"] unsigned_less [of "dwHighDateTime ft"] by simp_all
  have h: "unat (2 ^ 32 * ucast (dwHighDateTime ft) :: 64 word) = 2 ^ 32 * unat (dwHighDateTime ft)"
    using hi by (subst unat_mult_size) (simp_all add: unat_widened)
  have q: "unat (ucast (dwLowDateTime ft) + 2 ^ 32 * ucast (dwHighDateTime ft) :: 64 word) =
      unat (dwLowDateTime ft) + 2 ^ 32 * unat (dwHighDateTime ft)"
    using lo hi h by (subst unat_add_size) (simp_all add: unat_widened)
  show ?thesis
    unfolding ten__filetime_to_unix_100ns_def TEN_FILETIME_EPOCH_DIFF_100NS_def
    using assms q by (subst unat_diff_size) (simp_all add: size_nat)
qed

section \<open>The version\<close>

definition TEN_VERSION_MAJOR :: nat where "TEN_VERSION_MAJOR = 1"
definition TEN_VERSION_MINOR :: nat where "TEN_VERSION_MINOR = 0"
definition TEN_VERSION_PATCH :: nat where "TEN_VERSION_PATCH = 0"

definition ten_version :: cstring where
  "ten_version = nat_digits TEN_VERSION_MAJOR @ [0x2E] @ nat_digits TEN_VERSION_MINOR @ [0x2E] @ nat_digits TEN_VERSION_PATCH"

definition ten_version_major :: nat where "ten_version_major = TEN_VERSION_MAJOR"
definition ten_version_minor :: nat where "ten_version_minor = TEN_VERSION_MINOR"
definition ten_version_patch :: nat where "ten_version_patch = TEN_VERSION_PATCH"

end
