(* ===== verification/Ten_Process.thy ===== *)
theory Ten_Process
  imports Ten_String
begin

text \<open>
  Processes and the environment (\<open>include/ten/process.h\<close>, \<open>src/platform/posix/process_posix.c\<close>,
  \<open>src/platform/windows/process_windows.c\<close>). The answers of the operating system are arguments. On Windows
  the arguments of a process are one text, which \<open>ten__build_command_line\<close> makes: the lemmas show that
  it stays inside its block, and which arguments the started program reads back from it.
\<close>

section \<open>The command line of Windows\<close>

definition need_quotes :: "cstring \<Rightarrow> bool" where
  "need_quotes arg \<longleftrightarrow> 0x20 \<in> set arg \<or> arg = []"

primrec command_line_total :: "cstring list \<Rightarrow> size_t \<Rightarrow> size_t" where
  "command_line_total [] sum0 = sum0"
| "command_line_total (arg # args) sum0 = command_line_total args (sum0 + (strlen arg + 3))"

text \<open>The cursor and the block are a position and a block; \<open>first\<close> says that \<open>i\<close> is 0.\<close>

primrec command_line_loop :: "cstring list \<Rightarrow> bool \<Rightarrow> nat \<times> byte ptr \<Rightarrow> (nat \<times> byte ptr) option" where
  "command_line_loop [] first st = Some st"
| "command_line_loop (arg # args) first st = do {
     st1 \<leftarrow> (if \<not> first then store [0x20] st else Some st);
     st2 \<leftarrow> (if need_quotes arg then store [0x22] st1 else Some st1);
     st3 \<leftarrow> store arg st2;
     st4 \<leftarrow> (if need_quotes arg then store [0x22] st3 else Some st3);
     command_line_loop args False st4
   }"

text \<open>The block comes from \<open>malloc\<close> itself, not from the allocator of the library.\<close>

definition ten__build_command_line :: "(size_t \<Rightarrow> bool) \<Rightarrow> cstring list \<Rightarrow> byte ptr option" where
  "ten__build_command_line libc_malloc argv =
     (let sum0 = command_line_total argv 0
      in if \<not> libc_malloc (sum0 + 1) then Some Null
         else do {
           st \<leftarrow> command_line_loop argv True (0, Block (replicate (unat (sum0 + 1)) None));
           (_, result) \<leftarrow> store [0] st;
           Some result
         })"

section \<open>Running a process\<close>

text \<open>
  The code, and what was run: on Windows a command line, on POSIX a program with its arguments. What
  the process then does, and its exit status, is not looked at.
\<close>

definition windows_process_execute ::
    "(size_t \<Rightarrow> bool) \<Rightarrow> (cstring \<Rightarrow> bool) \<Rightarrow> cstring option \<Rightarrow> cstring list option \<Rightarrow> ten_world \<Rightarrow>
     (ten_error_code \<times> cstring option \<times> ten_world) option" where
  "windows_process_execute libc_malloc create_process program argv w =
     (case (program, argv) of
        (Some p, Some args) \<Rightarrow> do {
          cmdline \<leftarrow> ten__build_command_line libc_malloc args;
          if is_Null cmdline then Some (TEN_ERROR_OUT_OF_MEMORY, None, ten__set_error TEN_ERROR_OUT_OF_MEMORY w)
          else do {
            line \<leftarrow> c_string (block_cells cmdline);
            if \<not> create_process line then Some (TEN_ERROR_SYSTEM, None, ten__set_error TEN_ERROR_SYSTEM w)
            else Some (TEN_OK, Some line, ten__set_error TEN_OK w)
          }
        }
      | _ \<Rightarrow> Some (TEN_ERROR_NULL_ARGUMENT, None, ten__set_error TEN_ERROR_NULL_ARGUMENT w))"

text \<open>
  On POSIX a child is forked that runs the program; \<open>fork\<close> and \<open>waitpid\<close> are their results in the parent.
  A program that cannot be run ends the child with status 127, which the parent does not look at.
\<close>

definition ten_process_execute ::
    "int \<Rightarrow> int \<Rightarrow> cstring option \<Rightarrow> cstring list option \<Rightarrow> ten_world \<Rightarrow>
     ten_error_code \<times> (cstring \<times> cstring list) option \<times> ten_world" where
  "ten_process_execute fork waitpid program argv w =
     (case (program, argv) of
        (Some p, Some args) \<Rightarrow>
          if fork < 0 then (TEN_ERROR_SYSTEM, None, ten__set_error TEN_ERROR_SYSTEM w)
          else if waitpid < 0 then (TEN_ERROR_SYSTEM, Some (p, args), ten__set_error TEN_ERROR_SYSTEM w)
          else (TEN_OK, Some (p, args), ten__set_error TEN_OK w)
      | _ \<Rightarrow> (TEN_ERROR_NULL_ARGUMENT, None, ten__set_error TEN_ERROR_NULL_ARGUMENT w))"

definition ten_process_id :: "int \<Rightarrow> 64 word" where
  "ten_process_id getpid = of_int getpid"

definition windows_process_id :: "u32 \<Rightarrow> 64 word" where
  "windows_process_id current_process_id = ucast current_process_id"

section \<open>The environment\<close>

type_synonym environment = "cstring \<Rightarrow> cstring option"

definition ten_env_get :: "environment \<Rightarrow> cstring option \<Rightarrow> ten_world \<Rightarrow> cstring option \<times> ten_world" where
  "ten_env_get env name w =
     (case name of
        None \<Rightarrow> (None, ten__set_error TEN_ERROR_NULL_ARGUMENT w)
      | Some n \<Rightarrow> (env n, ten__set_error TEN_OK w))"

definition ten_env_set ::
    "(cstring \<Rightarrow> cstring \<Rightarrow> bool) \<Rightarrow> environment \<Rightarrow> cstring option \<Rightarrow> cstring option \<Rightarrow> ten_world \<Rightarrow>
     ten_error_code \<times> environment \<times> ten_world" where
  "ten_env_set setenv env name val w =
     (case (name, val) of
        (Some n, Some v) \<Rightarrow>
          if \<not> setenv n v then (TEN_ERROR_SYSTEM, env, ten__set_error TEN_ERROR_SYSTEM w)
          else (TEN_OK, env(n \<mapsto> v), ten__set_error TEN_OK w)
      | _ \<Rightarrow> (TEN_ERROR_NULL_ARGUMENT, env, ten__set_error TEN_ERROR_NULL_ARGUMENT w))"

text \<open>
  \<open>SetEnvironmentVariableA\<close> does on Windows what \<open>setenv\<close> does on POSIX; that Windows looks names
  up without regard to case is not modelled.
\<close>

definition windows_env_set ::
    "(cstring \<Rightarrow> cstring \<Rightarrow> bool) \<Rightarrow> environment \<Rightarrow> cstring option \<Rightarrow> cstring option \<Rightarrow> ten_world \<Rightarrow>
     ten_error_code \<times> environment \<times> ten_world" where
  "windows_env_set set_variable env name val w =
     (case (name, val) of
        (Some n, Some v) \<Rightarrow>
          if \<not> set_variable n v then (TEN_ERROR_SYSTEM, env, ten__set_error TEN_ERROR_SYSTEM w)
          else (TEN_OK, env(n \<mapsto> v), ten__set_error TEN_OK w)
      | _ \<Rightarrow> (TEN_ERROR_NULL_ARGUMENT, env, ten__set_error TEN_ERROR_NULL_ARGUMENT w))"

text \<open>
  On Windows the value is copied to a static buffer of 32768 bytes, which is what the caller gets. A
  value without bytes counts as missing; one that does not fit leaves the buffer undefined.
\<close>

definition env_buffer_size :: nat where
  "env_buffer_size = 32768"

definition windows_env_get ::
    "environment \<Rightarrow> cstring \<Rightarrow> cstring option \<Rightarrow> ten_world \<Rightarrow> (cstring option \<times> cstring \<times> ten_world) option" where
  "windows_env_get env buffer name w =
     (case name of
        None \<Rightarrow> Some (None, buffer, ten__set_error TEN_ERROR_NULL_ARGUMENT w)
      | Some n \<Rightarrow>
          (case env n of
             None \<Rightarrow> Some (None, buffer, ten__set_error TEN_OK w)
           | Some v \<Rightarrow>
               if v = [] then Some (None, [], ten__set_error TEN_OK w)
               else if length v < env_buffer_size then Some (Some v, v, ten__set_error TEN_OK w)
               else None))"

lemma env_get_set:
  "ten_env_set setenv env (Some n) (Some v) w = (TEN_OK, env', w') \<Longrightarrow> fst (ten_env_get env' (Some m) w') = (if m = n then Some v else env m)"
  by (auto simp: ten_env_set_def ten_env_get_def split: if_splits)

text \<open>Where the two versions agree: values that have bytes and fit the buffer.\<close>

lemma env_get_same:
  "(case env n of None \<Rightarrow> True | Some v \<Rightarrow> v \<noteq> [] \<and> length v < env_buffer_size) \<Longrightarrow>
   map_option fst (windows_env_get env buffer (Some n) w) = Some (fst (ten_env_get env (Some n) w))"
  by (auto simp: windows_env_get_def ten_env_get_def split: option.splits)

section \<open>The command line is what it should be\<close>

definition quoted :: "cstring \<Rightarrow> cstring" where
  "quoted arg = (if need_quotes arg then [0x22] @ arg @ [0x22] else arg)"

fun command_line :: "cstring list \<Rightarrow> cstring" where
  "command_line [] = []"
| "command_line [arg] = quoted arg"
| "command_line (arg # args) = quoted arg @ [0x20] @ command_line args"

text \<open>What the loop appends: the arguments with a space before each but the first.\<close>

definition line_part :: "cstring list \<Rightarrow> bool \<Rightarrow> cstring" where
  "line_part args first = (if args = [] then [] else (if first then [] else [0x20]) @ command_line args)"

lemma line_part_Cons: "line_part (arg # args) first = (if first then [] else [0x20]) @ quoted arg @ line_part args False"
  by (cases args) (simp_all add: line_part_def)

definition line_size :: "cstring list \<Rightarrow> nat" where
  "line_size args = sum_list (map (\<lambda>arg. length arg + 3) args)"

lemma line_part_length: "length (line_part args first) \<le> line_size args"
proof (induction args arbitrary: first)
  case (Cons arg args)
  have "length (quoted arg) \<le> length arg + 2" by (simp add: quoted_def)
  then show ?case using Cons [of False] by (simp add: line_part_Cons line_size_def)
qed (simp add: line_part_def)

lemma store_optional:
  assumes "filled n ys st" "length ys + length (if b then xs else []) \<le> n"
  shows "\<exists>st'. (if b then store xs st else Some st) = Some st' \<and> filled n (ys @ (if b then xs else [])) st'"
proof (cases b)
  case True
  then show ?thesis using assms store_filled [OF assms(1), of xs] by simp
next
  case False
  then show ?thesis using assms(1) by (cases st) simp
qed

lemma loop_fills:
  "filled n ys st \<Longrightarrow> length ys + length (line_part args first) \<le> n \<Longrightarrow>
   \<exists>st'. command_line_loop args first st = Some st' \<and> filled n (ys @ line_part args first) st'"
proof (induction args arbitrary: ys st first)
  case Nil
  then show ?case by (cases st) (simp add: line_part_def)
next
  case (Cons arg args)
  define q where "q = (if need_quotes arg then [0x22] else [] :: cstring)"
  define sep where "sep = (if \<not> first then [0x20] else [] :: cstring)"
  have line: "line_part (arg # args) first = sep @ q @ arg @ q @ line_part args False"
    by (simp add: line_part_Cons quoted_def q_def sep_def)
  have room: "length ys + (length sep + (length q + (length arg + (length q + length (line_part args False))))) \<le> n"
    using Cons.prems(2) unfolding line by simp
  obtain st1 where st1: "(if \<not> first then store [0x20] st else Some st) = Some st1" "filled n (ys @ sep) st1"
    using store_optional [OF Cons.prems(1), of "\<not> first" "[0x20]"] room unfolding sep_def [symmetric] by auto
  obtain st2 where st2: "(if need_quotes arg then store [0x22] st1 else Some st1) = Some st2" "filled n ((ys @ sep) @ q) st2"
    using store_optional [OF st1(2), of "need_quotes arg" "[0x22]"] room unfolding q_def [symmetric] by auto
  obtain st3 where st3: "store arg st2 = Some st3" "filled n (((ys @ sep) @ q) @ arg) st3"
    using store_filled [OF st2(2), of arg] room by auto
  obtain st4 where st4: "(if need_quotes arg then store [0x22] st3 else Some st3) = Some st4"
      "filled n ((((ys @ sep) @ q) @ arg) @ q) st4"
    using store_optional [OF st3(2), of "need_quotes arg" "[0x22]"] room unfolding q_def [symmetric] by auto
  obtain st' where "command_line_loop args False st4 = Some st'"
      "filled n (((((ys @ sep) @ q) @ arg) @ q) @ line_part args False) st'"
    using Cons.IH [OF st4(2), of False] room by auto
  moreover have "command_line_loop (arg # args) first st = command_line_loop args False st4"
    using st1(1) st2(1) st3(1) st4(1) by simp
  ultimately show ?case by (simp add: line)
qed

lemma total_exact: "unat sum0 + line_size args < 2 ^ 64 \<Longrightarrow> unat (command_line_total args sum0) = unat sum0 + line_size args"
proof (induction args arbitrary: sum0)
  case (Cons arg args)
  have len: "length arg + 3 < 2 ^ 64" using Cons.prems by (simp add: line_size_def)
  then have s: "unat (strlen arg) = length arg" by (simp add: strlen_def unat_of_nat_size)
  have a: "unat (strlen arg + 3) = length arg + 3" using len s by (subst unat_add_size) simp_all
  have t: "unat (sum0 + (strlen arg + 3)) = unat sum0 + (length arg + 3)"
    using Cons.prems a by (subst unat_add_size) (simp_all add: line_size_def)
  then show ?case using Cons.IH [of "sum0 + (strlen arg + 3)"] Cons.prems by (simp add: line_size_def)
qed (simp add: line_size_def)

lemma build_command_line_spec:
  assumes "line_size args < 2 ^ 63" "libc_malloc (command_line_total args 0 + 1)"
  shows "\<exists>rest. ten__build_command_line libc_malloc args = Some (Block (map Some (command_line args @ [0]) @ rest))"
proof -
  have sum0: "unat (command_line_total args 0) = line_size args"
    using total_exact [of 0 args] assms(1) by simp
  then have n: "unat (command_line_total args 0 + 1) = line_size args + 1"
    using assms(1) by (subst unat_add_size) simp_all
  have line: "line_part args True = command_line args" by (simp add: line_part_def)
  then have room: "length (command_line args) \<le> line_size args" using line_part_length [of args True] by simp
  obtain st where st: "command_line_loop args True (0, Block (replicate (line_size args + 1) None)) = Some st"
      "filled (line_size args + 1) (command_line args) st"
    using loop_fills [OF filled_fresh [of "line_size args + 1"], of args True] room line by auto
  obtain st' where "store [0] st = Some st'" "filled (line_size args + 1) (command_line args @ [0]) st'"
    using store_filled [OF st(2), of "[0]"] room by auto
  then show ?thesis
    using st assms(2) n by (auto simp: ten__build_command_line_def filled_def)
qed

section \<open>Reading the arguments back\<close>

text \<open>
  How a program on Windows splits its command line: blanks outside quotes end an argument, quotes
  open and close; \<open>2 n\<close> backslashes before a quote stand for \<open>n\<close>, and one more makes the quote an
  ordinary character. The state is whether a quote is open, the argument read so far, if one has
  been begun, and how many backslashes wait for what follows them.
\<close>

definition begun :: "cstring option \<Rightarrow> cstring" where
  "begun cur = (case cur of None \<Rightarrow> [] | Some a \<Rightarrow> a)"

primrec split_line :: "cstring \<Rightarrow> bool \<Rightarrow> cstring option \<Rightarrow> nat \<Rightarrow> cstring list" where
  "split_line [] open_quote cur n = (case cur of None \<Rightarrow> [] | Some a \<Rightarrow> [a @ replicate n 0x5C])"
| "split_line (c # s) open_quote cur n =
     (if c = 0x5C then split_line s open_quote (Some (begun cur)) (Suc n)
      else if c = 0x22
      then let a = begun cur @ replicate (n div 2) 0x5C
           in if odd n then split_line s open_quote (Some (a @ [0x22])) 0 else split_line s (\<not> open_quote) (Some a) 0
      else if \<not> open_quote \<and> (c = 0x20 \<or> c = 0x09)
      then (case cur of None \<Rightarrow> [] | Some a \<Rightarrow> [a @ replicate n 0x5C]) @ split_line s False None 0
      else split_line s open_quote (Some (begun cur @ replicate n 0x5C @ [c])) 0)"

definition read_arguments :: "cstring \<Rightarrow> cstring list" where
  "read_arguments line = split_line line False None 0"

text \<open>The arguments that survive: no quote, no tab without a space, no backslash at the end of one with a space.\<close>

definition survives :: "cstring \<Rightarrow> bool" where
  "survives arg \<longleftrightarrow> 0x22 \<notin> set arg \<and> (0x09 \<in> set arg \<longrightarrow> 0x20 \<in> set arg) \<and> (0x20 \<in> set arg \<longrightarrow> last arg \<noteq> 0x5C)"

lemma split_plain:
  assumes "0x22 \<notin> set t" "open_quote \<or> 0x20 \<notin> set t \<and> 0x09 \<notin> set t" "cur = None \<longrightarrow> t \<noteq> []"
  shows "\<exists>a m. split_line (t @ rest) open_quote cur n = split_line rest open_quote (Some a) m \<and>
    a @ replicate m 0x5C = begun cur @ replicate n 0x5C @ t \<and> (t \<noteq> [] \<longrightarrow> last t \<noteq> 0x5C \<longrightarrow> m = 0) \<and> (t = [] \<longrightarrow> m = n)"
  using assms
proof (induction t arbitrary: cur n)
  case Nil
  then show ?case by (cases cur) (auto simp: begun_def)
next
  case (Cons c t)
  show ?case
  proof (cases "c = 0x5C")
    case True
    obtain a m where "split_line (t @ rest) open_quote (Some (begun cur)) (Suc n) = split_line rest open_quote (Some a) m"
        "a @ replicate m 0x5C = begun cur @ replicate (Suc n) 0x5C @ t" "t \<noteq> [] \<longrightarrow> last t \<noteq> 0x5C \<longrightarrow> m = 0"
      using Cons.IH [of "Some (begun cur)" "Suc n"] Cons.prems by (auto simp: begun_def)
    then have "split_line ((c # t) @ rest) open_quote cur n = split_line rest open_quote (Some a) m \<and>
        a @ replicate m 0x5C = begun cur @ replicate n 0x5C @ c # t \<and> (last (c # t) \<noteq> 0x5C \<longrightarrow> m = 0)"
      using True by (simp add: replicate_app_Cons_same)
    then show ?thesis by blast
  next
    case False
    obtain a m where "split_line (t @ rest) open_quote (Some (begun cur @ replicate n 0x5C @ [c])) 0 = split_line rest open_quote (Some a) m"
        "a @ replicate m 0x5C = (begun cur @ replicate n 0x5C @ [c]) @ t" "t \<noteq> [] \<longrightarrow> last t \<noteq> 0x5C \<longrightarrow> m = 0" "t = [] \<longrightarrow> m = 0"
      using Cons.IH [of "Some (begun cur @ replicate n 0x5C @ [c])" 0] Cons.prems by (auto simp: begun_def)
    then show ?thesis using False Cons.prems by auto
  qed
qed

lemma split_quoted:
  assumes "survives arg" "rest = [] \<or> hd rest = 0x20"
  shows "split_line (quoted arg @ rest) False None 0 = arg # split_line (tl rest) False None 0"
proof (cases "need_quotes arg")
  case True
  obtain a m where s: "split_line (arg @ 0x22 # rest) True (Some []) 0 = split_line (0x22 # rest) True (Some a) m"
      "a @ replicate m 0x5C = arg" "arg \<noteq> [] \<longrightarrow> last arg \<noteq> 0x5C \<longrightarrow> m = 0" "arg = [] \<longrightarrow> m = 0"
    using split_plain [of arg True "Some []" "0x22 # rest" 0] assms(1) by (auto simp: survives_def begun_def)
  have m: "m = 0" using s(3,4) assms(1) True by (auto simp: survives_def need_quotes_def)
  then have a: "a = arg" using s(2) by simp
  have "split_line (quoted arg @ rest) False None 0 = split_line rest False (Some arg) 0"
    using True s(1) m a by (simp add: quoted_def begun_def)
  then show ?thesis using assms(2) by (cases rest) auto
next
  case False
  obtain a m where s: "split_line (arg @ rest) False None 0 = split_line rest False (Some a) m" "a @ replicate m 0x5C = arg"
    using split_plain [of arg False None rest 0] assms(1) False by (auto simp: survives_def need_quotes_def begun_def)
  then show ?thesis using assms(2) False by (cases rest) (auto simp: quoted_def)
qed

lemma read_command_line: "\<forall>arg \<in> set args. survives arg \<Longrightarrow> read_arguments (command_line args) = args"
proof (induction args rule: command_line.induct)
  case (2 arg)
  then show ?case using split_quoted [of arg "[]"] by (simp add: read_arguments_def)
next
  case (3 arg b args)
  then show ?case using split_quoted [of arg "0x20 # command_line (b # args)"] by (simp add: read_arguments_def)
qed (simp add: read_arguments_def)

text \<open>What does not survive: a quote is lost, a tab splits, and a backslash at the end joins two arguments.\<close>

lemma arguments_lost:
  "read_arguments (command_line [ascii ''a'', [0x22]]) = [ascii ''a'', []]"
  "read_arguments (command_line [ascii ''a'' @ 0x09 # ascii ''b'']) = [ascii ''a'', ascii ''b'']"
  "read_arguments (command_line [ascii ''a '' @ [0x5C], ascii ''b'']) = [ascii ''a '' @ 0x22 # ascii '' b'']"
  by code_simp+

lemma command_line_read:
  assumes "\<forall>arg \<in> set args. 0 \<notin> set arg \<and> survives arg" "line_size args < 2 ^ 63"
    and "libc_malloc (command_line_total args 0 + 1)"
  shows "\<exists>line cells. ten__build_command_line libc_malloc args = Some (Block cells) \<and> c_string cells = Some line \<and>
    read_arguments line = args"
proof -
  obtain rest where b: "ten__build_command_line libc_malloc args = Some (Block (map Some (command_line args @ [0]) @ rest))"
    using build_command_line_spec [of args libc_malloc] assms(2,3) by blast
  have "0 \<notin> set (quoted arg)" if "0 \<notin> set arg" for arg using that by (auto simp: quoted_def)
  then have "0 \<notin> set (command_line args)"
    using assms(1) by (induction args rule: command_line.induct) auto
  then have "c_string (map Some (command_line args @ [0]) @ rest) = Some (command_line args)"
    using c_string_of_text [of "command_line args" rest] by simp
  then show ?thesis using b read_command_line assms(1) by blast
qed

end
