(* ===== verification/Ten_Plugin.thy ===== *)
theory Ten_Plugin
  imports Ten_Memory
begin

text \<open>
  Plugins (\<open>include/ten/plugin.h\<close>, \<open>src/platform/posix/plugin_posix.c\<close>) over the dynamic loader
  (\<open>dlopen\<close>, \<open>dlsym\<close>, \<open>dlclose\<close>) and the code of the plugin, which are a record of functions on the
  state of the process. The contract of the loader, a locale, counts the references to libraries
  that are open; the lemmas show that a plugin's life leaves none behind.
\<close>

section \<open>The loader\<close>

record ('h, 'f, 'p) loader =
  ld_open :: "cstring \<Rightarrow> 'p \<Rightarrow> 'h option \<times> 'p"
  ld_symbol :: "'h \<Rightarrow> cstring \<Rightarrow> 'p \<Rightarrow> 'f option"
  ld_close :: "'h \<Rightarrow> 'p \<Rightarrow> 'p"
  ld_call_int :: "'f \<Rightarrow> 'p \<Rightarrow> int \<times> 'p"
  ld_call_void :: "'f \<Rightarrow> 'p \<Rightarrow> 'p"

text \<open>
  \<open>refs\<close> is how often a library is held open. The code of a plugin is taken not to load or unload
  libraries itself.
\<close>

locale dynamic_loader =
  fixes ld :: "('h, 'f, 'p) loader"
    and refs :: "'p \<Rightarrow> 'h \<Rightarrow> nat"
  assumes open_law: "ld_open ld path p = (r, p') \<Longrightarrow>
      refs p' = (case r of None \<Rightarrow> refs p | Some h \<Rightarrow> (refs p)(h := Suc (refs p h)))"
    and close_law: "0 < refs p h \<Longrightarrow> refs (ld_close ld h p) = (refs p)(h := refs p h - 1)"
    and call_int_law: "ld_call_int ld f p = (n, p') \<Longrightarrow> refs p' = refs p"
    and call_void_law: "refs (ld_call_void ld f p) = refs p"

section \<open>Operations\<close>

record 'h ten_plugin =
  pg_handle :: 'h

definition sizeof_ten_plugin :: size_t where
  "sizeof_ten_plugin = 8"

definition ten_plugin_load ::
    "('h, 'f, 'p) loader \<Rightarrow> cstring option \<Rightarrow> 'p \<Rightarrow> ten_world \<Rightarrow> 'h ten_plugin option \<times> 'p \<times> ten_world" where
  "ten_plugin_load ld path p w =
     (case path of
        None \<Rightarrow> (None, p, ten__set_error TEN_ERROR_NULL_ARGUMENT w)
      | Some name \<Rightarrow>
          (case ld_open ld name p of
             (None, p1) \<Rightarrow> (None, p1, ten__set_error TEN_ERROR_IO w)
           | (Some h, p1) \<Rightarrow>
               let (plugin, w1) = ten_malloc sizeof_ten_plugin w
               in if is_Null plugin then (None, ld_close ld h p1, w1)
                  else (Some \<lparr>pg_handle = h\<rparr>, p1, ten__set_error TEN_OK w1)))"

definition ten_plugin_symbol ::
    "('h, 'f, 'p) loader \<Rightarrow> 'h ten_plugin option \<Rightarrow> cstring option \<Rightarrow> 'p \<Rightarrow> ten_world \<Rightarrow> 'f option \<times> ten_world" where
  "ten_plugin_symbol ld plugin name p w =
     (case (plugin, name) of
        (Some g, Some n) \<Rightarrow>
          (case ld_symbol ld (pg_handle g) n p of
             None \<Rightarrow> (None, ten__set_error TEN_ERROR_NOT_FOUND w)
           | Some addr \<Rightarrow> (Some addr, ten__set_error TEN_OK w))
      | _ \<Rightarrow> (None, ten__set_error TEN_ERROR_NULL_ARGUMENT w))"

definition ten_plugin_unload ::
    "('h, 'f, 'p) loader \<Rightarrow> 'h ten_plugin option \<Rightarrow> 'p \<Rightarrow> ten_world \<Rightarrow> ('p \<times> ten_world) option" where
  "ten_plugin_unload ld plugin p w =
     (case plugin of
        None \<Rightarrow> Some (p, w)
      | Some g \<Rightarrow> do { let p1 = ld_close ld (pg_handle g) p; w1 \<leftarrow> free_struct w; Some (p1, w1) })"

text \<open>The result is a code of the library, or whatever the plugin's function returned.\<close>

definition ten_plugin_call_init ::
    "('h, 'f, 'p) loader \<Rightarrow> 'h ten_plugin option \<Rightarrow> 'p \<Rightarrow> ten_world \<Rightarrow> int \<times> 'p \<times> ten_world" where
  "ten_plugin_call_init ld plugin p w =
     (if plugin = None then (error_int TEN_ERROR_NULL_ARGUMENT, p, ten__set_error TEN_ERROR_NULL_ARGUMENT w)
      else
        case ten_plugin_symbol ld plugin (Some (ascii ''ten_plugin_init'')) p w of
          (None, w1) \<Rightarrow> (error_int TEN_ERROR_NOT_SUPPORTED, p, ten__set_error TEN_ERROR_NOT_SUPPORTED w1)
        | (Some fn, w1) \<Rightarrow> (case ld_call_int ld fn p of (n, p1) \<Rightarrow> (n, p1, w1)))"

definition ten_plugin_call_shutdown ::
    "('h, 'f, 'p) loader \<Rightarrow> 'h ten_plugin option \<Rightarrow> 'p \<Rightarrow> ten_world \<Rightarrow> 'p \<times> ten_world" where
  "ten_plugin_call_shutdown ld plugin p w =
     (if plugin = None then (p, w)
      else
        case ten_plugin_symbol ld plugin (Some (ascii ''ten_plugin_shutdown'')) p w of
          (None, w1) \<Rightarrow> (p, w1)
        | (Some fn, w1) \<Rightarrow> (ld_call_void ld fn p, w1))"

text \<open>
  The Windows version (\<open>src/platform/windows/plugin_windows.c\<close>) is the same code over \<open>LoadLibraryA\<close>,
  \<open>GetProcAddress\<close> and \<open>FreeLibrary\<close>, which are the loader there.
\<close>

definition windows_plugin_load ::
    "('h, 'f, 'p) loader \<Rightarrow> cstring option \<Rightarrow> 'p \<Rightarrow> ten_world \<Rightarrow> 'h ten_plugin option \<times> 'p \<times> ten_world" where
  "windows_plugin_load = ten_plugin_load"

definition windows_plugin_symbol ::
    "('h, 'f, 'p) loader \<Rightarrow> 'h ten_plugin option \<Rightarrow> cstring option \<Rightarrow> 'p \<Rightarrow> ten_world \<Rightarrow> 'f option \<times> ten_world" where
  "windows_plugin_symbol = ten_plugin_symbol"

definition windows_plugin_unload ::
    "('h, 'f, 'p) loader \<Rightarrow> 'h ten_plugin option \<Rightarrow> 'p \<Rightarrow> ten_world \<Rightarrow> ('p \<times> ten_world) option" where
  "windows_plugin_unload = ten_plugin_unload"

definition windows_plugin_call_init ::
    "('h, 'f, 'p) loader \<Rightarrow> 'h ten_plugin option \<Rightarrow> 'p \<Rightarrow> ten_world \<Rightarrow> int \<times> 'p \<times> ten_world" where
  "windows_plugin_call_init = ten_plugin_call_init"

definition windows_plugin_call_shutdown ::
    "('h, 'f, 'p) loader \<Rightarrow> 'h ten_plugin option \<Rightarrow> 'p \<Rightarrow> ten_world \<Rightarrow> 'p \<times> ten_world" where
  "windows_plugin_call_shutdown = ten_plugin_call_shutdown"

section \<open>The life of a plugin\<close>

datatype plugin_command = Call_Init | Call_Shutdown | Find_Symbol cstring

fun plugin_step ::
    "('h, 'f, 'p) loader \<Rightarrow> 'h ten_plugin \<Rightarrow> plugin_command \<Rightarrow> 'p \<times> ten_world \<Rightarrow> 'p \<times> ten_world" where
  "plugin_step ld g Call_Init (p, w) = snd (ten_plugin_call_init ld (Some g) p w)"
| "plugin_step ld g Call_Shutdown (p, w) = ten_plugin_call_shutdown ld (Some g) p w"
| "plugin_step ld g (Find_Symbol n) (p, w) = (p, snd (ten_plugin_symbol ld (Some g) (Some n) p w))"

lemma symbol_live: "ten_plugin_symbol ld g n p w = (r, w1) \<Longrightarrow> live w1 = live w \<and> requests w1 = requests w"
  by (auto simp: ten_plugin_symbol_def split: option.splits)

lemma symbol_live_snd [simp]: "live (snd (ten_plugin_symbol ld g n p w)) = live w"
  using symbol_live by (metis prod.collapse)

context dynamic_loader
begin

lemma plugin_step_keeps:
  assumes "plugin_step ld g c (p, w) = (p1, w1)"
  shows "refs p1 = refs p \<and> live w1 = live w"
proof (cases c)
  case Call_Init
  obtain r w2 where s: "ten_plugin_symbol ld (Some g) (Some (ascii ''ten_plugin_init'')) p w = (r, w2)"
    by (metis surj_pair)
  show ?thesis
    using assms Call_Init s symbol_live [OF s] call_int_law
    by (cases r) (auto simp: ten_plugin_call_init_def split: prod.splits)
next
  case Call_Shutdown
  obtain r w2 where s: "ten_plugin_symbol ld (Some g) (Some (ascii ''ten_plugin_shutdown'')) p w = (r, w2)"
    by (metis surj_pair)
  show ?thesis
    using assms Call_Shutdown s symbol_live [OF s] call_void_law
    by (cases r) (auto simp: ten_plugin_call_shutdown_def)
next
  case (Find_Symbol n)
  then show ?thesis
    using assms by auto
qed

lemma plugin_run_keeps:
  "fold (plugin_step ld g) cs (p, w) = (p1, w1) \<Longrightarrow> refs p1 = refs p \<and> live w1 = live w"
proof (induction cs arbitrary: p w)
  case (Cons c cs)
  obtain p2 w2 where "plugin_step ld g c (p, w) = (p2, w2)" by (metis surj_pair)
  then show ?case using Cons plugin_step_keeps by fastforce
qed simp

lemma plugin_life_law:
  "\<exists>r p1 w1. ten_plugin_load ld path p w = (r, p1, w1) \<and>
    (case r of
       None \<Rightarrow> refs p1 = refs p \<and> live w1 = live w \<and> g_ten_last_error w1 \<noteq> TEN_OK
     | Some g \<Rightarrow> \<exists>p2 w2 p3 w3. fold (plugin_step ld g) cs (p1, w1) = (p2, w2) \<and>
         ten_plugin_unload ld (Some g) p2 w2 = Some (p3, w3) \<and> refs p3 = refs p \<and> live w3 = live w)"
proof (cases path)
  case None
  then show ?thesis by (simp add: ten_plugin_load_def)
next
  case (Some name)
  obtain r p1 where call: "ld_open ld name p = (r, p1)" by (metis surj_pair)
  note law = open_law [OF call]
  show ?thesis
  proof (cases r)
    case None
    then show ?thesis using call law Some by (simp add: ten_plugin_load_def)
  next
    case h: (Some h)
    then have held: "refs p1 = (refs p)(h := Suc (refs p h))" using law by simp
    show ?thesis
    proof (cases rule: ten_malloc_cases [where n = sizeof_ten_plugin and w = w])
      case (refused w1)
      then show ?thesis
        using call h Some held close_law [of p1 h] by (simp add: ten_plugin_load_def)
    next
      case (granted w1)
      let ?g = "\<lparr>pg_handle = h\<rparr>"
      obtain p2 w2 where run: "fold (plugin_step ld ?g) cs (p1, ten__set_error TEN_OK w1) = (p2, w2)" by (metis surj_pair)
      then have "refs p2 = refs p1" "live w2 = live w1" using plugin_run_keeps by fastforce+
      then show ?thesis
        using call h Some granted held close_law [of p2 h] run
        by (auto simp: ten_plugin_load_def ten_plugin_unload_def)
    qed
  qed
qed

end

section \<open>A loader\<close>

text \<open>Libraries that can be loaded, with the functions they export; a library is its own handle.\<close>

definition table_loader ::
    "(cstring \<Rightarrow> (cstring \<Rightarrow> int option) option) \<Rightarrow> (cstring, int, cstring \<Rightarrow> nat) loader" where
  "table_loader libs =
     \<lparr>ld_open = (\<lambda>path p. case libs path of None \<Rightarrow> (None, p) | Some exports \<Rightarrow> (Some path, p(path := Suc (p path)))),
      ld_symbol = (\<lambda>h n p. Option.bind (libs h) (\<lambda>exports. exports n)),
      ld_close = (\<lambda>h p. p(h := p h - 1)), ld_call_int = (\<lambda>f p. (f, p)), ld_call_void = (\<lambda>f p. p)\<rparr>"

lemma table_loader_law: "dynamic_loader (table_loader libs) (\<lambda>p. p)"
  by unfold_locales (auto simp: table_loader_def split: option.splits)

interpretation table: dynamic_loader "table_loader libs" "\<lambda>p. p" for libs
  by (rule table_loader_law)

end
