(* ===== verification/Ten_Sync_Windows.thy ===== *)
theory Ten_Sync_Windows
  imports Ten_Sync
begin

text \<open>
  The Windows version of synchronisation and threads (\<open>src/platform/windows/sync_windows.c\<close>,
  \<open>thread_windows.c\<close>), and what both versions do besides: sleeping and thread identities. The lemmas
  show that both turn the answers of the operating system into the same results: each Windows
  operation is the POSIX operation under some answer. What the systems answer is their own: a critical
  section can be entered again by its owner, a semaphore counts to \<open>LONG_MAX\<close>, and timeouts of
  \<open>2 ^ 32 - 1\<close> milliseconds and more are cut to 32 bits.
\<close>

section \<open>Mutexes\<close>

text \<open>Critical sections cannot fail to be made, entered or left; \<open>TryEnterCriticalSection\<close> answers.\<close>

definition sizeof_windows_mutex :: size_t where
  "sizeof_windows_mutex = 40"

definition windows__mutex_create :: "ten_world \<Rightarrow> handle option \<times> ten_world" where
  "windows__mutex_create w =
     (let (mutex, w1) = ten_malloc sizeof_windows_mutex w
      in if is_Null mutex then (None, w1) else (Some (), ten__set_error TEN_OK w1))"

definition windows_mutex_create :: "ten_world \<Rightarrow> handle option \<times> ten_world" where
  "windows_mutex_create w = windows__mutex_create w"

definition windows_mutex_create_recursive :: "ten_world \<Rightarrow> handle option \<times> ten_world" where
  "windows_mutex_create_recursive w = windows__mutex_create w"

definition windows_mutex_destroy :: "handle option \<Rightarrow> ten_world \<Rightarrow> ten_world option" where
  "windows_mutex_destroy mutex w = (case mutex of None \<Rightarrow> Some w | Some _ \<Rightarrow> free_struct w)"

definition windows_mutex_lock :: "handle option \<Rightarrow> ten_world \<Rightarrow> ten_error_code \<times> ten_world" where
  "windows_mutex_lock mutex w =
     (if mutex = None then (TEN_ERROR_NULL_ARGUMENT, ten__set_error TEN_ERROR_NULL_ARGUMENT w)
      else (TEN_OK, ten__set_error TEN_OK w))"

definition windows_mutex_try_lock :: "handle option \<Rightarrow> bool \<Rightarrow> ten_world \<Rightarrow> ten_error_code \<times> ten_world" where
  "windows_mutex_try_lock mutex entered w =
     (if mutex = None then (TEN_ERROR_NULL_ARGUMENT, ten__set_error TEN_ERROR_NULL_ARGUMENT w)
      else if \<not> entered then (TEN_ERROR_TIMEOUT, ten__set_error TEN_ERROR_TIMEOUT w)
      else (TEN_OK, ten__set_error TEN_OK w))"

definition windows_mutex_unlock :: "handle option \<Rightarrow> ten_world \<Rightarrow> ten_error_code \<times> ten_world" where
  "windows_mutex_unlock mutex w =
     (if mutex = None then (TEN_ERROR_NULL_ARGUMENT, ten__set_error TEN_ERROR_NULL_ARGUMENT w)
      else (TEN_OK, ten__set_error TEN_OK w))"

section \<open>Semaphores\<close>

definition sizeof_windows_semaphore :: size_t where
  "sizeof_windows_semaphore = 8"

text \<open>The initial count is cut to a signed \<open>LONG\<close>; \<open>CreateSemaphoreA\<close> says whether it makes one.\<close>

definition windows_semaphore_create :: "u32 \<Rightarrow> (int \<Rightarrow> bool) \<Rightarrow> ten_world \<Rightarrow> (handle option \<times> ten_world) option" where
  "windows_semaphore_create initial create_semaphore w =
     (let (semaphore, w1) = ten_malloc sizeof_windows_semaphore w
      in if is_Null semaphore then Some (None, w1)
         else if \<not> create_semaphore (sint initial)
         then do { w2 \<leftarrow> ten_free semaphore w1; Some (None, ten__set_error TEN_ERROR_SYSTEM w2) }
         else Some (Some (), ten__set_error TEN_OK w1))"

text \<open>A call that answers with success or not, after a null check.\<close>

definition answered :: "bool \<Rightarrow> bool \<Rightarrow> ten_world \<Rightarrow> ten_error_code \<times> ten_world" where
  "answered present ok w =
     (if \<not> present then (TEN_ERROR_NULL_ARGUMENT, ten__set_error TEN_ERROR_NULL_ARGUMENT w)
      else if \<not> ok then (TEN_ERROR_SYSTEM, ten__set_error TEN_ERROR_SYSTEM w)
      else (TEN_OK, ten__set_error TEN_OK w))"

definition windows_semaphore_wait :: "handle option \<Rightarrow> bool \<Rightarrow> ten_world \<Rightarrow> ten_error_code \<times> ten_world" where
  "windows_semaphore_wait semaphore wait_object_0 w = answered (semaphore \<noteq> None) wait_object_0 w"

definition windows_semaphore_post :: "handle option \<Rightarrow> bool \<Rightarrow> ten_world \<Rightarrow> ten_error_code \<times> ten_world" where
  "windows_semaphore_post semaphore released w = answered (semaphore \<noteq> None) released w"

definition windows_semaphore_destroy :: "handle option \<Rightarrow> ten_world \<Rightarrow> ten_world option" where
  "windows_semaphore_destroy semaphore w = (case semaphore of None \<Rightarrow> Some w | Some _ \<Rightarrow> free_struct w)"

section \<open>Condition variables\<close>

definition sizeof_windows_cond :: size_t where
  "sizeof_windows_cond = 8"

definition windows_cond_create :: "ten_world \<Rightarrow> handle option \<times> ten_world" where
  "windows_cond_create w =
     (let (cond, w1) = ten_malloc sizeof_windows_cond w
      in if is_Null cond then (None, w1) else (Some (), ten__set_error TEN_OK w1))"

definition windows_cond_destroy :: "handle option \<Rightarrow> ten_world \<Rightarrow> ten_world option" where
  "windows_cond_destroy cond w = (case cond of None \<Rightarrow> Some w | Some _ \<Rightarrow> free_struct w)"

definition windows_cond_wait :: "handle option \<Rightarrow> handle option \<Rightarrow> bool \<Rightarrow> ten_world \<Rightarrow> ten_error_code \<times> ten_world" where
  "windows_cond_wait cond mutex slept w = answered (cond \<noteq> None \<and> mutex \<noteq> None) slept w"

definition ERROR_TIMEOUT :: u32 where
  "ERROR_TIMEOUT = 1460"

text \<open>
  \<open>SleepConditionVariableCS\<close> with the timeout cut to 32 bits: \<open>None\<close> when it was woken, and the
  code of \<open>GetLastError\<close> otherwise. The timeout \<open>2 ^ 32 - 1\<close> is \<open>INFINITE\<close>.
\<close>

definition INFINITE :: u32 where
  "INFINITE = 0xFFFFFFFF"

definition windows_cond_wait_timeout ::
    "handle option \<Rightarrow> handle option \<Rightarrow> 64 word \<Rightarrow> (u32 \<Rightarrow> u32 option) \<Rightarrow> ten_world \<Rightarrow> ten_error_code \<times> ten_world" where
  "windows_cond_wait_timeout cond mutex milliseconds sleep_cs w =
     (if cond = None \<or> mutex = None
      then (TEN_ERROR_NULL_ARGUMENT, ten__set_error TEN_ERROR_NULL_ARGUMENT w)
      else
        case sleep_cs (ucast milliseconds) of
          Some e \<Rightarrow>
            if e = ERROR_TIMEOUT then (TEN_ERROR_TIMEOUT, ten__set_error TEN_ERROR_TIMEOUT w)
            else (TEN_ERROR_SYSTEM, ten__set_error TEN_ERROR_SYSTEM w)
        | None \<Rightarrow> (TEN_OK, ten__set_error TEN_OK w))"

definition windows_cond_signal :: "handle option \<Rightarrow> ten_world \<Rightarrow> ten_error_code \<times> ten_world" where
  "windows_cond_signal cond w =
     (if cond = None then (TEN_ERROR_NULL_ARGUMENT, ten__set_error TEN_ERROR_NULL_ARGUMENT w)
      else (TEN_OK, ten__set_error TEN_OK w))"

definition windows_cond_broadcast :: "handle option \<Rightarrow> ten_world \<Rightarrow> ten_error_code \<times> ten_world" where
  "windows_cond_broadcast cond w =
     (if cond = None then (TEN_ERROR_NULL_ARGUMENT, ten__set_error TEN_ERROR_NULL_ARGUMENT w)
      else (TEN_OK, ten__set_error TEN_OK w))"

section \<open>Threads\<close>

definition sizeof_windows_thread :: size_t where
  "sizeof_windows_thread = 32"

text \<open>The trampoline keeps the result of the thread's function in the handle's block.\<close>

record ('f, 'u, 'r) windows_thread =
  th_function :: 'f
  th_userdata :: 'u
  th_result :: "'r option"

definition ten__thread_trampoline ::
    "('f \<Rightarrow> 'u \<Rightarrow> 'r) \<Rightarrow> ('f, 'u, 'r) windows_thread \<Rightarrow> ('f, 'u, 'r) windows_thread" where
  "ten__thread_trampoline call thread = thread\<lparr>th_result := Some (call (th_function thread) (th_userdata thread))\<rparr>"

definition windows_thread_create ::
    "'f option \<Rightarrow> 'u \<Rightarrow> bool \<Rightarrow> ten_world \<Rightarrow> (('f, 'u, 'r) windows_thread option \<times> ten_world) option" where
  "windows_thread_create function userdata beginthreadex w =
     (case function of
        None \<Rightarrow> Some (None, ten__set_error TEN_ERROR_NULL_ARGUMENT w)
      | Some f \<Rightarrow>
          let (thread, w1) = ten_malloc sizeof_windows_thread w
          in if is_Null thread then Some (None, w1)
             else if \<not> beginthreadex
             then do { w2 \<leftarrow> ten_free thread w1; Some (None, ten__set_error TEN_ERROR_SYSTEM w2) }
             else Some (Some \<lparr>th_function = f, th_userdata = userdata, th_result = None\<rparr>, ten__set_error TEN_OK w1))"

definition windows_thread_join ::
    "('f, 'u, 'r) windows_thread option \<Rightarrow> bool \<Rightarrow> ten_world \<Rightarrow> (ten_error_code \<times> 'r option \<times> ten_world) option" where
  "windows_thread_join thread wait_object_0 w =
     (case thread of
        None \<Rightarrow> Some (TEN_ERROR_NULL_ARGUMENT, None, ten__set_error TEN_ERROR_NULL_ARGUMENT w)
      | Some t \<Rightarrow>
          if \<not> wait_object_0
          then do { w1 \<leftarrow> free_struct w; Some (TEN_ERROR_SYSTEM, None, ten__set_error TEN_ERROR_SYSTEM w1) }
          else do { w1 \<leftarrow> free_struct w; Some (TEN_OK, th_result t, ten__set_error TEN_OK w1) })"

section \<open>Sleeping and identities\<close>

text \<open>The time that \<open>nanosleep\<close> is asked for, and the milliseconds that \<open>Sleep\<close> is asked for.\<close>

definition ten_thread_sleep :: "64 word \<Rightarrow> timespec" where
  "ten_thread_sleep milliseconds = \<lparr>tv_sec = milliseconds div 1000, tv_nsec = (milliseconds mod 1000) * 1000000\<rparr>"

definition windows_thread_sleep :: "64 word \<Rightarrow> u32" where
  "windows_thread_sleep milliseconds = ucast milliseconds"

definition ten_thread_current_id :: "64 word \<Rightarrow> 64 word" where
  "ten_thread_current_id pthread_self = pthread_self"

definition windows_thread_current_id :: "u32 \<Rightarrow> 64 word" where
  "windows_thread_current_id current_thread_id = ucast current_thread_id"

section \<open>The versions agree\<close>

text \<open>
  The calls of a program, and what they give: a handle or none, a code, or nothing. The answer of the
  operating system is a parameter; on Windows \<open>None\<close> for success, or an error code.
\<close>

datatype sync_call =
    Create_Mutex bool | Destroy_Mutex "handle option" | Lock "handle option" | Try_Lock "handle option"
  | Unlock "handle option" | Create_Semaphore u32 | Wait_Semaphore "handle option" | Post_Semaphore "handle option"
  | Destroy_Semaphore "handle option" | Create_Cond | Destroy_Cond "handle option"
  | Wait_Cond "handle option" "handle option" | Wait_Timeout "handle option" "handle option" "64 word"
  | Signal_Cond "handle option" | Broadcast_Cond "handle option"

datatype sync_result = Made "handle option" | Code ten_error_code | Nothing

definition gives :: "('a \<Rightarrow> sync_result) \<Rightarrow> ('a \<times> ten_world) \<Rightarrow> sync_result \<times> ten_world" where
  "gives f = map_prod f id"

fun windows_sync :: "sync_call \<Rightarrow> u32 option \<Rightarrow> ten_world \<Rightarrow> (sync_result \<times> ten_world) option" where
  "windows_sync (Create_Mutex recursive) a w =
     Some (gives Made (if recursive then windows_mutex_create_recursive w else windows_mutex_create w))"
| "windows_sync (Destroy_Mutex m) a w = map_option (Pair Nothing) (windows_mutex_destroy m w)"
| "windows_sync (Lock m) a w = Some (gives Code (windows_mutex_lock m w))"
| "windows_sync (Try_Lock m) a w = Some (gives Code (windows_mutex_try_lock m (a = None) w))"
| "windows_sync (Unlock m) a w = Some (gives Code (windows_mutex_unlock m w))"
| "windows_sync (Create_Semaphore n) a w = map_option (gives Made) (windows_semaphore_create n (\<lambda>_. a = None) w)"
| "windows_sync (Wait_Semaphore s) a w = Some (gives Code (windows_semaphore_wait s (a = None) w))"
| "windows_sync (Post_Semaphore s) a w = Some (gives Code (windows_semaphore_post s (a = None) w))"
| "windows_sync (Destroy_Semaphore s) a w = map_option (Pair Nothing) (windows_semaphore_destroy s w)"
| "windows_sync Create_Cond a w = Some (gives Made (windows_cond_create w))"
| "windows_sync (Destroy_Cond c) a w = map_option (Pair Nothing) (windows_cond_destroy c w)"
| "windows_sync (Wait_Cond c m) a w = Some (gives Code (windows_cond_wait c m (a = None) w))"
| "windows_sync (Wait_Timeout c m ms) a w = Some (gives Code (windows_cond_wait_timeout c m ms (\<lambda>_. a) w))"
| "windows_sync (Signal_Cond c) a w = Some (gives Code (windows_cond_signal c w))"
| "windows_sync (Broadcast_Cond c) a w = Some (gives Code (windows_cond_broadcast c w))"

fun posix_sync :: "sync_call \<Rightarrow> int \<Rightarrow> timespec \<Rightarrow> ten_world \<Rightarrow> (sync_result \<times> ten_world) option" where
  "posix_sync (Create_Mutex recursive) rc now w =
     map_option (gives Made) (if recursive then ten_mutex_create_recursive (\<lambda>_. rc) w else ten_mutex_create (\<lambda>_. rc) w)"
| "posix_sync (Destroy_Mutex m) rc now w = map_option (Pair Nothing) (ten_mutex_destroy m w)"
| "posix_sync (Lock m) rc now w = Some (gives Code (ten_mutex_lock m rc w))"
| "posix_sync (Try_Lock m) rc now w = Some (gives Code (ten_mutex_try_lock m rc w))"
| "posix_sync (Unlock m) rc now w = Some (gives Code (ten_mutex_unlock m rc w))"
| "posix_sync (Create_Semaphore n) rc now w = map_option (gives Made) (ten_semaphore_create n (\<lambda>_. rc) w)"
| "posix_sync (Wait_Semaphore s) rc now w = Some (gives Code (ten_semaphore_wait s rc w))"
| "posix_sync (Post_Semaphore s) rc now w = Some (gives Code (ten_semaphore_post s rc w))"
| "posix_sync (Destroy_Semaphore s) rc now w = map_option (Pair Nothing) (ten_semaphore_destroy s w)"
| "posix_sync Create_Cond rc now w = map_option (gives Made) (ten_cond_create rc w)"
| "posix_sync (Destroy_Cond c) rc now w = map_option (Pair Nothing) (ten_cond_destroy c w)"
| "posix_sync (Wait_Cond c m) rc now w = Some (gives Code (ten_cond_wait c m rc w))"
| "posix_sync (Wait_Timeout c m ms) rc now w = Some (gives Code (ten_cond_wait_timeout c m ms now (\<lambda>_. rc) w))"
| "posix_sync (Signal_Cond c) rc now w = Some (gives Code (ten_cond_signal c rc w))"
| "posix_sync (Broadcast_Cond c) rc now w = Some (gives Code (ten_cond_broadcast c rc w))"

text \<open>The POSIX answer that stands for a Windows one; some calls cannot fail on Windows.\<close>

definition EINVAL :: int where "EINVAL = 22"

fun posix_answer :: "sync_call \<Rightarrow> u32 option \<Rightarrow> int" where
  "posix_answer (Try_Lock m) (Some e) = EBUSY"
| "posix_answer (Create_Semaphore n) (Some e) = EINVAL"
| "posix_answer (Wait_Semaphore s) (Some e) = EINVAL"
| "posix_answer (Post_Semaphore s) (Some e) = EINVAL"
| "posix_answer (Wait_Cond c m) (Some e) = EINVAL"
| "posix_answer (Wait_Timeout c m ms) (Some e) = (if e = ERROR_TIMEOUT then ETIMEDOUT else EINVAL)"
| "posix_answer _ _ = 0"

text \<open>
  The handles of the versions have different sizes, so the allocator must treat small requests alike.
\<close>

definition size_blind :: "installed_allocator \<Rightarrow> bool" where
  "size_blind a \<longleftrightarrow> (\<forall>r n m. unat n < 100 \<longrightarrow> unat m < 100 \<longrightarrow> do_malloc a r n = do_malloc a r m)"

lemma created_by_grant:
  "created sz rc w =
     (if \<not> grants_malloc sz w then Some (None, ten__set_error TEN_ERROR_OUT_OF_MEMORY (request False w))
      else if rc \<noteq> 0
      then Some (None, ten__set_error TEN_ERROR_SYSTEM (ten__set_error TEN_OK (request True w)\<lparr>live := live w\<rparr>))
      else Some (Some (), ten__set_error TEN_OK (request True w)))"
  by (simp add: created_def ten_malloc_def ten_free_def Let_def)

lemma small_granted:
  assumes "size_blind (g_ten_allocator w)" "unat n < 100" "unat m < 100"
  shows "grants_malloc n w = grants_malloc m w"
proof -
  have "n \<le> ptrdiff_max" "m \<le> ptrdiff_max" using assms(2,3) by (simp_all add: size_le_iff unat_ptrdiff_max)
  then show ?thesis using assms unfolding grants_malloc_def size_blind_def by blast
qed

lemma sync_call_same:
  assumes "size_blind (g_ten_allocator w)"
  shows "windows_sync c a w = posix_sync c (posix_answer c a) now w"
proof (cases c)
  case (Create_Mutex recursive)
  have "grants_malloc sizeof_windows_mutex w = grants_malloc sizeof_ten_mutex w"
    by (rule small_granted [OF assms]) (simp_all add: sizeof_windows_mutex_def sizeof_ten_mutex_def)
  then show ?thesis
    using Create_Mutex
    by (simp add: windows_mutex_create_recursive_def windows_mutex_create_def windows__mutex_create_def ten_malloc_def
        ten_mutex_create_recursive_def ten_mutex_create_def ten__mutex_create_def created_by_grant gives_def Let_def)
next
  case (Create_Semaphore n)
  have "grants_malloc sizeof_windows_semaphore w = grants_malloc sizeof_ten_semaphore w"
    by (rule small_granted [OF assms]) (simp_all add: sizeof_windows_semaphore_def sizeof_ten_semaphore_def)
  then show ?thesis
    using Create_Semaphore
    by (cases a) (simp_all add: windows_semaphore_create_def ten_malloc_def ten_semaphore_create_def created_by_grant
        gives_def Let_def ten_free_def EINVAL_def)
next
  case Create_Cond
  have "grants_malloc sizeof_windows_cond w = grants_malloc sizeof_ten_cond w"
    by (rule small_granted [OF assms]) (simp_all add: sizeof_windows_cond_def sizeof_ten_cond_def)
  then show ?thesis
    using Create_Cond
    by (simp add: windows_cond_create_def ten_malloc_def ten_cond_create_def created_by_grant gives_def Let_def)
qed (cases a; auto simp: windows_mutex_destroy_def ten_mutex_destroy_def windows_mutex_lock_def ten_mutex_lock_def
    windows_mutex_try_lock_def ten_mutex_try_lock_def windows_mutex_unlock_def ten_mutex_unlock_def
    windows_semaphore_wait_def ten_semaphore_wait_def windows_semaphore_post_def ten_semaphore_post_def
    windows_semaphore_destroy_def ten_semaphore_destroy_def windows_cond_destroy_def ten_cond_destroy_def
    windows_cond_wait_def ten_cond_wait_def windows_cond_wait_timeout_def ten_cond_wait_timeout_def
    windows_cond_signal_def ten_cond_signal_def windows_cond_broadcast_def ten_cond_broadcast_def
    answered_def checked_def destroyed_def EINVAL_def EBUSY_def ETIMEDOUT_def Let_def)+

lemma sync_allocator: "windows_sync c a w = Some (r, w') \<Longrightarrow> g_ten_allocator w' = g_ten_allocator w"
  by (cases c; cases a; auto simp: windows_mutex_create_recursive_def windows_mutex_create_def windows__mutex_create_def
      windows_mutex_destroy_def windows_mutex_lock_def windows_mutex_try_lock_def windows_mutex_unlock_def
      windows_semaphore_create_def windows_semaphore_wait_def windows_semaphore_post_def windows_semaphore_destroy_def
      windows_cond_create_def windows_cond_destroy_def windows_cond_wait_def windows_cond_wait_timeout_def
      windows_cond_signal_def windows_cond_broadcast_def answered_def gives_def ten_malloc_def ten_free_def Let_def
      split: if_splits option.splits)

primrec windows_run :: "(sync_call \<times> u32 option) list \<Rightarrow> ten_world \<Rightarrow> (sync_result list \<times> ten_world) option" where
  "windows_run [] w = Some ([], w)"
| "windows_run (c # cs) w =
     (case windows_sync (fst c) (snd c) w of
        None \<Rightarrow> None
      | Some (r, w1) \<Rightarrow> map_option (map_prod ((#) r) id) (windows_run cs w1))"

primrec posix_run :: "(sync_call \<times> int \<times> timespec) list \<Rightarrow> ten_world \<Rightarrow> (sync_result list \<times> ten_world) option" where
  "posix_run [] w = Some ([], w)"
| "posix_run (c # cs) w =
     (case posix_sync (fst c) (fst (snd c)) (snd (snd c)) w of
        None \<Rightarrow> None
      | Some (r, w1) \<Rightarrow> map_option (map_prod ((#) r) id) (posix_run cs w1))"

lemma sync_run_same:
  "size_blind (g_ten_allocator w) \<Longrightarrow> windows_run cs w = posix_run (map (\<lambda>(c, a). (c, posix_answer c a, now)) cs) w"
proof (induction cs arbitrary: w)
  case (Cons ca cs)
  obtain c a where ca: "ca = (c, a)" by (cases ca)
  show ?case
  proof (cases "windows_sync c a w")
    case None
    then show ?thesis using sync_call_same [OF Cons.prems, of c a now] ca by simp
  next
    case (Some rw)
    then obtain r w1 where rw: "windows_sync c a w = Some (r, w1)" by (cases rw) auto
    then have "size_blind (g_ten_allocator w1)" using sync_allocator Cons.prems by metis
    then show ?thesis using rw sync_call_same [OF Cons.prems, of c a now] Cons.IH ca by simp
  qed
qed simp

text \<open>Sleeping on POSIX is exact; on Windows a sleep of \<open>2 ^ 32\<close> milliseconds is none.\<close>

lemma sleep_exact:
  "unat (tv_nsec (ten_thread_sleep ms)) < 10 ^ 9 \<and>
   unat (tv_sec (ten_thread_sleep ms)) * 10 ^ 9 + unat (tv_nsec (ten_thread_sleep ms)) = unat ms * 10 ^ 6"
proof -
  have n: "unat ((ms mod 1000) * 1000000) = unat ms mod 1000 * 1000000"
    by (subst unat_mult_size) (simp_all add: unat_mod)
  define q r where "q = unat ms div 1000" and "r = unat ms mod 1000"
  have qr: "unat ms = 1000 * q + r" "r < 1000" unfolding q_def r_def by simp_all
  have "unat (tv_sec (ten_thread_sleep ms)) = q" "unat (tv_nsec (ten_thread_sleep ms)) = r * 1000000"
    using n by (simp_all add: ten_thread_sleep_def unat_div q_def r_def)
  then show ?thesis using qr by (simp add: algebra_simps)
qed

lemma windows_times_cut:
  "windows_thread_sleep (2 ^ 32) = 0"
  "windows_cond_wait_timeout (Some ()) (Some ()) (2 ^ 32 - 1) sleep_cs w = windows_cond_wait_timeout (Some ()) (Some ()) (ucast INFINITE) sleep_cs w"
  by (simp_all add: windows_thread_sleep_def INFINITE_def windows_cond_wait_timeout_def)

end
