(* ===== verification/Ten_Socket_Calls.thy ===== *)
theory Ten_Socket_Calls
  imports Ten_Udp
begin

text \<open>
  The calls that both versions of the socket module make of the operating system (\<open>getaddrinfo\<close>,
  \<open>freeaddrinfo\<close>, \<open>socket\<close>, \<open>connect\<close>, \<open>bind\<close>, \<open>setsockopt\<close>, \<open>listen\<close>, \<open>accept\<close>, \<open>send\<close>, \<open>recv\<close>, \<open>sendto\<close>,
  \<open>recvfrom\<close>, \<open>select\<close>, \<open>close\<close> or \<open>closesocket\<close>), and \<open>WSAStartup\<close>, which Windows has besides: records of
  functions on the state of an operating system, and as locales what they do with the resources
  they hand out. Then the loops over addresses, which are the same in both versions, and a system
  that keeps the contract.
\<close>

section \<open>The calls\<close>

text \<open>
  A socket is a number, an address an \<open>'a\<close>. An answer of \<open>None\<close> or \<open>False\<close> is a failure; the lengths that
  are passed are \<open>int\<close>, and may be negative.
\<close>

record ('a, 'os) socket_calls =
  so_getaddrinfo :: "cstring \<Rightarrow> cstring \<Rightarrow> bool \<Rightarrow> 'os \<Rightarrow> 'a list option \<times> 'os"
  so_freeaddrinfo :: "'os \<Rightarrow> 'os"
  so_socket :: "'a \<Rightarrow> 'os \<Rightarrow> nat option \<times> 'os"
  so_datagram_socket :: "'os \<Rightarrow> nat option \<times> 'os"
  so_connect :: "nat \<Rightarrow> 'a \<Rightarrow> 'os \<Rightarrow> bool \<times> 'os"
  so_reuse_address :: "nat \<Rightarrow> 'os \<Rightarrow> 'os"
  so_bind :: "nat \<Rightarrow> 'a \<Rightarrow> 'os \<Rightarrow> bool \<times> 'os"
  so_listen :: "nat \<Rightarrow> int \<Rightarrow> 'os \<Rightarrow> bool \<times> 'os"
  so_accept :: "nat \<Rightarrow> 'os \<Rightarrow> nat option \<times> 'os"
  so_send :: "nat \<Rightarrow> byte list \<Rightarrow> int \<Rightarrow> 'os \<Rightarrow> nat option \<times> 'os"
  so_recv :: "nat \<Rightarrow> int \<Rightarrow> 'os \<Rightarrow> byte list option \<times> 'os"
  so_sendto :: "nat \<Rightarrow> byte list \<Rightarrow> int \<Rightarrow> 'a \<Rightarrow> 'os \<Rightarrow> nat option \<times> 'os"
  so_recvfrom :: "nat \<Rightarrow> int \<Rightarrow> 'os \<Rightarrow> datagram option \<times> 'os"
  so_select :: "nat \<Rightarrow> int \<times> int \<Rightarrow> 'os \<Rightarrow> int \<times> 'os"
  so_close :: "nat \<Rightarrow> 'os \<Rightarrow> 'os"

record ('a, 'os) winsock = "('a, 'os) socket_calls" +
  ws_startup :: "'os \<Rightarrow> 'os"

section \<open>What they do\<close>

text \<open>What is handed out: the open sockets, how many address lists are not freed, how often Winsock was started.\<close>

record net_view =
  nv_sockets :: "nat set"
  nv_lists :: nat
  nv_startups :: nat

definition opened :: "nat option \<Rightarrow> net_view \<Rightarrow> net_view \<Rightarrow> bool" where
  "opened r v v' \<longleftrightarrow> (case r of None \<Rightarrow> v' = v | Some d \<Rightarrow> d \<notin> nv_sockets v \<and> v' = v\<lparr>nv_sockets := insert d (nv_sockets v)\<rparr>)"

locale socket_net =
  fixes so :: "('a, 'os, 'z) socket_calls_scheme"
    and view :: "'os \<Rightarrow> net_view"
  assumes getaddrinfo_law: "so_getaddrinfo so h p t os = (found, os') \<Longrightarrow>
      (case found of None \<Rightarrow> view os' = view os
       | Some as \<Rightarrow> as \<noteq> [] \<and> view os' = (view os)\<lparr>nv_lists := Suc (nv_lists (view os))\<rparr>)"
    and freeaddrinfo_law: "view (so_freeaddrinfo so os) = (view os)\<lparr>nv_lists := nv_lists (view os) - 1\<rparr>"
    and socket_law: "so_socket so a os = (d, os') \<Longrightarrow> opened d (view os) (view os')"
    and datagram_socket_law: "so_datagram_socket so os = (d, os') \<Longrightarrow> opened d (view os) (view os')"
    and accept_law: "so_accept so s os = (d, os') \<Longrightarrow> opened d (view os) (view os')"
    and closesocket_law: "view (so_close so s os) = (view os)\<lparr>nv_sockets := nv_sockets (view os) - {s}\<rparr>"
    and connect_law: "so_connect so s a os = (b, os') \<Longrightarrow> view os' = view os"
    and reuse_address_law: "view (so_reuse_address so s os) = view os"
    and bind_law: "so_bind so s a os = (b, os') \<Longrightarrow> view os' = view os"
    and listen_law: "so_listen so s n os = (b, os') \<Longrightarrow> view os' = view os"
    and send_law: "so_send so s bs n os = (r, os') \<Longrightarrow> view os' = view os \<and> (\<forall>k. r = Some k \<longrightarrow> int k \<le> max 0 n)"
    and recv_law: "so_recv so s n os = (got, os') \<Longrightarrow>
      view os' = view os \<and> (\<forall>bs. got = Some bs \<longrightarrow> int (length bs) \<le> max 0 n)"
    and sendto_law: "so_sendto so s bs n a os = (r, os') \<Longrightarrow> view os' = view os \<and> (\<forall>k. r = Some k \<longrightarrow> int k \<le> max 0 n)"
    and recvfrom_law: "so_recvfrom so s n os = (dg, os') \<Longrightarrow>
      view os' = view os \<and> (\<forall>d. dg = Some d \<longrightarrow> int (length (dg_bytes d)) \<le> max 0 n)"
    and select_law: "so_select so s tv os = (rc, os') \<Longrightarrow> view os' = view os"

locale winsock_net = socket_net ws view
  for ws :: "('a, 'os) winsock" and view :: "'os \<Rightarrow> net_view" +
  assumes startup_law: "view (ws_startup ws os) = (view os)\<lparr>nv_startups := Suc (nv_startups (view os))\<rparr>"

section \<open>The loops over addresses\<close>

primrec connect_loop :: "('a, 'os, 'z) socket_calls_scheme \<Rightarrow> 'a list \<Rightarrow> 'os \<Rightarrow> nat option \<times> 'os" where
  "connect_loop so [] os = (None, os)"
| "connect_loop so (rp # rest) os =
     (case so_socket so rp os of
        (None, os1) \<Rightarrow> connect_loop so rest os1
      | (Some fd, os1) \<Rightarrow>
          (case so_connect so fd rp os1 of
             (True, os2) \<Rightarrow> (Some fd, os2)
           | (False, os2) \<Rightarrow> connect_loop so rest (so_close so fd os2)))"

primrec bind_loop :: "('a, 'os, 'z) socket_calls_scheme \<Rightarrow> bool \<Rightarrow> 'a list \<Rightarrow> 'os \<Rightarrow> nat option \<times> 'os" where
  "bind_loop so reuse [] os = (None, os)"
| "bind_loop so reuse (rp # rest) os =
     (case so_socket so rp os of
        (None, os1) \<Rightarrow> bind_loop so reuse rest os1
      | (Some fd, os1) \<Rightarrow>
          (case so_bind so fd rp (if reuse then so_reuse_address so fd os1 else os1) of
             (True, os2) \<Rightarrow> (Some fd, os2)
           | (False, os2) \<Rightarrow> bind_loop so reuse rest (so_close so fd os2)))"

context socket_net
begin

lemma opened_closed: "opened (Some d) v v' \<Longrightarrow> v'\<lparr>nv_sockets := nv_sockets v' - {d}\<rparr> = v"
  by (auto simp: opened_def)

lemma connect_loop_opens: "connect_loop so as os = (r, os') \<Longrightarrow> opened r (view os) (view os')"
proof (induction as arbitrary: os)
  case (Cons a as)
  obtain fd os1 where s: "so_socket so a os = (fd, os1)" by fastforce
  note law = socket_law [OF s]
  show ?case
  proof (cases fd)
    case None
    then have "view os1 = view os" using law by (simp add: opened_def)
    then show ?thesis using Cons.prems Cons.IH [of os1] s None by simp
  next
    case (Some d)
    obtain b os2 where c: "so_connect so d a os1 = (b, os2)" by fastforce
    have same: "view os2 = view os1" by (rule connect_law [OF c])
    show ?thesis
    proof (cases b)
      case True
      then show ?thesis using Cons.prems Some s c law same by (auto simp: opened_def)
    next
      case False
      then have "opened r (view (so_close so d os2)) (view os')"
        using Cons.prems Cons.IH [of "so_close so d os2"] Some s c by simp
      then show ?thesis using closesocket_law [of d os2] same opened_closed law Some by simp
    qed
  qed
qed (simp add: opened_def)

lemma bind_loop_opens: "bind_loop so reuse as os = (r, os') \<Longrightarrow> opened r (view os) (view os')"
proof (induction as arbitrary: os)
  case (Cons a as)
  obtain fd os1 where s: "so_socket so a os = (fd, os1)" by fastforce
  note law = socket_law [OF s]
  show ?case
  proof (cases fd)
    case None
    then have "view os1 = view os" using law by (simp add: opened_def)
    then show ?thesis using Cons.prems Cons.IH [of os1] s None by simp
  next
    case (Some d)
    obtain b os2 where c: "so_bind so d a (if reuse then so_reuse_address so d os1 else os1) = (b, os2)" by fastforce
    have same: "view os2 = view os1" using bind_law [OF c] reuse_address_law [of d os1] by (simp split: if_splits)
    show ?thesis
    proof (cases b)
      case True
      then show ?thesis using Cons.prems Some s c law same by (auto simp: opened_def)
    next
      case False
      then have "opened r (view (so_close so d os2)) (view os')"
        using Cons.prems Cons.IH [of "so_close so d os2"] Some s c by simp
      then show ?thesis using closesocket_law [of d os2] same opened_closed law Some by simp
    qed
  qed
qed (simp add: opened_def)

end

section \<open>What is asked of a socket\<close>

datatype socket_command =
    Sock_Send "byte list" | Sock_Receive size_t | Sock_Send_To cstring u16 "byte list" | Sock_Receive_From size_t | Sock_Poll int

text \<open>The size of a command, and what may be answered: -1 with an error, or at most that size without one.\<close>

fun command_size :: "socket_command \<Rightarrow> nat" where
  "command_size (Sock_Send bs) = length bs"
| "command_size (Sock_Receive n) = unat n"
| "command_size (Sock_Send_To h p bs) = length bs"
| "command_size (Sock_Receive_From n) = unat n"
| "command_size (Sock_Poll t) = 1"

definition socket_answer_ok :: "socket_command \<Rightarrow> int \<times> ten_error_code \<Rightarrow> bool" where
  "socket_answer_ok c a \<longleftrightarrow>
     fst a = -1 \<and> snd a \<noteq> TEN_OK \<or> 0 \<le> fst a \<and> fst a \<le> int (command_size c) \<and> snd a = TEN_OK"

section \<open>A system\<close>

text \<open>
  A machine on its own: names that are known have one address, each socket that connects to it
  receives what was sent to it, and nothing is ever accepted.
\<close>

record loopback =
  lb_sockets :: "(nat \<times> byte list) list"
  lb_lists :: nat
  lb_startups :: nat

definition loop_view :: "loopback \<Rightarrow> net_view" where
  "loop_view k = \<lparr>nv_sockets = fst ` set (lb_sockets k), nv_lists = lb_lists k, nv_startups = lb_startups k\<rparr>"

definition loop_socket :: "loopback \<Rightarrow> nat option \<times> loopback" where
  "loop_socket k =
     (let d = Suc (sum_list (map fst (lb_sockets k)))
      in (Some d, k\<lparr>lb_sockets := (d, []) # lb_sockets k\<rparr>))"

definition loop_send :: "nat \<Rightarrow> byte list \<Rightarrow> int \<Rightarrow> loopback \<Rightarrow> nat option \<times> loopback" where
  "loop_send s bs n k =
     (if n < 0 then (None, k)
      else let sent = take (nat n) bs
           in (Some (length sent), k\<lparr>lb_sockets := map (\<lambda>(d, q). (d, if d = s then q @ sent else q)) (lb_sockets k)\<rparr>))"

definition loop_recv :: "nat \<Rightarrow> int \<Rightarrow> loopback \<Rightarrow> byte list option \<times> loopback" where
  "loop_recv s n k =
     (case map_of (lb_sockets k) s of
        None \<Rightarrow> (None, k)
      | Some q \<Rightarrow>
          if n < 0 then (None, k)
          else (Some (take (nat n) q),
                k\<lparr>lb_sockets := map (\<lambda>(d, q). (d, if d = s then drop (nat n) q else q)) (lb_sockets k)\<rparr>))"

definition loop_net :: "cstring list \<Rightarrow> (cstring \<times> cstring, loopback) winsock" where
  "loop_net names =
     \<lparr>so_getaddrinfo = (\<lambda>h p t k. if h \<in> set names then (Some [(h, p)], k\<lparr>lb_lists := Suc (lb_lists k)\<rparr>) else (None, k)),
      so_freeaddrinfo = (\<lambda>k. k\<lparr>lb_lists := lb_lists k - 1\<rparr>),
      so_socket = (\<lambda>a. loop_socket), so_datagram_socket = loop_socket,
      so_connect = (\<lambda>s a k. (True, k)), so_reuse_address = (\<lambda>s k. k), so_bind = (\<lambda>s a k. (True, k)),
      so_listen = (\<lambda>s n k. (True, k)), so_accept = (\<lambda>s k. (None, k)),
      so_send = loop_send, so_recv = loop_recv, so_sendto = (\<lambda>s bs n a. loop_send s bs n),
      so_recvfrom = (\<lambda>s n k. case loop_recv s n k of (got, k') \<Rightarrow> (map_option (\<lambda>bs. \<lparr>dg_bytes = bs, dg_sender = None\<rparr>) got, k')),
      so_select = (\<lambda>s tv k. ((case map_of (lb_sockets k) s of Some (b # q) \<Rightarrow> 1 | _ \<Rightarrow> 0), k)),
      so_close = (\<lambda>s k. k\<lparr>lb_sockets := filter (\<lambda>(d, q). d \<noteq> s) (lb_sockets k)\<rparr>),
      ws_startup = (\<lambda>k. k\<lparr>lb_startups := Suc (lb_startups k)\<rparr>)\<rparr>"

lemma loop_view_simps:
  "loop_view (k\<lparr>lb_startups := n\<rparr>) = (loop_view k)\<lparr>nv_startups := n\<rparr>" "nv_startups (loop_view k) = lb_startups k"
  "loop_view (k\<lparr>lb_lists := n\<rparr>) = (loop_view k)\<lparr>nv_lists := n\<rparr>" "nv_lists (loop_view k) = lb_lists k"
  "loop_view (k\<lparr>lb_sockets := filter (\<lambda>(d, q). d \<noteq> s) (lb_sockets k)\<rparr>) = (loop_view k)\<lparr>nv_sockets := nv_sockets (loop_view k) - {s}\<rparr>"
  "opened None v v"
  by (auto simp: loop_view_def opened_def)

lemma loop_opened: "loop_socket k = (d, k') \<Longrightarrow> opened d (loop_view k) (loop_view k')"
proof -
  assume k: "loop_socket k = (d, k')"
  have "x \<le> sum_list (map fst (lb_sockets k))" if "x \<in> fst ` set (lb_sockets k)" for x
    using that member_le_sum_list [of x "map fst (lb_sockets k)"] by simp
  then show ?thesis using k by (fastforce simp: loop_socket_def opened_def loop_view_def Let_def)
qed

lemma loop_view_queues [simp]: "loop_view (k\<lparr>lb_sockets := map (\<lambda>(d, q). (d, f d q)) (lb_sockets k)\<rparr>) = loop_view k"
  by (force simp: loop_view_def)

lemma loop_send_view: "loop_send s bs n k = (r, k') \<Longrightarrow> loop_view k' = loop_view k \<and> (\<forall>c. r = Some c \<longrightarrow> int c \<le> max 0 n)"
  by (auto simp: loop_send_def Let_def min_def split: if_splits)

lemma loop_recv_view:
  "loop_recv s n k = (r, k') \<Longrightarrow> loop_view k' = loop_view k \<and> (\<forall>bs. r = Some bs \<longrightarrow> int (length bs) \<le> max 0 n)"
  by (auto simp: loop_recv_def min_def split: if_splits option.splits)

lemma loop_net_law: "winsock_net (loop_net names) loop_view"
proof
  fix s n and k k' :: loopback and dg
  assume "so_recvfrom (loop_net names) s n k = (dg, k')"
  then show "loop_view k' = loop_view k \<and> (\<forall>d. dg = Some d \<longrightarrow> int (length (dg_bytes d)) \<le> max 0 n)"
    using loop_recv_view [of s n k] by (auto simp: loop_net_def split: prod.splits)
qed (use loop_opened loop_send_view loop_recv_view in
    \<open>auto simp: loop_net_def loop_view_simps split: if_splits simp del: int_Suc\<close>)

interpretation loop: winsock_net "loop_net names" loop_view for names
  by (rule loop_net_law)

end
