(* ===== verification/Ten_Socket_Windows.thy ===== *)
theory Ten_Socket_Windows
  imports Ten_Socket_Calls "HOL-Library.Signed_Division"
begin

text \<open>
  The Windows version of the socket module (\<open>src/platform/windows/socket_windows.c\<close>) over the calls of
  \<open>Ten_Socket_Calls\<close>, with every socket that is opened and closed on the way. The lemmas show that no
  operation loses a socket, an address list or a block of memory, that Winsock is started once, and
  that the answers are within the sizes asked for as long as these fit an \<open>int\<close>.
\<close>

section \<open>Starting Winsock, resolving, wrapping\<close>

text \<open>The state: whether Winsock has been started (\<open>g_wsa_initialized\<close>), and the operating system.\<close>

definition ten__wsa_ensure_init :: "('a, 'os) winsock \<Rightarrow> bool \<times> 'os \<Rightarrow> bool \<times> 'os" where
  "ten__wsa_ensure_init ws st = (case st of (initialized, os) \<Rightarrow> if \<not> initialized then (True, ws_startup ws os) else st)"

record windows_socket =
  wk_fd :: nat

definition sizeof_windows_socket :: size_t where
  "sizeof_windows_socket = 8"

definition windows__socket_wrap ::
    "('a, 'os) winsock \<Rightarrow> nat \<Rightarrow> bool \<times> 'os \<Rightarrow> ten_world \<Rightarrow> windows_socket option \<times> (bool \<times> 'os) \<times> ten_world" where
  "windows__socket_wrap ws fd st w =
     (let (sock, w1) = ten_malloc sizeof_windows_socket w
      in if is_Null sock then (None, (fst st, so_close ws fd (snd st)), w1)
         else (Some \<lparr>wk_fd = fd\<rparr>, st, w1))"

definition windows__resolve ::
    "('a, 'os) winsock \<Rightarrow> cstring \<Rightarrow> u16 \<Rightarrow> bool \<Rightarrow> bool \<times> 'os \<Rightarrow> 'a list option \<times> (bool \<times> 'os)" where
  "windows__resolve ws host port socktype st =
     (let st1 = ten__wsa_ensure_init ws st;
          (res, os2) = so_getaddrinfo ws host (nat_digits (unat port)) socktype (snd st1)
      in (res, fst st1, os2))"

section \<open>Making sockets\<close>

definition windows_tcp_connect ::
    "('a, 'os) winsock \<Rightarrow> cstring option \<Rightarrow> u16 \<Rightarrow> bool \<times> 'os \<Rightarrow> ten_world \<Rightarrow>
     windows_socket option \<times> (bool \<times> 'os) \<times> ten_world" where
  "windows_tcp_connect ws host port st w =
     (case host of
        None \<Rightarrow> (None, st, ten__set_error TEN_ERROR_NULL_ARGUMENT w)
      | Some h \<Rightarrow>
          (case windows__resolve ws h port True st of
             (None, st1) \<Rightarrow> (None, st1, ten__set_error TEN_ERROR_NETWORK w)
           | (Some res, st1) \<Rightarrow>
               let (fd, os2) = connect_loop ws res (snd st1);
                   st3 = (fst st1, so_freeaddrinfo ws os2)
               in (case fd of
                     None \<Rightarrow> (None, st3, ten__set_error TEN_ERROR_NETWORK w)
                   | Some d \<Rightarrow> windows__socket_wrap ws d st3 (ten__set_error TEN_OK w))))"

definition windows_tcp_listen ::
    "('a, 'os) winsock \<Rightarrow> cstring option \<Rightarrow> u16 \<Rightarrow> int \<Rightarrow> bool \<times> 'os \<Rightarrow> ten_world \<Rightarrow>
     windows_socket option \<times> (bool \<times> 'os) \<times> ten_world" where
  "windows_tcp_listen ws host port backlog st w =
     (case host of
        None \<Rightarrow> (None, st, ten__set_error TEN_ERROR_NULL_ARGUMENT w)
      | Some h \<Rightarrow>
          (case windows__resolve ws h port True st of
             (None, st1) \<Rightarrow> (None, st1, ten__set_error TEN_ERROR_NETWORK w)
           | (Some res, st1) \<Rightarrow>
               let (fd, os2) = bind_loop ws True res (snd st1);
                   os3 = so_freeaddrinfo ws os2
               in (case fd of
                     None \<Rightarrow> (None, (fst st1, os3), ten__set_error TEN_ERROR_NETWORK w)
                   | Some d \<Rightarrow>
                       (case so_listen ws d backlog os3 of
                          (False, os4) \<Rightarrow>
                            (None, (fst st1, so_close ws d os4), ten__set_error TEN_ERROR_NETWORK w)
                        | (True, os4) \<Rightarrow> windows__socket_wrap ws d (fst st1, os4) (ten__set_error TEN_OK w)))))"

definition windows_tcp_accept ::
    "('a, 'os) winsock \<Rightarrow> windows_socket option \<Rightarrow> bool \<times> 'os \<Rightarrow> ten_world \<Rightarrow>
     windows_socket option \<times> (bool \<times> 'os) \<times> ten_world" where
  "windows_tcp_accept ws server st w =
     (case server of
        None \<Rightarrow> (None, st, ten__set_error TEN_ERROR_NULL_ARGUMENT w)
      | Some s \<Rightarrow>
          (case so_accept ws (wk_fd s) (snd st) of
             (None, os1) \<Rightarrow> (None, (fst st, os1), ten__set_error TEN_ERROR_NETWORK w)
           | (Some d, os1) \<Rightarrow> windows__socket_wrap ws d (fst st, os1) (ten__set_error TEN_OK w)))"

definition windows_udp_socket ::
    "('a, 'os) winsock \<Rightarrow> bool \<times> 'os \<Rightarrow> ten_world \<Rightarrow> windows_socket option \<times> (bool \<times> 'os) \<times> ten_world" where
  "windows_udp_socket ws st w =
     (let st1 = ten__wsa_ensure_init ws st
      in case so_datagram_socket ws (snd st1) of
           (None, os2) \<Rightarrow> (None, (fst st1, os2), ten__set_error TEN_ERROR_NETWORK w)
         | (Some d, os2) \<Rightarrow> windows__socket_wrap ws d (fst st1, os2) (ten__set_error TEN_OK w))"

definition windows_udp_bind ::
    "('a, 'os) winsock \<Rightarrow> cstring option \<Rightarrow> u16 \<Rightarrow> bool \<times> 'os \<Rightarrow> ten_world \<Rightarrow>
     windows_socket option \<times> (bool \<times> 'os) \<times> ten_world" where
  "windows_udp_bind ws host port st w =
     (case host of
        None \<Rightarrow> (None, st, ten__set_error TEN_ERROR_NULL_ARGUMENT w)
      | Some h \<Rightarrow>
          (case windows__resolve ws h port False st of
             (None, st1) \<Rightarrow> (None, st1, ten__set_error TEN_ERROR_NETWORK w)
           | (Some res, st1) \<Rightarrow>
               let (fd, os2) = bind_loop ws False res (snd st1);
                   st3 = (fst st1, so_freeaddrinfo ws os2)
               in (case fd of
                     None \<Rightarrow> (None, st3, ten__set_error TEN_ERROR_NETWORK w)
                   | Some d \<Rightarrow> windows__socket_wrap ws d st3 (ten__set_error TEN_OK w))))"

section \<open>Using sockets\<close>

text \<open>A size cut to an \<open>int\<close>.\<close>

definition int_of_size :: "size_t \<Rightarrow> int" where
  "int_of_size n = sint (ucast n :: u32)"

definition windows_udp_send_to ::
    "('a, 'os) winsock \<Rightarrow> windows_socket option \<Rightarrow> cstring option \<Rightarrow> u16 \<Rightarrow> byte list option \<Rightarrow> size_t \<Rightarrow>
     bool \<times> 'os \<Rightarrow> ten_world \<Rightarrow> (int \<times> (bool \<times> 'os) \<times> ten_world) option" where
  "windows_udp_send_to ws sock host port bytes sz st w =
     (case (sock, host) of
        (Some s, Some h) \<Rightarrow>
          if bytes = None \<and> sz > 0 then Some (-1, st, ten__set_error TEN_ERROR_NULL_ARGUMENT w)
          else
            (case windows__resolve ws h port False st of
               (None, st1) \<Rightarrow> Some (-1, st1, ten__set_error TEN_ERROR_NETWORK w)
             | (Some [], st1) \<Rightarrow> None
             | (Some (a # res), st1) \<Rightarrow> do {
                 obj \<leftarrow> c_object bytes sz;
                 let (n, os2) = so_sendto ws (wk_fd s) obj (int_of_size sz) a (snd st1);
                 let st3 = (fst st1, so_freeaddrinfo ws os2);
                 case n of
                   None \<Rightarrow> Some (-1, st3, ten__set_error TEN_ERROR_NETWORK w)
                 | Some k \<Rightarrow> Some (int k, st3, ten__set_error TEN_OK w)
               })
      | _ \<Rightarrow> Some (-1, st, ten__set_error TEN_ERROR_NULL_ARGUMENT w))"

text \<open>As in the POSIX version, the texts of the sender are read whether or not \<open>getnameinfo\<close> wrote them.\<close>

definition windows_udp_receive_from ::
    "('a, 'os) winsock \<Rightarrow> windows_socket option \<Rightarrow> bool \<Rightarrow> size_t \<Rightarrow> bool \<Rightarrow> size_t \<Rightarrow> bool \<Rightarrow> bool \<times> 'os \<Rightarrow> ten_world \<Rightarrow>
     (int \<times> byte list \<times> byte list option \<times> u16 option \<times> (bool \<times> 'os) \<times> ten_world) option" where
  "windows_udp_receive_from ws sock buffer sz out_host out_host_size out_port st w =
     (case sock of
        None \<Rightarrow> Some (-1, [], None, None, st, ten__set_error TEN_ERROR_NULL_ARGUMENT w)
      | Some s \<Rightarrow>
          if \<not> buffer \<and> sz > 0 then Some (-1, [], None, None, st, ten__set_error TEN_ERROR_NULL_ARGUMENT w)
          else
            (case so_recvfrom ws (wk_fd s) (int_of_size sz) (snd st) of
               (None, os1) \<Rightarrow> Some (-1, [], None, None, (fst st, os1), ten__set_error TEN_ERROR_NETWORK w)
             | (Some d, os1) \<Rightarrow> do {
                 host \<leftarrow> (if out_host \<and> out_host_size > 0
                         then do { (h, p) \<leftarrow> dg_sender d; Some (Some (copy_host h out_host_size)) }
                         else Some None);
                 port \<leftarrow> (if out_port then do { (h, p) \<leftarrow> dg_sender d; n \<leftarrow> atoi p; Some (Some (word_of_int n)) }
                         else Some None);
                 Some (int (length (dg_bytes d)), dg_bytes d, host, port, (fst st, os1), ten__set_error TEN_OK w)
               }))"

definition windows_socket_send ::
    "('a, 'os) winsock \<Rightarrow> windows_socket option \<Rightarrow> byte list option \<Rightarrow> size_t \<Rightarrow> bool \<times> 'os \<Rightarrow> ten_world \<Rightarrow>
     (int \<times> (bool \<times> 'os) \<times> ten_world) option" where
  "windows_socket_send ws sock bytes sz st w =
     (case sock of
        None \<Rightarrow> Some (-1, st, ten__set_error TEN_ERROR_NULL_ARGUMENT w)
      | Some s \<Rightarrow>
          if bytes = None \<and> sz > 0 then Some (-1, st, ten__set_error TEN_ERROR_NULL_ARGUMENT w)
          else do {
            obj \<leftarrow> c_object bytes sz;
            case so_send ws (wk_fd s) obj (int_of_size sz) (snd st) of
              (None, os1) \<Rightarrow> Some (-1, (fst st, os1), ten__set_error TEN_ERROR_NETWORK w)
            | (Some n, os1) \<Rightarrow> Some (int n, (fst st, os1), ten__set_error TEN_OK w)
          })"

definition windows_socket_receive ::
    "('a, 'os) winsock \<Rightarrow> windows_socket option \<Rightarrow> bool \<Rightarrow> size_t \<Rightarrow> bool \<times> 'os \<Rightarrow> ten_world \<Rightarrow>
     int \<times> byte list \<times> (bool \<times> 'os) \<times> ten_world" where
  "windows_socket_receive ws sock buffer sz st w =
     (case sock of
        None \<Rightarrow> (-1, [], st, ten__set_error TEN_ERROR_NULL_ARGUMENT w)
      | Some s \<Rightarrow>
          if \<not> buffer \<and> sz > 0 then (-1, [], st, ten__set_error TEN_ERROR_NULL_ARGUMENT w)
          else
            (case so_recv ws (wk_fd s) (int_of_size sz) (snd st) of
               (None, os1) \<Rightarrow> (-1, [], (fst st, os1), ten__set_error TEN_ERROR_NETWORK w)
             | (Some bs, os1) \<Rightarrow> (int (length bs), bs, (fst st, os1), ten__set_error TEN_OK w)))"

definition windows_socket_close ::
    "('a, 'os) winsock \<Rightarrow> windows_socket option \<Rightarrow> bool \<times> 'os \<Rightarrow> ten_world \<Rightarrow> ((bool \<times> 'os) \<times> ten_world) option" where
  "windows_socket_close ws sock st w =
     (case sock of
        None \<Rightarrow> Some (st, w)
      | Some s \<Rightarrow> do {
          let st1 = (fst st, so_close ws (wk_fd s) (snd st));
          w1 \<leftarrow> free_struct w;
          Some (st1, w1)
        })"

definition windows_socket_native_handle :: "windows_socket option \<Rightarrow> ten_world \<Rightarrow> int \<times> ten_world" where
  "windows_socket_native_handle sock w =
     (case sock of
        None \<Rightarrow> (-1, ten__set_error TEN_ERROR_NULL_ARGUMENT w)
      | Some s \<Rightarrow> (int (wk_fd s), ten__set_error TEN_OK w))"

text \<open>The division of C rounds towards zero; a negative timeout gives a negative time.\<close>

definition poll_time :: "int \<Rightarrow> int \<times> int" where
  "poll_time timeout_ms = (timeout_ms sdiv 1000, timeout_ms smod 1000 * 1000)"

definition windows_socket_poll_readable ::
    "('a, 'os) winsock \<Rightarrow> windows_socket option \<Rightarrow> int \<Rightarrow> bool \<times> 'os \<Rightarrow> ten_world \<Rightarrow> int \<times> (bool \<times> 'os) \<times> ten_world" where
  "windows_socket_poll_readable ws sock timeout_ms st w =
     (case sock of
        None \<Rightarrow> (-1, st, ten__set_error TEN_ERROR_NULL_ARGUMENT w)
      | Some s \<Rightarrow>
          (case so_select ws (wk_fd s) (poll_time timeout_ms) (snd st) of
             (rc, os1) \<Rightarrow>
               if rc = -1 then (-1, (fst st, os1), ten__set_error TEN_ERROR_NETWORK w)
               else ((if rc > 0 then 1 else 0), (fst st, os1), ten__set_error TEN_OK w)))"

section \<open>Making a socket loses nothing\<close>

lemma int_of_small_size: "unat n < 2 ^ 31 \<Longrightarrow> int_of_size n = int (unat n)"
proof -
  assume n: "unat n < 2 ^ 31"
  then have u: "unat (ucast n :: u32) = unat n" by (simp add: unsigned_ucast_eq take_bit_nat_eq_self)
  then have w: "uint (ucast n :: u32) = int (unat n)" by (metis uint_nat)
  define k where "k = int (unat n)"
  have "int (unat n) < int (2 ^ 31)" using n by (simp only: of_nat_less_iff)
  then have "0 \<le> k" "k < 2 ^ 31" by (simp_all add: k_def)
  then have "signed_take_bit 31 k = k" by (intro signed_take_bit_int_eq_self) simp_all
  then show ?thesis by (simp only: int_of_size_def sint_uint w flip: k_def) simp
qed

text \<open>The ways to make a socket.\<close>

datatype socket_maker =
    Connect "cstring option" u16 | Listen "cstring option" u16 int | Accept "windows_socket option"
  | Udp_Socket | Udp_Bind "cstring option" u16

primrec make_socket ::
    "('a, 'os) winsock \<Rightarrow> socket_maker \<Rightarrow> bool \<times> 'os \<Rightarrow> ten_world \<Rightarrow> windows_socket option \<times> (bool \<times> 'os) \<times> ten_world" where
  "make_socket ws (Connect host port) st w = windows_tcp_connect ws host port st w"
| "make_socket ws (Listen host port backlog) st w = windows_tcp_listen ws host port backlog st w"
| "make_socket ws (Accept server) st w = windows_tcp_accept ws server st w"
| "make_socket ws Udp_Socket st w = windows_udp_socket ws st w"
| "make_socket ws (Udp_Bind host port) st w = windows_udp_bind ws host port st w"

text \<open>What a state has handed out besides the starts of Winsock, and that it was started at most once.\<close>

definition handed :: "('os \<Rightarrow> net_view) \<Rightarrow> bool \<times> 'os \<Rightarrow> nat set \<times> nat" where
  "handed view st = (nv_sockets (view (snd st)), nv_lists (view (snd st)))"

definition started_once :: "('os \<Rightarrow> net_view) \<Rightarrow> bool \<times> 'os \<Rightarrow> bool" where
  "started_once view st \<longleftrightarrow> nv_startups (view (snd st)) = (if fst st then 1 else 0)"

definition made ::
    "('os \<Rightarrow> net_view) \<Rightarrow> bool \<times> 'os \<Rightarrow> ten_world \<Rightarrow> windows_socket option \<Rightarrow> bool \<times> 'os \<Rightarrow> ten_world \<Rightarrow> bool" where
  "made view st w r st1 w1 \<longleftrightarrow>
     (started_once view st \<longrightarrow> started_once view st1) \<and>
     (case r of
        None \<Rightarrow> handed view st1 = handed view st \<and> live w1 = live w \<and> g_ten_last_error w1 \<noteq> TEN_OK
      | Some s \<Rightarrow> wk_fd s \<notin> fst (handed view st) \<and>
          handed view st1 = (insert (wk_fd s) (fst (handed view st)), snd (handed view st)) \<and>
          live w1 = live w + 1 \<and> g_ten_last_error w1 = TEN_OK)"

context winsock_net
begin

lemma ensure_init_spec:
  "handed view (ten__wsa_ensure_init ws st) = handed view st \<and>
   (started_once view st \<longrightarrow> started_once view (ten__wsa_ensure_init ws st))"
  using startup_law by (cases st) (auto simp: ten__wsa_ensure_init_def handed_def started_once_def)

lemma resolve_spec:
  assumes "windows__resolve ws h port t st = (res, st1)"
  shows "(started_once view st \<longrightarrow> started_once view st1) \<and>
    (case res of None \<Rightarrow> handed view st1 = handed view st
     | Some as \<Rightarrow> as \<noteq> [] \<and> handed view st1 = (fst (handed view st), Suc (snd (handed view st))))"
proof -
  obtain os2 where call: "so_getaddrinfo ws h (nat_digits (unat port)) t (snd (ten__wsa_ensure_init ws st)) = (res, os2)"
      and st1: "st1 = (fst (ten__wsa_ensure_init ws st), os2)"
    using assms by (auto simp: windows__resolve_def Let_def split: prod.splits)
  show ?thesis
    using ensure_init_spec [of st] getaddrinfo_law [OF call] st1
    by (cases res) (auto simp: handed_def started_once_def)
qed

text \<open>The last step of every maker: the socket gets its block, or is closed again.\<close>

lemma wrap_made:
  assumes "d \<notin> fst (handed view st)" "handed view st1 = (insert d (fst (handed view st)), snd (handed view st))"
    and "started_once view st \<longrightarrow> started_once view st1"
    and "windows__socket_wrap ws d st1 (ten__set_error TEN_OK w) = (r, st2, w2)"
  shows "made view st w r st2 w2"
proof (cases rule: ten_malloc_cases [where n = sizeof_windows_socket and w = "ten__set_error TEN_OK w"])
  case (refused w1)
  then show ?thesis
    using assms closesocket_law [of d "snd st1"]
    by (auto simp: windows__socket_wrap_def Let_def made_def handed_def started_once_def)
next
  case (granted w1)
  then show ?thesis
    using assms by (auto simp: windows__socket_wrap_def Let_def made_def)
qed

lemma made_none:
  "handed view st1 = handed view st \<Longrightarrow> started_once view st \<longrightarrow> started_once view st1 \<Longrightarrow> e \<noteq> TEN_OK \<Longrightarrow>
   made view st w None st1 (ten__set_error e w)"
  by (simp add: made_def)

text \<open>After a loop over the addresses: their list is freed.\<close>

lemma after_loop:
  assumes "windows__resolve ws h port t st = (Some res, st1)" "opened fd (view (snd st1)) (view os2)"
  shows "(started_once view st \<longrightarrow> started_once view (fst st1, so_freeaddrinfo ws os2)) \<and>
    (case fd of None \<Rightarrow> handed view (fst st1, so_freeaddrinfo ws os2) = handed view st
     | Some d \<Rightarrow> d \<notin> fst (handed view st) \<and>
         handed view (fst st1, so_freeaddrinfo ws os2) = (insert d (fst (handed view st)), snd (handed view st)))"
  using resolve_spec [OF assms(1)] assms(2) freeaddrinfo_law [of os2]
  by (cases fd) (auto simp: opened_def handed_def started_once_def)

lemma resolved_made:
  assumes "(case windows__resolve ws h port t st of
      (None, st1) \<Rightarrow> (None, st1, ten__set_error TEN_ERROR_NETWORK w)
    | (Some res, st1) \<Rightarrow>
        let (fd, os2) = loop res (snd st1);
            st3 = (fst st1, so_freeaddrinfo ws os2)
        in (case fd of
              None \<Rightarrow> (None, st3, ten__set_error TEN_ERROR_NETWORK w)
            | Some d \<Rightarrow> windows__socket_wrap ws d st3 (ten__set_error TEN_OK w))) = (r, st1, w1)"
    and opens: "\<And>as os r os'. loop as os = (r, os') \<Longrightarrow> opened r (view os) (view os')"
  shows "made view st w r st1 w1"
proof -
  obtain res st2 where rs: "windows__resolve ws h port t st = (res, st2)" by (cases "windows__resolve ws h port t st")
  show ?thesis
  proof (cases res)
    case None
    then show ?thesis using assms(1) rs resolve_spec [OF rs] by (auto intro: made_none)
  next
    case as: (Some as)
    obtain fd os3 where c: "loop as (snd st2) = (fd, os3)" by fastforce
    note after = after_loop [OF rs [unfolded as] opens [OF c]]
    show ?thesis
    proof (cases fd)
      case None
      then show ?thesis using assms(1) rs as c after by (auto intro: made_none)
    next
      case d: (Some d)
      then have "windows__socket_wrap ws d (fst st2, so_freeaddrinfo ws os3) (ten__set_error TEN_OK w) = (r, st1, w1)"
        using assms(1) rs as c by simp
      with after d show ?thesis by (intro wrap_made) auto
    qed
  qed
qed

lemma connect_made: "windows_tcp_connect ws host port st w = (r, st1, w1) \<Longrightarrow> made view st w r st1 w1"
  unfolding windows_tcp_connect_def
  by (cases host; simp only: option.case; elim Pair_inject resolved_made [OF _ connect_loop_opens])
    (auto intro: made_none)

lemma bind_made: "windows_udp_bind ws host port st w = (r, st1, w1) \<Longrightarrow> made view st w r st1 w1"
  unfolding windows_udp_bind_def
  by (cases host; simp only: option.case; elim Pair_inject resolved_made [OF _ bind_loop_opens])
    (auto intro: made_none)

lemma listen_made: "windows_tcp_listen ws host port n st w = (r, st1, w1) \<Longrightarrow> made view st w r st1 w1"
proof (cases host)
  case None
  then show "windows_tcp_listen ws host port n st w = (r, st1, w1) \<Longrightarrow> ?thesis"
    by (auto simp: windows_tcp_listen_def intro: made_none)
next
  case (Some h)
  assume m: "windows_tcp_listen ws host port n st w = (r, st1, w1)"
  obtain res st2 where rs: "windows__resolve ws h port True st = (res, st2)" by (cases "windows__resolve ws h port True st")
  show ?thesis
  proof (cases res)
    case None
    then show ?thesis using m rs Some resolve_spec [OF rs] by (auto simp: windows_tcp_listen_def intro: made_none)
  next
    case as: (Some as)
    obtain fd os3 where c: "bind_loop ws True as (snd st2) = (fd, os3)" by fastforce
    note after = after_loop [OF rs [unfolded as] bind_loop_opens [OF c]]
    show ?thesis
    proof (cases fd)
      case None
      then show ?thesis using m rs Some as c after by (auto simp: windows_tcp_listen_def Let_def intro: made_none)
    next
      case d: (Some d)
      obtain b os4 where l: "so_listen ws d n (so_freeaddrinfo ws os3) = (b, os4)" by fastforce
      then have same: "view os4 = view (so_freeaddrinfo ws os3)" by (rule listen_law)
      show ?thesis
      proof (cases b)
        case True
        then have "windows__socket_wrap ws d (fst st2, os4) (ten__set_error TEN_OK w) = (r, st1, w1)"
          using m rs Some as c d l by (simp add: windows_tcp_listen_def Let_def)
        with after d same show ?thesis by (intro wrap_made) (auto simp: handed_def started_once_def)
      next
        case False
        then show ?thesis
          using m rs Some as c d l after same closesocket_law [of d os4]
          by (auto simp: windows_tcp_listen_def Let_def handed_def started_once_def intro: made_none)
      qed
    qed
  qed
qed

lemma accept_made: "windows_tcp_accept ws server st w = (r, st1, w1) \<Longrightarrow> made view st w r st1 w1"
proof (cases server)
  case None
  then show "windows_tcp_accept ws server st w = (r, st1, w1) \<Longrightarrow> ?thesis"
    by (auto simp: windows_tcp_accept_def intro: made_none)
next
  case (Some s)
  assume m: "windows_tcp_accept ws server st w = (r, st1, w1)"
  obtain fd os2 where a: "so_accept ws (wk_fd s) (snd st) = (fd, os2)" by fastforce
  note law = accept_law [OF a]
  show ?thesis
  proof (cases fd)
    case None
    then show ?thesis
      using m Some a law by (auto simp: windows_tcp_accept_def opened_def handed_def started_once_def intro: made_none)
  next
    case d: (Some d)
    then have "windows__socket_wrap ws d (fst st, os2) (ten__set_error TEN_OK w) = (r, st1, w1)"
      using m Some a by (simp add: windows_tcp_accept_def)
    with law d show ?thesis by (intro wrap_made) (auto simp: opened_def handed_def started_once_def)
  qed
qed

lemma udp_made: "windows_udp_socket ws st w = (r, st1, w1) \<Longrightarrow> made view st w r st1 w1"
proof -
  assume m: "windows_udp_socket ws st w = (r, st1, w1)"
  obtain fd os2 where a: "so_datagram_socket ws (snd (ten__wsa_ensure_init ws st)) = (fd, os2)" by fastforce
  note laws = datagram_socket_law [OF a] ensure_init_spec [of st]
  show ?thesis
  proof (cases fd)
    case None
    then show ?thesis
      using m a laws by (auto simp: windows_udp_socket_def opened_def handed_def started_once_def Let_def intro: made_none)
  next
    case d: (Some d)
    then have "windows__socket_wrap ws d (fst (ten__wsa_ensure_init ws st), os2) (ten__set_error TEN_OK w) = (r, st1, w1)"
      using m a by (simp add: windows_udp_socket_def Let_def)
    with laws d show ?thesis by (intro wrap_made) (auto simp: opened_def handed_def started_once_def)
  qed
qed

lemma make_made: "make_socket ws m st w = (r, st1, w1) \<Longrightarrow> made view st w r st1 w1"
  by (cases m) (simp_all add: connect_made listen_made accept_made udp_made bind_made)

end

section \<open>The life of a socket\<close>

fun socket_step ::
    "('a, 'os) winsock \<Rightarrow> windows_socket \<Rightarrow> socket_command \<Rightarrow> bool \<times> 'os \<Rightarrow> ten_world \<Rightarrow> (int \<times> (bool \<times> 'os) \<times> ten_world) option" where
  "socket_step ws s (Sock_Send bs) st w = windows_socket_send ws (Some s) (Some bs) (of_nat (length bs)) st w"
| "socket_step ws s (Sock_Receive n) st w = (case windows_socket_receive ws (Some s) True n st w of (k, bs, st1, w1) \<Rightarrow> Some (k, st1, w1))"
| "socket_step ws s (Sock_Send_To h p bs) st w = windows_udp_send_to ws (Some s) (Some h) p (Some bs) (of_nat (length bs)) st w"
| "socket_step ws s (Sock_Receive_From n) st w =
     (case windows_udp_receive_from ws (Some s) True n False 0 False st w of
        None \<Rightarrow> None | Some (k, bs, host, port, st1, w1) \<Rightarrow> Some (k, st1, w1))"
| "socket_step ws s (Sock_Poll t) st w = Some (windows_socket_poll_readable ws (Some s) t st w)"

primrec socket_run ::
    "('a, 'os) winsock \<Rightarrow> windows_socket \<Rightarrow> socket_command list \<Rightarrow> bool \<times> 'os \<Rightarrow> ten_world \<Rightarrow>
     ((int \<times> ten_error_code) list \<times> (bool \<times> 'os) \<times> ten_world) option" where
  "socket_run ws s [] st w = Some ([], st, w)"
| "socket_run ws s (c # cs) st w =
     (case socket_step ws s c st w of
        None \<Rightarrow> None
      | Some (k, st1, w1) \<Rightarrow>
          map_option (\<lambda>(rs, st2, w2). ((k, ten_last_error w1) # rs, st2, w2)) (socket_run ws s cs st1 w1))"

context winsock_net
begin

lemma socket_step_ok:
  assumes "command_size c < 2 ^ 31"
  shows "\<exists>k st1 w1. socket_step ws s c st w = Some (k, st1, w1) \<and> socket_answer_ok c (k, ten_last_error w1) \<and>
    handed view st1 = handed view st \<and> (started_once view st \<longrightarrow> started_once view st1) \<and> live w1 = live w"
proof (cases c)
  case (Sock_Send bs)
  obtain r os1 where call: "so_send ws (wk_fd s) bs (int (length bs)) (snd st) = (r, os1)" by fastforce
  have n: "unat (of_nat (length bs) :: size_t) = length bs" using assms Sock_Send by (intro unat_of_nat_size) simp
  then have "int_of_size (of_nat (length bs)) = int (length bs)" using assms Sock_Send int_of_small_size [of "of_nat (length bs)"] by simp
  then show ?thesis
    using call send_law [OF call] assms Sock_Send n
    by (cases r) (auto simp: windows_socket_send_def c_object_whole socket_answer_ok_def handed_def started_once_def)
next
  case (Sock_Receive n)
  obtain r os1 where call: "so_recv ws (wk_fd s) (int (unat n)) (snd st) = (r, os1)" by fastforce
  then show ?thesis
    using recv_law [OF call] assms Sock_Receive int_of_small_size [of n]
    by (cases r) (auto simp: windows_socket_receive_def socket_answer_ok_def handed_def started_once_def)
next
  case (Sock_Send_To h p bs)
  obtain res st2 where rs: "windows__resolve ws h p False st = (res, st2)" by (cases "windows__resolve ws h p False st")
  note law = resolve_spec [OF rs]
  show ?thesis
  proof (cases res)
    case None
    then show ?thesis
      using rs law Sock_Send_To by (auto simp: windows_udp_send_to_def socket_answer_ok_def)
  next
    case (Some as)
    then obtain a rest where as: "as = a # rest" using law by (cases as) auto
    obtain r os1 where call: "so_sendto ws (wk_fd s) bs (int (length bs)) a (snd st2) = (r, os1)" by fastforce
    have n: "unat (of_nat (length bs) :: size_t) = length bs" using assms Sock_Send_To by (intro unat_of_nat_size) simp
    then have "int_of_size (of_nat (length bs)) = int (length bs)" using assms Sock_Send_To int_of_small_size [of "of_nat (length bs)"] by simp
    then show ?thesis
      using rs law Some as call sendto_law [OF call] freeaddrinfo_law [of os1] assms Sock_Send_To n
      by (cases r) (auto simp: windows_udp_send_to_def c_object_whole socket_answer_ok_def handed_def started_once_def Let_def)
  qed
next
  case (Sock_Receive_From n)
  obtain r os1 where call: "so_recvfrom ws (wk_fd s) (int (unat n)) (snd st) = (r, os1)" by fastforce
  then show ?thesis
    using recvfrom_law [OF call] assms Sock_Receive_From int_of_small_size [of n]
    by (cases r) (auto simp: windows_udp_receive_from_def socket_answer_ok_def handed_def started_once_def)
next
  case (Sock_Poll t)
  obtain rc os1 where call: "so_select ws (wk_fd s) (poll_time t) (snd st) = (rc, os1)" by fastforce
  then show ?thesis
    using select_law [OF call] Sock_Poll
    by (auto simp: windows_socket_poll_readable_def socket_answer_ok_def handed_def started_once_def)
qed

lemma socket_run_ok:
  assumes "\<forall>c \<in> set cs. command_size c < 2 ^ 31"
  shows "\<exists>rs st1 w1. socket_run ws s cs st w = Some (rs, st1, w1) \<and> list_all2 socket_answer_ok cs rs \<and>
    handed view st1 = handed view st \<and> (started_once view st \<longrightarrow> started_once view st1) \<and> live w1 = live w"
  using assms
proof (induction cs arbitrary: st w)
  case (Cons c cs)
  obtain k st1 w1 where step: "socket_step ws s c st w = Some (k, st1, w1)" "socket_answer_ok c (k, ten_last_error w1)"
      "handed view st1 = handed view st" "started_once view st \<longrightarrow> started_once view st1" "live w1 = live w"
    using socket_step_ok [of c s st w] Cons.prems by auto
  obtain rs st2 w2 where "socket_run ws s cs st1 w1 = Some (rs, st2, w2)" "list_all2 socket_answer_ok cs rs"
      "handed view st2 = handed view st1" "started_once view st1 \<longrightarrow> started_once view st2" "live w2 = live w1"
    using Cons.IH [of st1 w1] Cons.prems by auto
  with step show ?case by auto
qed simp

lemma socket_life_law:
  assumes "started_once view st" "\<forall>c \<in> set cs. command_size c < 2 ^ 31"
  shows "\<exists>r st1 w1. make_socket ws m st w = (r, st1, w1) \<and> made view st w r st1 w1 \<and>
    (\<forall>s. r = Some s \<longrightarrow> (\<exists>rs st2 w2 st3 w3. socket_run ws s cs st1 w1 = Some (rs, st2, w2) \<and> list_all2 socket_answer_ok cs rs \<and>
       windows_socket_close ws (Some s) st2 w2 = Some (st3, w3) \<and>
       handed view st3 = handed view st \<and> live w3 = live w \<and> started_once view st3))"
proof -
  obtain r st1 w1 where m: "make_socket ws m st w = (r, st1, w1)" by (metis prod_cases3)
  note made = make_made [OF m]
  have "\<exists>rs st2 w2 st3 w3. socket_run ws s cs st1 w1 = Some (rs, st2, w2) \<and> list_all2 socket_answer_ok cs rs \<and>
       windows_socket_close ws (Some s) st2 w2 = Some (st3, w3) \<and>
       handed view st3 = handed view st \<and> live w3 = live w \<and> started_once view st3" if "r = Some s" for s
  proof -
    obtain rs st2 w2 where run: "socket_run ws s cs st1 w1 = Some (rs, st2, w2)" "list_all2 socket_answer_ok cs rs"
        "handed view st2 = handed view st1" "started_once view st1 \<longrightarrow> started_once view st2" "live w2 = live w1"
      using socket_run_ok [OF assms(2)] by blast
    have "handed view (fst st2, so_close ws (wk_fd s) (snd st2)) = handed view st"
        "started_once view (fst st2, so_close ws (wk_fd s) (snd st2))"
      using run made that assms(1) closesocket_law [of "wk_fd s" "snd st2"]
      by (auto simp: made_def handed_def started_once_def)
    then show ?thesis using run made that by (auto simp: windows_socket_close_def made_def)
  qed
  with m made show ?thesis by blast
qed

end

text \<open>A send or a receive of \<open>2 ^ 32\<close> bytes is one of none, and one of \<open>2 ^ 31\<close> bytes has a negative size.\<close>

lemma sizes_cut: "int_of_size (2 ^ 32) = 0" "int_of_size (2 ^ 31) = - (2 ^ 31)"
  by (code_simp)+

end
