(* ===== verification/Ten_Socket_Posix.thy ===== *)
theory Ten_Socket_Posix
  imports Ten_Socket_Calls "HOL-Library.Signed_Division"
begin

text \<open>
  The POSIX socket module (\<open>src/platform/posix/socket_posix.c\<close>) once more, at the level of descriptors:
  over the calls of \<open>Ten_Socket_Calls\<close>, with every descriptor that is opened and closed on the way. The
  lemmas show that it loses no descriptor, no list of addresses and no block.
\<close>

section \<open>Operations\<close>

record posix_socket =
  pk_fd :: nat

definition posix__socket_wrap ::
    "('a, 'os, 'z) socket_calls_scheme \<Rightarrow> nat \<Rightarrow> 'os \<Rightarrow> ten_world \<Rightarrow> posix_socket option \<times> 'os \<times> ten_world" where
  "posix__socket_wrap so fd os w =
     (let (sock, w1) = ten_malloc sizeof_ten_socket w
      in if is_Null sock then (None, so_close so fd os, w1) else (Some \<lparr>pk_fd = fd\<rparr>, os, w1))"

definition posix__resolve ::
    "('a, 'os, 'z) socket_calls_scheme \<Rightarrow> cstring \<Rightarrow> u16 \<Rightarrow> bool \<Rightarrow> 'os \<Rightarrow> 'a list option \<times> 'os" where
  "posix__resolve so host port socktype os = so_getaddrinfo so host (nat_digits (unat port)) socktype os"

definition posix_tcp_connect ::
    "('a, 'os, 'z) socket_calls_scheme \<Rightarrow> cstring option \<Rightarrow> u16 \<Rightarrow> 'os \<Rightarrow> ten_world \<Rightarrow>
     posix_socket option \<times> 'os \<times> ten_world" where
  "posix_tcp_connect so host port os w =
     (case host of
        None \<Rightarrow> (None, os, ten__set_error TEN_ERROR_NULL_ARGUMENT w)
      | Some h \<Rightarrow>
          (case posix__resolve so h port True os of
             (None, os1) \<Rightarrow> (None, os1, ten__set_error TEN_ERROR_NETWORK w)
           | (Some res, os1) \<Rightarrow>
               let (fd, os2) = connect_loop so res os1;
                   os3 = so_freeaddrinfo so os2
               in (case fd of
                     None \<Rightarrow> (None, os3, ten__set_error TEN_ERROR_NETWORK w)
                   | Some d \<Rightarrow> posix__socket_wrap so d os3 (ten__set_error TEN_OK w))))"

definition posix_tcp_listen ::
    "('a, 'os, 'z) socket_calls_scheme \<Rightarrow> cstring option \<Rightarrow> u16 \<Rightarrow> int \<Rightarrow> 'os \<Rightarrow> ten_world \<Rightarrow>
     posix_socket option \<times> 'os \<times> ten_world" where
  "posix_tcp_listen so host port backlog os w =
     (case host of
        None \<Rightarrow> (None, os, ten__set_error TEN_ERROR_NULL_ARGUMENT w)
      | Some h \<Rightarrow>
          (case posix__resolve so h port True os of
             (None, os1) \<Rightarrow> (None, os1, ten__set_error TEN_ERROR_NETWORK w)
           | (Some res, os1) \<Rightarrow>
               let (fd, os2) = bind_loop so True res os1;
                   os3 = so_freeaddrinfo so os2
               in (case fd of
                     None \<Rightarrow> (None, os3, ten__set_error TEN_ERROR_NETWORK w)
                   | Some d \<Rightarrow>
                       (case so_listen so d backlog os3 of
                          (False, os4) \<Rightarrow> (None, so_close so d os4, ten__set_error TEN_ERROR_NETWORK w)
                        | (True, os4) \<Rightarrow> posix__socket_wrap so d os4 (ten__set_error TEN_OK w)))))"

definition posix_tcp_accept ::
    "('a, 'os, 'z) socket_calls_scheme \<Rightarrow> posix_socket option \<Rightarrow> 'os \<Rightarrow> ten_world \<Rightarrow> posix_socket option \<times> 'os \<times> ten_world" where
  "posix_tcp_accept so server os w =
     (case server of
        None \<Rightarrow> (None, os, ten__set_error TEN_ERROR_NULL_ARGUMENT w)
      | Some s \<Rightarrow>
          (case so_accept so (pk_fd s) os of
             (None, os1) \<Rightarrow> (None, os1, ten__set_error TEN_ERROR_NETWORK w)
           | (Some d, os1) \<Rightarrow> posix__socket_wrap so d os1 (ten__set_error TEN_OK w)))"

definition posix_udp_socket ::
    "('a, 'os, 'z) socket_calls_scheme \<Rightarrow> 'os \<Rightarrow> ten_world \<Rightarrow> posix_socket option \<times> 'os \<times> ten_world" where
  "posix_udp_socket so os w =
     (case so_datagram_socket so os of
        (None, os1) \<Rightarrow> (None, os1, ten__set_error TEN_ERROR_NETWORK w)
      | (Some d, os1) \<Rightarrow> posix__socket_wrap so d os1 (ten__set_error TEN_OK w))"

definition posix_udp_bind ::
    "('a, 'os, 'z) socket_calls_scheme \<Rightarrow> cstring option \<Rightarrow> u16 \<Rightarrow> 'os \<Rightarrow> ten_world \<Rightarrow>
     posix_socket option \<times> 'os \<times> ten_world" where
  "posix_udp_bind so host port os w =
     (case host of
        None \<Rightarrow> (None, os, ten__set_error TEN_ERROR_NULL_ARGUMENT w)
      | Some h \<Rightarrow>
          (case posix__resolve so h port False os of
             (None, os1) \<Rightarrow> (None, os1, ten__set_error TEN_ERROR_NETWORK w)
           | (Some res, os1) \<Rightarrow>
               let (fd, os2) = bind_loop so False res os1;
                   os3 = so_freeaddrinfo so os2
               in (case fd of
                     None \<Rightarrow> (None, os3, ten__set_error TEN_ERROR_NETWORK w)
                   | Some d \<Rightarrow> posix__socket_wrap so d os3 (ten__set_error TEN_OK w))))"

definition posix_socket_send ::
    "('a, 'os, 'z) socket_calls_scheme \<Rightarrow> posix_socket option \<Rightarrow> byte list option \<Rightarrow> size_t \<Rightarrow> 'os \<Rightarrow> ten_world \<Rightarrow>
     (int \<times> 'os \<times> ten_world) option" where
  "posix_socket_send so sock bytes sz os w =
     (case sock of
        None \<Rightarrow> Some (-1, os, ten__set_error TEN_ERROR_NULL_ARGUMENT w)
      | Some s \<Rightarrow>
          if bytes = None \<and> sz > 0 then Some (-1, os, ten__set_error TEN_ERROR_NULL_ARGUMENT w)
          else do {
            obj \<leftarrow> c_object bytes sz;
            case so_send so (pk_fd s) obj (int (unat sz)) os of
              (None, os1) \<Rightarrow> Some (-1, os1, ten__set_error TEN_ERROR_NETWORK w)
            | (Some n, os1) \<Rightarrow> Some (int n, os1, ten__set_error TEN_OK w)
          })"

definition posix_socket_receive ::
    "('a, 'os, 'z) socket_calls_scheme \<Rightarrow> posix_socket option \<Rightarrow> bool \<Rightarrow> size_t \<Rightarrow> 'os \<Rightarrow> ten_world \<Rightarrow>
     int \<times> byte list \<times> 'os \<times> ten_world" where
  "posix_socket_receive so sock buffer sz os w =
     (case sock of
        None \<Rightarrow> (-1, [], os, ten__set_error TEN_ERROR_NULL_ARGUMENT w)
      | Some s \<Rightarrow>
          if \<not> buffer \<and> sz > 0 then (-1, [], os, ten__set_error TEN_ERROR_NULL_ARGUMENT w)
          else
            (case so_recv so (pk_fd s) (int (unat sz)) os of
               (None, os1) \<Rightarrow> (-1, [], os1, ten__set_error TEN_ERROR_NETWORK w)
             | (Some bs, os1) \<Rightarrow> (int (length bs), bs, os1, ten__set_error TEN_OK w)))"

definition posix_udp_send_to ::
    "('a, 'os, 'z) socket_calls_scheme \<Rightarrow> posix_socket option \<Rightarrow> cstring option \<Rightarrow> u16 \<Rightarrow> byte list option \<Rightarrow> size_t \<Rightarrow>
     'os \<Rightarrow> ten_world \<Rightarrow> (int \<times> 'os \<times> ten_world) option" where
  "posix_udp_send_to so sock host port bytes sz os w =
     (case (sock, host) of
        (Some s, Some h) \<Rightarrow>
          if bytes = None \<and> sz > 0 then Some (-1, os, ten__set_error TEN_ERROR_NULL_ARGUMENT w)
          else
            (case posix__resolve so h port False os of
               (None, os1) \<Rightarrow> Some (-1, os1, ten__set_error TEN_ERROR_NETWORK w)
             | (Some [], os1) \<Rightarrow> None
             | (Some (a # res), os1) \<Rightarrow> do {
                 obj \<leftarrow> c_object bytes sz;
                 let (n, os2) = so_sendto so (pk_fd s) obj (int (unat sz)) a os1;
                 let os3 = so_freeaddrinfo so os2;
                 case n of
                   None \<Rightarrow> Some (-1, os3, ten__set_error TEN_ERROR_NETWORK w)
                 | Some k \<Rightarrow> Some (int k, os3, ten__set_error TEN_OK w)
               })
      | _ \<Rightarrow> Some (-1, os, ten__set_error TEN_ERROR_NULL_ARGUMENT w))"

definition posix_udp_receive_from ::
    "('a, 'os, 'z) socket_calls_scheme \<Rightarrow> posix_socket option \<Rightarrow> bool \<Rightarrow> size_t \<Rightarrow> bool \<Rightarrow> size_t \<Rightarrow> bool \<Rightarrow> 'os \<Rightarrow> ten_world \<Rightarrow>
     (int \<times> byte list \<times> byte list option \<times> u16 option \<times> 'os \<times> ten_world) option" where
  "posix_udp_receive_from so sock buffer sz out_host out_host_size out_port os w =
     (case sock of
        None \<Rightarrow> Some (-1, [], None, None, os, ten__set_error TEN_ERROR_NULL_ARGUMENT w)
      | Some s \<Rightarrow>
          if \<not> buffer \<and> sz > 0 then Some (-1, [], None, None, os, ten__set_error TEN_ERROR_NULL_ARGUMENT w)
          else
            (case so_recvfrom so (pk_fd s) (int (unat sz)) os of
               (None, os1) \<Rightarrow> Some (-1, [], None, None, os1, ten__set_error TEN_ERROR_NETWORK w)
             | (Some d, os1) \<Rightarrow> do {
                 host \<leftarrow> (if out_host \<and> out_host_size > 0
                         then do { (h, p) \<leftarrow> dg_sender d; Some (Some (copy_host h out_host_size)) }
                         else Some None);
                 port \<leftarrow> (if out_port then do { (h, p) \<leftarrow> dg_sender d; n \<leftarrow> atoi p; Some (Some (word_of_int n)) }
                         else Some None);
                 Some (int (length (dg_bytes d)), dg_bytes d, host, port, os1, ten__set_error TEN_OK w)
               }))"

definition posix_socket_close ::
    "('a, 'os, 'z) socket_calls_scheme \<Rightarrow> posix_socket option \<Rightarrow> 'os \<Rightarrow> ten_world \<Rightarrow> ('os \<times> ten_world) option" where
  "posix_socket_close so sock os w =
     (case sock of
        None \<Rightarrow> Some (os, w)
      | Some s \<Rightarrow> do { let os1 = so_close so (pk_fd s) os; w1 \<leftarrow> free_struct w; Some (os1, w1) })"

definition posix_socket_native_handle :: "posix_socket option \<Rightarrow> ten_world \<Rightarrow> int \<times> ten_world" where
  "posix_socket_native_handle sock w =
     (case sock of
        None \<Rightarrow> (-1, ten__set_error TEN_ERROR_NULL_ARGUMENT w)
      | Some s \<Rightarrow> (int (pk_fd s), ten__set_error TEN_OK w))"

text \<open>A descriptor set has bits for descriptors below \<open>FD_SETSIZE\<close>; \<open>FD_SET\<close> of another one writes outside.\<close>

definition FD_SETSIZE :: nat where "FD_SETSIZE = 1024"

definition posix_poll_time :: "int \<Rightarrow> int \<times> int" where
  "posix_poll_time timeout_ms = (timeout_ms sdiv 1000, timeout_ms smod 1000 * 1000)"

definition posix_socket_poll_readable ::
    "('a, 'os, 'z) socket_calls_scheme \<Rightarrow> posix_socket option \<Rightarrow> int \<Rightarrow> 'os \<Rightarrow> ten_world \<Rightarrow> (int \<times> 'os \<times> ten_world) option" where
  "posix_socket_poll_readable so sock timeout_ms os w =
     (case sock of
        None \<Rightarrow> Some (-1, os, ten__set_error TEN_ERROR_NULL_ARGUMENT w)
      | Some s \<Rightarrow>
          if FD_SETSIZE \<le> pk_fd s then None
          else
            (case so_select so (pk_fd s) (posix_poll_time timeout_ms) os of
               (rc, os1) \<Rightarrow>
                 Some (if rc < 0 then (-1, os1, ten__set_error TEN_ERROR_NETWORK w)
                       else ((if rc > 0 then 1 else 0), os1, ten__set_error TEN_OK w))))"

section \<open>Making a socket loses nothing\<close>

text \<open>What a call that makes a socket does: one more descriptor and block, or none of them and an error.\<close>

definition gained ::
    "('os \<Rightarrow> net_view) \<Rightarrow> 'os \<Rightarrow> ten_world \<Rightarrow> posix_socket option \<times> 'os \<times> ten_world \<Rightarrow> bool" where
  "gained view os w res \<longleftrightarrow>
     (case res of (r, os1, w1) \<Rightarrow>
        opened (map_option pk_fd r) (view os) (view os1) \<and>
        live w1 = live w + (if r = None then 0 else 1) \<and> (g_ten_last_error w1 = TEN_OK \<longleftrightarrow> r \<noteq> None))"

lemma gained_none: "view os1 = view os \<Longrightarrow> e \<noteq> TEN_OK \<Longrightarrow> gained view os w (None, os1, ten__set_error e w)"
  by (simp add: gained_def opened_def)

datatype posix_maker =
    P_Connect "cstring option" u16 | P_Listen "cstring option" u16 int | P_Accept "posix_socket option"
  | P_Udp_Socket | P_Udp_Bind "cstring option" u16

primrec posix_make ::
    "('a, 'os, 'z) socket_calls_scheme \<Rightarrow> posix_maker \<Rightarrow> 'os \<Rightarrow> ten_world \<Rightarrow> posix_socket option \<times> 'os \<times> ten_world" where
  "posix_make so (P_Connect host port) os w = posix_tcp_connect so host port os w"
| "posix_make so (P_Listen host port backlog) os w = posix_tcp_listen so host port backlog os w"
| "posix_make so (P_Accept server) os w = posix_tcp_accept so server os w"
| "posix_make so P_Udp_Socket os w = posix_udp_socket so os w"
| "posix_make so (P_Udp_Bind host port) os w = posix_udp_bind so host port os w"

context socket_net
begin

lemma wrap_gained:
  assumes "opened (Some d) (view os) (view os1)"
  shows "gained view os w (posix__socket_wrap so d os1 (ten__set_error TEN_OK w))"
proof (cases rule: ten_malloc_cases [where n = sizeof_ten_socket and w = "ten__set_error TEN_OK w"])
  case (refused w1)
  then show ?thesis
    using closesocket_law [of d os1] opened_closed [OF assms]
    by (simp add: posix__socket_wrap_def gained_def opened_def)
next
  case (granted w1)
  then show ?thesis using assms by (simp add: posix__socket_wrap_def gained_def)
qed

text \<open>The list of addresses is held while a loop goes through it, and then freed.\<close>

lemma list_freed:
  assumes "posix__resolve so h port t os = (Some res, os1)" "opened fd (view os1) (view os2)"
  shows "opened fd (view os) (view (so_freeaddrinfo so os2))"
  using getaddrinfo_law [OF assms(1) [unfolded posix__resolve_def]] assms(2) freeaddrinfo_law [of os2]
  by (cases fd) (auto simp: opened_def)

lemma resolved_gained:
  assumes opens: "\<And>as os r os'. loop as os = (r, os') \<Longrightarrow> opened r (view os) (view os')"
    and wraps: "\<And>d os1. opened (Some d) (view os) (view os1) \<Longrightarrow> gained view os w (finish d os1)"
  shows "gained view os w
    (case posix__resolve so h port t os of
       (None, os1) \<Rightarrow> (None, os1, ten__set_error TEN_ERROR_NETWORK w)
     | (Some res, os1) \<Rightarrow>
         let (fd, os2) = loop res os1;
             os3 = so_freeaddrinfo so os2
         in (case fd of
               None \<Rightarrow> (None, os3, ten__set_error TEN_ERROR_NETWORK w)
             | Some d \<Rightarrow> finish d os3))"
proof -
  obtain res os1 where rs: "posix__resolve so h port t os = (res, os1)" by (cases "posix__resolve so h port t os")
  show ?thesis
  proof (cases res)
    case None
    then have "view os1 = view os" using getaddrinfo_law [OF rs [unfolded posix__resolve_def]] by simp
    then show ?thesis using rs None by (simp add: gained_none)
  next
    case (Some as)
    obtain fd os2 where c: "loop as os1 = (fd, os2)" by (cases "loop as os1")
    note freed = list_freed [OF rs [unfolded Some] opens [OF c]]
    show ?thesis
    proof (cases fd)
      case None
      then have "view (so_freeaddrinfo so os2) = view os" using freed by (simp add: opened_def)
      then show ?thesis using rs Some c None by (simp add: gained_none)
    next
      case d: (Some d)
      then show ?thesis using rs Some c wraps freed by simp
    qed
  qed
qed

lemma listens_gained:
  assumes "opened (Some d) (view os) (view os1)"
  shows "gained view os w
    (case so_listen so d backlog os1 of
       (False, os4) \<Rightarrow> (None, so_close so d os4, ten__set_error TEN_ERROR_NETWORK w)
     | (True, os4) \<Rightarrow> posix__socket_wrap so d os4 (ten__set_error TEN_OK w))"
proof -
  obtain b os4 where l: "so_listen so d backlog os1 = (b, os4)" by (cases "so_listen so d backlog os1")
  then have same: "view os4 = view os1" by (rule listen_law)
  show ?thesis
  proof (cases b)
    case True
    then show ?thesis using l same assms wrap_gained [of d os os4] by simp
  next
    case False
    have "view (so_close so d os4) = view os" using closesocket_law [of d os4] same opened_closed [OF assms] by simp
    then show ?thesis using l False by (simp add: gained_none)
  qed
qed

lemma opened_gained:
  assumes "opened fd (view os) (view os1)"
  shows "gained view os w
    (case (fd, os1) of
       (None, os1) \<Rightarrow> (None, os1, ten__set_error TEN_ERROR_NETWORK w)
     | (Some d, os1) \<Rightarrow> posix__socket_wrap so d os1 (ten__set_error TEN_OK w))"
  using assms by (cases fd) (simp_all add: wrap_gained gained_none opened_def)

lemma make_gained: "gained view os w (posix_make so m os w)"
proof (cases m)
  case (P_Connect host port)
  then show ?thesis
    using resolved_gained [OF connect_loop_opens wrap_gained]
    by (cases host) (simp_all only: posix_make.simps posix_tcp_connect_def option.case, simp add: gained_none)
next
  case (P_Listen host port backlog)
  then show ?thesis
    using resolved_gained [OF bind_loop_opens listens_gained]
    by (cases host) (simp_all only: posix_make.simps posix_tcp_listen_def option.case, simp add: gained_none)
next
  case (P_Udp_Bind host port)
  then show ?thesis
    using resolved_gained [OF bind_loop_opens wrap_gained]
    by (cases host) (simp_all only: posix_make.simps posix_udp_bind_def option.case, simp add: gained_none)
next
  case (P_Accept server)
  show ?thesis
  proof (cases server)
    case None
    then show ?thesis using P_Accept by (simp add: posix_tcp_accept_def gained_none)
  next
    case (Some s)
    obtain fd os1 where a: "so_accept so (pk_fd s) os = (fd, os1)" by (cases "so_accept so (pk_fd s) os")
    from opened_gained [OF accept_law [OF a], of w] show ?thesis using P_Accept Some a by (simp add: posix_tcp_accept_def)
  qed
next
  case P_Udp_Socket
  obtain fd os1 where a: "so_datagram_socket so os = (fd, os1)" by (cases "so_datagram_socket so os")
  from opened_gained [OF datagram_socket_law [OF a], of w] show ?thesis using P_Udp_Socket a by (simp add: posix_udp_socket_def)
qed

end

section \<open>The life of a socket\<close>

text \<open>The answer of a command has the bytes that were received.\<close>

fun posix_socket_step ::
    "('a, 'os, 'z) socket_calls_scheme \<Rightarrow> posix_socket \<Rightarrow> socket_command \<Rightarrow> 'os \<Rightarrow> ten_world \<Rightarrow>
     ((int \<times> byte list) \<times> 'os \<times> ten_world) option" where
  "posix_socket_step so s (Sock_Send bs) os w =
     map_option (\<lambda>(k, st). ((k, []), st)) (posix_socket_send so (Some s) (Some bs) (of_nat (length bs)) os w)"
| "posix_socket_step so s (Sock_Receive n) os w =
     (case posix_socket_receive so (Some s) True n os w of (k, bs, st) \<Rightarrow> Some ((k, bs), st))"
| "posix_socket_step so s (Sock_Send_To h p bs) os w =
     map_option (\<lambda>(k, st). ((k, []), st)) (posix_udp_send_to so (Some s) (Some h) p (Some bs) (of_nat (length bs)) os w)"
| "posix_socket_step so s (Sock_Receive_From n) os w =
     map_option (\<lambda>(k, bs, host, port, st). ((k, bs), st)) (posix_udp_receive_from so (Some s) True n False 0 False os w)"
| "posix_socket_step so s (Sock_Poll t) os w = map_option (\<lambda>(k, st). ((k, []), st)) (posix_socket_poll_readable so (Some s) t os w)"

primrec posix_socket_run ::
    "('a, 'os, 'z) socket_calls_scheme \<Rightarrow> posix_socket \<Rightarrow> socket_command list \<Rightarrow> 'os \<Rightarrow> ten_world \<Rightarrow>
     ((int \<times> byte list \<times> ten_error_code) list \<times> 'os \<times> ten_world) option" where
  "posix_socket_run so s [] os w = Some ([], os, w)"
| "posix_socket_run so s (c # cs) os w =
     (case posix_socket_step so s c os w of
        None \<Rightarrow> None
      | Some ((k, bs), os1, w1) \<Rightarrow>
          map_option (\<lambda>(rs, st). ((k, bs, ten_last_error w1) # rs, st)) (posix_socket_run so s cs os1 w1))"

definition can_poll :: "posix_socket \<Rightarrow> socket_command \<Rightarrow> bool" where
  "can_poll s c \<longleftrightarrow> (case c of Sock_Poll t \<Rightarrow> pk_fd s < FD_SETSIZE | _ \<Rightarrow> True)"

definition posix_answer_ok :: "socket_command \<Rightarrow> int \<times> byte list \<times> ten_error_code \<Rightarrow> bool" where
  "posix_answer_ok c a \<longleftrightarrow> (case a of (k, bs, e) \<Rightarrow> socket_answer_ok c (k, e) \<and> (bs = [] \<or> k = int (length bs)))"

context socket_net
begin

lemma posix_step_ok:
  assumes "command_size c < 2 ^ 63" "can_poll s c"
  shows "\<exists>k bs os1 w1. posix_socket_step so s c os w = Some ((k, bs), os1, w1) \<and> posix_answer_ok c (k, bs, ten_last_error w1) \<and>
    view os1 = view os \<and> live w1 = live w"
proof (cases c)
  case (Sock_Send bs)
  have n: "unat (of_nat (length bs) :: size_t) = length bs" using assms Sock_Send by (intro unat_of_nat_size) simp
  obtain r os1 where call: "so_send so (pk_fd s) bs (int (length bs)) os = (r, os1)" by fastforce
  then show ?thesis
    using send_law [OF call] assms Sock_Send n
    by (cases r) (auto simp: posix_socket_send_def c_object_whole posix_answer_ok_def socket_answer_ok_def)
next
  case (Sock_Receive n)
  obtain r os1 where call: "so_recv so (pk_fd s) (int (unat n)) os = (r, os1)" by fastforce
  then show ?thesis
    using recv_law [OF call] Sock_Receive
    by (cases r) (auto simp: posix_socket_receive_def posix_answer_ok_def socket_answer_ok_def)
next
  case (Sock_Send_To h p bs)
  have n: "unat (of_nat (length bs) :: size_t) = length bs" using assms Sock_Send_To by (intro unat_of_nat_size) simp
  obtain res os1 where rs: "posix__resolve so h p False os = (res, os1)" by (cases "posix__resolve so h p False os")
  note law = getaddrinfo_law [OF rs [unfolded posix__resolve_def]]
  show ?thesis
  proof (cases res)
    case None
    then show ?thesis
      using rs law Sock_Send_To by (auto simp: posix_udp_send_to_def posix_answer_ok_def socket_answer_ok_def)
  next
    case (Some as)
    then obtain a rest where as: "as = a # rest" using law by (cases as) auto
    obtain r os2 where call: "so_sendto so (pk_fd s) bs (int (length bs)) a os1 = (r, os2)" by fastforce
    then show ?thesis
      using rs law Some as sendto_law [OF call] freeaddrinfo_law [of os2] assms Sock_Send_To n
      by (cases r) (auto simp: posix_udp_send_to_def c_object_whole posix_answer_ok_def socket_answer_ok_def Let_def)
  qed
next
  case (Sock_Receive_From n)
  obtain r os1 where call: "so_recvfrom so (pk_fd s) (int (unat n)) os = (r, os1)" by fastforce
  then show ?thesis
    using recvfrom_law [OF call] Sock_Receive_From
    by (cases r) (auto simp: posix_udp_receive_from_def posix_answer_ok_def socket_answer_ok_def)
next
  case (Sock_Poll t)
  obtain rc os1 where call: "so_select so (pk_fd s) (posix_poll_time t) os = (rc, os1)" by fastforce
  then show ?thesis
    using select_law [OF call] Sock_Poll assms
    by (auto simp: posix_socket_poll_readable_def posix_answer_ok_def socket_answer_ok_def can_poll_def)
qed

lemma posix_run_ok:
  assumes "\<forall>c \<in> set cs. command_size c < 2 ^ 63 \<and> can_poll s c"
  shows "\<exists>rs os1 w1. posix_socket_run so s cs os w = Some (rs, os1, w1) \<and> list_all2 posix_answer_ok cs rs \<and>
    view os1 = view os \<and> live w1 = live w"
  using assms
proof (induction cs arbitrary: os w)
  case (Cons c cs)
  obtain k bs os1 w1 where step: "posix_socket_step so s c os w = Some ((k, bs), os1, w1)"
      "posix_answer_ok c (k, bs, ten_last_error w1)" "view os1 = view os" "live w1 = live w"
    using posix_step_ok [of c s os w] Cons.prems by auto
  obtain rs os2 w2 where "posix_socket_run so s cs os1 w1 = Some (rs, os2, w2)" "list_all2 posix_answer_ok cs rs"
      "view os2 = view os1" "live w2 = live w1"
    using Cons.IH [of os1 w1] Cons.prems by auto
  with step show ?case by auto
qed simp

lemma posix_life_law:
  assumes "\<forall>c \<in> set cs. command_size c < 2 ^ 63"
  shows "\<exists>r os1 w1. posix_make so m os w = (r, os1, w1) \<and> gained view os w (r, os1, w1) \<and>
    (\<forall>s. r = Some s \<longrightarrow> (\<forall>c \<in> set cs. can_poll s c) \<longrightarrow>
      (\<exists>rs os2 w2 os3 w3. posix_socket_run so s cs os1 w1 = Some (rs, os2, w2) \<and> list_all2 posix_answer_ok cs rs \<and>
         posix_socket_close so (Some s) os2 w2 = Some (os3, w3) \<and> view os3 = view os \<and> live w3 = live w))"
proof -
  obtain r os1 w1 where m: "posix_make so m os w = (r, os1, w1)" by (metis prod_cases3)
  then have g: "gained view os w (r, os1, w1)" using make_gained [of os w m] by simp
  have "\<exists>rs os2 w2 os3 w3. posix_socket_run so s cs os1 w1 = Some (rs, os2, w2) \<and> list_all2 posix_answer_ok cs rs \<and>
       posix_socket_close so (Some s) os2 w2 = Some (os3, w3) \<and> view os3 = view os \<and> live w3 = live w"
    if "r = Some s" "\<forall>c \<in> set cs. can_poll s c" for s
  proof -
    have sizes: "\<forall>c \<in> set cs. command_size c < 2 ^ 63 \<and> can_poll s c" using assms that(2) by blast
    obtain rs os2 w2 where run: "posix_socket_run so s cs os1 w1 = Some (rs, os2, w2)" "list_all2 posix_answer_ok cs rs"
        "view os2 = view os1" "live w2 = live w1"
      using posix_run_ok [of cs s os1 w1] sizes by blast
    have "opened (Some (pk_fd s)) (view os) (view os1)" using g that(1) by (simp add: gained_def)
    then have "view (so_close so (pk_fd s) os2) = view os"
      using closesocket_law [of "pk_fd s" os2] run(3) opened_closed by simp
    then show ?thesis using run g that(1) by (auto simp: posix_socket_close_def gained_def)
  qed
  with m g show ?thesis by blast
qed

end

end
