(* ===== verification/Ten_Socket_Scripts.thy ===== *)
theory Ten_Socket_Scripts
  imports Ten_Socket_Posix
begin

text \<open>
  Descriptors and scripts. \<open>Ten_Socket\<close> describes a connection by the script of what will come of it,
  and \<open>Ten_Socket_Posix\<close> the same code on descriptors. Here is a system whose descriptors have
  scripts; it keeps the contract of \<open>Ten_Socket_Calls\<close>, and on it the two answer alike.
\<close>

section \<open>A system of scripts\<close>

text \<open>
  The system whose connections are the scripts of \<open>Ten_Socket\<close>: an address is the connection that
  connecting or binding to it gives, or none, and every open descriptor has a script.
\<close>

record script_env =
  se_resolve :: resolver
  se_listen :: int
  se_accept :: "ten_socket option"
  se_datagram :: "ten_socket option"
  se_recvfrom :: "datagram option"
  se_ready :: int

record scripts =
  sc_sockets :: "(nat \<times> ten_socket) list"
  sc_lists :: nat

definition no_script :: ten_socket where
  "no_script = \<lparr>sk_incoming = [], sk_room = [], sk_sent = []\<rparr>"

definition script_open :: "ten_socket \<Rightarrow> scripts \<Rightarrow> nat option \<times> scripts" where
  "script_open sk k =
     (let d = Suc (sum_list (map fst (sc_sockets k)))
      in (Some d, k\<lparr>sc_sockets := (d, sk) # sc_sockets k\<rparr>))"

definition script_update :: "nat \<Rightarrow> ten_socket \<Rightarrow> scripts \<Rightarrow> scripts" where
  "script_update s sk k = k\<lparr>sc_sockets := map (\<lambda>(d, q). (d, if d = s then sk else q)) (sc_sockets k)\<rparr>"

definition script_attach :: "nat \<Rightarrow> ten_socket option \<Rightarrow> scripts \<Rightarrow> bool \<times> scripts" where
  "script_attach s a k = (case a of None \<Rightarrow> (False, k) | Some sk \<Rightarrow> (True, script_update s sk k))"

definition script_send :: "nat \<Rightarrow> byte list \<Rightarrow> int \<Rightarrow> scripts \<Rightarrow> nat option \<times> scripts" where
  "script_send s bs n k =
     (case map_of (sc_sockets k) s of
        None \<Rightarrow> (None, k)
      | Some sk \<Rightarrow> (case posix_send sk (take (nat n) bs) of (r, sk1) \<Rightarrow> (r, script_update s sk1 k)))"

definition script_recv :: "nat \<Rightarrow> int \<Rightarrow> scripts \<Rightarrow> byte list option \<times> scripts" where
  "script_recv s n k =
     (case map_of (sc_sockets k) s of
        None \<Rightarrow> (None, k)
      | Some sk \<Rightarrow>
          if n < 0 then (None, k) else (case posix_recv sk (of_int n) of (got, sk1) \<Rightarrow> (got, script_update s sk1 k)))"

definition script_calls :: "script_env \<Rightarrow> (ten_socket option, scripts) socket_calls" where
  "script_calls e =
     \<lparr>so_getaddrinfo = (\<lambda>h p t k.
        case Option.bind (atoi p) (\<lambda>n. se_resolve e h (of_int n)) of
          None \<Rightarrow> (None, k)
        | Some as \<Rightarrow> if as = [] then (None, k) else (Some as, k\<lparr>sc_lists := Suc (sc_lists k)\<rparr>)),
      so_freeaddrinfo = (\<lambda>k. k\<lparr>sc_lists := sc_lists k - 1\<rparr>),
      so_socket = (\<lambda>a. script_open no_script),
      so_datagram_socket = (\<lambda>k. case se_datagram e of None \<Rightarrow> (None, k) | Some sk \<Rightarrow> script_open sk k),
      so_connect = script_attach, so_reuse_address = (\<lambda>s k. k), so_bind = script_attach,
      so_listen = (\<lambda>s n k. (se_listen e = 0, k)),
      so_accept = (\<lambda>s k. case se_accept e of None \<Rightarrow> (None, k) | Some sk \<Rightarrow> script_open sk k),
      so_send = script_send, so_recv = script_recv, so_sendto = (\<lambda>s bs n a. script_send s bs n),
      so_recvfrom = (\<lambda>s n k. (map_option (\<lambda>d. d\<lparr>dg_bytes := take (nat n) (dg_bytes d)\<rparr>) (se_recvfrom e), k)),
      so_select = (\<lambda>s tv k. (se_ready e, k)),
      so_close = (\<lambda>s k. k\<lparr>sc_sockets := filter (\<lambda>(d, q). d \<noteq> s) (sc_sockets k)\<rparr>)\<rparr>"

definition script_view :: "scripts \<Rightarrow> net_view" where
  "script_view k = \<lparr>nv_sockets = fst ` set (sc_sockets k), nv_lists = sc_lists k, nv_startups = 0\<rparr>"

lemma script_fresh: "Suc (sum_list (map fst (sc_sockets k))) \<notin> fst ` set (sc_sockets k)"
proof -
  have "x \<le> sum_list (map fst (sc_sockets k))" if "x \<in> fst ` set (sc_sockets k)" for x
    using that member_le_sum_list [of x "map fst (sc_sockets k)"] by simp
  then show ?thesis by fastforce
qed

lemma script_opened: "script_open sk k = (d, k') \<Longrightarrow> opened d (script_view k) (script_view k')"
  using script_fresh [of k] by (auto simp: script_open_def opened_def script_view_def Let_def)

lemma script_view_update [simp]: "script_view (script_update s sk k) = script_view k"
  by (force simp: script_view_def script_update_def)

lemma script_view_simps:
  "script_view (k\<lparr>sc_lists := n\<rparr>) = (script_view k)\<lparr>nv_lists := n\<rparr>" "nv_lists (script_view k) = sc_lists k"
  "script_view (k\<lparr>sc_sockets := filter (\<lambda>(d, q). d \<noteq> s) (sc_sockets k)\<rparr>) =
     (script_view k)\<lparr>nv_sockets := nv_sockets (script_view k) - {s}\<rparr>"
  "opened None v v"
  by (auto simp: script_view_def opened_def)

lemma script_attach_view: "script_attach s a k = (b, k') \<Longrightarrow> script_view k' = script_view k"
  by (auto simp: script_attach_def split: option.splits)

lemma script_send_view: "script_send s bs n k = (r, k') \<Longrightarrow> script_view k' = script_view k \<and> (\<forall>c. r = Some c \<longrightarrow> int c \<le> max 0 n)"
  by (auto simp: script_send_def posix_send_def split: option.splits list.splits)

lemma posix_recv_bound: "posix_recv sk n = (Some bs, sk') \<Longrightarrow> length bs \<le> unat n"
  by (auto simp: posix_recv_def split: list.splits option.splits if_splits)

lemma unat_of_int_le: "0 \<le> n \<Longrightarrow> int (unat (of_int n :: size_t)) \<le> n"
proof -
  assume n: "0 \<le> n"
  have "int (unat (of_int n :: size_t)) = take_bit 64 n" by (simp add: unsigned_of_int)
  then show ?thesis using n by (simp only: take_bit_int_less_eq_self_iff)
qed

lemma script_recv_view:
  assumes "script_recv s n k = (r, k')"
  shows "script_view k' = script_view k \<and> (\<forall>bs. r = Some bs \<longrightarrow> int (length bs) \<le> max 0 n)"
proof (cases "map_of (sc_sockets k) s = None \<or> n < 0")
  case True
  then show ?thesis using assms by (auto simp: script_recv_def split: if_splits option.splits)
next
  case False
  then obtain q where q: "map_of (sc_sockets k) s = Some q" by (cases "map_of (sc_sockets k) s") auto
  obtain got sk1 where sk: "posix_recv q (of_int n) = (got, sk1)" by (cases "posix_recv q (of_int n)")
  with q have r: "r = got" "k' = script_update s sk1 k" using assms False by (simp_all add: script_recv_def)
  have "int (length bs) \<le> n" if "got = Some bs" for bs
    using posix_recv_bound [OF sk [unfolded that]] unat_of_int_le [of n] False by linarith
  then show ?thesis using r by auto
qed

lemma script_calls_law: "socket_net (script_calls e) script_view"
proof
  fix h p t and k k' :: scripts and found
  assume "so_getaddrinfo (script_calls e) h p t k = (found, k')"
  then show "case found of None \<Rightarrow> script_view k' = script_view k
      | Some as \<Rightarrow> as \<noteq> [] \<and> script_view k' = (script_view k)\<lparr>nv_lists := Suc (nv_lists (script_view k))\<rparr>"
    by (simp add: script_calls_def script_view_simps split: option.splits if_splits) (auto simp: script_view_simps)
next
  fix k k' :: scripts and d
  assume "so_datagram_socket (script_calls e) k = (d, k')"
  then show "opened d (script_view k) (script_view k')"
    using script_opened by (cases "se_datagram e") (auto simp: script_calls_def script_view_simps(4))
next
  fix s and k k' :: scripts and d
  assume "so_accept (script_calls e) s k = (d, k')"
  then show "opened d (script_view k) (script_view k')"
    using script_opened by (cases "se_accept e") (auto simp: script_calls_def script_view_simps(4))
next
  fix s n and k k' :: scripts and dg
  assume "so_recvfrom (script_calls e) s n k = (dg, k')"
  then show "script_view k' = script_view k \<and> (\<forall>d. dg = Some d \<longrightarrow> int (length (dg_bytes d)) \<le> max 0 n)"
    by (auto simp: script_calls_def min_def)
qed (simp_all add: script_calls_def script_opened script_attach_view script_send_view script_recv_view script_view_simps)

interpretation scripted: socket_net "script_calls e" script_view for e
  by (rule script_calls_law)

section \<open>Descriptors and scripts answer alike\<close>

text \<open>The makers and the commands on streams, as \<open>Ten_Socket\<close> has them.\<close>

primrec script_make :: "script_env \<Rightarrow> posix_maker \<Rightarrow> ten_world \<Rightarrow> ten_socket option \<times> ten_world" where
  "script_make e (P_Connect host port) w = ten_tcp_connect (se_resolve e) host port w"
| "script_make e (P_Listen host port backlog) w = ten_tcp_listen (se_resolve e) (se_listen e) host port w"
| "script_make e (P_Accept server) w = ten_tcp_accept (map_option (\<lambda>_. no_script) server) (se_accept e) w"
| "script_make e P_Udp_Socket w = ten_udp_socket (se_datagram e) w"
| "script_make e (P_Udp_Bind host port) w = ten_udp_bind (se_resolve e) host port w"

datatype stream_command = Stream_Send "byte list" | Stream_Receive size_t

primrec on_socket :: "stream_command \<Rightarrow> socket_command" where
  "on_socket (Stream_Send bs) = Sock_Send bs"
| "on_socket (Stream_Receive n) = Sock_Receive n"

fun script_step :: "ten_socket \<Rightarrow> stream_command \<Rightarrow> ten_world \<Rightarrow> ((int \<times> byte list) \<times> ten_socket \<times> ten_world) option" where
  "script_step sk (Stream_Send bs) w =
     (case ten_socket_send (Some sk) (Some bs) (of_nat (length bs)) w of
        Some (k, Some sk1, w1) \<Rightarrow> Some ((k, []), sk1, w1) | _ \<Rightarrow> None)"
| "script_step sk (Stream_Receive n) w =
     (case ten_socket_receive (Some sk) True n w of
        (k, bs, Some sk1, w1) \<Rightarrow> Some ((k, bs), sk1, w1) | _ \<Rightarrow> None)"

primrec script_run ::
    "ten_socket \<Rightarrow> stream_command list \<Rightarrow> ten_world \<Rightarrow> ((int \<times> byte list \<times> ten_error_code) list \<times> ten_socket \<times> ten_world) option" where
  "script_run sk [] w = Some ([], sk, w)"
| "script_run sk (c # cs) w =
     (case script_step sk c w of
        None \<Rightarrow> None
      | Some ((k, bs), sk1, w1) \<Rightarrow>
          map_option (\<lambda>(rs, st). ((k, bs, ten_last_error w1) # rs, st)) (script_run sk1 cs w1))"

text \<open>The scripts of the open descriptors.\<close>

definition script_map :: "scripts \<Rightarrow> nat \<Rightarrow> ten_socket option" where
  "script_map k = map_of (sc_sockets k)"

lemma map_of_replaced: "map_of (map (\<lambda>(d, q). (d, if d = s then x else q)) xs) = (map_of xs)(s := map_option (\<lambda>_. x) (map_of xs s))"
  by (induction xs) (auto simp: fun_eq_iff)

lemma map_of_removed: "map_of (filter (\<lambda>(d, q). d \<noteq> s) xs) = (map_of xs)(s := None)"
  by (induction xs) (auto simp: fun_eq_iff)

lemma script_map_update: "script_map k s \<noteq> None \<Longrightarrow> script_map (script_update s sk k) = (script_map k)(s \<mapsto> sk)"
  by (auto simp: script_map_def script_update_def map_of_replaced)

lemma script_map_close: "script_map (so_close (script_calls e) s k) = (script_map k)(s := None)"
  by (simp add: script_map_def script_calls_def map_of_removed)

lemma script_map_open:
  "script_open sk k = (d, k') \<Longrightarrow> \<exists>i. d = Some i \<and> script_map k i = None \<and> script_map k' = (script_map k)(i \<mapsto> sk)"
  using script_fresh [of k] by (auto simp: script_open_def script_map_def Let_def map_of_eq_None_iff)

text \<open>A descriptor that a call has given, and the script that the call of \<open>Ten_Socket\<close> gives.\<close>

definition gives_script :: "ten_socket option \<Rightarrow> nat option \<Rightarrow> scripts \<Rightarrow> scripts \<Rightarrow> bool" where
  "gives_script found fd k k' \<longleftrightarrow>
     (case (found, fd) of
        (None, None) \<Rightarrow> script_map k' = script_map k
      | (Some sk, Some d) \<Rightarrow> script_map k d = None \<and> script_map k' = (script_map k)(d \<mapsto> sk)
      | _ \<Rightarrow> False)"

lemma gives_script_cong:
  "script_map k1 = script_map k2 \<Longrightarrow> script_map k1' = script_map k2' \<Longrightarrow>
   gives_script found fd k1 k1' \<longleftrightarrow> gives_script found fd k2 k2'"
  by (cases found; cases fd) (simp_all add: gives_script_def)

lemma script_answers:
  "so_listen (script_calls e) s n k = (se_listen e = 0, k)"
  "so_accept (script_calls e) s k = (case se_accept e of None \<Rightarrow> (None, k) | Some sk \<Rightarrow> script_open sk k)"
  "so_datagram_socket (script_calls e) k = (case se_datagram e of None \<Rightarrow> (None, k) | Some sk \<Rightarrow> script_open sk k)"
  "so_send (script_calls e) = script_send" "so_recv (script_calls e) = script_recv"
  by (simp_all add: script_calls_def)

lemma loops_same: "connect_loop (script_calls e) as k = bind_loop (script_calls e) reuse as k"
proof (induction as arbitrary: k)
  case (Cons a as)
  then show ?case by (simp add: script_calls_def split: option.split prod.split bool.split)
qed simp

lemma connect_loop_script: "connect_loop (script_calls e) as k = (fd, k') \<Longrightarrow> gives_script (first_connected as) fd k k'"
proof (induction as arbitrary: k)
  case (Cons a as)
  obtain d k1 where s: "script_open no_script k = (Some d, k1)" by (simp add: script_open_def Let_def)
  then have m: "script_map k d = None" "script_map k1 = (script_map k)(d \<mapsto> no_script)"
    using script_map_open by fastforce+
  show ?case
  proof (cases a)
    case None
    then have "connect_loop (script_calls e) as (so_close (script_calls e) d k1) = (fd, k')"
      using Cons.prems s by (simp add: script_calls_def script_attach_def)
    from Cons.IH [OF this] have "gives_script (first_connected as) fd (so_close (script_calls e) d k1) k'" .
    moreover have "script_map (so_close (script_calls e) d k1) = script_map k"
      using m by (auto simp: script_map_close fun_upd_idem)
    ultimately show ?thesis using None gives_script_cong [of "so_close (script_calls e) d k1" k k' k'] by simp
  next
    case (Some sk)
    then have "fd = Some d" "k' = script_update d sk k1"
      using Cons.prems s by (simp_all add: script_calls_def script_attach_def)
    then show ?thesis using m script_map_update [of k1 d sk] Some by (simp add: gives_script_def)
  qed
qed (simp add: gives_script_def)

lemma bind_loop_script: "bind_loop (script_calls e) reuse as k = (fd, k') \<Longrightarrow> gives_script (first_connected as) fd k k'"
  using connect_loop_script by (simp flip: loops_same)

text \<open>What a maker gives at the two levels.\<close>

definition same_maker :: "scripts \<Rightarrow> posix_socket option \<times> scripts \<times> ten_world \<Rightarrow> ten_socket option \<times> ten_world \<Rightarrow> bool" where
  "same_maker k res res' \<longleftrightarrow>
     (case (res, res') of ((r, k1, w1), (r', w1')) \<Rightarrow> w1' = w1 \<and> gives_script r' (map_option pk_fd r) k k1)"

lemma same_none [simp]: "script_map k1 = script_map k \<Longrightarrow> same_maker k (None, k1, w) (None, w)"
  by (simp add: same_maker_def gives_script_def)

lemma wrap_same:
  assumes "gives_script (Some sk) (Some d) k k1"
  shows "same_maker k (posix__socket_wrap (script_calls e) d k1 w) (ten__socket_wrap sk w)"
  using assms
  by (auto simp: posix__socket_wrap_def ten__socket_wrap_def Let_def same_maker_def gives_script_def script_map_close
      fun_upd_idem split: prod.split)

lemma opened_same:
  "same_maker k
    (case script_open sk k of
       (None, os1) \<Rightarrow> (None, os1, ten__set_error TEN_ERROR_NETWORK w)
     | (Some d, os1) \<Rightarrow> posix__socket_wrap (script_calls e) d os1 w')
    (ten__socket_wrap sk w')"
proof -
  obtain d k1 where o: "script_open sk k = (Some d, k1)" by (simp add: script_open_def Let_def)
  then have "gives_script (Some sk) (Some d) k k1" using script_map_open by (fastforce simp: gives_script_def)
  then show ?thesis using o wrap_same by simp
qed

lemma script_freed [simp]: "script_map (so_freeaddrinfo (script_calls e) k) = script_map k"
  by (simp add: script_map_def script_calls_def)

lemma script_resolved:
  "posix__resolve (script_calls e) h port t k =
     (case se_resolve e h port of
        None \<Rightarrow> (None, k) | Some as \<Rightarrow> if as = [] then (None, k) else (Some as, k\<lparr>sc_lists := Suc (sc_lists k)\<rparr>))"
  by (simp add: posix__resolve_def script_calls_def port_read)

text \<open>Resolving, looping and finishing at both levels.\<close>

lemma resolved_same:
  assumes loops: "\<And>as k fd k'. loop as k = (fd, k') \<Longrightarrow> gives_script (first_connected as) fd k k'"
    and finishes: "\<And>sk d k1. gives_script (Some sk) (Some d) k k1 \<Longrightarrow> same_maker k (finish d k1) (finish' sk)"
  shows "same_maker k
    (case posix__resolve (script_calls e) h port t k of
       (None, os1) \<Rightarrow> (None, os1, ten__set_error TEN_ERROR_NETWORK w)
     | (Some res, os1) \<Rightarrow>
         let (fd, os2) = loop res os1;
             os3 = so_freeaddrinfo (script_calls e) os2
         in (case fd of
               None \<Rightarrow> (None, os3, ten__set_error TEN_ERROR_NETWORK w)
             | Some d \<Rightarrow> finish d os3))
    (case se_resolve e h port of
       None \<Rightarrow> (None, ten__set_error TEN_ERROR_NETWORK w)
     | Some addresses \<Rightarrow>
         (case first_connected addresses of
            None \<Rightarrow> (None, ten__set_error TEN_ERROR_NETWORK w)
          | Some fd \<Rightarrow> finish' fd))"
proof (cases "se_resolve e h port = None \<or> se_resolve e h port = Some []")
  case True
  then show ?thesis by (auto simp: script_resolved)
next
  case False
  then obtain as where as: "se_resolve e h port = Some as" "as \<noteq> []" by auto
  let ?k = "k\<lparr>sc_lists := Suc (sc_lists k)\<rparr>"
  obtain fd k2 where l: "loop as ?k = (fd, k2)" by (cases "loop as ?k")
  have "script_map ?k = script_map k" by (simp add: script_map_def)
  then have g: "gives_script (first_connected as) fd k (so_freeaddrinfo (script_calls e) k2)"
    using loops [OF l] gives_script_cong [of ?k k k2 "so_freeaddrinfo (script_calls e) k2"] by simp
  show ?thesis
  proof (cases "first_connected as")
    case None
    then have "fd = None" "script_map (so_freeaddrinfo (script_calls e) k2) = script_map k"
      using g by (auto simp: gives_script_def split: option.splits)
    then show ?thesis using as l None by (simp add: script_resolved)
  next
    case (Some sk)
    then obtain d where d: "fd = Some d" using g by (auto simp: gives_script_def split: option.splits)
    with g Some have "same_maker k (finish d (so_freeaddrinfo (script_calls e) k2)) (finish' sk)"
      by (intro finishes) simp
    then show ?thesis using as l Some d by (simp add: script_resolved)
  qed
qed

lemma make_same: "same_maker k (posix_make (script_calls e) m k w) (script_make e m w)"
proof (cases m)
  case (P_Connect host port)
  show ?thesis
    unfolding P_Connect posix_make.simps script_make.simps posix_tcp_connect_def ten_tcp_connect_def
    by (cases host) (simp, simp only: option.case, intro resolved_same connect_loop_script wrap_same)
next
  case (P_Udp_Bind host port)
  show ?thesis
    unfolding P_Udp_Bind posix_make.simps script_make.simps posix_udp_bind_def ten_udp_bind_def
    by (cases host) (simp, simp only: option.case, intro resolved_same bind_loop_script wrap_same)
next
  case (P_Listen host port backlog)
  have "same_maker k
      (case so_listen (script_calls e) d backlog k1 of
         (False, os4) \<Rightarrow> (None, so_close (script_calls e) d os4, ten__set_error TEN_ERROR_NETWORK w)
       | (True, os4) \<Rightarrow> posix__socket_wrap (script_calls e) d os4 (ten__set_error TEN_OK w))
      (if se_listen e \<noteq> 0 then (None, ten__set_error TEN_ERROR_NETWORK w) else ten__socket_wrap sk (ten__set_error TEN_OK w))"
    if "gives_script (Some sk) (Some d) k k1" for sk d k1
    using that wrap_same [OF that]
    by (cases "se_listen e = 0") (auto simp: gives_script_def script_map_close fun_upd_idem script_answers)
  then show ?thesis
    unfolding P_Listen posix_make.simps script_make.simps posix_tcp_listen_def ten_tcp_listen_def
    by (cases host) (simp, simp only: option.case, intro resolved_same bind_loop_script)
next
  case (P_Accept server)
  then show ?thesis
    using opened_same [where k = k]
    by (cases server; cases "se_accept e") (simp_all add: posix_tcp_accept_def ten_tcp_accept_def script_answers)
next
  case P_Udp_Socket
  then show ?thesis
    using opened_same [where k = k]
    by (cases "se_datagram e") (simp_all add: posix_udp_socket_def ten_udp_socket_def script_answers)
qed

lemma step_same:
  assumes "script_map k (pk_fd s) = Some sk"
  shows "posix_socket_step (script_calls e) s (on_socket c) k w =
    map_option (\<lambda>(a, sk1, w1). (a, script_update (pk_fd s) sk1 k, w1)) (script_step sk c w)"
proof (cases c)
  case (Stream_Receive n)
  then show ?thesis
    using assms
    by (simp add: posix_socket_receive_def ten_socket_receive_def script_answers script_recv_def script_map_def split: prod.split option.split)
next
  case (Stream_Send bs)
  show ?thesis
  proof (cases "c_object (Some bs) (of_nat (length bs) :: size_t)")
    case None
    then show ?thesis using Stream_Send by (simp add: posix_socket_send_def ten_socket_send_def)
  next
    case (Some obj)
    then have "length obj \<le> unat (of_nat (length bs) :: size_t)" by (auto simp: c_object_def split: if_splits)
    then have "take (unat (of_nat (length bs) :: size_t)) obj = obj" by simp
    then show ?thesis
      using assms Some Stream_Send
      by (simp add: posix_socket_send_def ten_socket_send_def script_answers script_send_def script_map_def split: prod.split option.split)
  qed
qed

lemma run_same:
  assumes "script_map k (pk_fd s) = Some sk"
  shows "case script_run sk cs w of
      None \<Rightarrow> posix_socket_run (script_calls e) s (map on_socket cs) k w = None
    | Some (rs, sk2, w2) \<Rightarrow> \<exists>k2. posix_socket_run (script_calls e) s (map on_socket cs) k w = Some (rs, k2, w2) \<and>
        script_map k2 = (script_map k)(pk_fd s \<mapsto> sk2)"
  using assms
proof (induction cs arbitrary: k sk w)
  case Nil
  then show ?case by (auto simp: fun_upd_idem)
next
  case (Cons c cs)
  note step = step_same [OF Cons.prems, of e c w]
  show ?case
  proof (cases "script_step sk c w")
    case None
    then show ?thesis using step by simp
  next
    case (Some r)
    obtain i bs sk1 w1 where r: "r = ((i, bs), sk1, w1)" by (metis prod.collapse)
    let ?k1 = "script_update (pk_fd s) sk1 k"
    have m: "script_map ?k1 = (script_map k)(pk_fd s \<mapsto> sk1)" using Cons.prems by (intro script_map_update) simp
    then have "script_map ?k1 (pk_fd s) = Some sk1" by simp
    from Cons.IH [OF this, of w1] show ?thesis
      using step Some r m by (cases "script_run sk1 cs w1") auto
  qed
qed

lemma socket_life_same:
  "case script_make e m w of
     (None, w1) \<Rightarrow> \<exists>k1. posix_make (script_calls e) m k w = (None, k1, w1) \<and> script_map k1 = script_map k
   | (Some sk, w1) \<Rightarrow> \<exists>s k1. posix_make (script_calls e) m k w = (Some s, k1, w1) \<and> script_map k (pk_fd s) = None \<and>
       (case script_run sk cs w1 of
          None \<Rightarrow> posix_socket_run (script_calls e) s (map on_socket cs) k1 w1 = None
        | Some (rs, sk2, w2) \<Rightarrow> \<exists>k2 k3 w3.
            posix_socket_run (script_calls e) s (map on_socket cs) k1 w1 = Some (rs, k2, w2) \<and>
            script_map k2 = (script_map k)(pk_fd s \<mapsto> sk2) \<and>
            posix_socket_close (script_calls e) (Some s) k2 w2 = Some (k3, w3) \<and>
            ten_socket_close (Some sk2) w2 = Some w3 \<and> script_map k3 = script_map k)"
proof -
  obtain r k1 w1 where p: "posix_make (script_calls e) m k w = (r, k1, w1)" by (metis prod_cases3)
  obtain r' w1' where d: "script_make e m w = (r', w1')" by fastforce
  have same: "w1' = w1" "gives_script r' (map_option pk_fd r) k k1"
    using make_same [of k e m w] p d by (simp_all add: same_maker_def)
  show ?thesis
  proof (cases r')
    case None
    then show ?thesis using p d same by (cases r) (auto simp: gives_script_def)
  next
    case (Some sk)
    then obtain s where s: "r = Some s" "script_map k (pk_fd s) = None" "script_map k1 = (script_map k)(pk_fd s \<mapsto> sk)"
      using same(2) by (cases r) (auto simp: gives_script_def)
    then have "script_map k1 (pk_fd s) = Some sk" by simp
    note run = run_same [OF this, where cs = cs and w = w1 and e = e]
    show ?thesis
    proof (cases "script_run sk cs w1")
      case None
      then show ?thesis using p d same(1) Some s run by simp
    next
      case (Some rr)
      obtain rs sk2 w2 where rr: "rr = (rs, sk2, w2)" by (metis prod_cases3)
      then obtain k2 where k2: "posix_socket_run (script_calls e) s (map on_socket cs) k1 w1 = Some (rs, k2, w2)"
          "script_map k2 = (script_map k1)(pk_fd s \<mapsto> sk2)"
        using run Some by auto
      have "script_map (so_close (script_calls e) (pk_fd s) k2) = script_map k"
        using k2(2) s(2,3) by (simp add: script_map_close fun_upd_idem)
      then show ?thesis
        using p d same(1) \<open>r' = Some sk\<close> s Some rr k2 by (simp add: posix_socket_close_def ten_socket_close_def)
    qed
  qed
qed

end
