(* ===== verification/Spec2Isabelle.thy ===== *)
theory Spec2Isabelle
  imports Ten_List Ten_Map Ten_Buffer Ten_String Ten_Encoding Ten_Unicode Ten_Path Ten_Json_Access Ten_Json_Roundtrip Ten_Http_Roundtrip Ten_Udp
    Ten_Thread_Pool_Safety Ten_Thread_Pool_Life Ten_File_Life Ten_File_Windows Ten_Log Ten_Time Ten_Process Ten_Plugin Ten_Sync_Windows Ten_Socket_Windows Ten_Socket_Scripts
begin

text \<open>
  A verification library for the C core of dotten (\<open>src/Code/dotten/core\<close>), a portable runtime
  library: memory, containers, strings, encodings, paths, JSON, files, sockets, HTTP, threads, the log,
  processes and plugins.

  \<^bold>\<open>How the program is modelled.\<close> An operation that may fail, allocate or set the last error takes
  and returns a state (\<open>ten_world\<close>): the thread's last error code, the installed allocator, how many
  requests it has had and refused, and how many blocks are live. The allocator is an arbitrary
  decision for each request, so every theorem holds for every pattern of refusals; a theorem that
  speaks of success has the condition that no request was refused. The result of an operation with
  undefined behaviour in C (reading outside a block or an uninitialised cell, using a freed block,
  an out-of-range conversion), or that does not return, is \<open>None\<close>; that it is \<open>Some\<close> is part of every
  theorem. Machine integers are words of their width. Structs are records or datatypes with the fields of
  the code, pointers to bytes are blocks of cells that may be uninitialised.

  \<^bold>\<open>The parts and their theories.\<close>
  \<^item> Ten_Prelude: cells, blocks, C strings, loops over ranges, arithmetic of \<open>size_t\<close>.
  \<^item> Ten_Error, Ten_Memory, Ten_Type: \<open>error.c\<close>, \<open>init.c\<close>, \<open>memory.c\<close>, \<open>type_internal.h\<close>.
  \<^item> Ten_Contract: the contract of a component that owns memory, as a locale: commands refine a pure
    specification unless they are refused memory, and then change nothing; from it the whole life of
    a component (\<open>life_law\<close>). Interpreted for lists, maps, buffers, strings and HTTP headers.
  \<^item> Ten_List, Ten_Map, Ten_Buffer, Ten_String, Ten_Growth: \<open>list.c\<close>, \<open>map.c\<close> (hash table with chains and
    rehashing), \<open>buffer.c\<close>, \<open>string.c\<close>, and the doubling loop the last two share.
  \<^item> Ten_Encoding, Ten_Unicode: \<open>encoding.c\<close>, Base64 and hex in the one, UTF-8 and UTF-16 in the other.
  \<^item> Ten_Path: \<open>path.c\<close> and the file mode parser \<open>file_mode_internal.h\<close>.
  \<^item> Ten_Double, Ten_Stdlib: the functions of the C library that the code needs: \<open>strtod\<close> and printing of
    doubles, \<open>strchr\<close>, \<open>strstr\<close>, \<open>atoi\<close>, \<open>atol\<close>.
  \<^item> Ten_Json (trees), Ten_Json_Access (what reading a tree gives), Ten_Json_Parse and Ten_Json_Refine
    (the parser and its refinement of a reference parser), Ten_Json_Print, Ten_Json_Roundtrip:
    \<open>json.c\<close>.
  \<^item> Ten_Socket_Calls: the calls for sockets of POSIX and of Windows as records of functions with contracts
    that count what they hand out. Ten_Socket_Windows: \<open>socket_windows.c\<close> over them. Ten_Socket_Posix:
    \<open>socket_posix.c\<close> over them, at the level of descriptors; Ten_Socket_Scripts: it answers as the next
    model of the same file does.
  \<^item> Ten_Socket, Ten_Udp: \<open>socket_posix.c\<close>. The operating system is data: the fragments a connection
    will receive, what each \<open>send\<close> accepts, what the resolver finds.
  \<^item> Ten_Sync, Ten_Sync_Windows: \<open>sync_posix.c\<close> and \<open>thread_posix.c\<close>, \<open>sync_windows.c\<close> and
    \<open>thread_windows.c\<close>; each call of the system answers with an argument.
  \<^item> Ten_File_Spec: what an open file promises, as a locale that both versions of the file module
    implement. Ten_Posix, Ten_Win32: the calls of the two systems as records of functions, their contracts as
    locales, and an instance of each. Ten_File, Ten_File_Life: \<open>file_posix.c\<close> and its refinement;
    Ten_File_Windows: \<open>file_windows.c\<close> and its refinement.
  \<^item> Ten_Log, Ten_Time: \<open>log.c\<close>; \<open>time.c\<close> (both systems) and \<open>version.c\<close>.
  \<^item> Ten_Process: \<open>process_posix.c\<close> and \<open>process_windows.c\<close>, with the way Windows programs split a
    command line. Ten_Plugin: \<open>plugin_posix.c\<close> and \<open>plugin_windows.c\<close>, over a dynamic loader given by its contract.
  \<^item> Ten_Http_Headers, Ten_Http_Message, Ten_Http_Read, Ten_Http_Parse, Ten_Http_Send, Ten_Http_Server:
    \<open>http.c\<close>, in the order of the code; Ten_Http_Roundtrip: what is sent is what is read.

  \<^item> Ten_Transition: transition systems, invariants and measures, as locales. Ten_Thread_Pool: the
    worker, \<open>submit\<close> and \<open>destroy\<close> of \<open>thread_pool.c\<close> as interleaved steps over a linked queue;
    Ten_Thread_Pool_Safety: the invariant of every interleaving, progress, and the end of shutting down;
    Ten_Thread_Pool_Life: the same file as its caller sees it, memory and error codes.

  \<^bold>\<open>What the lemmas show.\<close> Each component has a representation predicate (\<open>list_rep\<close>, \<open>map_rep\<close>,
  \<open>buffer_rep\<close>, \<open>string_rep\<close>, \<open>json_rep\<close>, \<open>headers_rep\<close>, \<open>request_rep\<close>), a count of the blocks it owns, and
  for each operation a lemma \<open>..._spec\<close> that gives its result on every branch, its effect on the
  represented value, on the last error and on the live blocks. The theorems here compose them: lives of
  components, round trips, refinements of parsers and of the HTTP server, and the behaviours at the
  bounds, some of which are defects of the code.

  \<^bold>\<open>Bounds and fuel.\<close> Byte sizes are bounded where the code's arithmetic would wrap (below \<open>2 ^ 63\<close> for
  buffers and strings, theorem \<open>growth_wraps\<close> shows what happens beyond). The JSON parser recurses with
  fuel that the length of the text bounds; its refinement shows that it is enough. Reading and sending loops
  are partial functions, and theorems show that they return. The server loop is a function of the
  list of its rounds, and does not return (\<open>None\<close>) when none of them finds it stopping.

  \<^bold>\<open>Not modelled.\<close> The operating system, the C library's
  allocator, the dynamic loader and the code of plugins are parameters, with what is documented of
  them as hypotheses; the blocking of synchronisation primitives is the operating system's, except in
  the thread pool, whose mutex and condition variable are steps of the model. The Rust bindings, the
  examples and the tests are not part of the core. A map keeps, for a
  string key, the text the pointer denoted when it was set: that the pointer outlives the entry
  is not tracked, and so the look-ups of \<open>ten_json_destroy\<close> after it has freed a key are taken to
  compare contents.
\<close>

section \<open>Containers\<close>

text \<open>
  C1. The whole life of a list: created for an element type, driven by any sequence of commands
  (add, insert, remove, get, count, reserve of fewer than \<open>2 ^ 61\<close> elements), destroyed. Every
  call is defined, the answers and last errors are those of the specification on sequences,
  where a command that was refused memory answers out-of-memory and changes nothing, and in the
  end every block has been given back.
\<close>

theorem list_life:
  assumes "ten_list_create type w = (Some (l :: 'a ten_list), w1)"
    and "\<forall>c \<in> set cs. list_allowed c []"
  shows "\<exists>fs l' w2 w3.
    run list_step cs l w1 = Some (fst (run_spec list_spec list_oom cs fs []), l', w2) \<and>
    list_abs l' = snd (run_spec list_spec list_oom cs fs []) \<and> length fs = length cs \<and>
    (refusals w2 = refusals w1 \<longrightarrow> fs = replicate (length cs) False) \<and>
    ten_list_destroy (Some l') w2 = Some w3 \<and> live w3 = live w"
proof -
  have "type \<noteq> TEN_TYPE_VOID" using assms(1) by (auto simp: list_create_void)
  then have "list_rep l []" "live w1 - list_owned l = live w"
    using list_create_spec [where 'a = 'a and type = type and w = w] assms(1) by auto
  moreover have "all_allowed list_allowed list_spec cs []"
    using assms(2) list_allowed_any by (intro all_allowed_always) blast
  ultimately show ?thesis
    using list_component.life_law [of l "[]" w1 "live w" cs] by (blast intro: list_rep_abs)
qed

theorem list_life_witness:
  "let w = start_world ample; (l, w1) = ten_list_create TEN_TYPE_U32 w;
       cs = [List_Add (7 :: nat), List_Insert 0 8, List_Insert 5 9, List_Get 1, List_Remove_At 0]
   in \<exists>fs l' w2 w3. run list_step cs (the l) w1 = Some (fst (run_spec list_spec list_oom cs fs []), l', w2) \<and>
     list_abs l' = snd (run_spec list_spec list_oom cs fs []) \<and> length fs = length cs \<and>
     (refusals w2 = refusals w1 \<longrightarrow> fs = replicate (length cs) False) \<and>
     ten_list_destroy (Some l') w2 = Some w3 \<and> live w3 = live w"
  using list_life [of TEN_TYPE_U32 "start_world ample" "the (fst (ten_list_create TEN_TYPE_U32 (start_world ample)))"
    "snd (ten_list_create TEN_TYPE_U32 (start_world ample))"
    "[List_Add (7 :: nat), List_Insert 0 8, List_Insert 5 9, List_Get 1, List_Remove_At 0]"]
  by (simp add: ten_list_create_def ten_malloc_def grants_malloc_def start_world_def ample_def
      default_allocator_def sizeof_ten_list_def ptrdiff_max_def)

text \<open>
  C2. The whole life of a map: created for a key and a value type, driven by any sequence of
  commands (set, get, remove, contains, count, with rehashing whenever the load passes three
  quarters), destroyed. The answers are those of the specification on partial functions from
  what the map compares of a key (the bytes, or the string a \<open>const char *\<close> points to) to
  values; a refused command changes nothing, and no block is leaked.
\<close>

theorem map_life:
  assumes "ten_map_create kt vt w = Some (Some (m :: 'v ten_map), w1)"
  shows "\<exists>fs m' w2 w3.
    run map_step cs m w1 = Some (fst (run_spec (map_spec kt) map_oom cs fs Map.empty), m', w2) \<and>
    map_abs m' = snd (run_spec (map_spec kt) map_oom cs fs Map.empty) \<and> length fs = length cs \<and>
    (refusals w2 = refusals w1 \<longrightarrow> fs = replicate (length cs) False) \<and>
    ten_map_destroy (Some m') w2 = Some w3 \<and> live w3 = live w"
proof -
  have "kt \<noteq> TEN_TYPE_VOID" "vt \<noteq> TEN_TYPE_VOID"
    using assms by (auto simp: ten_map_create_def Let_def split: if_splits)
  then have "map_rep kt m Map.empty" "live w1 - map_owned m = live w"
    using map_create_spec [where 'v = 'v and kt = kt and vt = vt and w = w] assms
    by (auto simp: map_rep_def)
  moreover have "all_allowed (\<lambda>_ _. True) (map_spec kt) cs Map.empty"
    by (intro all_allowed_always) blast
  moreover have "map_rep kt m' f \<Longrightarrow> map_abs m' = f" for m' and f :: "byte list \<rightharpoonup> 'v"
    by (simp add: map_rep_def)
  ultimately show ?thesis
    using map_component.life_law [of kt m Map.empty w1 "live w" cs] by blast
qed

theorem map_life_witness:
  "let w = start_world ample; key = (\<lambda>s. \<lparr>obj_bytes = [], obj_cstr = ascii s\<rparr>);
       (m, w1) = the (ten_map_create TEN_TYPE_STRING TEN_TYPE_U32 w);
       cs = [Map_Set (key ''a'') (7 :: nat), Map_Set (key ''b'') 8, Map_Get (key ''a''), Map_Remove (key ''b''), Map_Count]
   in \<exists>fs m' w2 w3.
     run map_step cs (the m) w1 = Some (fst (run_spec (map_spec TEN_TYPE_STRING) map_oom cs fs Map.empty), m', w2) \<and>
     map_abs m' = snd (run_spec (map_spec TEN_TYPE_STRING) map_oom cs fs Map.empty) \<and> length fs = length cs \<and>
     (refusals w2 = refusals w1 \<longrightarrow> fs = replicate (length cs) False) \<and>
     ten_map_destroy (Some m') w2 = Some w3 \<and> live w3 = live w"
proof -
  let ?r = "ten_map_create TEN_TYPE_STRING TEN_TYPE_U32 (start_world ample) :: (nat ten_map option \<times> ten_world) option"
  have "?r = Some (Some (the (fst (the ?r))), snd (the ?r))"
    by (simp add: ten_map_create_def ten_malloc_def ten_calloc_def grants_malloc_def grants_calloc_def
        start_world_def ample_def default_allocator_def sizeof_ten_map_def sizeof_pointer_def ptrdiff_max_def)
  from map_life [OF this] show ?thesis unfolding Let_def split_beta .
qed

text \<open>
  C3. The whole life of a byte buffer: any sequence of writes, clears and reads refines byte
  sequences, a refused write changes nothing, and no block is leaked. Writes are bounded: beyond
  \<open>2 ^ 63\<close> bytes the doubling loop would not end.
\<close>

theorem buffer_life:
  assumes "ten_buffer_create w = (Some b, w1)"
    and "all_allowed buffer_allowed buffer_spec cs []"
  shows "\<exists>fs b' w2 w3.
    run buffer_step cs b w1 = Some (fst (run_spec buffer_spec buffer_oom cs fs []), b', w2) \<and>
    buffer_rep b' (snd (run_spec buffer_spec buffer_oom cs fs [])) \<and> length fs = length cs \<and>
    (refusals w2 = refusals w1 \<longrightarrow> fs = replicate (length cs) False) \<and>
    ten_buffer_destroy (Some b') w2 = Some w3 \<and> live w3 = live w"
proof -
  have "buffer_rep b []" "live w1 - buffer_owned b = live w"
    using buffer_create_spec [of w] assms(1) by auto
  then show ?thesis
    using buffer_component.life_law [of b "[]" w1 "live w" cs] assms(2) by blast
qed

theorem buffer_life_witness:
  "let w = start_world ample; (b, w1) = ten_buffer_create w;
       cs = [Buffer_Write [1, 2], Buffer_Size, Buffer_Clear, Buffer_Write [3], Buffer_Data]
   in \<exists>fs b' w2 w3. run buffer_step cs (the b) w1 = Some (fst (run_spec buffer_spec buffer_oom cs fs []), b', w2) \<and>
     buffer_rep b' (snd (run_spec buffer_spec buffer_oom cs fs [])) \<and> length fs = length cs \<and>
     (refusals w2 = refusals w1 \<longrightarrow> fs = replicate (length cs) False) \<and>
     ten_buffer_destroy (Some b') w2 = Some w3 \<and> live w3 = live w"
proof -
  let ?r = "ten_buffer_create (start_world ample)"
  have "?r = (Some (the (fst ?r)), snd ?r)"
    by (simp add: ten_buffer_create_def ten_malloc_def grants_malloc_def start_world_def ample_def
        default_allocator_def sizeof_ten_buffer_def ptrdiff_max_def)
  then show ?thesis unfolding Let_def split_beta by (rule buffer_life) simp
qed

text \<open>
  C4. The whole life of a string: created from a C string, driven by any sequence of commands
  (append, read, length, contains, substring), destroyed. The answers are those of the
  specification on byte sequences (containment is being a contiguous subsequence, a substring
  outside the string is out of range), and no block is leaked.
\<close>

theorem string_life:
  assumes "cstr_ok t" "ten_string_create (Some t) w = Some (Some s, w1)"
    and "all_allowed string_allowed string_spec cs t"
  shows "\<exists>fs s' w2 w3.
    run string_step cs s w1 = Some (fst (run_spec string_spec string_oom cs fs t), s', w2) \<and>
    string_rep s' (snd (run_spec string_spec string_oom cs fs t)) \<and> length fs = length cs \<and>
    (refusals w2 = refusals w1 \<longrightarrow> fs = replicate (length cs) False) \<and>
    ten_string_destroy (Some s') w2 = Some w3 \<and> live w3 = live w"
proof -
  have "string_rep s t" "live w1 - string_owned s = live w"
    using string_create_spec [OF assms(1), of w] assms(2) by (auto simp: string_rep_owned)
  then show ?thesis
    using string_component.life_law [of s t w1 "live w" cs] assms(3) by blast
qed

theorem string_life_witness:
  "let w = start_world ample; (s, w1) = the (ten_string_create (Some (ascii ''ab'')) w);
       cs = [String_Append (ascii ''cd''), String_Contains (ascii ''bc''), String_Slice 1 2, String_Cstr]
   in \<exists>fs s' w2 w3. run string_step cs (the s) w1 = Some (fst (run_spec string_spec string_oom cs fs (ascii ''ab'')), s', w2) \<and>
     string_rep s' (snd (run_spec string_spec string_oom cs fs (ascii ''ab''))) \<and> length fs = length cs \<and>
     (refusals w2 = refusals w1 \<longrightarrow> fs = replicate (length cs) False) \<and>
     ten_string_destroy (Some s') w2 = Some w3 \<and> live w3 = live w"
proof -
  let ?r = "ten_string_create (Some (ascii ''ab'')) (start_world ample)"
  have ok: "cstr_ok (ascii ''ab'')" by (simp add: cstr_ok_def ascii_def)
  have "refusals (snd (the ?r)) = 0" by code_simp
  then have "?r = Some (Some (the (fst (the ?r))), snd (the ?r))"
    using string_create_spec [OF ok, of "start_world ample"] by (auto simp: start_world_def)
  with ok show ?thesis unfolding Let_def split_beta by (rule string_life) (simp add: ascii_def)
qed

section \<open>Encodings\<close>

text \<open>
  C5. Base64: what \<open>ten_base64_encode\<close> returns for any bytes is a NUL-terminated text of
  four characters per group of three bytes, and decoding that text gives the bytes and their
  number back, unless the decoder is refused memory.
\<close>

theorem base64_roundtrip:
  assumes "length bs < 2 ^ 62"
    and "ten_base64_encode (Some bs) (of_nat (length bs)) w = Some (p, w1)" "p \<noteq> Null"
  shows "\<exists>t. c_string (block_cells p) = Some t \<and> length t = (length bs + 2) div 3 * 4 \<and>
    ((\<exists>b w2. ten_base64_decode (Some t) (Some n) w1 = Some (Block b, Some (of_nat (length bs)), w2) \<and>
        take (length bs) b = map Some bs \<and> live w2 = live w + 2) \<or>
     (\<exists>w2. ten_base64_decode (Some t) (Some n) w1 = Some (Null, Some n, w2) \<and>
        g_ten_last_error w2 = TEN_ERROR_OUT_OF_MEMORY \<and> refusals w1 < refusals w2))"
proof -
  have p: "p = Block (c_bytes (base64_text bs))" "live w1 = live w + 1"
    using base64_encode_spec [of bs w] assms by (auto simp: fresh_text_def)
  have len: "length (base64_text bs) = (length bs + 2) div 3 * 4"
    by (rule length_base64_text)
  have "length bs < 4611686018427387904" "(length bs + 2) div 3 * 3 \<le> length bs + 2"
    using assms(1) by simp_all
  then have "(length bs + 2) div 3 * 4 < 9223372036854775807" by linarith
  then have "length (base64_text bs) < 2 ^ 63 - 1" unfolding len by simp
  then have "cstr_ok (base64_text bs)" by (simp add: cstr_ok_def base64_text_no_nul)
  then show ?thesis
  proof (cases rule: base64_decode_cases [where n = n and w = w1])
    case (decoded cs b w')
    then show ?thesis using p len by (auto simp: base64_data_text c_string_bytes base64_text_no_nul)
  next
    case (refused w')
    then show ?thesis using p len by (auto simp: c_string_bytes base64_text_no_nul)
  qed (simp add: base64_data_text)
qed

theorem base64_roundtrip_witness:
  "let bs = [0xDE, 0xAD, 0xBE, 0xEF]; w = start_world ample;
       (p, w1) = the (ten_base64_encode (Some bs) (of_nat (length bs)) w)
   in \<exists>t. c_string (block_cells p) = Some t \<and> length t = (length bs + 2) div 3 * 4 \<and>
    ((\<exists>b w2. ten_base64_decode (Some t) (Some 0) w1 = Some (Block b, Some (of_nat (length bs)), w2) \<and>
        take (length bs) b = map Some bs \<and> live w2 = live w + 2) \<or>
     (\<exists>w2. ten_base64_decode (Some t) (Some 0) w1 = Some (Null, Some 0, w2) \<and>
        g_ten_last_error w2 = TEN_ERROR_OUT_OF_MEMORY \<and> refusals w1 < refusals w2))"
proof -
  let ?bs = "[0xDE, 0xAD, 0xBE, 0xEF] :: byte list"
  let ?r = "ten_base64_encode (Some ?bs) (of_nat (length ?bs)) (start_world ample)"
  have "?r \<noteq> None \<and> fst (the ?r) \<noteq> Null" by code_simp
  then have "?r = Some (fst (the ?r), snd (the ?r))" "fst (the ?r) \<noteq> Null" by auto
  then show ?thesis unfolding Let_def split_beta by (intro base64_roundtrip) simp_all
qed





text \<open>
  C8. UTF-8 to UTF-16 and back: converting the UTF-8 text of any Unicode scalar values gives
  their UTF-16 code units (surrogate pairs above 0xFFFF), terminated by a 0 that is not counted,
  and converting these units back gives the text, unless memory is refused.
\<close>

theorem utf8_utf16_roundtrip:
  assumes "\<forall>cp \<in> set cps. scalar_value cp" "0 \<notin> set (utf8_text cps)" "length (utf8_text cps) < 2 ^ 62"
    and "ten_utf8_to_utf16 (Some (utf8_text cps)) (Some n) w = Some (p, m, w1)" "p \<noteq> Null"
  shows "\<exists>us. p = Block (map Some (us @ [0])) \<and> us = utf16_text cps \<and> m = Some (of_nat (length us)) \<and>
    fresh_text (utf8_text cps) w1 (ten_utf16_to_utf8 (Some us) (of_nat (length us)) w1)"
proof -
  have "\<forall>cp \<in> set cps. code_point cp" using assms(1) by (auto simp: scalar_value_def code_point_def)
  moreover have "cstr_ok (utf8_text cps)" using assms(2,3) by (simp add: cstr_ok_def)
  ultimately have "p = Block (map Some (utf16_text cps @ [0]))" "m = Some (of_nat (length (utf16_text cps)))"
    using utf8_to_utf16_spec [of cps n w] assms(4,5) by auto
  moreover have "length (utf16_text cps) < 2 ^ 62"
    using length_utf16_text [of cps] assms(3) by linarith
  ultimately show ?thesis
    using utf16_to_utf8_spec [OF _ utf16_cps_text [OF assms(1)]] by blast
qed

theorem utf8_utf16_roundtrip_witness:
  "let cps = [0x41, 0x20AC, 0x1F600]; w = start_world ample;
       (p, m, w1) = the (ten_utf8_to_utf16 (Some (utf8_text cps)) (Some 0) w)
   in \<exists>us. p = Block (map Some (us @ [0])) \<and> us = utf16_text cps \<and> m = Some (of_nat (length us)) \<and>
    fresh_text (utf8_text cps) w1 (ten_utf16_to_utf8 (Some us) (of_nat (length us)) w1)"
proof -
  let ?cps = "[0x41, 0x20AC, 0x1F600] :: u32 list"
  let ?r = "ten_utf8_to_utf16 (Some (utf8_text ?cps)) (Some 0) (start_world ample)"
  have "?r \<noteq> None \<and> fst (the ?r) \<noteq> Null" "0 \<notin> set (utf8_text ?cps) \<and> length (utf8_text ?cps) = 8"
    by code_simp+
  then have "?r = Some (fst (the ?r), fst (snd (the ?r)), snd (snd (the ?r)))" "fst (the ?r) \<noteq> Null"
      "0 \<notin> set (utf8_text ?cps)" "length (utf8_text ?cps) < 2 ^ 62"
    by auto
  moreover have "\<forall>cp \<in> set ?cps. scalar_value cp" by (simp add: scalar_value_def)
  ultimately show ?thesis unfolding Let_def split_beta by (intro utf8_utf16_roundtrip)
qed



section \<open>Paths\<close>

text \<open>
  C14. Joining and taking apart: if \<open>a\<close> does not end in a separator and \<open>b\<close> is a plain name, the
  directory of their join is \<open>a\<close> and its filename is \<open>b\<close>, each in a block of its own, unless
  memory is refused.
\<close>

theorem path_join_parts:
  assumes "cstr_ok a" "cstr_ok b" "length a + length b < 2 ^ 62"
    and "a \<noteq> []" "\<not> ten__is_sep (last a)" "b \<noteq> []" "\<forall>c \<in> set b. \<not> ten__is_sep c"
    and "ten_path_join (Some a) (Some b) w = Some (p, w1)" "p \<noteq> Null"
  shows "\<exists>t. c_string (block_cells p) = Some t \<and>
    fresh_text a w1 (ten_path_directory (Some t) w1) \<and> fresh_text b w1 (ten_path_filename (Some t) w1)"
proof -
  let ?t = "path_join a b"
  have p: "p = Block (c_bytes ?t)"
    using path_join_spec [OF assms(1,2), of w] assms(8,9) by (auto simp: fresh_text_def)
  have t: "?t = a @ TEN_PATH_SEPARATOR # b"
    using assms(4-7) trim_end_id [OF assms(4,5)] trim_start_id [of b] by (simp add: path_join_def)
  then have ok: "cstr_ok ?t"
    using assms(1-3) by (auto simp: cstr_ok_def TEN_PATH_SEPARATOR_def)
  then have "c_string (block_cells p) = Some ?t"
    by (simp add: p c_string_bytes cstr_ok_def)
  then show ?thesis
    using path_directory_spec [OF ok, of w1] path_filename_spec [OF ok, of w1] join_parts [OF assms(4-7)]
    by auto
qed

theorem path_join_parts_witness:
  "let a = ascii ''/usr/lib''; b = ascii ''x.so''; w = start_world ample;
       (p, w1) = the (ten_path_join (Some a) (Some b) w)
   in \<exists>t. c_string (block_cells p) = Some t \<and>
    fresh_text a w1 (ten_path_directory (Some t) w1) \<and> fresh_text b w1 (ten_path_filename (Some t) w1)"
proof -
  let ?r = "ten_path_join (Some (ascii ''/usr/lib'')) (Some (ascii ''x.so'')) (start_world ample)"
  have "case ?r of Some (Block _, _) \<Rightarrow> True | _ \<Rightarrow> False" by code_simp
  then have r: "?r = Some (fst (the ?r), snd (the ?r))" "fst (the ?r) \<noteq> Null"
    by (auto split: option.splits ptr.splits)
  show ?thesis unfolding Let_def split_beta
    by (rule path_join_parts [OF _ _ _ _ _ _ _ r]) (simp_all add: cstr_ok_def ascii_def ten__is_sep_def)
qed



section \<open>Errors, memory and modes\<close>

text \<open>
  C16. Beyond \<open>2 ^ 63\<close> bytes it does not end: the doubled capacity wraps to zero, so that a write
  to a buffer of power-of-two capacity that would need more never returns.
\<close>

theorem growth_wraps:
  assumes "unat (b_capacity b) = 2 ^ k" "k < 63" "2 ^ 63 < unat (b_size b + sz)" "sz \<noteq> 0"
  shows "ten_buffer_write (Some b) (Some data) sz w = None"
proof -
  have "unat (b_capacity b) < 2 ^ 63" unfolding assms(1) using assms(2) by (intro power_strict_increasing) simp_all
  with assms(1) have "unat (b_capacity b * 2) = 2 ^ Suc k" "b_capacity b \<noteq> 0" "b_capacity b < b_size b + sz"
    using assms(3) by (auto simp: unat_double size_nat)
  with double_until_wraps [of "b_capacity b * 2" "Suc k" "b_size b + sz"] assms(2-4) show ?thesis
    by (simp add: ten_buffer_write_def buffer_reserve_def word_gt_0)
qed

theorem growth_wraps_witness:
  "let b = \<lparr>b_data = Block (replicate 16 None), b_size = 1, b_capacity = 16\<rparr>
   in ten_buffer_write (Some b) (Some []) (2 ^ 63) (start_world ample) = None"
  unfolding Let_def by (rule growth_wraps [where k = 4]) simp_all

section \<open>JSON\<close>







text \<open>
  C13. Objects are maps that keep the order of first insertion: setting a key updates the
  association in place or appends it (\<open>AList.update\<close>), or is refused memory, changes no member and
  leaves the value with the caller; lookups, the count and the keys by index agree with the
  association list, and the old value of a replaced key has been destroyed.
\<close>

theorem json_object_order:
  assumes "json_rep ob (VObject kvs)" "cstr_ok k" "json_rep j v"
  shows "\<exists>rc ob' w' kvs'. ten_json_object_set (Some ob) (Some k) (Some j) w = Some (rc, Some ob', w') \<and>
    json_rep ob' (VObject kvs') \<and>
    (rc = TEN_OK \<and> kvs' = AList.update k v kvs \<and>
       live w' - json_owned ob' = live w - json_owned ob - json_owned j \<or>
     rc = TEN_ERROR_OUT_OF_MEMORY \<and> refusals w < refusals w' \<and> kvs' = kvs \<and>
       live w' - json_owned ob' = live w - json_owned ob) \<and>
    ten_json_object_count (Some ob') w' = (of_nat (length kvs'), ten__set_error TEN_OK w') \<and>
    (\<forall>i. ten_json_object_key_at (Some ob') i w' =
       (if unat i < length kvs' then Some (Some (fst (kvs' ! unat i)), ten__set_error TEN_OK w')
        else Some (None, ten__set_error TEN_ERROR_OUT_OF_RANGE w'))) \<and>
    (rc = TEN_OK \<longrightarrow> (\<exists>j'. ten_json_object_get (Some ob') (Some k) w' = Some (Some j', ten__set_error TEN_OK w') \<and>
       json_rep j' v))"
proof -
  obtain rc ob' w' kvs' where set: "ten_json_object_set (Some ob) (Some k) (Some j) w = Some (rc, Some ob', w')"
    "json_rep ob' (VObject kvs')"
    "rc = TEN_OK \<and> kvs' = AList.update k v kvs \<and>
       live w' - json_owned ob' = live w - json_owned ob - json_owned j \<or>
     rc = TEN_ERROR_OUT_OF_MEMORY \<and> refusals w < refusals w' \<and> kvs' = kvs \<and>
       live w' - json_owned ob' = live w - json_owned ob"
    using object_set_spec [OF assms, of w] by blast
  moreover have "\<exists>j'. ten_json_object_get (Some ob') (Some k) w' = Some (Some j', ten__set_error TEN_OK w') \<and>
      json_rep j' v" if "rc = TEN_OK"
    using object_get_spec [OF set(2), of k w'] set(3) that by (auto simp: update_conv')
  ultimately show ?thesis
    using object_count_spec [OF set(2)] object_key_at_spec [OF set(2)] by blast
qed

theorem json_object_order_witness:
  "\<exists>ob. json_rep ob (VObject []) \<and>
    (let k = ascii ''k''; j = Json_Bool True; w = start_world ample
     in \<exists>rc ob' w' kvs'. ten_json_object_set (Some ob) (Some k) (Some j) w = Some (rc, Some ob', w') \<and>
    json_rep ob' (VObject kvs') \<and>
    (rc = TEN_OK \<and> kvs' = AList.update k (VBool True) [] \<and>
       live w' - json_owned ob' = live w - json_owned ob - json_owned j \<or>
     rc = TEN_ERROR_OUT_OF_MEMORY \<and> refusals w < refusals w' \<and> kvs' = [] \<and>
       live w' - json_owned ob' = live w - json_owned ob) \<and>
    ten_json_object_count (Some ob') w' = (of_nat (length kvs'), ten__set_error TEN_OK w') \<and>
    (\<forall>i. ten_json_object_key_at (Some ob') i w' =
       (if unat i < length kvs' then Some (Some (fst (kvs' ! unat i)), ten__set_error TEN_OK w')
        else Some (None, ten__set_error TEN_ERROR_OUT_OF_RANGE w'))) \<and>
    (rc = TEN_OK \<longrightarrow> (\<exists>j'. ten_json_object_get (Some ob') (Some k) w' = Some (Some j', ten__set_error TEN_OK w') \<and>
       json_rep j' (VBool True))))"
proof -
  have "\<exists>ob w. ten_json_create_object (start_world ample) = Some (Some ob, w)"
    by (simp add: ten_json_create_object_def ten__json_alloc_def ten_map_create_def ten_list_create_def Let_def
        ten_malloc_def ten_calloc_def grants_malloc_def grants_calloc_def request_def ten__set_error_def
        start_world_def ample_def default_allocator_def sizeof_ten_json_def sizeof_ten_map_def
        sizeof_ten_list_def sizeof_pointer_def ptrdiff_max_def)
  then obtain ob where ob: "json_rep ob (VObject [])"
    using create_object [of "start_world ample"] by (auto simp: fresh_json_def)
  show ?thesis unfolding Let_def
    by (intro exI [of _ ob] conjI [OF ob] json_object_order [OF ob _ rep_bool]) (simp add: cstr_ok_def ascii_def)
qed

section \<open>HTTP\<close>



text \<open>
  C18. Reading up to the end of the headers returns for every connection, however its bytes are cut
  into fragments and wherever it fails, with at most 65536 + 4096 bytes in the buffer: the bytes
  received, in order. It reports success only when they hold an empty line; when it reports failure
  and no memory was refused, the headers do not end within 65536 bytes.
\<close>

theorem http_read_headers_returns:
  assumes "ten_buffer_create w = (Some raw, w1)"
  shows "\<exists>ok s' raw' w2 k. ten__http_read_until_headers_end s raw w1 = Some (ok, s', raw', w2) \<and>
    buffer_rep raw' (take k (stream (sk_incoming s))) \<and> k \<le> 65536 + 4096 \<and>
    (ok \<longrightarrow> ten__find_crlf_crlf (take k (stream (sk_incoming s))) \<noteq> None \<and>
       stream (sk_incoming s') = drop k (stream (sk_incoming s))) \<and>
    (\<not> ok \<longrightarrow> refusals w2 = refusals w \<longrightarrow> within_bounds (stream (sk_incoming s)) \<longrightarrow>
       ten__find_crlf_crlf (stream (sk_incoming s)) = None) \<and>
    live w2 - buffer_owned raw' = live w"
proof -
  have raw: "buffer_rep raw []" "refusals w1 = refusals w" "live w1 - buffer_owned raw = live w"
    using buffer_create_spec [of w] assms by auto
  let ?data = "stream (sk_incoming s)"
  obtain ok s' raw' w2 k where
    r: "ten__http_read_until_headers_end s raw w1 = Some (ok, s', raw', w2)" "buffer_rep raw' (take k ?data)"
      "k \<le> 65536 + 4096" "k \<le> length ?data" "refusals w1 \<le> refusals w2"
      "live w2 - buffer_owned raw' = live w1 - buffer_owned raw"
      "ok \<Longrightarrow> stream (sk_incoming s') = drop k ?data" "ok \<Longrightarrow> ten__find_crlf_crlf (take k ?data) \<noteq> None"
      "\<not> ok \<Longrightarrow> refusals w1 < refusals w2 \<or> ten__find_crlf_crlf (take k ?data) = None \<and>
         (65536 < k \<or> k = length ?data)"
    using read_headers_start [OF raw(1), of s w1] by metis
  then show ?thesis
    using raw no_end_within_bounds [of k ?data]
    by (intro exI [of _ ok] exI [of _ s'] exI [of _ raw'] exI [of _ w2] exI [of _ k]) auto
qed

theorem http_read_headers_returns_witness:
  "let (raw, w1) = ten_buffer_create (start_world ample);
       s = \<lparr>sk_incoming = [Some [1, 0x0D], Some [0x0A, 0x0D, 0x0A], Some [2]], sk_room = [], sk_sent = []\<rparr>
   in \<exists>ok s' raw' w2 k. ten__http_read_until_headers_end s (the raw) w1 = Some (ok, s', raw', w2) \<and>
    buffer_rep raw' (take k (stream (sk_incoming s))) \<and> k \<le> 65536 + 4096 \<and>
    (ok \<longrightarrow> ten__find_crlf_crlf (take k (stream (sk_incoming s))) \<noteq> None \<and>
       stream (sk_incoming s') = drop k (stream (sk_incoming s))) \<and>
    (\<not> ok \<longrightarrow> refusals w2 = refusals (start_world ample) \<longrightarrow> within_bounds (stream (sk_incoming s)) \<longrightarrow>
       ten__find_crlf_crlf (stream (sk_incoming s)) = None) \<and>
    live w2 - buffer_owned raw' = live (start_world ample)"
proof -
  let ?r = "ten_buffer_create (start_world ample)"
  have "?r = (Some (the (fst ?r)), snd ?r)"
    by (simp add: ten_buffer_create_def ten_malloc_def grants_malloc_def start_world_def ample_def
        default_allocator_def sizeof_ten_buffer_def ptrdiff_max_def)
  then show ?thesis unfolding Let_def split_beta by (rule http_read_headers_returns)
qed

text \<open>
  C19. The body of a message is what its content length says of the bytes read with the headers and
  those still to come, or all of them when the connection ends before; a negative or missing length
  gives an empty body. The loop returns for every connection.
\<close>

theorem http_read_body_exact:
  assumes "length pre < 2 ^ 62" "cl < 2 ^ 63"
  shows "\<exists>b s' w'. ten__http_read_body s cl pre w = Some (b, s', w') \<and>
    (case b of
       None \<Rightarrow> refusals w < refusals w' \<and> live w' = live w
     | Some b \<Rightarrow> \<exists>ys. buffer_rep b ys \<and> live w' - buffer_owned b = live w \<and>
         (refusals w' = refusals w \<longrightarrow> ys = take (nat cl) (pre @ stream (sk_incoming s))))"
  using read_body_spec [OF assms, of s w]
proof (elim disjE exE conjE)
  fix b s' w' ys
  assume "ten__http_read_body s cl pre w = Some (Some b, s', w')" "buffer_rep b ys" "live w' - buffer_owned b = live w"
    "refusals w' = refusals w \<longrightarrow> ys = take (nat cl) (pre @ stream (sk_incoming s))"
  then show ?thesis by (intro exI [of _ "Some b"] exI [of _ s'] exI [of _ w']) auto
qed auto

theorem http_read_body_exact_witness:
  "let w = start_world ample; s = \<lparr>sk_incoming = [Some [3], Some [4, 5]], sk_room = [], sk_sent = []\<rparr>
   in \<exists>b s' w'. ten__http_read_body s 4 [1, 2] w = Some (b, s', w') \<and>
    (case b of
       None \<Rightarrow> refusals w < refusals w' \<and> live w' = live w
     | Some b \<Rightarrow> \<exists>ys. buffer_rep b ys \<and> live w' - buffer_owned b = live w \<and>
         (refusals w' = refusals w \<longrightarrow> ys = take (nat 4) ([1, 2] @ stream (sk_incoming s))))"
  unfolding Let_def by (rule http_read_body_exact) simp_all

text \<open>
  C20. One connection of the server: whatever its peer sends, with numbers that can be read, handling
  it returns and leaves no block behind; when no memory was refused and the headers are within the
  bound, the peer gets the reply to its bytes: the handler's answer to the request they stand for,
  or status 400. The reply does not depend on how the bytes were cut into fragments.
\<close>

theorem http_connection_reply:
  assumes "serves f answer" "readable (stream (sk_incoming c))"
  shows "\<exists>c' w' e. ten__http_handle_connection f c w = Some (c', w') \<and> sk_sent c' = sk_sent c @ e \<and>
    live w' = live w \<and>
    (refusals w' = refusals w \<longrightarrow> sk_room c = [] \<longrightarrow> within_bounds (stream (sk_incoming c)) \<longrightarrow>
       e = reply answer (stream (sk_incoming c)))"
  using handle_connection_spec [OF assms, of w] by blast

text \<open>A handler for the witnesses: every request is answered with status 404.\<close>

definition not_found :: ten_http_handler_t where
  "not_found rq r w = Some (r\<lparr>rs_status := 404\<rparr>, w)"

definition not_found_value :: response_value where
  "not_found_value = \<lparr>resp_status = 404, resp_headers = [], resp_body = None\<rparr>"

lemma not_found_short: "length (response_message not_found_value) < 100"
  by code_simp

lemma not_found_serves: "serves not_found (\<lambda>_. not_found_value)"
  using not_found_short
  by (auto simp: serves_def not_found_def response_rep_def fresh_response_def response_owned_def not_found_value_def)

theorem http_connection_reply_witness:
  "let w = start_world ample;
       c = \<lparr>sk_incoming = [Some (ascii ''GET /x HT''), Some (ascii ''TP/1.1'' @ CRLF @ [0x0D]), Some [0x0A]],
            sk_room = [], sk_sent = []\<rparr>
   in \<exists>c' w' e. ten__http_handle_connection not_found c w = Some (c', w') \<and> sk_sent c' = sk_sent c @ e \<and>
     live w' = live w \<and>
     (refusals w' = refusals w \<longrightarrow> sk_room c = [] \<longrightarrow> within_bounds (stream (sk_incoming c)) \<longrightarrow>
        e = reply (\<lambda>_. not_found_value) (stream (sk_incoming c)))"
proof -
  have "readable (stream [Some (ascii ''GET /x HT''), Some (ascii ''TP/1.1'' @ CRLF @ [0x0D]), Some [0x0A]])"
    by code_simp
  then show ?thesis
    unfolding Let_def by (intro http_connection_reply not_found_serves) simp
qed

text \<open>
  C21. The loop of the server returns if and only if some round of it finds the server stopping.
  When it returns, it has left no block behind, and the connections it accepted before were served
  one after the other, each with the reply to its own bytes.
\<close>

theorem http_server_serves:
  assumes "serves f answer" "sv_handler sv = f" "sv_listener sv = Some l"
    and "\<forall>c \<in> set (accepted rs). readable (stream (sk_incoming c))"
  shows "(ten_http_server_run (Some sv) rs w = None \<longleftrightarrow> (\<forall>r \<in> set rs. \<not> rd_stopping r)) \<and>
    (\<forall>rc served w'. ten_http_server_run (Some sv) rs w = Some (rc, served, w') \<longrightarrow>
       rc = TEN_OK \<and> g_ten_last_error w' = TEN_OK \<and> live w' = live w \<and>
       (refusals w' = refusals w \<longrightarrow>
          (\<forall>c \<in> set (accepted rs). sk_room c = [] \<and> within_bounds (stream (sk_incoming c))) \<longrightarrow>
          map sk_sent served = map (\<lambda>c. sk_sent c @ reply answer (stream (sk_incoming c))) (accepted rs)))"
proof (cases "\<forall>r \<in> set rs. \<not> rd_stopping r")
  case True
  then show ?thesis using assms(2,3) by (simp add: ten_http_server_run_def server_loop_runs_on)
next
  case False
  with server_loop_spec [OF assms(1) _ assms(4), of l w] obtain served w' where
    "server_loop f (Some l) rs w = Some (served, w')" "live w' = live w"
    "refusals w' = refusals w \<longrightarrow>
       (\<forall>c \<in> set (accepted rs). sk_room c = [] \<and> within_bounds (stream (sk_incoming c))) \<longrightarrow>
       map sk_sent served = map (\<lambda>c. sk_sent c @ reply answer (stream (sk_incoming c))) (accepted rs)"
    by blast
  then show ?thesis using False assms(2,3) by (auto simp: ten_http_server_run_def)
qed

theorem http_server_serves_witness:
  "let w = start_world ample;
       sv = \<lparr>sv_listener = Some \<lparr>sk_incoming = [], sk_room = [], sk_sent = []\<rparr>, sv_lock = Some (), sv_handler = not_found, sv_stopping = False\<rparr>;
       c = (\<lambda>d. \<lparr>sk_incoming = [Some d], sk_room = [], sk_sent = []\<rparr>);
       rs = [\<lparr>rd_stopping = False, rd_ready = 1, rd_accepted = Some (c (ascii ''GET / HTTP/1.1'' @ CRLF @ CRLF))\<rparr>,
             \<lparr>rd_stopping = False, rd_ready = 0, rd_accepted = None\<rparr>,
             \<lparr>rd_stopping = False, rd_ready = 1, rd_accepted = Some (c (ascii ''?'' @ CRLF @ CRLF))\<rparr>,
             \<lparr>rd_stopping = True, rd_ready = 0, rd_accepted = None\<rparr>]
   in (ten_http_server_run (Some sv) rs w = None \<longleftrightarrow> (\<forall>r \<in> set rs. \<not> rd_stopping r)) \<and>
    (\<forall>rc served w'. ten_http_server_run (Some sv) rs w = Some (rc, served, w') \<longrightarrow>
       rc = TEN_OK \<and> g_ten_last_error w' = TEN_OK \<and> live w' = live w \<and>
       (refusals w' = refusals w \<longrightarrow>
          (\<forall>c \<in> set (accepted rs). sk_room c = [] \<and> within_bounds (stream (sk_incoming c))) \<longrightarrow>
          map sk_sent served = map (\<lambda>c. sk_sent c @ reply (\<lambda>_. not_found_value) (stream (sk_incoming c))) (accepted rs)))"
  unfolding Let_def
  by (rule http_server_serves [OF not_found_serves]) (simp, simp, code_simp)

text \<open>
  C22. A client: over the connection that the resolver finds, it sends the bytes of its request,
  and gives back the response that the bytes of the connection stand for, or none with an error
  set; nothing but the response stays allocated.
\<close>

theorem http_client_answer:
  assumes "request_rep r v" "length (request_message h v) < 2 ^ 63"
    and "resolve h port = Some addresses" "first_connected addresses = Some c"
    and "status_readable (stream (sk_incoming c))"
  shows "\<exists>resp so w'. ten_http_client_send resolve (Some h) port (Some r) w = Some (resp, so, w') \<and>
    (g_ten_last_error w' = TEN_OK \<longleftrightarrow> resp \<noteq> None) \<and>
    (case resp of
       None \<Rightarrow> live w' = live w
     | Some p \<Rightarrow> live w' - response_owned p = live w \<and> (\<exists>rv. response_rep p rv \<and>
         (refusals w' = refusals w \<longrightarrow> received (stream (sk_incoming c)) = Some rv))) \<and>
    (refusals w' = refusals w \<longrightarrow> sk_room c = [] \<longrightarrow>
       (\<exists>s'. so = Some s' \<and> sk_sent s' = sk_sent c @ request_message h v) \<and>
       (within_bounds (stream (sk_incoming c)) \<longrightarrow> (resp = None \<longleftrightarrow> received (stream (sk_incoming c)) = None)))"
  using client_send_spec [of r v h resolve port addresses c w, OF assms]
  by (elim exE conjE) (intro exI conjI; assumption)

definition get_x :: request_value where
  "get_x = \<lparr>req_method = TEN_HTTP_GET, req_path = ascii ''/x'', req_headers = [], req_body = None\<rparr>"

definition get_x_request :: ten_http_request where
  "get_x_request = \<lparr>rq_method = TEN_HTTP_GET, rq_path = Block (c_bytes (ascii ''/x'')), rq_headers = no_headers, rq_body = None\<rparr>"

lemma get_x_rep: "request_rep get_x_request get_x"
  by (simp add: get_x_request_def get_x_def request_rep_def headers_rep_empty cstr_ok_def ascii_def)

lemma get_x_short: "length (request_message (ascii ''h'') get_x) < 100"
  by code_simp

theorem http_client_answer_witness:
  "let w = start_world ample; h = ascii ''h'';
       c = \<lparr>sk_incoming = [Some (ascii ''HTTP/1.1 404 N'' @ CRLF @ CRLF)], sk_room = [], sk_sent = []\<rparr>
   in \<exists>resp so w'. ten_http_client_send (\<lambda>_ _. Some [None, Some c]) (Some h) 80 (Some get_x_request) w = Some (resp, so, w') \<and>
    (g_ten_last_error w' = TEN_OK \<longleftrightarrow> resp \<noteq> None) \<and>
    (case resp of
       None \<Rightarrow> live w' = live w
     | Some p \<Rightarrow> live w' - response_owned p = live w \<and> (\<exists>rv. response_rep p rv \<and>
         (refusals w' = refusals w \<longrightarrow> received (stream (sk_incoming c)) = Some rv))) \<and>
    (refusals w' = refusals w \<longrightarrow> sk_room c = [] \<longrightarrow>
       (\<exists>s'. so = Some s' \<and> sk_sent s' = sk_sent c @ request_message h get_x) \<and>
       (within_bounds (stream (sk_incoming c)) \<longrightarrow> (resp = None \<longleftrightarrow> received (stream (sk_incoming c)) = None)))"
  unfolding Let_def
  by (rule http_client_answer [OF get_x_rep _ refl]) (use get_x_short in simp, simp, code_simp)

text \<open>
  C23. A whole exchange: the client sends a request whose lines fit their buffers, its bytes reach
  the server cut into any fragments, the server handles the connection, and its answer reaches the
  client cut into any fragments. When no memory was refused, the handler has been asked the
  client's request (with the headers that sending adds) and the client holds the handler's answer.
\<close>

theorem http_exchange:
  assumes rq: "request_rep r v" "request_on_wire h v" "within_bounds (request_message h v)"
    and f: "serves f answer" and rs: "response_on_wire (answer (request_seen h v))"
      "within_bounds (response_message (answer (request_seen h v)))"
    and free: "sk_room s = []" "sk_room c = []" and frag: "\<forall>d. stream (frag d) = d"
    and short: "length (request_message h v) < 2 ^ 63"
  shows "\<exists>rc s1 w1. ten__http_send_request s r h w = Some (rc, s1, w1) \<and> live w1 = live w \<and>
    (refusals w1 = refusals w \<longrightarrow>
      (\<exists>c1 w2. ten__http_handle_connection f (c\<lparr>sk_incoming := frag (drop (length (sk_sent s)) (sk_sent s1))\<rparr>) w1 = Some (c1, w2) \<and>
        live w2 = live w \<and>
        (refusals w2 = refusals w \<longrightarrow>
          (\<exists>resp so w3. await_response (s1\<lparr>sk_incoming := frag (drop (length (sk_sent c)) (sk_sent c1))\<rparr>) w2 = Some (resp, so, w3) \<and>
            (refusals w3 = refusals w \<longrightarrow>
              (\<exists>p. resp = Some p \<and> response_rep p (response_seen (answer (request_seen h v))) \<and>
                 live w3 - response_owned p = live w - 1))))))"
proof -
  let ?a = "answer (request_seen h v)"
  obtain rc s1 w1 e where
    send: "ten__http_send_request s r h w = Some (rc, s1, w1)" "sk_sent s1 = sk_sent s @ e" "live w1 = live w"
      "refusals w1 = refusals w \<longrightarrow> e = request_message h v"
    using send_request_spec [OF rq(1) short, of s w] free(1) by blast
  have handled: "\<exists>c1 w2. ten__http_handle_connection f (c\<lparr>sk_incoming := frag (request_message h v)\<rparr>) w1 = Some (c1, w2) \<and>
      live w2 = live w1 \<and> (refusals w2 = refusals w1 \<longrightarrow> sk_sent c1 = sk_sent c @ response_message ?a)"
    using handle_connection_spec [OF f, of "c\<lparr>sk_incoming := frag (request_message h v)\<rparr>" w1] free(2) rq(3)
      reply_to_request [OF rq(2)] by (auto simp: frag)
  have answered: "\<exists>resp so w3. await_response (s1\<lparr>sk_incoming := frag (response_message ?a)\<rparr>) w2 = Some (resp, so, w3) \<and>
      (refusals w3 = refusals w2 \<longrightarrow> (\<exists>p. resp = Some p \<and> response_rep p (response_seen ?a) \<and>
         live w3 - response_owned p = live w2 - 1))" for w2
    using await_response_spec [of "s1\<lparr>sk_incoming := frag (response_message ?a)\<rparr>" w2] response_wire [OF rs(1)] rs(2)
    by (fastforce simp: frag awaited_def split: option.splits)
  have "refusals w1 = refusals w \<longrightarrow> drop (length (sk_sent s)) (sk_sent s1) = request_message h v"
    using send(2,4) by simp
  then show ?thesis
    using send(1,3) handled answered by (intro exI [of _ rc] exI [of _ s1] exI [of _ w1]) fastforce
qed

text \<open>A fragmentation for the witness: every byte arrives on its own.\<close>

lemma bytewise_stream: "stream (map (\<lambda>b. Some [b]) d) = d"
  by (induction d) simp_all

theorem http_exchange_witness:
  "let w = start_world ample; h = ascii ''h''; v = get_x; bytewise = map (\<lambda>b. Some [b]);
       s = \<lparr>sk_incoming = [], sk_room = [], sk_sent = []\<rparr>; c = s
   in \<exists>rc s1 w1. ten__http_send_request s get_x_request h w = Some (rc, s1, w1) \<and> live w1 = live w \<and>
    (refusals w1 = refusals w \<longrightarrow>
      (\<exists>c1 w2. ten__http_handle_connection not_found (c\<lparr>sk_incoming := bytewise (drop (length (sk_sent s)) (sk_sent s1))\<rparr>) w1 =
          Some (c1, w2) \<and> live w2 = live w \<and>
        (refusals w2 = refusals w \<longrightarrow>
          (\<exists>resp so w3. await_response (s1\<lparr>sk_incoming := bytewise (drop (length (sk_sent c)) (sk_sent c1))\<rparr>) w2 = Some (resp, so, w3) \<and>
            (refusals w3 = refusals w \<longrightarrow>
              (\<exists>p. resp = Some p \<and> response_rep p (response_seen not_found_value) \<and>
                 live w3 - response_owned p = live w - 1))))))"
proof -
  have "headers_on_wire (host_header (ascii ''h'') # req_headers get_x)" "headers_on_wire (resp_headers not_found_value)"
    by code_simp+
  then have wire: "request_on_wire (ascii ''h'') get_x" "response_on_wire not_found_value"
    by (simp_all add: request_on_wire_def response_on_wire_def get_x_def not_found_value_def body_or_empty_def ascii_def)
  have bounds: "within_bounds (request_message (ascii ''h'') get_x)" "within_bounds (response_message not_found_value)"
    using get_x_short not_found_short by (simp_all add: within_bounds_short)
  show ?thesis
    unfolding Let_def
    by (rule http_exchange [where frag = "map (\<lambda>b. Some [b])" and answer = "\<lambda>_. not_found_value",
          OF get_x_rep wire(1) bounds(1) not_found_serves wire(2) bounds(2)])
      (use get_x_short in \<open>simp_all add: bytewise_stream\<close>)
qed



text \<open>
  C25. The whole life of a POSIX socket at the level of descriptors, with every system that keeps the
  contract of the calls and every way to make one: a maker that fails sets an error and leaves the
  open descriptors, the address lists and the memory as they were; one that succeeds adds one
  descriptor and one block. Then any sequence of sends, receives and polls is defined, where only a
  descriptor below 1024 may be polled, and each answers -1 with an error or at most the size asked
  for without one; closing leaves everything as before.
\<close>

theorem posix_socket_life:
  assumes "socket_net so view" "\<forall>c \<in> set cs. command_size c < 2 ^ 63"
  shows "\<exists>r os1 w1. posix_make so m os w = (r, os1, w1) \<and> gained view os w (r, os1, w1) \<and>
    (\<forall>s. r = Some s \<longrightarrow> (\<forall>c \<in> set cs. can_poll s c) \<longrightarrow>
      (\<exists>rs os2 w2 os3 w3. posix_socket_run so s cs os1 w1 = Some (rs, os2, w2) \<and> list_all2 posix_answer_ok cs rs \<and>
         posix_socket_close so (Some s) os2 w2 = Some (os3, w3) \<and> view os3 = view os \<and> live w3 = live w))"
  using assms by (rule socket_net.posix_life_law)

definition two_peers :: script_env where
  "two_peers =
     \<lparr>se_resolve = (\<lambda>h p. if p = 80 then Some [None, Some \<lparr>sk_incoming = [Some [1, 2, 3]], sk_room = [Some 1], sk_sent = []\<rparr>] else None),
      se_listen = 0, se_accept = None, se_datagram = None, se_recvfrom = None, se_ready = 1\<rparr>"

theorem posix_socket_life_witness:
  "let so = script_calls two_peers; os = \<lparr>sc_sockets = [(3, no_script)], sc_lists = 0\<rparr>; w = start_world ample;
       m = P_Connect (Some (ascii ''h'')) 80; cs = [Sock_Send [7, 8], Sock_Receive 2, Sock_Poll 5, Sock_Receive_From 4]
   in (\<exists>r os1 w1. posix_make so m os w = (r, os1, w1) \<and> gained script_view os w (r, os1, w1) \<and>
    (\<forall>s. r = Some s \<longrightarrow> (\<forall>c \<in> set cs. can_poll s c) \<longrightarrow>
      (\<exists>rs os2 w2 os3 w3. posix_socket_run so s cs os1 w1 = Some (rs, os2, w2) \<and> list_all2 posix_answer_ok cs rs \<and>
         posix_socket_close so (Some s) os2 w2 = Some (os3, w3) \<and> script_view os3 = script_view os \<and> live w3 = live w))) \<and>
    fst (posix_make so m os w) = Some \<lparr>pk_fd = 4\<rparr>"
  unfolding Let_def
proof (rule conjI [OF posix_socket_life])
  show "fst (posix_make (script_calls two_peers) (P_Connect (Some (ascii ''h'')) 80)
      \<lparr>sc_sockets = [(3, no_script)], sc_lists = 0\<rparr> (start_world ample)) = Some \<lparr>pk_fd = 4\<rparr>"
    by code_simp
qed (simp_all add: script_calls_law)


text \<open>
  C27. The whole life of a Windows socket, with every system that keeps the contract of Winsock and
  every way to make one (connecting, listening, accepting, a datagram socket, bound or not): a maker
  that fails sets an error and leaves the open sockets, the address lists and the memory as they
  were; one that succeeds adds one socket and one block. Then any sequence of sends, receives and polls
  of fewer than \<open>2 ^ 31\<close> bytes each is defined, and each answers -1 with an error or at most the size
  asked for without one; closing leaves everything as before. Winsock is started at most once.
\<close>

theorem windows_socket_life:
  assumes "winsock_net ws view" "started_once view st" "\<forall>c \<in> set cs. command_size c < 2 ^ 31"
  shows "\<exists>r st1 w1. make_socket ws m st w = (r, st1, w1) \<and> made view st w r st1 w1 \<and>
    (\<forall>s. r = Some s \<longrightarrow> (\<exists>rs st2 w2 st3 w3. socket_run ws s cs st1 w1 = Some (rs, st2, w2) \<and> list_all2 socket_answer_ok cs rs \<and>
       windows_socket_close ws (Some s) st2 w2 = Some (st3, w3) \<and>
       handed view st3 = handed view st \<and> live w3 = live w \<and> started_once view st3))"
  using assms by (rule winsock_net.socket_life_law)

theorem windows_socket_life_witness:
  "let h = ascii ''h''; ws = loop_net [h]; w = start_world ample; m = Connect (Some h) 80;
       st = (False, \<lparr>lb_sockets = [(3, [])], lb_lists = 0, lb_startups = 0\<rparr>);
       cs = [Sock_Send [1, 2], Sock_Receive 1, Sock_Poll 0, Sock_Send_To h 7 [5], Sock_Receive_From 9]
   in (\<exists>r st1 w1. make_socket ws m st w = (r, st1, w1) \<and> made loop_view st w r st1 w1 \<and>
    (\<forall>s. r = Some s \<longrightarrow> (\<exists>rs st2 w2 st3 w3. socket_run ws s cs st1 w1 = Some (rs, st2, w2) \<and> list_all2 socket_answer_ok cs rs \<and>
       windows_socket_close ws (Some s) st2 w2 = Some (st3, w3) \<and>
       handed loop_view st3 = handed loop_view st \<and> live w3 = live w \<and> started_once loop_view st3))) \<and>
    fst (make_socket ws m st w) = Some \<lparr>wk_fd = 4\<rparr>"
  unfolding Let_def
proof (rule conjI [OF windows_socket_life])
  show "fst (make_socket (loop_net [ascii ''h'']) (Connect (Some (ascii ''h'')) 80)
      (False, \<lparr>lb_sockets = [(3, [])], lb_lists = 0, lb_startups = 0\<rparr>) (start_world ample)) = Some \<lparr>wk_fd = 4\<rparr>"
    by code_simp
qed (simp_all add: loop_net_law started_once_def loop_view_simps)

section \<open>The thread pool\<close>

text \<open>
  A run of a pool of two workers and one client: two tasks are submitted, the first with a signal
  that wakes the second worker; then the pool is destroyed while the first task runs.
\<close>

definition submit_two :: "(nat, nat) pool_event list" where
  "submit_two =
     [Worker_Locks 1, Worker_Waits 1, Client_Allocates 0 7 70 5, Client_Locks 0, Client_Queues 0,
      Client_Signals 0 (Some 1), Client_Allocates 0 8 80 6, Client_Locks 0, Client_Queues 0,
      Client_Signals 0 None, Worker_Locks 0, Worker_Takes 0]"

definition shut_down :: "(nat, nat) pool_event list" where
  "shut_down =
     [Destroy_Called, Destroy_Locks, Destroy_Marks, Destroy_Broadcasts]"

definition drain :: "(nat, nat) pool_event list" where
  "drain =
     [Worker_Relocks 1, Worker_Takes 1, Worker_Finishes 1, Worker_Locks 1, Worker_Exits 1, Worker_Finishes 0,
      Worker_Locks 0, Worker_Exits 0, Destroy_Joins, Destroy_Joins, Destroy_Frees]"

abbreviation two_workers :: "(nat, nat) pool_state" where
  "two_workers \<equiv> pool_start (Suc 1) 1"

definition pool_after :: "(nat, nat) pool_event list \<Rightarrow> (nat, nat) pool_state" where
  "pool_after es = the (trace pool_next es two_workers)"

lemma pool_after_reachable: "trace pool_next es two_workers \<noteq> None \<Longrightarrow> reachable pool_next two_workers (pool_after es)"
  using trace_reachable [OF reachable.start] by (auto simp: pool_after_def)

lemma runs_possible:
  "reachable pool_next two_workers (pool_after submit_two)"
  "reachable pool_next two_workers (pool_after (submit_two @ shut_down))"
  "reachable pool_next two_workers (pool_after (submit_two @ shut_down @ drain))"
  by (rule pool_after_reachable, code_simp)+

text \<open>
  C28. Tasks of a pool, in every reachable state of any number of workers and clients: the list of
  nodes from the head to the tail holds the tasks that were accepted and not yet taken, in the
  order in which they were accepted; the tasks are started in that order; each task that was
  started and has not returned is run by exactly one worker; and each node that is allocated is
  in exactly one place, the queue, a worker that runs it or a client that submits it.
\<close>

theorem pool_fifo:
  assumes "reachable pool_next (pool_start (Suc n) m) s"
  shows "\<exists>ts. queue_rep (pool s) ts \<and>
    tasks_accepted s = tasks_started s @ map (job_at (heap_tasks (pool s))) ts \<and>
    mset (tasks_started s) = mset (tasks_finished s) + image_mset (job_at (heap_tasks (pool s))) (mset (running_tasks s)) \<and>
    finite (dom (heap_tasks (pool s))) \<and>
    mset_set (dom (heap_tasks (pool s))) = mset ts + mset (running_tasks s) + mset (pending_tasks s)"
  using pool_system.reachable_inv [OF assms] by (auto simp: pool_inv_def queue_inv_def tasks_ok_def history_ok_def)

theorem pool_fifo_witness:
  "let s = pool_after submit_two in \<exists>ts. queue_rep (pool s) ts \<and>
    tasks_accepted s = tasks_started s @ map (job_at (heap_tasks (pool s))) ts \<and>
    mset (tasks_started s) = mset (tasks_finished s) + image_mset (job_at (heap_tasks (pool s))) (mset (running_tasks s)) \<and>
    finite (dom (heap_tasks (pool s))) \<and>
    mset_set (dom (heap_tasks (pool s))) = mset ts + mset (running_tasks s) + mset (pending_tasks s)"
  unfolding Let_def by (rule pool_fifo [OF runs_possible(1)])

text \<open>
  C29. Mutual exclusion: of the threads of a pool at most one is in a critical section, and it is
  the one that owns the mutex.
\<close>

theorem pool_exclusive:
  assumes "reachable pool_next (pool_start (Suc n) m) s" "in_section a s"
  shows "lock_owner s = Some a \<and> (\<forall>b. in_section b s \<longrightarrow> b = a)"
  using pool_system.reachable_inv [OF assms(1)] assms(2)
  unfolding pool_inv_def lock_ok_def by (metis option.inject)

theorem pool_exclusive_witness:
  "let s = pool_after (take 11 submit_two)
   in lock_owner s = Some (Worker 0) \<and> (\<forall>b. in_section b s \<longrightarrow> b = Worker 0)"
  unfolding Let_def
proof (rule pool_exclusive)
  show "reachable pool_next two_workers (pool_after (take 11 submit_two))" by (rule pool_after_reachable, code_simp)
  show "in_section (Worker 0) (pool_after (take 11 submit_two))" by code_simp
qed

text \<open>
  C30. When the pool has been destroyed, every task that was accepted has been started, in order,
  and has returned; every worker has left; and no task node is left on the heap.
\<close>

theorem pool_destroyed_done:
  assumes "reachable pool_next (pool_start (Suc n) m) s" "destroyer s = Destroyed"
  shows "tasks_started s = tasks_accepted s \<and> mset (tasks_finished s) = mset (tasks_accepted s) \<and>
    (\<forall>pc \<in> set (workers s). pc = Exited) \<and> heap_tasks (pool s) = Map.empty"
  using pool_system.reachable_inv [OF assms(1)] assms(2) by (rule destroyed_done)

theorem pool_destroyed_done_witness:
  "let s = pool_after (submit_two @ shut_down @ drain)
   in (tasks_started s = tasks_accepted s \<and> mset (tasks_finished s) = mset (tasks_accepted s) \<and>
       (\<forall>pc \<in> set (workers s). pc = Exited) \<and> heap_tasks (pool s) = Map.empty) \<and>
      tasks_accepted s = [(7, 70), (8, 80)] \<and> tasks_finished s = [(8, 80), (7, 70)]"
  unfolding Let_def
proof (rule conjI [OF pool_destroyed_done [OF runs_possible(3)]])
  show "destroyer (pool_after (submit_two @ shut_down @ drain)) = Destroyed" by code_simp
  show "tasks_accepted (pool_after (submit_two @ shut_down @ drain)) = [(7, 70), (8, 80)] \<and>
    tasks_finished (pool_after (submit_two @ shut_down @ drain)) = [(8, 80), (7, 70)]" by code_simp
qed

text \<open>
  C31. No deadlock and no lost wake-up: as long as a task is queued, or the pool is being
  destroyed, some thread can go on without a new call of a client and without a wait that ends by
  itself.
\<close>

theorem pool_no_deadlock:
  assumes "reachable pool_next (pool_start (Suc n) m) s" "busy s"
  shows "\<exists>e. internal e \<and> pool_next e s \<noteq> None"
  using busy_moves [OF pool_system.reachable_inv [OF assms(1)] assms(2)] by (auto simp: can_move_def pool_step_iff)

theorem pool_no_deadlock_witness:
  "\<exists>e. internal e \<and> pool_next e (pool_after (submit_two @ shut_down)) \<noteq> None"
proof (rule pool_no_deadlock [OF runs_possible(2)])
  show "busy (pool_after (submit_two @ shut_down))" by code_simp
qed

text \<open>
  C32. Shutting down ends: once the pool is marked, the workers make no more steps than four for
  each task that is still queued and three for each worker, whatever the other threads do.
\<close>

theorem pool_shutdown_bounded:
  assumes "reachable pool_next (pool_start (Suc n) m) s" "shutting_down (pool s)"
    and "trace pool_next es s = Some t"
  shows "length (filter by_worker es) \<le> 4 * (length (tasks_accepted s) - length (tasks_started s)) + 3 * length (workers s)"
  using shutdown_system.trace_bound [OF _ assms(3)] pool_system.reachable_inv [OF assms(1)] assms(2)
    shutdown_size_bound [of s]
  by fastforce

theorem pool_shutdown_bounded_witness:
  "let s = pool_after (submit_two @ shut_down)
   in length (filter by_worker drain) \<le> 4 * (length (tasks_accepted s) - length (tasks_started s)) + 3 * length (workers s)"
  unfolding Let_def
proof (rule pool_shutdown_bounded [OF runs_possible(2)])
  show "shutting_down (pool (pool_after (submit_two @ shut_down)))" by code_simp
  have "trace pool_next drain (pool_after (submit_two @ shut_down)) \<noteq> None" by code_simp
  then show "trace pool_next drain (pool_after (submit_two @ shut_down)) = Some (the (trace pool_next drain (pool_after (submit_two @ shut_down))))"
    by simp
qed

text \<open>
  C33. Creating a pool of fewer than \<open>2 ^ 61\<close> workers, whatever memory is refused and whatever the
  operating system answers: all of it is made, or nothing is left; and destroying what was made, at
  any later time and with any number of tasks left in the queue, is defined and gives every
  block back. A creation that fails sets an error, except when the mutex cannot be made and the
  condition variable can, which does happen (the witness): its success then hides the failure.
\<close>

theorem pool_life:
  assumes "unat n < 2 ^ 61"
  shows "\<exists>r w1. ten_thread_pool_create os n w = Some (r, w1) \<and>
    (case r of
       None \<Rightarrow> live w1 = live w \<and>
         (g_ten_last_error w1 = TEN_OK \<longrightarrow> os_cond_init os = 0 \<and> (os_mutex_init os False \<noteq> 0 \<or> refusals w < refusals w1))
     | Some p \<Rightarrow> n \<noteq> 0 \<and> g_ten_last_error w1 = TEN_OK \<and> refusals w1 = refusals w \<and> live w1 = live w + 4 + int (unat n) \<and>
         (\<forall>left v. \<exists>w2. ten_thread_pool_destroy os (Some p) left v = Some w2 \<and>
            live w2 = live v - 4 - int (unat n) - int left \<and> refusals w2 = refusals v))"
proof -
  obtain r w1 where r: "ten_thread_pool_create os n w = Some (r, w1)"
    "case r of
       Some p \<Rightarrow> n \<noteq> 0 \<and> pool_made n p \<and> g_ten_last_error w1 = TEN_OK \<and> refusals w1 = refusals w \<and> live w1 = live w + 4 + int (unat n)
     | None \<Rightarrow> live w1 = live w \<and>
         (g_ten_last_error w1 = TEN_OK \<longrightarrow> os_cond_init os = 0 \<and> (os_mutex_init os False \<noteq> 0 \<or> refusals w < refusals w1))"
    using create_spec [OF assms, of os w] by blast
  then show ?thesis using destroy_spec [of n _ os] by (cases r) auto
qed

theorem pool_life_witness:
  "(\<exists>r w1. ten_thread_pool_create no_mutex 4 (start_world ample) = Some (r, w1) \<and>
    (case r of
       None \<Rightarrow> live w1 = live (start_world ample) \<and>
         (g_ten_last_error w1 = TEN_OK \<longrightarrow> os_cond_init no_mutex = 0 \<and>
           (os_mutex_init no_mutex False \<noteq> 0 \<or> refusals (start_world ample) < refusals w1))
     | Some p \<Rightarrow> (4 :: size_t) \<noteq> 0 \<and> g_ten_last_error w1 = TEN_OK \<and> refusals w1 = refusals (start_world ample) \<and>
         live w1 = live (start_world ample) + 4 + int (unat (4 :: size_t)) \<and>
         (\<forall>left v. \<exists>w2. ten_thread_pool_destroy no_mutex (Some p) left v = Some w2 \<and>
            live w2 = live v - 4 - int (unat (4 :: size_t)) - int left \<and> refusals w2 = refusals v))) \<and>
   map_option (\<lambda>(p, w). (p = None, g_ten_last_error w)) (ten_thread_pool_create no_mutex 4 (start_world ample)) =
     Some (True, TEN_OK)"
  by (rule conjI [OF pool_life create_silent]) simp

section \<open>Files\<close>

text \<open>A disk with two files, \<open>a\<close> of three bytes and \<open>b\<close> of one, and no descriptor open.\<close>

definition two_files :: disk where
  "two_files =
     \<lparr>dk_view = \<lparr>fv_names = [ascii ''a'' \<mapsto> 0, ascii ''b'' \<mapsto> 1], fv_data = (\<lambda>_. [])(0 := [1, 2, 3], 1 := [9]), fv_opened = Map.empty\<rparr>,
      dk_next_inode = 2, dk_next_fd = 3, dk_calls = 0\<rparr>"

lemma two_files_ok: "disk_ok two_files"
  by (auto simp: disk_ok_def two_files_def split: if_splits)

lemma two_files_names: "fv_names (dk_view two_files) (ascii ''a'') = Some 0" "fv_names (dk_view two_files) (ascii ''b'') = Some 1"
  by (simp_all add: two_files_def ascii_def)



text \<open>
  C35. Copying a file onto another name: it always returns, no descriptor and no block is left
  behind, the last error is the result, and nothing but the destination has changed. When it
  succeeds the destination has exactly the bytes of the source; when it fails, the source is
  untouched all the same, and the destination has the first bytes of it or is as it was.
\<close>

theorem file_copy_exact:
  assumes "posix_files px view valid" "valid os" "fv_names (view os) p = Some i" "fv_names (view os) q \<noteq> Some i"
  shows "\<exists>rc os1 w1. ten_file_copy px (Some p) (Some q) os w = Some (rc, os1, w1) \<and> g_ten_last_error w1 = rc \<and>
    live w1 = live w \<and> fv_opened (view os1) = fv_opened (view os) \<and>
    (rc = TEN_OK \<and> (\<exists>j. j \<noteq> i \<and> fv_names (view os1) q = Some j \<and> fv_data (view os1) = (fv_data (view os))(j := fv_data (view os) i)) \<or>
     rc \<noteq> TEN_OK \<and> (fv_data (view os1) = fv_data (view os) \<or>
       (\<exists>j m. j \<noteq> i \<and> fv_names (view os1) q = Some j \<and> fv_data (view os1) = (fv_data (view os))(j := take m (fv_data (view os) i)))))"
proof -
  obtain rc os1 w1 where c: "ten_file_copy px (Some p) (Some q) os w = Some (rc, os1, w1)" "g_ten_last_error w1 = rc"
      "live w1 = live w" "fv_opened (view os1) = fv_opened (view os)" "copied q i (fv_data (view os) i) rc (view os) (view os1)"
    using posix_files.copy_spec [OF assms(1,2,3), of q w] by blast
  with copied_other [OF c(5) assms(4)] show ?thesis by metis
qed

theorem file_copy_exact_witness:
  "let px = disk_system (\<lambda>_. Some 1); p = ascii ''a''; q = ascii ''b''; w = start_world ample
   in \<exists>rc os1 w1. ten_file_copy px (Some p) (Some q) two_files w = Some (rc, os1, w1) \<and> g_ten_last_error w1 = rc \<and>
    live w1 = live w \<and> fv_opened (dk_view os1) = fv_opened (dk_view two_files) \<and>
    (rc = TEN_OK \<and> (\<exists>j. j \<noteq> 0 \<and> fv_names (dk_view os1) q = Some j \<and>
       fv_data (dk_view os1) = (fv_data (dk_view two_files))(j := fv_data (dk_view two_files) 0)) \<or>
     rc \<noteq> TEN_OK \<and> (fv_data (dk_view os1) = fv_data (dk_view two_files) \<or>
       (\<exists>j m. j \<noteq> 0 \<and> fv_names (dk_view os1) q = Some j \<and>
          fv_data (dk_view os1) = (fv_data (dk_view two_files))(j := take m (fv_data (dk_view two_files) 0)))))"
  unfolding Let_def by (rule file_copy_exact [OF disk_files two_files_ok two_files_names(1)]) (simp add: two_files_names)





section \<open>The log\<close>


section \<open>Threads, processes and plugins\<close>

text \<open>
  C38. The two versions of the synchronisation primitives turn the answers of the operating system
  into the same results: when the allocator does not look at the size of small requests, any
  sequence of calls, with any answers of Windows, gives the results, the last errors and the memory
  that POSIX gives under the answers that correspond, or is undefined in both; the reading of the
  clock does not matter.
\<close>

theorem sync_versions_agree:
  assumes "size_blind (g_ten_allocator w)"
  shows "windows_run cs w = posix_run (map (\<lambda>(c, a). (c, posix_answer c a, now)) cs) w"
  using assms by (rule sync_run_same)

theorem sync_versions_agree_witness:
  "let w = start_world ample; m = Some (); now = \<lparr>tv_sec = 7, tv_nsec = 999999999\<rparr>;
       cs = [(Create_Mutex True, None), (Lock m, None), (Try_Lock m, Some 0), (Create_Semaphore 3, Some 87), (Create_Cond, None),
             (Wait_Timeout m m 1, Some 1460), (Wait_Timeout m m 5, Some 6), (Destroy_Cond m, None), (Destroy_Mutex m, None)]
   in windows_run cs w = posix_run (map (\<lambda>(c, a). (c, posix_answer c a, now)) cs) w \<and>
      map_option (\<lambda>(rs, w1). (rs, live w1)) (windows_run cs w) =
        Some ([Made m, Code TEN_OK, Code TEN_ERROR_TIMEOUT, Made None, Made m, Code TEN_ERROR_TIMEOUT, Code TEN_ERROR_SYSTEM,
               Nothing, Nothing], 0)"
  unfolding Let_def
  by (rule conjI [OF sync_versions_agree]) (simp add: size_blind_def start_world_def ample_def default_allocator_def, code_simp)



text \<open>
  C40. The life of a plugin, with any dynamic loader: loading it, calling its entry points and looking
  up symbols in any order, and unloading it leaves the libraries as open as before and no block
  allocated; a load that fails sets an error and leaves none either.
\<close>

theorem plugin_life:
  assumes "dynamic_loader ld refs"
  shows "\<exists>r p1 w1. ten_plugin_load ld path p w = (r, p1, w1) \<and>
    (case r of
       None \<Rightarrow> refs p1 = refs p \<and> live w1 = live w \<and> g_ten_last_error w1 \<noteq> TEN_OK
     | Some g \<Rightarrow> \<exists>p2 w2 p3 w3. fold (plugin_step ld g) cs (p1, w1) = (p2, w2) \<and>
         ten_plugin_unload ld (Some g) p2 w2 = Some (p3, w3) \<and> refs p3 = refs p \<and> live w3 = live w)"
  using assms by (rule dynamic_loader.plugin_life_law)

theorem plugin_life_witness:
  "let ld = table_loader [ascii ''a.so'' \<mapsto> [ascii ''ten_plugin_init'' \<mapsto> 7]]; refs = (\<lambda>p. p); w = start_world ample;
       path = Some (ascii ''a.so''); p = (\<lambda>_. 0); cs = [Call_Init, Find_Symbol (ascii ''x''), Call_Shutdown]
   in \<exists>r p1 w1. ten_plugin_load ld path p w = (r, p1, w1) \<and>
    (case r of
       None \<Rightarrow> refs p1 = refs p \<and> live w1 = live w \<and> g_ten_last_error w1 \<noteq> TEN_OK
     | Some g \<Rightarrow> \<exists>p2 w2 p3 w3. fold (plugin_step ld g) cs (p1, w1) = (p2, w2) \<and>
         ten_plugin_unload ld (Some g) p2 w2 = Some (p3, w3) \<and> refs p3 = refs p \<and> live w3 = live w)"
  unfolding Let_def by (rule plugin_life [OF table_loader_law])

end
